(* ===== verification/Prelude.thy ===== *)
theory Prelude
  imports Main "HOL-Library.Word"
begin

text \<open>
  Shared vocabulary of the development.

  The types that every component uses: a byte is an 8-bit word, a \<^verbatim>\<open>QByteArray\<close> is a list of
  bytes, a \<^verbatim>\<open>QBitArray\<close> is a list of booleans and a C++ \<^verbatim>\<open>int\<close> that is written to or read
  from the wire is a 32-bit word.  A read outside the bounds of an array is undefined behaviour
  in C++; it is the value \<open>Inl OutOfBounds\<close> of the sum type \<open>fault + 'a\<close>, and \<open>bindS\<close>
  sequences such computations.  The ordered dictionary \<^verbatim>\<open>QMap\<close> is an association list with
  strictly ascending keys.

  The generic lemmas on these types that the components share are collected in
  \<open>bytes_simps\<close> (lengths and pointwise behaviour of byte operations) and \<open>qmap_simps\<close>.
\<close>

unbundle bit_operations_syntax

named_theorems bytes_simps \<open>lengths and pointwise behaviour of byte arrays\<close>
named_theorems qmap_simps \<open>lookup, keys and order of ordered dictionaries\<close>
named_theorems fault_simps \<open>sequencing of computations that may fault\<close>

section \<open>Types\<close>

type_synonym byte = "8 word"
type_synonym bytes = "byte list"
type_synonym bits = "bool list"
type_synonym int32 = "32 word"

text \<open>
  What ends a computation without a value: an access outside an array, a \<^verbatim>\<open>qFatal\<close> or failed
  assertion, a signed overflow, a retry loop that never sees an acceptable random value, a use of
  a null pointer, or an exception that nothing catches.
\<close>

datatype fault = OutOfBounds | Fatal | Overflow | Loops | NullPointer | Uncaught

text \<open>A \<^verbatim>\<open>Connections::Id\<close>.\<close>

type_synonym peer = nat

section \<open>Computations that may fault\<close>

fun bindS :: "'e + 'a \<Rightarrow> ('a \<Rightarrow> 'e + 'b) \<Rightarrow> 'e + 'b" where
  "bindS (Inl e) f = Inl e"
| "bindS (Inr x) f = f x"

lemma bindS_eq_Inr [fault_simps]: "bindS m f = Inr y \<longleftrightarrow> (\<exists>x. m = Inr x \<and> f x = Inr y)"
  by (cases m) auto

lemma bindS_eq_Inl [fault_simps]:
  "bindS m f = Inl e \<longleftrightarrow> m = Inl e \<or> (\<exists>x. m = Inr x \<and> f x = Inl e)"
  by (cases m) auto

lemma bindS_assoc: "bindS (bindS m f) g = bindS m (\<lambda>x. bindS (f x) g)"
  by (cases m) auto

lemma bindS_cong [fundef_cong]:
  "m = m' \<Longrightarrow> (\<And>x. m' = Inr x \<Longrightarrow> f x = f' x) \<Longrightarrow> bindS m f = bindS m' f'"
  by (cases m') auto

text \<open>A postcondition of a computation that may fault.\<close>

definition post :: "('a \<Rightarrow> bool) \<Rightarrow> 'e + 'a \<Rightarrow> bool" where
  "post Q m \<longleftrightarrow> (\<forall>x. m = Inr x \<longrightarrow> Q x)"

lemma postD: "post Q m \<Longrightarrow> m = Inr x \<Longrightarrow> Q x"
  by (simp add: post_def)

lemma post_bindS: "(\<And>x. m = Inr x \<Longrightarrow> post Q (f x)) \<Longrightarrow> post Q (bindS m f)"
  by (cases m) (auto simp: post_def)

lemma post_Inr: "Q x \<Longrightarrow> post Q (Inr x)"
  by (simp add: post_def)

lemma post_Inl: "post Q (Inl e)"
  by (simp add: post_def)

lemma post_if: "(b \<Longrightarrow> post Q m) \<Longrightarrow> (\<not> b \<Longrightarrow> post Q n) \<Longrightarrow> post Q (if b then m else n)"
  by simp

text \<open>The only fault a computation can have.\<close>

definition faults_only :: "'e \<Rightarrow> 'e + 'a \<Rightarrow> bool" where
  "faults_only e m \<longleftrightarrow> (\<forall>e'. m = Inl e' \<longrightarrow> e' = e)"

lemma faults_only_bindS:
  "faults_only e m \<Longrightarrow> (\<And>x. m = Inr x \<Longrightarrow> faults_only e (f x)) \<Longrightarrow> faults_only e (bindS m f)"
  by (cases m) (auto simp: faults_only_def)

lemma faults_only_Inr: "faults_only e (Inr x)"
  by (simp add: faults_only_def)

lemma faults_only_if:
  "(b \<Longrightarrow> faults_only e m) \<Longrightarrow> (\<not> b \<Longrightarrow> faults_only e n) \<Longrightarrow> faults_only e (if b then m else n)"
  by simp

text \<open>A \<^verbatim>\<open>for\<close> loop whose body may fault.\<close>

fun foldS :: "('a \<Rightarrow> 's \<Rightarrow> 'e + 's) \<Rightarrow> 'a list \<Rightarrow> 's \<Rightarrow> 'e + 's" where
  "foldS f [] s = Inr s"
| "foldS f (x # xs) s = bindS (f x s) (foldS f xs)"

lemma foldS_append [fault_simps]: "foldS f (xs @ ys) s = bindS (foldS f xs s) (foldS f ys)"
proof (induction xs arbitrary: s)
  case (Cons x xs)
  then show ?case by (cases "f x s") auto
qed simp

lemma foldS_pure:
  "(\<And>x s. x \<in> set xs \<Longrightarrow> P s \<Longrightarrow> f x s = Inr (g x s) \<and> P (g x s)) \<Longrightarrow> P s \<Longrightarrow>
     foldS f xs s = Inr (fold g xs s)"
  by (induction xs arbitrary: s) auto

lemma foldS_invariant:
  assumes "foldS f xs s = Inr s'" and "P s"
    and "\<And>x s s'. x \<in> set xs \<Longrightarrow> P s \<Longrightarrow> f x s = Inr s' \<Longrightarrow> P s'"
  shows "P s'"
  using assms
proof (induction xs arbitrary: s)
  case (Cons x xs)
  from Cons.prems(1) obtain t where t: "f x s = Inr t" and rest: "foldS f xs t = Inr s'"
    by (auto simp: fault_simps)
  from Cons.prems t have "P t" by auto
  with rest show ?case using Cons.prems(3) by (intro Cons.IH [of t]) auto
qed simp

text \<open>A loop body that cannot succeed on some element makes the whole loop fault.\<close>

lemma foldS_fault:
  assumes "x \<in> set xs" and "\<And>s. f x s = Inl e" and "\<And>y s. faults_only e (f y s)"
  shows "foldS f xs s = Inl e"
  using assms(1)
proof (induction xs arbitrary: s)
  case (Cons y ys)
  show ?case
  proof (cases "f y s")
    case (Inl e')
    with assms(3) [of y s] show ?thesis by (auto simp: faults_only_def)
  next
    case (Inr t)
    with assms(2) have "x \<noteq> y" by auto
    with Cons Inr show ?thesis by simp
  qed
qed simp

section \<open>Pointwise lists\<close>

text \<open>\<open>mapi_upd\<close>: writing \<open>f i\<close> at every index \<open>i < n\<close>, one index after the other.\<close>

lemma length_fold_update [simp, bytes_simps]:
  "length (fold (\<lambda>i d. d[i := f i]) is xs) = length xs"
  by (induction "is" arbitrary: xs) auto

lemma nth_fold_update [bytes_simps]:
  "k < length xs \<Longrightarrow> fold (\<lambda>i d. d[i := f i]) is xs ! k = (if k \<in> set is then f k else xs ! k)"
  by (induction "is" arbitrary: xs) (auto simp: nth_list_update)

lemma fold_update_upt:
  assumes "n \<le> length xs"
  shows "fold (\<lambda>i d. d[i := f i]) [0..<n] xs = map f [0..<n] @ drop n xs"
  using assms by (intro nth_equalityI) (auto simp: nth_fold_update nth_append)

section \<open>Byte arrays\<close>

text \<open>
  \<^verbatim>\<open>QByteArray::operator[]\<close> on a non-const array extends the array when the index is past
  its end; the bytes of the gap are not initialised by Qt (the code writes at most one past
  the end, where there is no gap).
\<close>

definition qba_set :: "bytes \<Rightarrow> nat \<Rightarrow> byte \<Rightarrow> bytes" where
  "qba_set data i v =
     (if i < length data then data[i := v]
      else data @ replicate (i - length data) 0 @ [v])"

lemma length_qba_set [simp, bytes_simps]: "length (qba_set data i v) = max (length data) (Suc i)"
  by (auto simp: qba_set_def)

lemma nth_qba_set_same [simp, bytes_simps]: "qba_set data i v ! i = v"
  by (auto simp: qba_set_def nth_append)

lemma nth_qba_set_other [bytes_simps]:
  "k < length data \<Longrightarrow> k \<noteq> i \<Longrightarrow> qba_set data i v ! k = data ! k"
  by (auto simp: qba_set_def nth_append)

text \<open>Reading a non-const array past its end yields the null byte.\<close>

definition qba_get :: "bytes \<Rightarrow> nat \<Rightarrow> byte" where
  "qba_get data i = (if i < length data then data ! i else 0)"

text \<open>
  \<^verbatim>\<open>QByteArray::fromRawData(constData() + pos, len)\<close>: a view of \<open>len\<close> bytes from \<open>pos\<close>.
  No bound is checked by Qt; reading the view outside the array is a fault.
\<close>

definition raw_view :: "bytes \<Rightarrow> int \<Rightarrow> int \<Rightarrow> fault + bytes" where
  "raw_view data pos len =
     (if 0 \<le> pos \<and> 0 \<le> len \<and> pos + len \<le> int (length data)
      then Inr (take (nat len) (drop (nat pos) data)) else Inl OutOfBounds)"

lemma raw_view_InrD:
  assumes "raw_view data pos len = Inr v"
  shows "0 \<le> pos" and "0 \<le> len" and "pos + len \<le> int (length data)"
    and "v = take (nat len) (drop (nat pos) data)" and "int (length v) = len"
  using assms by (auto simp: raw_view_def split: if_splits)

lemma raw_view_append:
  "raw_view (xs @ ys @ zs) (int (length xs)) (int (length ys)) = Inr ys"
  by (simp add: raw_view_def)

section \<open>Ordered dictionaries (QMap)\<close>

type_synonym ('k, 'v) qmap = "('k \<times> 'v) list"

abbreviation qmap_wf :: "('k::linorder, 'v) qmap \<Rightarrow> bool" where
  "qmap_wf m \<equiv> sorted_wrt (<) (map fst m)"

fun qmap_insert :: "'k::linorder \<Rightarrow> 'v \<Rightarrow> ('k, 'v) qmap \<Rightarrow> ('k, 'v) qmap" where
  "qmap_insert k v [] = [(k, v)]"
| "qmap_insert k v ((k', v') # m) =
     (if k < k' then (k, v) # (k', v') # m
      else if k = k' then (k, v) # m
      else (k', v') # qmap_insert k v m)"

definition qmap_dom :: "('k, 'v) qmap \<Rightarrow> 'k set" where
  "qmap_dom m = set (map fst m)"

lemma qmap_dom_simps [simp, qmap_simps]:
  "qmap_dom [] = {}"
  "qmap_dom ((k, v) # m) = insert k (qmap_dom m)"
  "qmap_dom (m @ m') = qmap_dom m \<union> qmap_dom m'"
  "qmap_dom (map (\<lambda>i. (i, f i)) xs) = set xs"
  by (auto simp: qmap_dom_def image_image)

lemma qmap_insert_dom [simp, qmap_simps]: "qmap_dom (qmap_insert k v m) = insert k (qmap_dom m)"
  by (induction k v m rule: qmap_insert.induct) auto

lemma qmap_wf_Cons: "qmap_wf ((k, v) # m) \<longleftrightarrow> (\<forall>x \<in> qmap_dom m. k < x) \<and> qmap_wf m"
  by (auto simp: qmap_dom_def)

lemma qmap_wf_notin: "qmap_wf ((k, v) # m) \<Longrightarrow> k \<notin> qmap_dom m"
  unfolding qmap_wf_Cons by blast

lemma qmap_dom_iff: "k \<in> qmap_dom m \<longleftrightarrow> (\<exists>v. (k, v) \<in> set m)"
  by (force simp: qmap_dom_def)

lemma qmap_insert_wf [simp, qmap_simps]: "qmap_wf m \<Longrightarrow> qmap_wf (qmap_insert k v m)"
proof (induction k v m rule: qmap_insert.induct)
  case (2 k v k' v' m)
  then show ?case
    unfolding qmap_insert.simps by (auto simp: qmap_wf_Cons simp del: list.map sorted_wrt.simps)
qed simp

lemma qmap_insert_map_of [qmap_simps]:
  "qmap_wf m \<Longrightarrow> map_of (qmap_insert k v m) = (map_of m)(k \<mapsto> v)"
proof (induction k v m rule: qmap_insert.induct)
  case (2 k v k' v' m)
  have *: "map_of ((k', v') # m) k = None" if "k < k'"
    using 2 that by (auto simp: map_of_eq_None_iff)
  show ?case using 2 * by (auto simp: fun_eq_iff)
qed auto

text \<open>A key above all others goes to the end: the dictionary is filled in ascending order.\<close>

lemma qmap_insert_last:
  "(\<And>x. x \<in> qmap_dom m \<Longrightarrow> x < k) \<Longrightarrow> qmap_insert k v m = m @ [(k, v)]"
  by (induction k v m rule: qmap_insert.induct) fastforce+

lemma qmap_insert_sum [qmap_simps]:
  "k \<notin> qmap_dom m \<Longrightarrow> sum_list (map snd (qmap_insert k v m)) = (v::int) + sum_list (map snd m)"
  by (induction k v m rule: qmap_insert.induct) (auto simp: ac_simps)

lemma qmap_insert_values: "set (map snd (qmap_insert k v m)) \<subseteq> insert v (set (map snd m))"
  by (induction k v m rule: qmap_insert.induct) auto

lemma qmap_insert_in: "(k, v) \<in> set (qmap_insert k v m)"
  by (induction k v m rule: qmap_insert.induct) auto

definition qmap_keys :: "('k, 'v) qmap \<Rightarrow> 'k list" where
  "qmap_keys m = map fst m"

text \<open>\<^verbatim>\<open>QHash::operator[]\<close> and \<^verbatim>\<open>QMap::operator[]\<close>: the value, or a default for a missing key.\<close>

definition qmap_value :: "('k, 'v) qmap \<Rightarrow> 'k \<Rightarrow> 'v \<Rightarrow> 'v" where
  "qmap_value m k d = (case map_of m k of None \<Rightarrow> d | Some v \<Rightarrow> v)"

section \<open>Bit arrays\<close>

text \<open>
  \<^verbatim>\<open>QBitArray\<close>'s \<^verbatim>\<open>|=\<close> and \<^verbatim>\<open>^=\<close>: the result has the length of the longer operand, missing
  bits are false.
\<close>

definition bit_at :: "bits \<Rightarrow> nat \<Rightarrow> bool" where
  "bit_at bs i \<longleftrightarrow> i < length bs \<and> bs ! i"

definition bits_zip :: "(bool \<Rightarrow> bool \<Rightarrow> bool) \<Rightarrow> bits \<Rightarrow> bits \<Rightarrow> bits" where
  "bits_zip f as bs = map (\<lambda>i. f (bit_at as i) (bit_at bs i)) [0..<max (length as) (length bs)]"

definition bits_or :: "bits \<Rightarrow> bits \<Rightarrow> bits" where
  "bits_or = bits_zip (\<or>)"

definition bits_xor :: "bits \<Rightarrow> bits \<Rightarrow> bits" where
  "bits_xor = bits_zip (\<noteq>)"

lemma bit_at_bits_or [bytes_simps]: "bit_at (bits_or as bs) i \<longleftrightarrow> bit_at as i \<or> bit_at bs i"
  by (auto simp: bits_or_def bits_zip_def bit_at_def)

lemma bit_at_bits_xor [bytes_simps]: "bit_at (bits_xor as bs) i \<longleftrightarrow> bit_at as i \<noteq> bit_at bs i"
  by (auto simp: bits_xor_def bits_zip_def bit_at_def)

lemma length_bits_or [simp, bytes_simps]: "length (bits_or as bs) = max (length as) (length bs)"
  by (simp add: bits_or_def bits_zip_def)

lemma length_bits_xor [simp, bytes_simps]: "length (bits_xor as bs) = max (length as) (length bs)"
  by (simp add: bits_xor_def bits_zip_def)

end
