(* ===== verification/Serialization.thy ===== *)
theory Serialization
  imports Prelude
begin

text \<open>
  The fixed-width encodings of \<^verbatim>\<open>src/src/Utils/Serialization.hpp\<close>: little-endian 32-bit
  integers and right-justified bit arrays, written into and read from byte arrays at an
  offset.  The shifts keep the C++ types: \<^verbatim>\<open>WriteInt\<close> shifts a signed value, \<^verbatim>\<open>WriteUInt\<close>
  an unsigned one.  The theorems are the round trips, the framing (bytes outside the written
  range are untouched) and the size bounds.
\<close>

section \<open>Definitions\<close>

subsection \<open>Integers\<close>

text \<open>The loop of \<^verbatim>\<open>ReadInt\<close>: from the highest index down to the offset.\<close>

definition ReadInt :: "bytes \<Rightarrow> nat \<Rightarrow> fault + int32" where
  "ReadInt data offset =
     (if offset + 4 \<le> length data
      then Inr (fold (\<lambda>idx number. (push_bit 8 number) OR (ucast (data ! idx) AND 0xFF))
                 (rev [offset..<offset + 4]) 0)
      else Inl OutOfBounds)"

definition WriteInt :: "int32 \<Rightarrow> bytes \<Rightarrow> nat \<Rightarrow> bytes" where
  "WriteInt number data offset =
     fst (fold (\<lambda>idx (d, n). (qba_set d idx (ucast (n AND 0xFF)), signed_drop_bit 8 n))
            [offset..<offset + 4] (data, number))"

definition WriteUInt :: "int32 \<Rightarrow> bytes \<Rightarrow> nat \<Rightarrow> bytes" where
  "WriteUInt number data offset =
     fst (fold (\<lambda>idx (d, n). (qba_set d idx (ucast (n AND 0xFF)), drop_bit 8 n))
            [offset..<offset + 4] (data, number))"

subsection \<open>Bit arrays\<close>

definition BytesRequired :: "bits \<Rightarrow> nat" where
  "BytesRequired bs =
     (if length bs = 0 then 1
      else length bs div 8 + (if length bs mod 8 \<noteq> 0 then 1 else 0))"

text \<open>The body of the loop of \<^verbatim>\<open>WriteBitArray\<close>; the state is \<open>(data, j, c)\<close>.\<close>

definition write_bit :: "bits \<Rightarrow> nat \<Rightarrow> bytes \<times> nat \<times> byte \<Rightarrow> bytes \<times> nat \<times> byte" where
  "write_bit bs idx = (\<lambda>(data, j, c).
     let (data, j, c) = (if idx \<noteq> 0 \<and> idx mod 8 = 0 then (qba_set data j c, j + 1, 0)
                         else (data, j, c))
     in (data, j, (push_bit 1 c) OR (if bs ! idx then 1 else 0)))"

definition WriteBitArray :: "bits \<Rightarrow> bytes \<Rightarrow> nat \<Rightarrow> fault + (bytes \<times> nat)" where
  "WriteBitArray bs data offset =
     (let n_bytes = BytesRequired bs in
      if offset + n_bytes > length data then Inl Fatal
      else (let (data, j, c) = fold (write_bit bs) [0..<length bs] (data, offset, 0)
            in Inr (qba_set data j c, n_bytes)))"

text \<open>
  \<^verbatim>\<open>ReadBitArray\<close>: the outer loop over the bytes, the inner one over the \<open>to_read\<close> bits of a
  byte; bit \<open>i\<close> of a byte is read with the mask \<open>1 << (to_read - i - 1)\<close>.  A write outside
  \<open>out\<close> is a fault.
\<close>

definition set_bit_at :: "nat \<Rightarrow> bool \<Rightarrow> bits \<Rightarrow> fault + bits" where
  "set_bit_at i b out = (if i < length out then Inr (out[i := b]) else Inl OutOfBounds)"

definition read_byte :: "bytes \<Rightarrow> nat \<Rightarrow> nat \<Rightarrow> nat \<Rightarrow> nat \<Rightarrow> bits \<Rightarrow> fault + bits" where
  "read_byte data offset lst n_bits byte out =
     (let to_read = (if byte + offset < lst - 1 \<or> n_bits mod 8 = 0 then 8 else n_bits mod 8)
      in foldS (\<lambda>i. set_bit_at (8 * byte + i)
                 ((push_bit (to_read - i - 1) 1 :: byte) AND data ! (byte + offset) \<noteq> 0))
           [0..<to_read] out)"

definition ReadBitArray :: "bytes \<Rightarrow> nat \<Rightarrow> nat \<Rightarrow> fault + bits" where
  "ReadBitArray data offset n_bits =
     (let out = replicate n_bits False; n_bytes = BytesRequired out in
      if offset + n_bytes > length data then Inl Fatal
      else let lst = offset + n_bytes in
        foldS (read_byte data offset lst n_bits) [0..<n_bytes] out)"

section \<open>Integers: round trip and framing\<close>

lemma upt4: "[offset..<offset + 4] = [offset, offset + 1, offset + 2, offset + 3]"
  by (simp add: upt_conv_Cons)

text \<open>The four bytes of a 32-bit integer, least significant first.\<close>

definition int_bytes :: "int32 \<Rightarrow> bytes" where
  "int_bytes n = map (\<lambda>i. ucast (drop_bit (8 * i) n)) [0..<4]"

lemma length_int_bytes [simp]: "length (int_bytes n) = 4"
  by (simp add: int_bytes_def)

lemma int_bytes_unfold:
  "int_bytes n = [ucast n, ucast (drop_bit 8 n), ucast (drop_bit 16 n), ucast (drop_bit 24 n)]"
  by (simp add: int_bytes_def upt_conv_Cons eval_nat_numeral)

lemma mask8: "(0xFF :: int32) = mask 8"
  by (simp add: mask_eq_exp_minus_1)

lemma ucast_mask8: "(ucast (n AND 0xFF) :: byte) = ucast (n :: int32)"
  unfolding mask8 by (rule bit_word_eqI) (auto simp: bit_simps)

lemma signed_shift_bytes:
  "(ucast (signed_drop_bit 8 n) :: byte) = ucast (drop_bit 8 (n :: int32))"
  "(ucast (signed_drop_bit 16 n) :: byte) = ucast (drop_bit 16 n)"
  "(ucast (signed_drop_bit 24 n) :: byte) = ucast (drop_bit 24 n)"
  by (rule bit_word_eqI, auto simp: bit_simps min_def)+

lemma WriteInt_eq_WriteUInt: "WriteInt n data off = WriteUInt n data off"
  unfolding WriteInt_def WriteUInt_def upt4
  by (simp add: ucast_mask8 signed_shift_bytes drop_bit_drop_bit)

lemma combine_int_bytes:
  "fold (\<lambda>b number. (push_bit 8 number) OR (ucast b AND 0xFF)) (rev (int_bytes n)) 0 = n"
proof (rule bit_word_eqI)
  fix k assume k: "k < LENGTH(32)"
  consider "k < 8" | "8 \<le> k" "k < 16" | "16 \<le> k" "k < 24" | "24 \<le> k" by linarith
  then show "bit (fold (\<lambda>b number. (push_bit 8 number) OR (ucast b AND 0xFF)) (rev (int_bytes n))
      (0 :: int32)) k = bit n k"
    using k unfolding mask8 by cases (auto simp: int_bytes_unfold bit_simps push_bit_or)
qed

lemma WriteUInt_conv:
  assumes "off + 4 \<le> length data"
  shows "WriteUInt n data off = take off data @ int_bytes n @ drop (off + 4) data"
proof -
  have "WriteUInt n data off =
      data[off := ucast n, off + 1 := ucast (drop_bit 8 n), off + 2 := ucast (drop_bit 16 n),
           off + 3 := ucast (drop_bit 24 n)]"
    using assms by (simp add: WriteUInt_def upt4 ucast_mask8 drop_bit_drop_bit qba_set_def)
  also have "\<dots> = take off data @ int_bytes n @ drop (off + 4) data"
    using assms by (intro nth_equalityI)
      (auto simp: int_bytes_unfold nth_append nth_list_update nth_Cons less_diff_conv
         split: nat.splits intro!: arg_cong [of _ _ "(!) data"])
  finally show ?thesis .
qed

lemmas WriteInt_conv = WriteUInt_conv [folded WriteInt_eq_WriteUInt]

lemma ReadInt_conv:
  "ReadInt data off =
     (if off + 4 \<le> length data
      then Inr (fold (\<lambda>b number. (push_bit 8 number) OR (ucast b AND 0xFF))
                  (rev (take 4 (drop off data))) 0)
      else Inl OutOfBounds)"
proof -
  have "take 4 (drop off data) = map ((!) data) [off..<off + 4]" if "off + 4 \<le> length data"
    using that by (intro nth_equalityI) auto
  then show ?thesis by (simp add: ReadInt_def rev_map fold_map comp_def)
qed

lemma ReadInt_int_bytes:
  "off = length xs \<Longrightarrow> ReadInt (xs @ int_bytes n @ ys) off = Inr n"
  by (simp add: ReadInt_conv combine_int_bytes)

section \<open>Bit arrays: round trip and framing\<close>

text \<open>The byte a group of at most eight bits is packed into, first bit most significant.\<close>

definition pack :: "bits \<Rightarrow> byte" where
  "pack = foldl (\<lambda>c b. (push_bit 1 c) OR (if b then 1 else 0)) 0"

definition chunk :: "bits \<Rightarrow> nat \<Rightarrow> bits" where
  "chunk bs g = take 8 (drop (8 * g) bs)"

lemma pack_snoc: "pack (xs @ [b]) = (push_bit 1 (pack xs)) OR (if b then 1 else 0)"
  by (simp add: pack_def)

lemma bit_pack:
  "length xs \<le> 8 \<Longrightarrow> bit (pack xs) i \<longleftrightarrow> i < length xs \<and> xs ! (length xs - 1 - i)"
proof (induction xs arbitrary: i rule: rev_induct)
  case Nil
  then show ?case by (simp add: pack_def)
next
  case (snoc b xs)
  show ?case
  proof (cases i)
    case 0
    have "bit (w * 2 OR 1) 0" and "\<not> bit (w * 2) 0" for w :: byte
      by (simp add: bit_or_iff, simp add: bit_0)
    with 0 show ?thesis by (simp add: pack_snoc)
  next
    case (Suc j)
    have "bit (pack (xs @ [b])) i \<longleftrightarrow> i < 8 \<and> bit (pack xs) j"
    proof -
      have "bit (pack xs * 2) (Suc j) \<longleftrightarrow> Suc j < 8 \<and> bit (pack xs) j"
        by (subst mult.commute) (auto simp: bit_double_iff)
      then show ?thesis by (simp add: pack_snoc bit_or_iff Suc bit_1_iff)
    qed
    also have "\<dots> \<longleftrightarrow> j < length xs \<and> xs ! (length xs - 1 - j)"
      using snoc.IH [of j] snoc.prems Suc by (simp add: conj_commute) linarith
    also have "\<dots> \<longleftrightarrow> j < length xs \<and> (xs @ [b]) ! (length xs - 1 - j)"
      by (rule conj_cong) (simp_all add: nth_append_left)
    finally show ?thesis using Suc by simp
  qed
qed

lemma take_upd_drop:
  assumes "j < length data" and "off + length ys = j"
  shows "(take off data @ ys @ drop j data)[j := c] = take off data @ (ys @ [c]) @ drop (Suc j) data"
proof -
  have "drop j data = data ! j # drop (Suc j) data"
    using assms(1) by (simp add: Cons_nth_drop_Suc)
  then show ?thesis using assms(1) unfolding assms(2) [symmetric] by (simp add: list_update_append)
qed

lemma write_bit_boundary:
  "k \<noteq> 0 \<Longrightarrow> k mod 8 = 0 \<Longrightarrow> write_bit bs k (d, j, c) = (qba_set d j c, Suc j, pack [bs ! k])"
  by (simp add: write_bit_def pack_def)

lemma write_bit_inner:
  "\<not> (k \<noteq> 0 \<and> k mod 8 = 0) \<Longrightarrow> write_bit bs k (d, j, pack xs) = (d, j, pack (xs @ [bs ! k]))"
  by (auto simp: write_bit_def pack_snoc)

lemma write_loop:
  assumes "k \<le> length bs" and "off + (k - 1) div 8 < length data"
  shows "fold (write_bit bs) [0..<k] (data, off, 0) =
    (take off data @ map (pack \<circ> chunk bs) [0..<(k - 1) div 8] @ drop (off + (k - 1) div 8) data,
     off + (k - 1) div 8, pack (drop (8 * ((k - 1) div 8)) (take k bs)))"
  using assms
proof (induction k)
  case 0
  then show ?case by (simp add: pack_def)
next
  case (Suc k)
  let ?G = "(k - 1) div 8"
  have IH: "fold (write_bit bs) [0..<k] (data, off, 0) =
      (take off data @ map (pack \<circ> chunk bs) [0..<?G] @ drop (off + ?G) data,
       off + ?G, pack (drop (8 * ?G) (take k bs)))"
    using Suc.prems div_le_mono [of "k - 1" k 8] by (intro Suc.IH) auto
  have tk: "take (Suc k) bs = take k bs @ [bs ! k]"
    using Suc.prems by (simp add: take_Suc_conv_app_nth)
  show ?case
  proof (cases "k \<noteq> 0 \<and> k mod 8 = 0")
    case True
    then obtain G where k: "k = 8 * G + 8" and G: "?G = G" and k8: "k div 8 = Suc G"
      by (cases "k div 8") (auto simp: mod_eq_0_iff_dvd elim!: dvdE)
    have "drop (8 * G) (take k bs) = chunk bs G"
      by (simp add: chunk_def k drop_take)
    moreover have "drop k (take (Suc k) bs) = [bs ! k]"
      using Suc.prems by (simp add: tk)
    then have "drop (8 * Suc G) (take (Suc k) bs) = [bs ! k]"
      using k by (simp add: ac_simps)
    ultimately show ?thesis
      using True Suc.prems IH k8 unfolding G
      by (simp add: write_bit_boundary qba_set_def take_upd_drop)
  next
    case False
    then have eq: "k div 8 = ?G"
      by (cases k) (auto simp: div_Suc)
    have "8 * ?G \<le> k" by (simp add: eq [symmetric])
    then have "drop (8 * ?G) (take (Suc k) bs) = drop (8 * ?G) (take k bs) @ [bs ! k]"
      using Suc.prems by (simp add: tk)
    then show ?thesis
      using False IH eq by (simp add: write_bit_inner del: neq0_conv)
  qed
qed

lemma BytesRequired_eq: "BytesRequired bs = (length bs - 1) div 8 + 1"
  by (cases "length bs") (auto simp: BytesRequired_def div_Suc mod_Suc)

lemma WriteBitArray_conv:
  assumes "off + BytesRequired bs \<le> length data"
  shows "WriteBitArray bs data off =
    Inr (take off data @ map (pack \<circ> chunk bs) [0..<BytesRequired bs]
           @ drop (off + BytesRequired bs) data, BytesRequired bs)"
proof -
  let ?G = "(length bs - 1) div 8"
  have lt: "off + ?G < length data" using assms by (simp add: BytesRequired_eq)
  have "drop (8 * ?G) bs = chunk bs ?G"
    by (auto simp: chunk_def)
  with write_loop [OF order_refl lt] lt show ?thesis
    by (simp add: WriteBitArray_def BytesRequired_eq qba_set_def take_upd_drop)
qed

lemma read_chunk:
  assumes "8 * g + m \<le> length bs" and "m \<le> to_read" and "to_read = length (chunk bs g)"
  shows "foldS (\<lambda>i. set_bit_at (8 * g + i)
            ((push_bit (to_read - i - 1) 1 :: byte) AND pack (chunk bs g) \<noteq> 0))
          [0..<m] (take (8 * g) bs @ replicate (length bs - 8 * g) False)
     = Inr (take (8 * g + m) bs @ replicate (length bs - 8 * g - m) False)"
  using assms
proof (induction m)
  case (Suc m)
  have len: "length (chunk bs g) \<le> 8" by (simp add: chunk_def)
  have bit: "(push_bit (to_read - m - 1) 1 AND pack (chunk bs g) \<noteq> 0) = bs ! (8 * g + m)"
    using Suc.prems len
    by (auto simp: and_exp_eq_0_iff_not_bit push_bit_of_1 and.commute bit_pack chunk_def)
  obtain r where r: "length bs - 8 * g - m = Suc r"
    using Suc.prems by (cases "length bs - 8 * g - m") auto
  then have "(take (8 * g + m) bs @ replicate (length bs - 8 * g - m) False)[8 * g + m := bs ! (8 * g + m)]
      = take (8 * g + Suc m) bs @ replicate (length bs - 8 * g - Suc m) False"
    using Suc.prems by (simp add: list_update_append take_Suc_conv_app_nth)
  with Suc bit show ?case
    by (simp add: foldS_append set_bit_at_def)
qed simp


lemma last_group:
  assumes "(n::nat) \<noteq> 0" and "g = (n - 1) div 8"
  shows "n = 8 * g + (if n mod 8 = 0 then 8 else n mod 8)"
proof -
  obtain m where n: "n = Suc m" using assms(1) by (cases n) auto
  show ?thesis
  proof (cases "m mod 8 = 7")
    case True
    have "m = 8 * (m div 8) + m mod 8" by simp
    with True have "m = 8 * (m div 8) + 7" by (simp only: True)
    with True assms(2) show ?thesis by (simp add: n mod_Suc)
  next
    case False
    with assms(2) show ?thesis by (simp add: n mod_Suc)
  qed
qed

lemma to_read_eq:
  assumes "length bs \<noteq> 0" and "g < BytesRequired bs"
  shows "(if g + off < off + BytesRequired bs - 1 \<or> length bs mod 8 = 0 then 8
          else length bs mod 8) = min 8 (length bs - 8 * g)"
    and "8 * g < length bs"
proof -
  have g: "g \<le> (length bs - 1) div 8" using assms(2) by (simp add: BytesRequired_eq)
  then show "8 * g < length bs" using assms(1) by linarith
  show "(if g + off < off + BytesRequired bs - 1 \<or> length bs mod 8 = 0 then 8
          else length bs mod 8) = min 8 (length bs - 8 * g)"
  proof (cases "g < (length bs - 1) div 8")
    case True
    then have "8 * g + 8 \<le> length bs" using assms(1) by linarith
    with True show ?thesis by (simp add: BytesRequired_eq)
  next
    case False
    with g have "g = (length bs - 1) div 8" by simp
    then have "length bs = 8 * g + (if length bs mod 8 = 0 then 8 else length bs mod 8)"
      by (intro last_group [OF assms(1)])
    with False show ?thesis by (auto simp: BytesRequired_eq split: if_splits)
  qed
qed

lemma read_byte_chunk:
  assumes "length bs \<noteq> 0" and "g < BytesRequired bs" and "data ! (g + off) = pack (chunk bs g)"
  shows "read_byte data off (off + BytesRequired bs) (length bs) g
           (take (8 * g) bs @ replicate (length bs - 8 * g) False)
       = Inr (take (8 * Suc g) bs @ replicate (length bs - 8 * Suc g) False)"
proof -
  let ?r = "min 8 (length bs - 8 * g)"
  have "read_byte data off (off + BytesRequired bs) (length bs) g
           (take (8 * g) bs @ replicate (length bs - 8 * g) False)
      = Inr (take (8 * g + ?r) bs @ replicate (length bs - 8 * g - ?r) False)"
    unfolding read_byte_def Let_def to_read_eq(1) [OF assms(1,2)] assms(3)
    using to_read_eq(2) [OF assms(1,2)] by (intro read_chunk) (auto simp: chunk_def)
  also have "\<dots> = Inr (take (8 * Suc g) bs @ replicate (length bs - 8 * Suc g) False)"
    using to_read_eq(2) [OF assms(1,2)] by (cases "8 * g + 8 < length bs") (auto simp: add.commute)
  finally show ?thesis .
qed

lemma read_loop:
  assumes "length bs \<noteq> 0" and "g \<le> BytesRequired bs"
    and "\<And>h. h < BytesRequired bs \<Longrightarrow> data ! (h + off) = pack (chunk bs h)"
  shows "foldS (read_byte data off (off + BytesRequired bs) (length bs)) [0..<g]
           (replicate (length bs) False)
      = Inr (take (8 * g) bs @ replicate (length bs - 8 * g) False)"
  using assms(2)
proof (induction g)
  case (Suc g)
  then show ?case
    using assms(3) [of g] read_byte_chunk [OF assms(1), of g data off] by (simp add: foldS_append)
qed simp

lemma BytesRequired_length: "length bs = length cs \<Longrightarrow> BytesRequired bs = BytesRequired cs"
  by (simp add: BytesRequired_def)

section \<open>Properties\<close>

text \<open>
  Reading back an integer that \<^verbatim>\<open>WriteInt\<close> wrote at an offset inside the array returns
  exactly that integer, the array keeps its length, every byte outside the four written ones is
  unchanged, and the signed and the unsigned writer store the same bytes.
\<close>

theorem WriteInt_ReadInt:
  assumes "off + 4 \<le> length data"
  shows "ReadInt (WriteInt n data off) off = Inr n
    \<and> length (WriteInt n data off) = length data
    \<and> (\<forall>k. k < off \<or> off + 4 \<le> k \<longrightarrow> WriteInt n data off ! k = data ! k)
    \<and> WriteUInt n data off = WriteInt n data off"
  using assms by (auto simp: WriteInt_conv ReadInt_int_bytes nth_append WriteInt_eq_WriteUInt [symmetric])

theorem WriteInt_ReadInt_witness:
  "ReadInt (WriteInt 0xFFFFFFFE [7, 7, 7, 7, 7, 9] 1) 1 = Inr 0xFFFFFFFE
    \<and> WriteInt 0xFFFFFFFE [7, 7, 7, 7, 7, 9] 1 ! 5 = 9"
proof -
  have "1 + 4 \<le> length [7, 7, 7, 7, 7, 9 :: byte]" by simp
  from WriteInt_ReadInt [OF this, of "0xFFFFFFFE"] show ?thesis by simp
qed

text \<open>
  Writing a non-empty bit array into an array with room for it succeeds, uses
  \<^verbatim>\<open>BytesRequired\<close> bytes, leaves all other bytes alone, and reading the same number of bits at
  the same offset returns the bits that were written.
\<close>

theorem WriteBitArray_ReadBitArray:
  assumes "bs \<noteq> []" and "off + BytesRequired bs \<le> length data"
  shows "\<exists>data'. WriteBitArray bs data off = Inr (data', BytesRequired bs)
    \<and> ReadBitArray data' off (length bs) = Inr bs
    \<and> length data' = length data
    \<and> take off data' = take off data
    \<and> drop (off + BytesRequired bs) data' = drop (off + BytesRequired bs) data"
proof -
  let ?data = "take off data @ map (pack \<circ> chunk bs) [0..<BytesRequired bs]
           @ drop (off + BytesRequired bs) data"
  have w: "WriteBitArray bs data off = Inr (?data, BytesRequired bs)"
    using assms(2) by (rule WriteBitArray_conv)
  have b: "BytesRequired (replicate (length bs) False) = BytesRequired bs"
    by (simp add: BytesRequired_def)
  have "8 * BytesRequired bs \<ge> length bs" by (simp add: BytesRequired_eq)
  with assms have "ReadBitArray ?data off (length bs) = Inr bs"
    using read_loop [of bs "BytesRequired bs" ?data off]
    by (auto simp: ReadBitArray_def b nth_append)
  with w assms show ?thesis by auto
qed

theorem WriteBitArray_ReadBitArray_witness:
  "\<exists>data'. WriteBitArray [False, True, False, False, True, False, False, True, True, False, False]
        [1, 0, 0, 2] 1 = Inr (data', 2)
      \<and> ReadBitArray data' 1 11
          = Inr [False, True, False, False, True, False, False, True, True, False, False]
      \<and> length data' = 4"
proof -
  let ?bs = "[False, True, False, False, True, False, False, True, True, False, False]"
  have "?bs \<noteq> []" and "1 + BytesRequired ?bs \<le> length [1, 0, 0, 2 :: byte]"
    by (simp_all add: BytesRequired_def)
  moreover have "BytesRequired ?bs = 2" and "length ?bs = 11" and "length [1, 0, 0, 2 :: byte] = 4"
    by (simp_all add: BytesRequired_def)
  ultimately show ?thesis
    using WriteBitArray_ReadBitArray [of ?bs 1 "[1, 0, 0, 2 :: byte]"] by metis
qed

text \<open>
  Reading a bit array of zero bits never returns a value: \<^verbatim>\<open>BytesRequired\<close> asks for one
  byte, whose eight bits are then written into an array that has no room for them.
\<close>

theorem ReadBitArray_zero_faults:
  "ReadBitArray data off 0 = (if off + 1 > length data then Inl Fatal else Inl OutOfBounds)"
proof -
  have "[0..<8] = 0 # [1..<8]" by (simp add: upt_conv_Cons)
  then show ?thesis
    by (simp add: ReadBitArray_def BytesRequired_def read_byte_def set_bit_at_def
          upt_conv_Cons [of 0 "Suc 0"] del: upt_Suc)
qed

end
