(* ===== verification/Primitives.thy ===== *)
theory Primitives
  imports Prelude
begin

text \<open>
  The cryptographic primitives that the program takes from Crypto++ through the wrappers of
  \<^verbatim>\<open>src/src/Crypto\<close> are parameters of the model, collected in the record \<open>prims\<close>: the hash
  function behind \<^verbatim>\<open>Hash\<close>, the key length of AES, the block-cipher generator \<^verbatim>\<open>X917RNG\<close>, and
  signing and verifying.  What the code relies on is the predicate \<open>prims_ok\<close>: digests have
  the digest size, and a generator fills exactly the block it is given.

  Modelled from the source are the seeding of \<^verbatim>\<open>CryptoRandom\<close> (padding and truncation of the
  seed) and the state of a generator: its key and the sizes of the blocks drawn so far.
\<close>

section \<open>Definitions\<close>

record prims =
  hash :: "bytes \<Rightarrow> bytes"
  digest_size :: nat
  aes_keylength :: nat
  x917 :: "bytes \<Rightarrow> nat list \<Rightarrow> nat \<Rightarrow> bytes"
  sign :: "bytes \<Rightarrow> bytes \<Rightarrow> bytes"
  verify :: "bytes \<Rightarrow> bytes \<Rightarrow> bytes \<Rightarrow> bool"
  signature_length :: "bytes \<Rightarrow> nat"

definition prims_ok :: "prims \<Rightarrow> bool" where
  "prims_ok P \<longleftrightarrow> (\<forall>x. length (hash P x) = digest_size P)
     \<and> (\<forall>key hist n. length (x917 P key hist n) = n)"

lemma prims_okD [bytes_simps]:
  assumes "prims_ok P"
  shows "length (hash P x) = digest_size P" and "length (x917 P key hist n) = n"
  using assms by (auto simp: prims_ok_def)

text \<open>A seeded \<^verbatim>\<open>CryptoRandom\<close>: the key of its block cipher and the blocks drawn so far.\<close>

record rng =
  rng_key :: bytes
  rng_hist :: "nat list"

definition CryptoRandom :: "prims \<Rightarrow> bytes \<Rightarrow> rng" where
  "CryptoRandom P seed =
     (let seed_length = aes_keylength P;
          seed_tmp = (if length seed < seed_length
                      then seed @ replicate (seed_length - length seed) 0
                      else if seed_length < length seed then take seed_length seed
                      else seed)
      in \<lparr>rng_key = seed_tmp, rng_hist = []\<rparr>)"

definition GenerateBlock :: "prims \<Rightarrow> rng \<Rightarrow> nat \<Rightarrow> bytes \<times> rng" where
  "GenerateBlock P r n =
     (x917 P (rng_key r) (rng_hist r) n, r\<lparr>rng_hist := rng_hist r @ [n]\<rparr>)"

definition OptimalSeedSize :: "prims \<Rightarrow> nat" where
  "OptimalSeedSize P = aes_keylength P"

section \<open>Lemmas\<close>

lemma length_GenerateBlock [bytes_simps]:
  "prims_ok P \<Longrightarrow> length (fst (GenerateBlock P r n)) = n"
  by (simp add: GenerateBlock_def prims_okD)

lemma length_rng_key [bytes_simps]: "length (rng_key (CryptoRandom P seed)) = aes_keylength P"
  by (simp add: CryptoRandom_def Let_def)

section \<open>A concrete instance\<close>

text \<open>
  A small instance of the primitives, used to exhibit concrete runs: the digest is the xor and
  the length of the input, the generator repeats a function of its key, a signature is the
  key's byte followed by the digest.
\<close>

definition demo_hash :: "bytes \<Rightarrow> bytes" where
  "demo_hash xs = [fold (XOR) xs 0, of_nat (length xs)]"

definition demo_prims :: prims where
  "demo_prims = \<lparr>hash = demo_hash, digest_size = 2, aes_keylength = 2,
     x917 = (\<lambda>key hist n. replicate n (fold (XOR) key 0 + of_nat (length hist))),
     sign = (\<lambda>k m. k @ demo_hash m), verify = (\<lambda>k m s. s = k @ demo_hash m),
     signature_length = (\<lambda>k. length k + 2)\<rparr>"

lemma demo_prims_ok: "prims_ok demo_prims"
  by (simp add: prims_ok_def demo_prims_def demo_hash_def)

end
