(* ===== verification/DCNet.thy ===== *)
theory DCNet
  imports Serialization Primitives
begin

text \<open>
  The data plane of the client/server DC-net, \<^verbatim>\<open>src/src/Anonymity/CSDCNetRound.cpp\<close> and
  \<^verbatim>\<open>BaseDCNetRound.cpp\<close>: how a member derives its pads (\<^verbatim>\<open>SetupRngs\<close>), frames its slot
  (\<^verbatim>\<open>GenerateSlotMessage\<close>, \<^verbatim>\<open>Randomize\<close>), hides it (\<^verbatim>\<open>GenerateCiphertext\<close>), how a server
  combines ciphertexts, and how everybody reads the cleartext (\<^verbatim>\<open>ProcessCleartext\<close>).  The build
  options \<^verbatim>\<open>CSBR_SIGN_SLOTS\<close>, \<^verbatim>\<open>CSBR_CLOSE_SLOT\<close>, \<^verbatim>\<open>CSBR_RECONNECTS\<close>, \<^verbatim>\<open>BAD_CS_BULK\<close> and
  \<^verbatim>\<open>CS_BLOG_DROP\<close> are off, as in \<^verbatim>\<open>dissent.pro\<close>.

  Non-determinism is an argument: \<open>ent\<close> is the supply of random seeds that the unseeded
  generator of \<^verbatim>\<open>Randomize\<close> returns one after the other, \<open>gd\<close> the application data that
  \<^verbatim>\<open>GetData\<close> returns.
\<close>

section \<open>Definitions\<close>

subsection \<open>Xor of byte arrays\<close>

text \<open>
  \<^verbatim>\<open>Xor(dst, t1, t2)\<close>; the calls alias \<open>dst\<close> with \<open>t1\<close>, which is harmless since index
  \<open>idx\<close> is read before it is written and never read again.
\<close>

definition Xor :: "bytes \<Rightarrow> bytes \<Rightarrow> bytes \<Rightarrow> bytes" where
  "Xor dst t1 t2 =
     (let count = min (length dst) (length t1); count = min count (length t2)
      in fold (\<lambda>idx d. d[idx := (t1 ! idx) XOR (t2 ! idx)]) [0..<count] dst)"

definition bit_mask :: "nat \<Rightarrow> byte" where
  "bit_mask i = push_bit i 1"

subsection \<open>State of a member\<close>

record cs_state =
  anonymous_keys :: "bytes list"
  base_seeds :: "bytes list"
  anonymous_rngs :: "rng list"
  next_messages :: "(nat, int) qmap"
  signatures :: "nat \<rightharpoonup> bytes"
  cleartext :: bytes
  anonymous_key :: bytes
  shuffle_data :: bytes
  read :: bool
  slot_open :: bool
  accuse :: bool
  next_msg :: bytes
  last_msg :: bytes
  last_ciphertext :: bytes
  msg_length :: int
  base_msg_length :: int
  my_idx :: int
  my_server :: peer
  start_accuse :: bool
  accuser :: nat
  my_accuse :: bool
  accuse_idx :: int
  blame_phase :: int

subsection \<open>Randomized slot contents\<close>

definition SlotHeaderLength :: "prims \<Rightarrow> nat" where
  "SlotHeaderLength P = 9 + OptimalSeedSize P + digest_size P"

definition NullSeed :: "prims \<Rightarrow> bytes" where
  "NullSeed P = replicate (OptimalSeedSize P) 0"

text \<open>The \<^verbatim>\<open>do \<dots> while(seed == NullSeed())\<close> loop over the supply of random seeds.\<close>

fun pick_seed :: "prims \<Rightarrow> bytes list \<Rightarrow> fault + (bytes \<times> bytes list)" where
  "pick_seed P [] = Inl Loops"
| "pick_seed P (seed # ent) = (if seed = NullSeed P then pick_seed P ent else Inr (seed, ent))"

definition Randomize :: "prims \<Rightarrow> bytes list \<Rightarrow> bytes \<Rightarrow> fault + (bytes \<times> bytes list)" where
  "Randomize P ent msg =
     bindS (pick_seed P ent) (\<lambda>(seed, ent).
       let random_text = fst (GenerateBlock P (CryptoRandom P seed) (length msg))
       in Inr (seed @ Xor random_text random_text msg, ent))"

definition Derandomize :: "prims \<Rightarrow> bytes \<Rightarrow> fault + bytes" where
  "Derandomize P randomized_text =
     bindS (raw_view randomized_text 0 (int (OptimalSeedSize P))) (\<lambda>seed.
       if seed = NullSeed P then Inr []
       else bindS (raw_view randomized_text (int (length seed))
                    (int (length randomized_text) - int (length seed))) (\<lambda>msg.
         let random_text = fst (GenerateBlock P (CryptoRandom P seed) (length msg))
         in Inr (Xor random_text random_text msg)))"

subsection \<open>Generating ciphertexts\<close>

text \<open>\<^verbatim>\<open>SetupRngs\<close>, the seeds of a client: one per server, an empty seed is skipped.\<close>

definition phase_seed :: "prims \<Rightarrow> bytes \<Rightarrow> int32 \<Rightarrow> bytes \<Rightarrow> bytes" where
  "phase_seed P nonce phase base_seed =
     hash P (base_seed @ WriteInt phase (replicate 4 0) 0 @ nonce)"

definition make_rngs :: "prims \<Rightarrow> bytes \<Rightarrow> int32 \<Rightarrow> bytes list \<Rightarrow> rng list" where
  "make_rngs P nonce phase seeds =
     map (\<lambda>base_seed. CryptoRandom P (phase_seed P nonce phase base_seed))
       (filter (\<lambda>base_seed. base_seed \<noteq> []) seeds)"

definition SetupRngs_client ::
    "prims \<Rightarrow> bytes \<Rightarrow> int32 \<Rightarrow> 'a cs_state_scheme \<Rightarrow> 'a cs_state_scheme" where
  "SetupRngs_client P nonce phase s =
     s\<lparr>anonymous_rngs := make_rngs P nonce phase (base_seeds s)\<rparr>"

definition CheckData :: "bytes \<Rightarrow> 'a cs_state_scheme \<Rightarrow> bool \<times> 'a cs_state_scheme" where
  "CheckData gd s =
     (if next_msg s \<noteq> [] then (True, s)
      else (gd \<noteq> [], s\<lparr>next_msg := gd, last_msg := []\<rparr>))"

definition GenerateSlotMessage ::
    "prims \<Rightarrow> int32 \<Rightarrow> bytes \<Rightarrow> bytes list \<Rightarrow> 'a cs_state_scheme
       \<Rightarrow> fault + (bytes \<times> 'a cs_state_scheme \<times> bytes list)" where
  "GenerateSlotMessage P phase gd ent s =
     (let (msg, s) = (if read s then (next_msg s, s\<lparr>last_msg := next_msg s, next_msg := gd\<rparr>)
                      else (last_msg s, s\<lparr>read := True\<rparr>));
          msg_p = WriteInt phase (replicate 8 0) 0;
          len = length (next_msg s) + SlotHeaderLength P;
          msg_p = (if accuse s
                   then WriteInt (of_nat (SlotHeaderLength P)) msg_p 4 @ replicate (length msg) 0
                   else WriteInt (of_nat len) msg_p 4 @ msg);
          sig = hash P msg_p;
          accusation = (if accuse s then [0xFF] else [0]);
          msg_pp = accusation @ msg_p @ sig
      in bindS (Randomize P ent msg_pp) (\<lambda>(c, ent).
           Inr (c, s\<lparr>last_ciphertext := c\<rparr>, ent)))"

text \<open>The pads: one block of every generator, xored together.\<close>

fun draw_pads :: "prims \<Rightarrow> rng list \<Rightarrow> nat \<Rightarrow> bytes list \<times> rng list" where
  "draw_pads P [] n = ([], [])"
| "draw_pads P (r # rs) n =
     (let (b, r') = GenerateBlock P r n; (bs, rs') = draw_pads P rs n in (b # bs, r' # rs'))"

definition xor_all :: "nat \<Rightarrow> bytes list \<Rightarrow> bytes" where
  "xor_all n bss = fold (\<lambda>b acc. Xor acc acc b) bss (replicate n 0)"

text \<open>The offset of the own slot: the lengths of the slots of the owners before \<open>my_idx\<close>.\<close>

fun slot_offset :: "(nat, int) qmap \<Rightarrow> int \<Rightarrow> int \<Rightarrow> int" where
  "slot_offset [] me offset = offset"
| "slot_offset ((owner, len) # m) me offset =
     (if int owner = me then offset else slot_offset m me (offset + len))"

definition qba_replace :: "bytes \<Rightarrow> nat \<Rightarrow> nat \<Rightarrow> bytes \<Rightarrow> bytes" where
  "qba_replace data pos len after = take pos data @ after @ drop (pos + len) data"

definition GenerateCiphertext ::
    "prims \<Rightarrow> int32 \<Rightarrow> bytes \<Rightarrow> bytes list \<Rightarrow> 'a cs_state_scheme
       \<Rightarrow> fault + (bytes \<times> bytes list \<times> 'a cs_state_scheme \<times> bytes list)" where
  "GenerateCiphertext P phase gd ent s =
     (let n = nat (msg_length s);
          (pads, rngs) = draw_pads P (anonymous_rngs s) n;
          xor_msg = xor_all n pads;
          s = s\<lparr>anonymous_rngs := rngs\<rparr>
      in if slot_open s then
           let offset = slot_offset (next_messages s) (my_idx s) (base_msg_length s)
           in bindS (GenerateSlotMessage P phase gd ent s) (\<lambda>(my_msg, s, ent).
                bindS (raw_view xor_msg offset (int (length my_msg))) (\<lambda>my_xor_base.
                  let my_msg = Xor my_msg my_msg my_xor_base
                  in Inr (qba_replace xor_msg (nat offset) (length my_msg) my_msg, pads, s, ent)))
         else
           let (have_data, s) = CheckData gd s
           in if have_data then
                if my_idx s < 0 then Inl OutOfBounds
                else let i = nat (my_idx s);
                         v = qba_get xor_msg (i div 8) XOR bit_mask (i mod 8)
                     in Inr (qba_set xor_msg (i div 8) v, pads,
                             s\<lparr>read := False, slot_open := True\<rparr>, ent)
              else Inr (xor_msg, pads, s, ent))"

subsection \<open>Reading the cleartext\<close>

text \<open>
  Where the own slot was corrupted: the first bit that was sent as 0 and came out as 1, as a
  byte position in the slot and a bit position in the byte.
\<close>

definition corrupted_bit :: "bytes \<Rightarrow> bytes \<Rightarrow> (nat \<times> nat) option" where
  "corrupted_bit expected actual =
     find (\<lambda>(pidx, bidx). qba_get expected pidx \<noteq> actual ! pidx
             \<and> qba_get expected pidx AND bit_mask bidx = 0
             \<and> actual ! pidx AND bit_mask bidx \<noteq> 0)
       (List.product [0..<length actual] [0..<8])"

text \<open>The loop state of \<^verbatim>\<open>ProcessCleartext\<close>.\<close>

record 'a slot_loop =
  sl_state :: "'a cs_state_scheme"
  sl_offset :: int
  sl_next :: "(nat, int) qmap"
  sl_length :: int
  sl_pushed :: "(nat \<times> bytes) list"

text \<open>The slot keeps its length for the next phase.\<close>

definition keep_slot :: "nat \<Rightarrow> int \<Rightarrow> 'a slot_loop \<Rightarrow> 'a slot_loop" where
  "keep_slot owner len l =
     l\<lparr>sl_length := sl_length l + len, sl_next := qmap_insert owner len (sl_next l)\<rparr>"

definition with_state ::
    "('a cs_state_scheme \<Rightarrow> 'a cs_state_scheme) \<Rightarrow> 'a slot_loop \<Rightarrow> 'a slot_loop" where
  "with_state f l = l\<lparr>sl_state := f (sl_state l)\<rparr>"

text \<open>What the owner of a corrupted slot records.\<close>

definition blame_own_slot ::
    "int32 \<Rightarrow> nat \<Rightarrow> int \<Rightarrow> bytes \<Rightarrow> 'a cs_state_scheme \<Rightarrow> 'a cs_state_scheme" where
  "blame_own_slot phase owner slot_start msg_ppp s =
     (if int owner = my_idx s \<and> \<not> accuse s then
        let s = s\<lparr>read := False, slot_open := True, accuse := False\<rparr>
        in case corrupted_bit (last_ciphertext s) msg_ppp of
             None \<Rightarrow> s
           | Some (pidx, bidx) \<Rightarrow>
               s\<lparr>accuse_idx := (slot_start + int pidx) * 8 + int bidx,
                 accuse := True, blame_phase := sint phase\<rparr>
      else s)"

definition note_accusation :: "nat \<Rightarrow> bytes \<Rightarrow> 'a slot_loop \<Rightarrow> 'a slot_loop" where
  "note_accusation owner msg_pp l =
     (if hd msg_pp \<noteq> 0
      then with_state (\<lambda>s.
             let s = s\<lparr>start_accuse := True, accuser := owner\<rparr>
             in if int owner = my_idx s then s\<lparr>my_accuse := True\<rparr> else s) l
      else l)"

definition process_slot ::
    "prims \<Rightarrow> int32 \<Rightarrow> nat \<times> int \<Rightarrow> 'a slot_loop \<Rightarrow> fault + 'a slot_loop" where
  "process_slot P phase = (\<lambda>(owner, len) l.
     if len = 0 then Inr l else
     bindS (raw_view (cleartext (sl_state l)) (sl_offset l) len) (\<lambda>msg_ppp.
     let slot_start = sl_offset l; l = l\<lparr>sl_offset := sl_offset l + len\<rparr> in
     bindS (Derandomize P msg_ppp) (\<lambda>msg_pp.
     if msg_pp = [] then
       Inr (keep_slot owner len
             (with_state (\<lambda>s. if my_idx s = int owner
                               then s\<lparr>read := False, slot_open := True\<rparr> else s) l))
     else
       let l = note_accusation owner msg_pp l;
           sig_length = int (digest_size P) in
       bindS (raw_view msg_pp 1 (int (length msg_pp) - 1 - sig_length)) (\<lambda>msg_p.
       bindS (raw_view msg_pp (1 + int (length msg_p)) sig_length) (\<lambda>sig.
       if hash P msg_p \<noteq> sig then
         Inr (keep_slot owner len (with_state (blame_own_slot phase owner slot_start msg_ppp) l))
       else
         bindS (ReadInt msg_p 0) (\<lambda>mphase.
         if mphase \<noteq> phase then Inr (keep_slot owner len l)
         else
           bindS (ReadInt msg_p 4) (\<lambda>nxt.
           if sint nxt < 0 then Inr (keep_slot owner len l)
           else
             let l = (if sint nxt > 0 then keep_slot owner (sint nxt) l else l);
                 msg = drop 8 msg_p
             in Inr (if msg \<noteq> [] then l\<lparr>sl_pushed := sl_pushed l @ [(owner, msg)]\<rparr> else l))))))))"

text \<open>The bits at the start of the cleartext that open slots.\<close>

definition opened_slots :: "nat \<Rightarrow> bytes \<Rightarrow> nat list" where
  "opened_slots n clear =
     filter (\<lambda>idx. qba_get clear (idx div 8) AND bit_mask (idx mod 8) \<noteq> 0) [0..<n]"

definition open_bytes :: "nat \<Rightarrow> int" where
  "open_bytes n = int (n div 8 + (if n mod 8 \<noteq> 0 then 1 else 0))"

text \<open>
  \<^verbatim>\<open>ProcessCleartext\<close> for \<open>n\<close> clients: the new state, the messages handed to the application
  and the end of the last slot.
\<close>

definition ProcessCleartext ::
    "prims \<Rightarrow> nat \<Rightarrow> int32 \<Rightarrow> 'a cs_state_scheme
       \<Rightarrow> fault + ('a cs_state_scheme \<times> (nat \<times> bytes) list \<times> int)" where
  "ProcessCleartext P n phase s =
     (let opened = opened_slots n (cleartext s);
          hdr = int (SlotHeaderLength P);
          next_msgs = fold (\<lambda>idx m. qmap_insert idx hdr m) opened [];
          next_msg_length = fold (\<lambda>idx len. len + hdr) opened (base_msg_length s)
      in bindS (foldS (process_slot P phase) (next_messages s)
                 \<lparr>sl_state = s, sl_offset = open_bytes n, sl_next = next_msgs,
                  sl_length = next_msg_length, sl_pushed = []\<rparr>) (\<lambda>l.
           Inr ((sl_state l)\<lparr>next_messages := sl_next l, msg_length := sl_length l\<rparr>,
                sl_pushed l, sl_offset l)))"

subsection \<open>Combining ciphertexts\<close>

text \<open>
  \<^verbatim>\<open>GenerateServerCiphertext\<close>: the own pads xored with the ciphertexts of the clients that
  submitted here and are on the agreed list.
\<close>

definition combine_client_ciphertexts :: "bits \<Rightarrow> (nat \<times> bytes) list \<Rightarrow> bytes \<Rightarrow> bytes" where
  "combine_client_ciphertexts handled cts ciphertext =
     fold (\<lambda>(idx, text) acc. if \<not> bit_at handled idx then acc else Xor acc acc text) cts ciphertext"

text \<open>The seeds a server uses: those it shares with the clients on the agreed list.\<close>

definition server_seeds :: "bits \<Rightarrow> bytes list \<Rightarrow> bytes list" where
  "server_seeds handled base = map ((!) base) (filter (bit_at handled) [0..<length handled])"

definition SetupRngs_server ::
    "prims \<Rightarrow> bytes \<Rightarrow> int32 \<Rightarrow> bits \<Rightarrow> 'a cs_state_scheme \<Rightarrow> 'a cs_state_scheme" where
  "SetupRngs_server P nonce phase handled s =
     s\<lparr>anonymous_rngs := make_rngs P nonce phase (server_seeds handled (base_seeds s))\<rparr>"

text \<open>
  The loop that fills the bit array \<^verbatim>\<open>open\<close> of \<open>n\<close> bits, which nothing reads: its
  \<^verbatim>\<open>next_messages[idx]\<close> is the inserting \<^verbatim>\<open>operator[]\<close>, so a missing owner gets an entry of
  length zero, and the bound \<^verbatim>\<open>next_messages.size()\<close> grows with it.
\<close>

function touch_slots :: "nat \<Rightarrow> nat \<Rightarrow> (nat, int) qmap \<Rightarrow> fault + (nat, int) qmap" where
  "touch_slots n idx nm =
     (if idx < length nm then
        if n \<le> idx then Inl OutOfBounds
        else touch_slots n (Suc idx) (if map_of nm idx = None then qmap_insert idx 0 nm else nm)
      else Inr nm)"
  by pat_completeness auto
termination by (relation "measure (\<lambda>(n, idx, nm). n - idx)") auto

definition GenerateServerCiphertext ::
    "prims \<Rightarrow> nat \<Rightarrow> int32 \<Rightarrow> bytes \<Rightarrow> bytes list \<Rightarrow> bits \<Rightarrow> (nat \<times> bytes) list \<Rightarrow> 'a cs_state_scheme
       \<Rightarrow> fault + (bytes \<times> bytes list \<times> 'a cs_state_scheme \<times> bytes list)" where
  "GenerateServerCiphertext P n phase gd ent handled cts s =
     bindS (GenerateCiphertext P phase gd ent s) (\<lambda>(ciphertext, pads, s, ent).
       let ciphertext = combine_client_ciphertexts handled cts ciphertext
       in bindS (touch_slots n 0 (next_messages s)) (\<lambda>nm.
            Inr (ciphertext, pads, s\<lparr>next_messages := nm\<rparr>, ent)))"

text \<open>\<^verbatim>\<open>SubmitValidation\<close>: the xor of the ciphertexts of all servers.\<close>

definition reveal_cleartext :: "nat \<Rightarrow> bytes list \<Rightarrow> bytes" where
  "reveal_cleartext n server_ciphertexts = xor_all n server_ciphertexts"

section \<open>The slots a server touches\<close>

declare touch_slots.simps [simp del]

text \<open>The slots that take part in an exchange: those of a positive length.\<close>

abbreviation used_slots :: "(nat, int) qmap \<Rightarrow> (nat, int) qmap" where
  "used_slots nm \<equiv> filter (\<lambda>(owner, len). len \<noteq> 0) nm"

lemma used_slots_insert_zero:
  "k \<notin> qmap_dom nm \<Longrightarrow> used_slots (qmap_insert k 0 nm) = used_slots nm"
  by (induction k "0::int" nm rule: qmap_insert.induct) auto

lemma qmap_dom_bound:
  assumes "qmap_wf nm" and "\<And>k. k \<in> qmap_dom nm \<Longrightarrow> k < n"
  shows "length nm \<le> n"
proof -
  have "distinct (map fst nm)" using assms(1) by (simp add: strict_sorted_iff)
  then have "length nm = card (qmap_dom nm)"
    using distinct_card [of "map fst nm"] by (simp add: qmap_dom_def)
  also have "\<dots> \<le> card {..<n}" using assms(2) by (intro card_mono) auto
  finally show ?thesis by simp
qed

text \<open>
  With owners below \<open>n\<close> the loop stays inside the bit array, and the entries it adds have no
  length.
\<close>

lemma touch_slots_used:
  assumes "qmap_wf nm" and "\<And>k. k \<in> qmap_dom nm \<Longrightarrow> k < n"
  shows "\<exists>nm'. touch_slots n idx nm = Inr nm' \<and> qmap_wf nm' \<and> used_slots nm' = used_slots nm
    \<and> (\<forall>k \<in> qmap_dom nm'. k < n)"
  using assms
proof (induction n idx nm rule: touch_slots.induct)
  case (1 n idx nm)
  show ?case
  proof (cases "idx < length nm")
    case False
    with 1 show ?thesis by (auto simp: touch_slots.simps [of n idx nm])
  next
    case True
    let ?nm = "if map_of nm idx = None then qmap_insert idx 0 nm else nm"
    have n: "\<not> n \<le> idx" using qmap_dom_bound [OF 1(2,3)] True by simp
    have "qmap_wf ?nm" using 1(2) by simp
    moreover have "k < n" if "k \<in> qmap_dom ?nm" for k using that 1(3) n by (auto split: if_splits)
    ultimately obtain nm' where nm': "touch_slots n (Suc idx) ?nm = Inr nm'" "qmap_wf nm'"
      "used_slots nm' = used_slots ?nm" "\<forall>k \<in> qmap_dom nm'. k < n"
      using 1(1) [OF True n] by blast
    have "used_slots ?nm = used_slots nm"
      using used_slots_insert_zero [of idx nm] by (auto simp: qmap_dom_def map_of_eq_None_iff)
    with nm' True n show ?thesis by (simp add: touch_slots.simps [of n idx nm])
  qed
qed

section \<open>Xor as a commutative group on byte positions\<close>

interpretation bx: comm_monoid_set "(XOR) :: byte \<Rightarrow> byte \<Rightarrow> byte" 0
  by unfold_locales (auto simp: ac_simps)

lemma length_Xor [simp, bytes_simps]: "length (Xor dst t1 t2) = length dst"
  by (simp add: Xor_def)

lemma nth_Xor [bytes_simps]:
  "k < length dst \<Longrightarrow> Xor dst t1 t2 ! k =
     (if k < length t1 \<and> k < length t2 then (t1 ! k) XOR (t2 ! k) else dst ! k)"
  by (simp add: Xor_def Let_def nth_fold_update)

lemma Xor_commute:
  "length a = length b \<Longrightarrow> Xor a a b = Xor b b a"
  by (rule nth_equalityI) (auto simp: nth_Xor ac_simps)

lemma Xor_cancel: "length a = length b \<Longrightarrow> Xor a a (Xor a a b) = b"
  by (rule nth_equalityI) (auto simp: nth_Xor xor.assoc [symmetric])

lemma length_xor_fold [simp, bytes_simps]:
  "length (fold (\<lambda>b acc. Xor acc acc b) bss acc) = length acc"
  by (induction bss arbitrary: acc) auto

lemma length_xor_all [simp, bytes_simps]: "length (xor_all n bss) = n"
  by (simp add: xor_all_def)

text \<open>Xor over a list of distinct indices.\<close>

lemma nth_xor_all_map:
  assumes "k < n" and "distinct is" and "\<And>i. i \<in> set is \<Longrightarrow> length (f i) = n"
  shows "xor_all n (map f is) ! k = bx.F (\<lambda>i. f i ! k) (set is)"
  using assms(2,3)
proof (induction "is" rule: rev_induct)
  case Nil
  then show ?case using assms(1) by (simp add: xor_all_def)
next
  case (snoc i "is")
  have "xor_all n (map f (is @ [i])) ! k = xor_all n (map f is) ! k XOR f i ! k"
    using assms(1) snoc.prems by (simp add: xor_all_def nth_Xor)
  with snoc show ?case by (simp add: bx.insert ac_simps)
qed

lemma length_combine [simp, bytes_simps]:
  "length (combine_client_ciphertexts handled cts c) = length c"
  unfolding combine_client_ciphertexts_def by (induction cts arbitrary: c) (auto split: prod.splits)

lemma combine_snoc:
  "combine_client_ciphertexts handled (cts @ [(i, t)]) c =
     (let d = combine_client_ciphertexts handled cts c in if bit_at handled i then Xor d d t else d)"
  by (simp add: combine_client_ciphertexts_def Let_def)

lemma nth_combine:
  assumes "k < length c" and "distinct (map fst cts)"
    and "\<And>i t. (i, t) \<in> set cts \<Longrightarrow> bit_at handled i \<Longrightarrow> t = f i \<and> length t = length c"
  shows "combine_client_ciphertexts handled cts c ! k =
    c ! k XOR bx.F (\<lambda>i. f i ! k) {i \<in> fst ` set cts. bit_at handled i}"
  using assms(2,3)
proof (induction cts rule: rev_induct)
  case Nil
  then show ?case by (simp add: combine_client_ciphertexts_def)
next
  case (snoc x cts)
  obtain i t where x: "x = (i, t)" by (cases x)
  let ?A = "{i \<in> fst ` set cts. bit_at handled i}"
  have IH: "combine_client_ciphertexts handled cts c ! k = c ! k XOR bx.F (\<lambda>i. f i ! k) ?A"
    using snoc by auto
  have set_eq: "{j \<in> fst ` set (cts @ [x]). bit_at handled j} = (if bit_at handled i then insert i ?A else ?A)"
    by (auto simp: x)
  have "i \<notin> ?A" and "finite ?A" using snoc.prems(1) by (auto simp: x)
  with IH snoc.prems(2) [of i t] assms(1) show ?case
    unfolding set_eq by (auto simp: combine_snoc x nth_Xor bx.insert ac_simps Let_def)
qed

text \<open>
  The cancellation behind the DC-net, at one byte position: every pad \<open>m i j\<close> of a listed
  client \<open>i\<close> with a server \<open>j\<close> occurs twice.
\<close>

lemma pads_cancel:
  fixes m :: "'i \<Rightarrow> 'j \<Rightarrow> byte"
  assumes "finite H" and "finite S" and "\<And>j. j \<in> S \<Longrightarrow> D j \<subseteq> H"
    and "\<And>i. i \<in> H \<Longrightarrow> \<exists>!j. j \<in> S \<and> i \<in> D j"
  shows "bx.F (\<lambda>j. bx.F (\<lambda>i. m i j) H XOR bx.F (\<lambda>i. p i XOR bx.F (m i) S) (D j)) S = bx.F p H"
proof -
  have part: "bx.F (\<lambda>j. bx.F g (D j)) S = bx.F g H" for g :: "'i \<Rightarrow> byte"
  proof -
    have fin: "\<forall>j\<in>S. finite (D j)" using assms(1,3) finite_subset by blast
    have disj: "\<forall>j\<in>S. \<forall>j'\<in>S. j \<noteq> j' \<longrightarrow> D j \<inter> D j' = {}"
    proof (intro ballI impI)
      fix j j' assume "j \<in> S" "j' \<in> S" "j \<noteq> j'"
      then show "D j \<inter> D j' = {}"
        using assms(3) [of j] assms(4) by (metis disjoint_iff subsetD)
    qed
    have "\<Union> (D ` S) = H"
    proof (rule antisym)
      show "\<Union> (D ` S) \<subseteq> H" using assms(3) by blast
      show "H \<subseteq> \<Union> (D ` S)" using assms(4) by (meson UN_I subsetI)
    qed
    with bx.UNION_disjoint [OF assms(2) fin disj, of g] show ?thesis by simp
  qed
  have "bx.F (\<lambda>j. bx.F (\<lambda>i. m i j) H XOR bx.F (\<lambda>i. p i XOR bx.F (m i) S) (D j)) S
      = bx.F (\<lambda>j. bx.F (\<lambda>i. m i j) H) S XOR bx.F (\<lambda>i. p i XOR bx.F (m i) S) H"
    by (simp add: bx.distrib part)
  also have "\<dots> = bx.F (\<lambda>i. bx.F (m i) S) H XOR (bx.F p H XOR bx.F (\<lambda>i. bx.F (m i) S) H)"
    by (subst bx.swap) (simp add: bx.distrib)
  also have "\<dots> = bx.F p H" by (simp add: ac_simps)
  finally show ?thesis .
qed

end
