(* ===== verification/DCNet_Correct.thy ===== *)
theory DCNet_Correct
  imports DCNet
begin

text \<open>
  Correctness of the DC-net data plane of \<open>DCNet\<close>.  A ciphertext is the member's plaintext
  contribution xored with its pads; the pads cancel over clients and servers; the slot framing
  round-trips; an honest exchange delivers exactly the messages of the participating slot
  owners; all members derive the same schedule for the next phase.
\<close>

section \<open>Pads\<close>

definition pad :: "prims \<Rightarrow> bytes \<Rightarrow> int32 \<Rightarrow> nat \<Rightarrow> bytes \<Rightarrow> bytes" where
  "pad P nonce phase n seed = fst (GenerateBlock P (CryptoRandom P (phase_seed P nonce phase seed)) n)"

lemma length_pad [bytes_simps]: "prims_ok P \<Longrightarrow> length (pad P nonce phase n seed) = n"
  by (simp add: pad_def length_GenerateBlock)

lemma fst_draw_pads: "fst (draw_pads P rs n) = map (\<lambda>r. fst (GenerateBlock P r n)) rs"
  by (induction rs) (auto split: prod.splits)

lemma pads_make_rngs:
  "[] \<notin> set seeds \<Longrightarrow>
     fst (draw_pads P (make_rngs P nonce phase seeds) n) = map (pad P nonce phase n) seeds"
  by (induction seeds) (auto simp: fst_draw_pads make_rngs_def pad_def)

section \<open>A ciphertext is a contribution under pads\<close>

text \<open>The plaintext contribution of a member: its slot at its offset, or its open bit, or nothing.\<close>

definition slot_plain :: "nat \<Rightarrow> nat \<Rightarrow> bytes \<Rightarrow> bytes" where
  "slot_plain n off m = replicate off 0 @ m @ replicate (n - off - length m) 0"

definition contribution ::
    "prims \<Rightarrow> int32 \<Rightarrow> bytes \<Rightarrow> bytes list \<Rightarrow> 'a cs_state_scheme \<Rightarrow> bytes" where
  "contribution P phase gd ent s =
     (let n = nat (msg_length s) in
      if slot_open s then
        (case GenerateSlotMessage P phase gd ent s of Inl _ \<Rightarrow> []
         | Inr (m, _, _) \<Rightarrow>
             slot_plain n (nat (slot_offset (next_messages s) (my_idx s) (base_msg_length s))) m)
      else if fst (CheckData gd s) then
        (replicate n 0)[nat (my_idx s) div 8 := bit_mask (nat (my_idx s) mod 8)]
      else replicate n 0)"

lemma nth_slot_plain [bytes_simps]:
  "k < n \<Longrightarrow> off + length m \<le> n \<Longrightarrow>
     slot_plain n off m ! k = (if off \<le> k \<and> k < off + length m then m ! (k - off) else 0)"
  by (auto simp: slot_plain_def nth_append)

lemma length_slot_plain [bytes_simps]: "off + length m \<le> n \<Longrightarrow> length (slot_plain n off m) = n"
  by (simp add: slot_plain_def)

lemma GenerateSlotMessage_rngs:
  "GenerateSlotMessage P phase gd ent (s\<lparr>anonymous_rngs := r\<rparr>) =
     bindS (GenerateSlotMessage P phase gd ent s) (\<lambda>(m, s, ent). Inr (m, s\<lparr>anonymous_rngs := r\<rparr>, ent))"
  by (cases "read s"; cases "accuse s"; cases s)
    (simp_all add: GenerateSlotMessage_def Let_def case_prod_unfold bindS_assoc)

lemma qba_replace_nth:
  "off + length m \<le> length x \<Longrightarrow> k < length x \<Longrightarrow>
     qba_replace x off (length m) m ! k = (if off \<le> k \<and> k < off + length m then m ! (k - off) else x ! k)"
  by (auto simp: qba_replace_def nth_append)

text \<open>The three branches of \<^verbatim>\<open>GenerateCiphertext\<close>.\<close>

abbreviation pads_of :: "prims \<Rightarrow> 'a cs_state_scheme \<Rightarrow> bytes list" where
  "pads_of P s \<equiv> fst (draw_pads P (anonymous_rngs s) (nat (msg_length s)))"

abbreviation mask_of :: "prims \<Rightarrow> 'a cs_state_scheme \<Rightarrow> bytes" where
  "mask_of P s \<equiv> xor_all (nat (msg_length s)) (pads_of P s)"

abbreviation my_offset :: "'a cs_state_scheme \<Rightarrow> int" where
  "my_offset s \<equiv> slot_offset (next_messages s) (my_idx s) (base_msg_length s)"

lemma CheckData_rngs:
  "CheckData gd (s\<lparr>anonymous_rngs := r\<rparr>) =
     (fst (CheckData gd s), (snd (CheckData gd s))\<lparr>anonymous_rngs := r\<rparr>)"
  by (cases s) (simp add: CheckData_def)

lemma my_idx_CheckData [simp]: "my_idx (snd (CheckData gd s)) = my_idx s"
  by (simp add: CheckData_def)

lemma GenerateCiphertext_open:
  assumes "slot_open s"
  shows "GenerateCiphertext P phase gd ent s =
    bindS (GenerateSlotMessage P phase gd ent s) (\<lambda>(m, s1, ent').
      bindS (raw_view (mask_of P s) (my_offset s) (int (length m))) (\<lambda>base.
        Inr (qba_replace (mask_of P s) (nat (my_offset s)) (length m) (Xor m m base), pads_of P s,
             s1\<lparr>anonymous_rngs := snd (draw_pads P (anonymous_rngs s) (nat (msg_length s)))\<rparr>, ent')))"
  using assms
  by (simp add: GenerateCiphertext_def Let_def case_prod_unfold GenerateSlotMessage_rngs bindS_assoc)

lemma GenerateCiphertext_openE:
  assumes "slot_open s" and "GenerateCiphertext P phase gd ent s = Inr (ct, pads, s', ent')"
  obtains m s1 base where "GenerateSlotMessage P phase gd ent s = Inr (m, s1, ent')"
    and "raw_view (mask_of P s) (my_offset s) (int (length m)) = Inr base"
    and "ct = qba_replace (mask_of P s) (nat (my_offset s)) (length m) (Xor m m base)"
    and "pads = pads_of P s"
  using assms(2) unfolding GenerateCiphertext_open [OF assms(1)]
  by (auto simp: bindS_eq_Inr)

lemma GenerateCiphertext_closed:
  assumes "\<not> slot_open s" and "0 \<le> my_idx s"
  shows "GenerateCiphertext P phase gd ent s =
    Inr (if fst (CheckData gd s)
         then qba_set (mask_of P s) (nat (my_idx s) div 8)
                (qba_get (mask_of P s) (nat (my_idx s) div 8) XOR bit_mask (nat (my_idx s) mod 8))
         else mask_of P s,
      pads_of P s,
      (let s1 = (snd (CheckData gd s))
                  \<lparr>anonymous_rngs := snd (draw_pads P (anonymous_rngs s) (nat (msg_length s)))\<rparr>
       in if fst (CheckData gd s) then s1\<lparr>read := False, slot_open := True\<rparr> else s1),
      ent)"
  using assms
  by (simp add: GenerateCiphertext_def Let_def case_prod_unfold CheckData_rngs)

lemma GenerateCiphertext_contribution:
  assumes "GenerateCiphertext P phase gd ent s = Inr (ct, pads, s', ent')"
    and "0 \<le> my_idx s" and "my_idx s div 8 < msg_length s"
  shows "length ct = nat (msg_length s)"
    and "pads = pads_of P s"
    and "length (contribution P phase gd ent s) = nat (msg_length s)"
    and "\<And>k. k < nat (msg_length s) \<Longrightarrow>
           ct ! k = contribution P phase gd ent s ! k XOR mask_of P s ! k"
proof -
  let ?n = "nat (msg_length s)" and ?x = "mask_of P s"
  have "length ct = ?n \<and> pads = pads_of P s \<and> length (contribution P phase gd ent s) = ?n
    \<and> (\<forall>k < ?n. ct ! k = contribution P phase gd ent s ! k XOR ?x ! k)"
  proof (cases "slot_open s")
    case True
    let ?off = "my_offset s"
    from True assms(1) obtain m s1 base where g: "GenerateSlotMessage P phase gd ent s = Inr (m, s1, ent')"
      and v: "raw_view ?x ?off (int (length m)) = Inr base"
      and ct': "ct = qba_replace ?x (nat ?off) (length m) (Xor m m base)"
      and pads: "pads = pads_of P s"
      by (rule GenerateCiphertext_openE)
    have b: "0 \<le> ?off" "nat ?off + length m \<le> ?n"
      using raw_view_InrD(1-3) [OF v] unfolding length_xor_all by linarith+
    have ct: "ct = qba_replace ?x (nat ?off) (length m) (Xor m m (take (length m) (drop (nat ?off) ?x)))"
      using raw_view_InrD(4) [OF v] ct' by simp
    have "ct ! k = contribution P phase gd ent s ! k XOR ?x ! k" if k: "k < ?n" for k
    proof -
      let ?m = "Xor m m (take (length m) (drop (nat ?off) ?x))"
      have "ct ! k = (if nat ?off \<le> k \<and> k < nat ?off + length ?m then ?m ! (k - nat ?off) else ?x ! k)"
        using qba_replace_nth [of "nat ?off" ?m ?x k] b k by (simp add: ct)
      with b k True show ?thesis
        by (auto simp: contribution_def g Let_def nth_slot_plain nth_Xor)
    qed
    moreover have "length ct = ?n" using b by (simp add: ct qba_replace_def)
    ultimately show ?thesis using pads b True
      by (simp add: contribution_def g Let_def length_slot_plain)
  next
    case False
    have i: "nat (my_idx s) div 8 < ?n"
      using assms(2,3) by (simp add: zless_nat_eq_int_zless zdiv_int)
    show ?thesis
      using assms(1) False i unfolding GenerateCiphertext_closed [OF False assms(2)]
      by (auto simp: contribution_def Let_def qba_set_def qba_get_def nth_list_update ac_simps)
  qed
  then show "length ct = ?n" and "pads = pads_of P s"
    and "length (contribution P phase gd ent s) = ?n"
    and "\<And>k. k < ?n \<Longrightarrow> ct ! k = contribution P phase gd ent s ! k XOR ?x ! k"
    by auto
qed

section \<open>An exchange\<close>

text \<open>
  One exchange of \<open>x_clients\<close> clients and \<open>x_servers\<close> servers: the secrets that client \<open>i\<close>
  and server \<open>j\<close> share, the states before the exchange, the list of clients the servers agreed
  on, and the client ciphertexts each server received.
\<close>

record exchange =
  x_nonce :: bytes
  x_phase :: int32
  x_clients :: nat
  x_servers :: nat
  x_len :: nat
  x_secret :: "nat \<Rightarrow> nat \<Rightarrow> bytes"
  x_handled :: bits
  x_client :: "nat \<Rightarrow> cs_state"
  x_data :: "nat \<Rightarrow> bytes"
  x_entropy :: "nat \<Rightarrow> bytes list"
  x_server :: "nat \<Rightarrow> cs_state"
  x_received :: "nat \<Rightarrow> (nat \<times> bytes) list"

definition x_client_ct :: "prims \<Rightarrow> exchange \<Rightarrow> nat \<Rightarrow> fault + (bytes \<times> bytes list \<times> cs_state \<times> bytes list)" where
  "x_client_ct P X i =
     GenerateCiphertext P (x_phase X) (x_data X i) (x_entropy X i)
       (SetupRngs_client P (x_nonce X) (x_phase X) (x_client X i))"

definition x_server_ct :: "prims \<Rightarrow> exchange \<Rightarrow> nat \<Rightarrow> fault + (bytes \<times> bytes list \<times> cs_state \<times> bytes list)" where
  "x_server_ct P X j =
     GenerateServerCiphertext P (x_clients X) (x_phase X) [] [] (x_handled X) (x_received X j)
       (SetupRngs_server P (x_nonce X) (x_phase X) (x_handled X) (x_server X j))"

definition x_plain :: "prims \<Rightarrow> exchange \<Rightarrow> nat \<Rightarrow> bytes" where
  "x_plain P X i = contribution P (x_phase X) (x_data X i) (x_entropy X i)
     (SetupRngs_client P (x_nonce X) (x_phase X) (x_client X i))"

text \<open>
  The members follow the protocol: client and server hold the same non-empty secrets, work on
  the same message length, the servers have no slot of their own, every listed client's
  ciphertext is the one it generated and arrived at exactly one server.
\<close>

definition client_honest :: "prims \<Rightarrow> exchange \<Rightarrow> nat \<Rightarrow> bool" where
  "client_honest P X i \<longleftrightarrow>
     list_all (\<lambda>j. x_secret X i j \<noteq> []) [0..<x_servers X]
     \<and> base_seeds (x_client X i) = map (x_secret X i) [0..<x_servers X]
     \<and> msg_length (x_client X i) = int (x_len X)
     \<and> 0 \<le> my_idx (x_client X i) \<and> my_idx (x_client X i) div 8 < int (x_len X)"

definition server_honest :: "prims \<Rightarrow> exchange \<Rightarrow> nat \<Rightarrow> bool" where
  "server_honest P X j \<longleftrightarrow>
     base_seeds (x_server X j) = map (\<lambda>i. x_secret X i j) [0..<x_clients X]
     \<and> msg_length (x_server X j) = int (x_len X)
     \<and> qmap_wf (next_messages (x_server X j))
     \<and> list_all (\<lambda>(owner, len). owner < x_clients X) (next_messages (x_server X j))
     \<and> \<not> slot_open (x_server X j) \<and> next_msg (x_server X j) = [] \<and> 0 \<le> my_idx (x_server X j)
     \<and> distinct (map fst (x_received X j))
     \<and> list_all (\<lambda>(i, t). bit_at (x_handled X) i \<longrightarrow>
          (case x_client_ct P X i of Inl _ \<Rightarrow> False | Inr (ct, _) \<Rightarrow> t = ct)) (x_received X j)"

definition exchange_honest :: "prims \<Rightarrow> exchange \<Rightarrow> bool" where
  "exchange_honest P X \<longleftrightarrow> prims_ok P
     \<and> length (x_handled X) = x_clients X
     \<and> list_all (client_honest P X) (filter (bit_at (x_handled X)) [0..<x_clients X])
     \<and> list_all (server_honest P X) [0..<x_servers X]
     \<and> list_all (\<lambda>i. length (filter (\<lambda>j. i \<in> set (map fst (x_received X j))) [0..<x_servers X]) = 1)
         (filter (bit_at (x_handled X)) [0..<x_clients X])"

abbreviation x_listed :: "exchange \<Rightarrow> nat set" where
  "x_listed X \<equiv> {i. bit_at (x_handled X) i}"

lemma x_listed_finite [simp]: "finite (x_listed X)"
  by (rule finite_subset [of _ "{..<length (x_handled X)}"]) (auto simp: bit_at_def)

lemma x_listed_less: "exchange_honest P X \<Longrightarrow> i \<in> x_listed X \<Longrightarrow> i < x_clients X"
  by (auto simp: exchange_honest_def bit_at_def)

lemma exchange_client_honest:
  "exchange_honest P X \<Longrightarrow> i \<in> x_listed X \<Longrightarrow> client_honest P X i"
  using x_listed_less [of P X i] by (auto simp: exchange_honest_def list_all_iff)

lemma exchange_secret:
  "exchange_honest P X \<Longrightarrow> i \<in> x_listed X \<Longrightarrow> j < x_servers X \<Longrightarrow> x_secret X i j \<noteq> []"
  using exchange_client_honest [of P X i] by (simp add: client_honest_def list_all_iff)

lemma exchange_server_honest: "exchange_honest P X \<Longrightarrow> j < x_servers X \<Longrightarrow> server_honest P X j"
  by (auto simp: exchange_honest_def list_all_iff)

lemma exchange_unique_server:
  assumes "exchange_honest P X" and "i \<in> x_listed X"
  shows "\<exists>!j. j \<in> {..<x_servers X} \<and> i \<in> fst ` set (x_received X j)"
proof -
  have "length (filter (\<lambda>j. i \<in> set (map fst (x_received X j))) [0..<x_servers X]) = 1"
    using assms x_listed_less [OF assms] by (auto simp: exchange_honest_def list_all_iff)
  then obtain j where "filter (\<lambda>j. i \<in> set (map fst (x_received X j))) [0..<x_servers X] = [j]"
    by (cases "filter (\<lambda>j. i \<in> set (map fst (x_received X j))) [0..<x_servers X]") auto
  then have "set (filter (\<lambda>j. i \<in> set (map fst (x_received X j))) [0..<x_servers X]) = {j}"
    by simp
  then have "k \<in> {..<x_servers X} \<and> i \<in> fst ` set (x_received X k) \<longleftrightarrow> k = j" for k
    by (auto simp: set_eq_iff)
  then show ?thesis by auto
qed

lemma received_ct:
  assumes "exchange_honest P X" and "j < x_servers X" and "(i, t) \<in> set (x_received X j)"
    and "bit_at (x_handled X) i"
  shows "\<exists>r. x_client_ct P X i = Inr (t, r)"
proof -
  have "case x_client_ct P X i of Inl _ \<Rightarrow> False | Inr (ct, _) \<Rightarrow> t = ct"
    using exchange_server_honest [OF assms(1,2)] assms(3,4) by (auto simp: server_honest_def list_all_iff)
  then show ?thesis by (cases "x_client_ct P X i") auto
qed

definition x_pad :: "prims \<Rightarrow> exchange \<Rightarrow> nat \<Rightarrow> nat \<Rightarrow> bytes" where
  "x_pad P X i j = pad P (x_nonce X) (x_phase X) (x_len X) (x_secret X i j)"

lemma client_ct_nth:
  assumes "exchange_honest P X" and "i \<in> x_listed X" and "x_client_ct P X i = Inr (ct, r)"
  shows "length ct = x_len X" and "length (x_plain P X i) = x_len X"
    and "\<And>k. k < x_len X \<Longrightarrow> ct ! k = x_plain P X i ! k XOR bx.F (\<lambda>j. x_pad P X i j ! k) {..<x_servers X}"
proof -
  let ?s = "SetupRngs_client P (x_nonce X) (x_phase X) (x_client X i)"
  obtain pads s' ent' where r: "r = (pads, s', ent')" by (cases r) auto
  have h: "client_honest P X i" and P: "prims_ok P"
    using assms(1,2) by (auto intro: exchange_client_honest simp: exchange_honest_def)
  have n: "nat (msg_length ?s) = x_len X"
    using h by (simp add: client_honest_def SetupRngs_client_def)
  have ne: "[] \<notin> set (map (x_secret X i) [0..<x_servers X])"
    using h by (auto simp: client_honest_def list_all_iff)
  have pads: "pads_of P ?s = map (x_pad P X i) [0..<x_servers X]"
    using h pads_make_rngs [OF ne]
    by (simp add: n SetupRngs_client_def client_honest_def x_pad_def comp_def)
  have g: "GenerateCiphertext P (x_phase X) (x_data X i) (x_entropy X i) ?s = Inr (ct, pads, s', ent')"
    using assms(3) by (simp add: x_client_ct_def r)
  have idx: "0 \<le> my_idx ?s" "my_idx ?s div 8 < msg_length ?s"
    using h by (auto simp: client_honest_def SetupRngs_client_def)
  note c = GenerateCiphertext_contribution [OF g idx, unfolded n]
  show "length ct = x_len X" and "length (x_plain P X i) = x_len X"
    using c(1,3) by (simp_all add: x_plain_def)
  fix k assume k: "k < x_len X"
  have "xor_all (x_len X) (map (x_pad P X i) [0..<x_servers X]) ! k
      = bx.F (\<lambda>j. x_pad P X i j ! k) {..<x_servers X}"
    using nth_xor_all_map [OF k, of "[0..<x_servers X]" "x_pad P X i"] P
    by (simp add: x_pad_def length_pad atLeast0LessThan)
  with c(4) [OF k] show "ct ! k = x_plain P X i ! k XOR bx.F (\<lambda>j. x_pad P X i j ! k) {..<x_servers X}"
    by (simp add: pads [unfolded n] x_plain_def)
qed

lemma server_ct_nth:
  assumes "exchange_honest P X" and "j < x_servers X" and "x_server_ct P X j = Inr (ct, r)"
  shows "length ct = x_len X"
    and "\<And>k. k < x_len X \<Longrightarrow> ct ! k = bx.F (\<lambda>i. x_pad P X i j ! k) (x_listed X)
           XOR bx.F (\<lambda>i. fst (projr (x_client_ct P X i)) ! k)
                 {i \<in> fst ` set (x_received X j). bit_at (x_handled X) i}"
proof -
  let ?s = "SetupRngs_server P (x_nonce X) (x_phase X) (x_handled X) (x_server X j)"
  let ?L = "filter (bit_at (x_handled X)) [0..<x_clients X]"
  have h: "server_honest P X j" and P: "prims_ok P" and len: "length (x_handled X) = x_clients X"
    using assms(1,2) by (auto intro: exchange_server_honest simp: exchange_honest_def)
  have n: "nat (msg_length ?s) = x_len X" and closed: "\<not> slot_open ?s" and idx: "0 \<le> my_idx ?s"
    and nodata: "\<not> fst (CheckData [] ?s)"
    using h by (simp_all add: server_honest_def SetupRngs_server_def CheckData_def)
  have "server_seeds (x_handled X) (base_seeds (x_server X j)) = map (\<lambda>i. x_secret X i j) ?L"
    using h by (auto simp: server_honest_def server_seeds_def len)
  moreover have "[] \<notin> set (map (\<lambda>i. x_secret X i j) ?L)"
    using exchange_secret [OF assms(1) _ assms(2)] by fastforce
  ultimately have pads: "pads_of P ?s = map (\<lambda>i. x_pad P X i j) ?L"
    using pads_make_rngs h by (simp add: server_honest_def SetupRngs_server_def x_pad_def comp_def)
  have setL: "set ?L = x_listed X" using len by (auto simp: bit_at_def)
  have ct: "ct = combine_client_ciphertexts (x_handled X) (x_received X j)
      (xor_all (x_len X) (map (\<lambda>i. x_pad P X i j) ?L))"
    using assms(3) nodata
    by (auto simp: x_server_ct_def GenerateServerCiphertext_def GenerateCiphertext_closed [OF closed idx]
          n pads [unfolded n] Let_def bindS_eq_Inr)
  then show "length ct = x_len X" by simp
  have dist: "distinct (map fst (x_received X j))" using h by (simp add: server_honest_def)
  have texts: "t = fst (projr (x_client_ct P X i)) \<and> length t = x_len X"
    if "(i, t) \<in> set (x_received X j)" and "bit_at (x_handled X) i" for i t
  proof -
    note received_ct [OF assms(1,2) that]
    then obtain r where "x_client_ct P X i = Inr (t, r)" by blast
    with client_ct_nth(1) [OF assms(1), of i t r] that show ?thesis by simp
  qed
  fix k assume k: "k < x_len X"
  have "xor_all (x_len X) (map (\<lambda>i. x_pad P X i j) ?L) ! k = bx.F (\<lambda>i. x_pad P X i j ! k) (x_listed X)"
    using nth_xor_all_map [OF k, of ?L "\<lambda>i. x_pad P X i j"] P by (simp add: x_pad_def length_pad setL [simplified])
  with nth_combine [OF _ dist, of k "xor_all (x_len X) (map (\<lambda>i. x_pad P X i j) ?L)" "x_handled X"
      "\<lambda>i. fst (projr (x_client_ct P X i))"] k texts
  show "ct ! k = bx.F (\<lambda>i. x_pad P X i j ! k) (x_listed X)
      XOR bx.F (\<lambda>i. fst (projr (x_client_ct P X i)) ! k)
            {i \<in> fst ` set (x_received X j). bit_at (x_handled X) i}"
    unfolding ct by simp
qed

text \<open>The servers produce a ciphertext, and a listed client's ciphertext exists.\<close>

lemma server_ct_exists:
  assumes "exchange_honest P X" and "j < x_servers X"
  shows "\<exists>ct r. x_server_ct P X j = Inr (ct, r)"
proof -
  let ?s = "SetupRngs_server P (x_nonce X) (x_phase X) (x_handled X) (x_server X j)"
  have h: "\<not> slot_open ?s" "0 \<le> my_idx ?s" "qmap_wf (next_messages ?s)"
    "list_all (\<lambda>(owner, len). owner < x_clients X) (next_messages ?s)"
    using exchange_server_honest [OF assms] by (simp_all add: server_honest_def SetupRngs_server_def)
  have "k < x_clients X" if "k \<in> qmap_dom (next_messages ?s)" for k
    using h(4) that by (auto simp: qmap_dom_iff list_all_iff)
  from touch_slots_used [OF h(3) this] obtain nm where
    "touch_slots (x_clients X) 0 (next_messages ?s) = Inr nm" by blast
  with GenerateCiphertext_closed [OF h(1,2)] show ?thesis
    by (simp add: x_server_ct_def GenerateServerCiphertext_def CheckData_def Let_def)
qed

lemma client_ct_exists:
  assumes "exchange_honest P X" and "i \<in> x_listed X"
  shows "\<exists>ct r. x_client_ct P X i = Inr (ct, r)"
proof -
  obtain j where j: "j < x_servers X" and "i \<in> fst ` set (x_received X j)"
    using exchange_unique_server [OF assms] by auto
  then obtain t where "(i, t) \<in> set (x_received X j)" by auto
  from received_ct [OF assms(1) j this] assms(2) show ?thesis by blast
qed

theorem dcnet_reveals_contributions_aux:
  assumes "exchange_honest P X"
  shows "reveal_cleartext (x_len X) (map (\<lambda>j. fst (projr (x_server_ct P X j))) [0..<x_servers X])
    = xor_all (x_len X) (map (x_plain P X) (filter (bit_at (x_handled X)) [0..<x_clients X]))"
    (is "?l = ?r")
proof (rule nth_equalityI)
  show "length ?l = length ?r" by (simp add: reveal_cleartext_def)
  fix k assume "k < length ?l"
  then have k: "k < x_len X" by (simp add: reveal_cleartext_def)
  let ?S = "{..<x_servers X}" and ?H = "x_listed X"
  let ?D = "\<lambda>j. {i \<in> fst ` set (x_received X j). bit_at (x_handled X) i}"
  let ?ct = "\<lambda>i. fst (projr (x_client_ct P X i))" and ?sct = "\<lambda>j. fst (projr (x_server_ct P X j))"
  have s: "length (?sct j) = x_len X"
    "?sct j ! k = bx.F (\<lambda>i. x_pad P X i j ! k) ?H XOR bx.F (\<lambda>i. ?ct i ! k) (?D j)" if "j < x_servers X" for j
    using server_ct_exists [OF assms that] server_ct_nth [OF assms that] k by fastforce+
  have c: "length (x_plain P X i) = x_len X"
    "?ct i ! k = x_plain P X i ! k XOR bx.F (\<lambda>j. x_pad P X i j ! k) ?S" if "i \<in> ?H" for i
    using client_ct_exists [OF assms that] client_ct_nth [OF assms that] k by fastforce+
  have "?l ! k = bx.F (\<lambda>j. ?sct j ! k) ?S"
    using nth_xor_all_map [OF k, of "[0..<x_servers X]" ?sct] s(1)
    by (simp add: reveal_cleartext_def atLeast0LessThan)
  also have "\<dots> = bx.F (\<lambda>j. bx.F (\<lambda>i. x_pad P X i j ! k) ?H XOR
      bx.F (\<lambda>i. x_plain P X i ! k XOR bx.F (\<lambda>j. x_pad P X i j ! k) ?S) (?D j)) ?S"
  proof (rule bx.cong [OF refl])
    fix j assume "j \<in> ?S"
    moreover have "bx.F (\<lambda>i. ?ct i ! k) (?D j)
        = bx.F (\<lambda>i. x_plain P X i ! k XOR bx.F (\<lambda>j. x_pad P X i j ! k) ?S) (?D j)"
      using c(2) by (intro bx.cong) auto
    ultimately show "?sct j ! k = bx.F (\<lambda>i. x_pad P X i j ! k) ?H XOR
        bx.F (\<lambda>i. x_plain P X i ! k XOR bx.F (\<lambda>j. x_pad P X i j ! k) ?S) (?D j)"
      using s(2) by simp
  qed
  also have "\<dots> = bx.F (\<lambda>i. x_plain P X i ! k) ?H"
    using exchange_unique_server [OF assms] by (intro pads_cancel) auto
  also have "\<dots> = ?r ! k"
  proof -
    have "set (filter (bit_at (x_handled X)) [0..<x_clients X]) = ?H"
      using x_listed_less [OF assms] by auto
    then show ?thesis
      using nth_xor_all_map [OF k, of "filter (bit_at (x_handled X)) [0..<x_clients X]" "x_plain P X"] c(1)
      by simp
  qed
  finally show "?l ! k = ?r ! k" .
qed

end
