(* ===== verification/DCNet_Slots.thy ===== *)
theory DCNet_Slots
  imports DCNet
begin

text \<open>
  The slot protocol of the DC-net: randomization round-trips, a slot message has exactly the
  length its owner announced, an honest slot is delivered and re-sized, an unused slot is kept,
  every member derives the same schedule from the same cleartext, and a slot announced shorter
  than its header makes every member read outside the cleartext.
\<close>

section \<open>Randomization\<close>

lemma pick_seed_Inr:
  "pick_seed P ent = Inr (seed, ent') \<Longrightarrow> seed \<in> set ent \<and> seed \<noteq> NullSeed P \<and> set ent' \<subseteq> set ent"
  by (induction P ent rule: pick_seed.induct) (auto split: if_splits)

lemma pick_seed_returns:
  "(\<exists>seed ent'. pick_seed P ent = Inr (seed, ent')) \<longleftrightarrow> (\<exists>seed \<in> set ent. seed \<noteq> NullSeed P)"
  by (induction P ent rule: pick_seed.induct) auto

lemma Randomize_Inr:
  assumes "prims_ok P" and "Randomize P ent msg = Inr (c, ent')"
    and "\<And>seed. seed \<in> set ent \<Longrightarrow> length seed = OptimalSeedSize P"
  obtains seed txt1 where "c = seed @ txt1" and "length seed = OptimalSeedSize P" and "seed \<noteq> NullSeed P"
    and "txt1 = Xor (fst (GenerateBlock P (CryptoRandom P seed) (length msg)))
                  (fst (GenerateBlock P (CryptoRandom P seed) (length msg))) msg"
    and "length txt1 = length msg"
  using assms pick_seed_Inr [of P ent]
  by (auto simp: Randomize_def Let_def fault_simps length_GenerateBlock)

lemma Derandomize_conv:
  assumes "length seed = OptimalSeedSize P"
  shows "Derandomize P (seed @ txt1) =
    Inr (if seed = NullSeed P then []
         else let r = fst (GenerateBlock P (CryptoRandom P seed) (length txt1)) in Xor r r txt1)"
  using assms raw_view_append [of "[]" seed txt1] raw_view_append [of seed txt1 "[]"]
  by (simp add: Derandomize_def Let_def)

lemma Derandomize_Randomize:
  assumes "prims_ok P" and "Randomize P ent msg = Inr (c, ent')"
    and "\<And>seed. seed \<in> set ent \<Longrightarrow> length seed = OptimalSeedSize P"
  shows "Derandomize P c = Inr msg" and "length c = OptimalSeedSize P + length msg"
proof -
  obtain seed txt1 where c: "c = seed @ txt1" and l: "length seed = OptimalSeedSize P"
    and nn: "seed \<noteq> NullSeed P"
    and t: "txt1 = Xor (fst (GenerateBlock P (CryptoRandom P seed) (length msg)))
                  (fst (GenerateBlock P (CryptoRandom P seed) (length msg))) msg"
    and lt: "length txt1 = length msg"
    using Randomize_Inr [OF assms] by metis
  show "length c = OptimalSeedSize P + length msg" using c l lt by simp
  show "Derandomize P c = Inr msg"
    unfolding c Derandomize_conv [OF l] using nn lt assms(1)
    by (simp add: t Xor_cancel length_GenerateBlock)
qed

lemma Derandomize_zero:
  assumes "OptimalSeedSize P \<le> n"
  shows "Derandomize P (replicate n 0) = Inr []"
proof -
  have "replicate n (0::byte) = NullSeed P @ replicate (n - OptimalSeedSize P) 0"
    using assms by (simp add: NullSeed_def replicate_add [symmetric])
  then show ?thesis by (simp add: Derandomize_conv NullSeed_def)
qed

section \<open>Framing\<close>

text \<open>The cleartext of a slot: the accusation byte, phase, next length, message and digest.\<close>

definition slot_body :: "int32 \<Rightarrow> int32 \<Rightarrow> bytes \<Rightarrow> bytes" where
  "slot_body phase nxt msg = int_bytes phase @ int_bytes nxt @ msg"

definition slot_frame :: "prims \<Rightarrow> int32 \<Rightarrow> int32 \<Rightarrow> bytes \<Rightarrow> bytes" where
  "slot_frame P phase nxt msg = 0 # slot_body phase nxt msg @ hash P (slot_body phase nxt msg)"

lemma write_header:
  "WriteInt nxt (WriteInt phase (replicate 8 0) 0) 4 @ msg = slot_body phase nxt msg"
  by (simp add: WriteInt_conv slot_body_def)

text \<open>What a member sends in its slot, and what it announces for the next phase.\<close>

definition slot_msg :: "'a cs_state_scheme \<Rightarrow> bytes" where
  "slot_msg s = (if read s then next_msg s else last_msg s)"

definition slot_queue :: "bytes \<Rightarrow> 'a cs_state_scheme \<Rightarrow> bytes" where
  "slot_queue gd s = (if read s then gd else next_msg s)"

lemma GenerateSlotMessage_conv:
  assumes "\<not> accuse s"
  shows "GenerateSlotMessage P phase gd ent s =
    bindS (Randomize P ent (slot_frame P phase (of_nat (length (slot_queue gd s) + SlotHeaderLength P)) (slot_msg s)))
      (\<lambda>(c, ent). Inr (c, s\<lparr>read := True, next_msg := slot_queue gd s, last_msg := slot_msg s,
                            last_ciphertext := c\<rparr>, ent))"
  using assms
  by (cases "read s"; cases s)
    (simp_all add: GenerateSlotMessage_def Let_def write_header slot_frame_def slot_msg_def slot_queue_def)

lemma length_slot_frame:
  "prims_ok P \<Longrightarrow> length (slot_frame P phase nxt msg) + OptimalSeedSize P = SlotHeaderLength P + length msg"
  by (simp add: slot_frame_def slot_body_def SlotHeaderLength_def prims_okD)

section \<open>Processing one slot\<close>

lemma process_slot_honest:
  assumes "len \<noteq> 0" and "raw_view (cleartext (sl_state l)) (sl_offset l) len = Inr c"
    and "Derandomize P c = Inr (slot_frame P phase nxt msg)" and "prims_ok P" and "0 < sint nxt"
  shows "process_slot P phase (owner, len) l =
    Inr (l\<lparr>sl_offset := sl_offset l + len,
           sl_length := sl_length l + sint nxt,
           sl_next := qmap_insert owner (sint nxt) (sl_next l),
           sl_pushed := sl_pushed l @ (if msg \<noteq> [] then [(owner, msg)] else [])\<rparr>)"
proof -
  let ?b = "slot_body phase nxt msg" and ?f = "slot_frame P phase nxt msg"
  have hd: "hd ?f = 0" and ne: "?f \<noteq> []" by (simp_all add: slot_frame_def)
  have v1: "raw_view ?f 1 (int (length ?f) - 1 - int (digest_size P)) = Inr ?b"
    using raw_view_append [of "[0]" ?b "hash P ?b"] assms(4) by (simp add: slot_frame_def prims_okD)
  have v2: "raw_view ?f (1 + int (length ?b)) (int (digest_size P)) = Inr (hash P ?b)"
    using raw_view_append [of "0 # ?b" "hash P ?b" "[]"] assms(4) by (simp add: slot_frame_def prims_okD)
  have r0: "ReadInt ?b 0 = Inr phase"
    using ReadInt_int_bytes [of 0 "[]" phase "int_bytes nxt @ msg"] by (simp add: slot_body_def)
  have r4: "ReadInt ?b 4 = Inr nxt"
    using ReadInt_int_bytes [of 4 "int_bytes phase" nxt msg] by (simp add: slot_body_def)
  have dr: "drop 8 ?b = msg" by (simp add: slot_body_def)
  show ?thesis
    using assms(1,2,3,5)
    by (cases l) (simp add: process_slot_def Let_def hd ne v1 v2 r0 r4 dr keep_slot_def note_accusation_def)
qed

lemma process_slot_silent:
  assumes "len \<noteq> 0" and "raw_view (cleartext (sl_state l)) (sl_offset l) len = Inr c"
    and "Derandomize P c = Inr []"
  shows "process_slot P phase (owner, len) l =
    Inr (keep_slot owner len
          (with_state (\<lambda>s. if my_idx s = int owner then s\<lparr>read := False, slot_open := True\<rparr> else s)
            (l\<lparr>sl_offset := sl_offset l + len\<rparr>)))"
  using assms by (simp add: process_slot_def Let_def)

section \<open>All members derive the same schedule\<close>

text \<open>Two loop states that agree on everything but the private state of the member.\<close>

definition same_public :: "'a slot_loop \<Rightarrow> 'b slot_loop \<Rightarrow> bool" where
  "same_public l l' \<longleftrightarrow> sl_offset l = sl_offset l' \<and> sl_next l = sl_next l' \<and> sl_length l = sl_length l'
     \<and> sl_pushed l = sl_pushed l' \<and> cleartext (sl_state l) = cleartext (sl_state l')"

lemma rel_bindS:
  "(\<And>x. m = Inr x \<Longrightarrow> rel_sum (=) R (f x) (g x)) \<Longrightarrow> rel_sum (=) R (bindS m f) (bindS m g)"
  by (cases m) auto

lemma cleartext_blame_own_slot [simp]:
  "cleartext (blame_own_slot phase owner start c s) = cleartext s"
  by (simp add: blame_own_slot_def Let_def split: option.splits)

lemma same_public_keep:
  "same_public l l' \<Longrightarrow> same_public (keep_slot owner len l) (keep_slot owner len l')"
  by (simp add: same_public_def keep_slot_def)

lemma same_public_with_state:
  "same_public l l' \<Longrightarrow> (\<And>s. cleartext (f s) = cleartext s) \<Longrightarrow> (\<And>s. cleartext (g s) = cleartext s) \<Longrightarrow>
     same_public (with_state f l) (with_state g l')"
  by (simp add: same_public_def with_state_def)

lemma same_public_simps:
  assumes "same_public l l'"
  shows "same_public (l\<lparr>sl_offset := sl_offset l + len\<rparr>) (l'\<lparr>sl_offset := sl_offset l' + len\<rparr>)"
    and "same_public (l\<lparr>sl_pushed := sl_pushed l @ xs\<rparr>) (l'\<lparr>sl_pushed := sl_pushed l' @ xs\<rparr>)"
    and "sl_offset l = sl_offset l'" and "cleartext (sl_state l) = cleartext (sl_state l')"
  using assms by (auto simp: same_public_def)

lemma same_public_note:
  "same_public l l' \<Longrightarrow> same_public (note_accusation owner m l) (note_accusation owner m l')"
  by (auto simp: note_accusation_def Let_def intro!: same_public_with_state)

lemma rel_ifI:
  "(b \<Longrightarrow> rel_sum (=) same_public m m') \<Longrightarrow> (\<not> b \<Longrightarrow> rel_sum (=) same_public n n') \<Longrightarrow>
     rel_sum (=) same_public (if b then m else n) (if b then m' else n')"
  by simp

lemma same_public_ifI:
  "(b \<Longrightarrow> same_public l l') \<Longrightarrow> (\<not> b \<Longrightarrow> same_public k k') \<Longrightarrow>
     same_public (if b then l else k) (if b then l' else k')"
  by simp

lemma rel_InrI: "same_public l l' \<Longrightarrow> rel_sum (=) same_public (Inr l) (Inr l')"
  by simp

lemma process_slot_same_public:
  assumes "same_public l l'"
  shows "rel_sum (=) same_public (process_slot P phase x l) (process_slot P phase x l')"
proof (cases x)
  case (Pair owner len)
  show ?thesis
    unfolding process_slot_def Pair case_prod_conv same_public_simps(3,4) [OF assms] Let_def
    by (intro rel_bindS rel_ifI rel_InrI same_public_ifI same_public_keep same_public_with_state
          same_public_note same_public_simps(2) assms
          same_public_simps(1) [OF assms, unfolded same_public_simps(3) [OF assms]]) simp_all
qed

lemma foldS_same_public:
  "same_public l l' \<Longrightarrow>
     rel_sum (=) same_public (foldS (process_slot P phase) xs l) (foldS (process_slot P phase) xs l')"
proof (induction xs arbitrary: l l')
  case (Cons x xs)
  from process_slot_same_public [OF Cons.prems, of P phase x] show ?case
    by (cases "process_slot P phase x l"; cases "process_slot P phase x l'") (auto intro: Cons.IH)
qed simp

section \<open>The schedule\<close>

text \<open>
  Between phases the schedule is well formed: slots in ascending order of their owners, every
  slot at least one byte long, and the message length is the open bits plus all slots.
\<close>

definition schedule_ok :: "nat \<Rightarrow> 'a cs_state_scheme \<Rightarrow> bool" where
  "schedule_ok n s \<longleftrightarrow> qmap_wf (next_messages s) \<and> list_all (\<lambda>(o', len). o' < n \<and> 0 < len) (next_messages s)
     \<and> base_msg_length s = open_bytes n
     \<and> msg_length s = base_msg_length s + sum_list (map snd (next_messages s))"

lemma raw_view_fault: "faults_only OutOfBounds (raw_view d p l)"
  by (simp add: raw_view_def faults_only_def)

lemma ReadInt_fault: "faults_only OutOfBounds (ReadInt d p)"
  by (simp add: ReadInt_def faults_only_def)

lemma Derandomize_fault: "faults_only OutOfBounds (Derandomize P c)"
  unfolding Derandomize_def Let_def
  by (intro faults_only_bindS faults_only_if faults_only_Inr raw_view_fault)

lemma process_slot_fault: "faults_only OutOfBounds (process_slot P phase x l)"
proof (cases x)
  case (Pair owner len)
  show ?thesis
    unfolding process_slot_def Let_def Pair case_prod_conv
    by (intro faults_only_bindS faults_only_if faults_only_Inr raw_view_fault ReadInt_fault Derandomize_fault)
qed

text \<open>
  The effect of one slot on the schedule: \<open>slot_seen\<close> relates the loop states before and after
  the slot's bytes were consumed, \<open>slot_done\<close> also allows the slot to be entered for the next
  phase.
\<close>

definition same_role :: "'a cs_state_scheme \<Rightarrow> 'a cs_state_scheme \<Rightarrow> bool" where
  "same_role s s' \<longleftrightarrow> base_msg_length s' = base_msg_length s \<and> my_idx s' = my_idx s
     \<and> (slot_open s \<longrightarrow> slot_open s')"

definition slot_seen :: "int \<Rightarrow> 'a slot_loop \<Rightarrow> 'a slot_loop \<Rightarrow> bool" where
  "slot_seen len l l' \<longleftrightarrow> sl_offset l' = sl_offset l + len \<and> sl_next l' = sl_next l
     \<and> sl_length l' = sl_length l \<and> same_role (sl_state l) (sl_state l')"

definition slot_done :: "nat \<Rightarrow> int \<Rightarrow> 'a slot_loop \<Rightarrow> 'a slot_loop \<Rightarrow> bool" where
  "slot_done owner len l l' \<longleftrightarrow> sl_offset l' = sl_offset l + len
     \<and> ((sl_next l' = sl_next l \<and> sl_length l' = sl_length l)
        \<or> (\<exists>len'. (0 \<le> len \<longrightarrow> 0 < len') \<and> sl_next l' = qmap_insert owner len' (sl_next l)
               \<and> sl_length l' = sl_length l + len'))
     \<and> same_role (sl_state l) (sl_state l')"

lemma slot_seen_intros:
  "slot_seen len l (l\<lparr>sl_offset := sl_offset l + len\<rparr>)"
  "slot_seen len l l' \<Longrightarrow> slot_seen len l (note_accusation owner m l')"
  "slot_seen len l l' \<Longrightarrow> slot_seen len l (with_state (blame_own_slot phase owner st c) l')"
  "slot_seen len l l' \<Longrightarrow> slot_seen len l
     (with_state (\<lambda>s. if my_idx s = int owner then s\<lparr>read := False, slot_open := True\<rparr> else s) l')"
  by (auto simp: slot_seen_def same_role_def note_accusation_def with_state_def blame_own_slot_def Let_def
        split: option.splits)

lemma slot_done_intros:
  "slot_seen len l l' \<Longrightarrow> slot_done owner len l (note_accusation o' m l')"
  "slot_seen len l l' \<Longrightarrow> 0 \<le> len \<longrightarrow> 0 < len' \<Longrightarrow> slot_done owner len l (keep_slot owner len' l')"
  "slot_done owner len l l' \<Longrightarrow> slot_done owner len l (l'\<lparr>sl_pushed := ps\<rparr>)"
  using slot_seen_intros(2) [of len l l' o' m]
  by (auto simp: slot_done_def slot_seen_def keep_slot_def)

lemma slot_done_if:
  "(b \<Longrightarrow> slot_done owner len l k) \<Longrightarrow> (\<not> b \<Longrightarrow> slot_done owner len l k') \<Longrightarrow>
     slot_done owner len l (if b then k else k')"
  by simp

lemma process_slot_Inr:
  assumes "process_slot P phase (owner, len) l = Inr l'"
  shows "slot_done owner len l l'"
proof (cases "len = 0")
  case True
  with assms show ?thesis by (simp add: process_slot_def slot_done_def same_role_def)
next
  case False
  then have "post (slot_done owner len l) (process_slot P phase (owner, len) l)"
    unfolding process_slot_def Let_def case_prod_conv
    by (simp only: if_False)
      (intro post_bindS post_if post_Inr slot_done_if slot_done_intros slot_seen_intros; simp)
  with assms show ?thesis by (rule postD [rotated])
qed

lemma process_slots_offset:
  "foldS (process_slot P phase) nm l = Inr l' \<Longrightarrow> sl_offset l' = sl_offset l + sum_list (map snd nm)"
proof (induction nm arbitrary: l)
  case (Cons x nm)
  then obtain k where "process_slot P phase (fst x, snd x) l = Inr k"
    and "foldS (process_slot P phase) nm k = Inr l'" by (auto simp: fault_simps)
  with Cons.IH [of k] process_slot_Inr [of P phase "fst x" "snd x" l k] show ?case
    by (simp add: slot_done_def)
qed simp

text \<open>The loop over the slots keeps the schedule it builds well formed.\<close>

definition building :: "nat \<Rightarrow> 'a slot_loop \<Rightarrow> bool" where
  "building n l \<longleftrightarrow> qmap_wf (sl_next l) \<and> list_all (\<lambda>(o', len). o' < n \<and> 0 < len) (sl_next l)
     \<and> sl_length l = base_msg_length (sl_state l) + sum_list (map snd (sl_next l))"

lemma list_all_qmap_insert:
  "Q k v \<Longrightarrow> list_all (\<lambda>(k, v). Q k v) m \<Longrightarrow> list_all (\<lambda>(k, v). Q k v) (qmap_insert k v m)"
  by (induction k v m rule: qmap_insert.induct) auto

lemma building_step:
  assumes "building n l" and "process_slot P phase (owner, len) l = Inr l'"
    and "owner < n" and "0 < len" and "owner \<notin> qmap_dom (sl_next l)"
  shows "building n l'" and "qmap_dom (sl_next l') \<subseteq> insert owner (qmap_dom (sl_next l))"
    and "sl_offset l' = sl_offset l + len" and "same_role (sl_state l) (sl_state l')"
proof -
  have d: "slot_done owner len l l'" using assms(2) by (rule process_slot_Inr)
  then show "sl_offset l' = sl_offset l + len" and "same_role (sl_state l) (sl_state l')"
    by (auto simp: slot_done_def)
  show "qmap_dom (sl_next l') \<subseteq> insert owner (qmap_dom (sl_next l))"
  proof -
    from d consider "sl_next l' = sl_next l" | len' where "sl_next l' = qmap_insert owner len' (sl_next l)"
      unfolding slot_done_def by blast
    then show ?thesis by cases auto
  qed
  have b: "base_msg_length (sl_state l') = base_msg_length (sl_state l)"
    using d by (simp add: slot_done_def same_role_def)
  from d consider "sl_next l' = sl_next l" "sl_length l' = sl_length l"
    | len' where "0 < len'" "sl_next l' = qmap_insert owner len' (sl_next l)" "sl_length l' = sl_length l + len'"
    using assms(4) by (auto simp: slot_done_def)
  then show "building n l'"
  proof cases
    case 1
    with assms(1) b show ?thesis by (simp add: building_def)
  next
    case 2
    have "list_all (\<lambda>(o', len). o' < n \<and> 0 < len) (qmap_insert owner len' (sl_next l))"
      using 2 assms(1,3) by (intro list_all_qmap_insert) (auto simp: building_def)
    with 2 assms(1,5) b show ?thesis by (simp add: building_def qmap_insert_sum)
  qed
qed

lemma building_loop:
  assumes "foldS (process_slot P phase) nm l = Inr l'" and "building n l" and "qmap_wf nm"
    and "list_all (\<lambda>(o', len). o' < n \<and> 0 < len) nm"
    and "qmap_dom nm \<inter> qmap_dom (sl_next l) = {}"
  shows "building n l' \<and> sl_offset l' = sl_offset l + sum_list (map snd nm)
    \<and> qmap_dom (sl_next l') \<subseteq> qmap_dom nm \<union> qmap_dom (sl_next l)
    \<and> same_role (sl_state l) (sl_state l')"
  using assms
proof (induction nm arbitrary: l)
  case Nil
  then show ?case by (simp add: same_role_def)
next
  case (Cons x nm)
  obtain owner len where x: "x = (owner, len)" by (cases x)
  from Cons.prems(1) obtain k where k: "process_slot P phase (owner, len) l = Inr k"
    and rest: "foldS (process_slot P phase) nm k = Inr l'"
    by (auto simp: x fault_simps)
  have pre: "owner < n" "0 < len" "owner \<notin> qmap_dom (sl_next l)"
    using Cons.prems by (auto simp: x)
  note step = building_step [OF Cons.prems(2) k pre]
  have "owner \<notin> qmap_dom nm" using Cons.prems(3) unfolding x by (rule qmap_wf_notin)
  then have disj: "qmap_dom nm \<inter> qmap_dom (sl_next k) = {}"
    using step(2) Cons.prems(5) by (auto simp: x)
  have "building n l' \<and> sl_offset l' = sl_offset k + sum_list (map snd nm)
    \<and> qmap_dom (sl_next l') \<subseteq> qmap_dom nm \<union> qmap_dom (sl_next k)
    \<and> same_role (sl_state k) (sl_state l')"
    using Cons.prems(3,4) by (intro Cons.IH [OF rest step(1) _ _ disj]) (auto simp: x)
  with step(2-4) show ?case by (auto simp: x same_role_def)
qed

text \<open>The slots opened in a phase, as the schedule lists them.\<close>

lemma opened_slots_sorted: "sorted_wrt (<) (opened_slots n clear)"
  by (simp add: opened_slots_def sorted_wrt_filter)

lemma fold_qmap_insert_sorted:
  "sorted_wrt (<) (xs @ ys) \<Longrightarrow>
     fold (\<lambda>idx m. qmap_insert idx v m) ys (map (\<lambda>i. (i, v)) xs) = map (\<lambda>i. (i, v)) (xs @ ys)"
proof (induction ys arbitrary: xs)
  case (Cons y ys)
  have "qmap_insert y v (map (\<lambda>i. (i, v)) xs) = map (\<lambda>i. (i, v)) (xs @ [y])"
    using Cons.prems by (subst qmap_insert_last) (auto simp: sorted_wrt_append)
  with Cons.IH [of "xs @ [y]"] Cons.prems show ?case by simp
qed simp

lemma opened_schedule:
  "fold (\<lambda>idx m. qmap_insert idx v m) (opened_slots n clear) [] = map (\<lambda>i. (i, v)) (opened_slots n clear)"
  using fold_qmap_insert_sorted [of "[]" "opened_slots n clear" v] by (simp add: opened_slots_sorted)

lemma opened_length: "fold (\<lambda>idx len. len + v) xs b = b + int (length xs) * v"
  by (induction xs arbitrary: b) (auto simp: algebra_simps)

lemma ProcessCleartext_conv:
  "ProcessCleartext P n phase s =
     bindS (foldS (process_slot P phase) (next_messages s)
        \<lparr>sl_state = s, sl_offset = open_bytes n,
         sl_next = map (\<lambda>i. (i, int (SlotHeaderLength P))) (opened_slots n (cleartext s)),
         sl_length = base_msg_length s
           + int (length (opened_slots n (cleartext s))) * int (SlotHeaderLength P),
         sl_pushed = []\<rparr>)
       (\<lambda>l. Inr ((sl_state l)\<lparr>next_messages := sl_next l, msg_length := sl_length l\<rparr>,
                 sl_pushed l, sl_offset l))"
  by (simp add: ProcessCleartext_def Let_def opened_schedule opened_length)

text \<open>Entries of length zero are skipped.\<close>

lemma foldS_used_slots: "foldS (process_slot P phase) nm l = foldS (process_slot P phase) (used_slots nm) l"
proof (induction nm arbitrary: l)
  case (Cons x nm)
  obtain owner len where x: "x = (owner, len)" by (cases x)
  have "process_slot P phase (owner, 0) l = Inr l" by (simp add: process_slot_def)
  then show ?case by (cases "len = 0") (auto simp: x Cons.IH intro!: bindS_cong)
qed simp

lemma building_start:
  assumes "base_msg_length s = open_bytes n"
  shows "building n \<lparr>sl_state = s, sl_offset = open_bytes n,
         sl_next = map (\<lambda>i. (i, int (SlotHeaderLength P))) (opened_slots n clear),
         sl_length = base_msg_length s + int (length (opened_slots n clear)) * int (SlotHeaderLength P),
         sl_pushed = []\<rparr>"
proof -
  have "sum_list (map (\<lambda>i. int (SlotHeaderLength P)) xs) = int (length xs) * int (SlotHeaderLength P)"
    for xs :: "nat list"
    by (induction xs) (auto simp: algebra_simps)
  then show ?thesis
    using opened_slots_sorted [of n clear]
    by (auto simp: building_def comp_def list_all_iff SlotHeaderLength_def) (simp add: opened_slots_def)
qed

lemma schedule_ok_nonneg: "schedule_ok n s \<Longrightarrow> list_all (\<lambda>(o', len). 0 \<le> len) (next_messages s)"
  by (auto simp: schedule_ok_def elim!: list.pred_mono_strong)

lemma open_bytes_nonneg: "0 \<le> open_bytes n"
  by (simp add: open_bytes_def)

section \<open>A concrete member\<close>

text \<open>A member of a round of two clients, in which client 0 has a slot for one byte.\<close>

definition demo_member :: "bytes list \<Rightarrow> int \<Rightarrow> bool \<Rightarrow> bytes \<Rightarrow> cs_state" where
  "demo_member seeds me opn msg =
     \<lparr>anonymous_keys = [], base_seeds = seeds, anonymous_rngs = [], next_messages = [(0, 14)],
      signatures = Map.empty, cleartext = [], anonymous_key = [], shuffle_data = [], read = True,
      slot_open = opn, accuse = False, next_msg = msg, last_msg = [], last_ciphertext = [],
      msg_length = 15, base_msg_length = 1, my_idx = me, my_server = 0, start_accuse = False,
      accuser = 0, my_accuse = False, accuse_idx = -1, blame_phase = 0\<rparr>"

lemma demo_sizes:
  "SlotHeaderLength demo_prims = 13" "OptimalSeedSize demo_prims = 2" "NullSeed demo_prims = [0, 0]"
  "open_bytes 2 = 1" "open_bytes 1 = 1"
  by (simp_all add: SlotHeaderLength_def OptimalSeedSize_def NullSeed_def demo_prims_def open_bytes_def
        numeral_2_eq_2)

lemma demo_upt: "[0..<2] = [0, Suc 0]"
  by (simp add: upt_rec)

text \<open>A cleartext of zeros keeps the schedule.\<close>

lemma demo_silent:
  "ProcessCleartext demo_prims 2 5 ((demo_member [] 1 False [])\<lparr>cleartext := replicate 15 0\<rparr>)
     = Inr ((demo_member [] 1 False [])\<lparr>cleartext := replicate 15 0\<rparr>, [], 15)"
proof -
  let ?l = "\<lparr>sl_state = (demo_member [] 1 False [])\<lparr>cleartext := replicate 15 0\<rparr>, sl_offset = 1,
     sl_next = [], sl_length = 1, sl_pushed = []\<rparr>"
  have o': "opened_slots 2 (replicate 15 0) = []"
    by (simp add: opened_slots_def demo_upt qba_get_def)
  have v: "raw_view (cleartext (sl_state ?l)) (sl_offset ?l) 14 = Inr (replicate 14 0)"
    by (simp add: raw_view_def)
  have d: "Derandomize demo_prims (replicate 14 0) = Inr []"
    by (rule Derandomize_zero) (simp add: demo_sizes)
  have "process_slot demo_prims 5 (0, 14) ?l = Inr (?l\<lparr>sl_offset := 15, sl_next := [(0, 14)], sl_length := 15\<rparr>)"
    unfolding process_slot_silent [OF _ v d] using process_slot_silent [OF _ v d, of 5 0]
    by (simp add: keep_slot_def with_state_def demo_member_def)
  then show ?thesis
    by (simp add: ProcessCleartext_conv demo_sizes demo_member_def o')
qed

section \<open>Properties\<close>

text \<open>
  \<^verbatim>\<open>Randomize\<close> returns as soon as the generator yields a seed that is not the null seed, and
  \<^verbatim>\<open>Derandomize\<close> recovers the message from its result, which is one seed longer.
\<close>

theorem Randomize_roundtrip:
  assumes "prims_ok P" and "list_all (\<lambda>seed. length seed = OptimalSeedSize P) ent"
    and "list_ex (\<lambda>seed. seed \<noteq> NullSeed P) ent"
  shows "\<exists>c ent'. Randomize P ent msg = Inr (c, ent') \<and> Derandomize P c = Inr msg
    \<and> length c = OptimalSeedSize P + length msg"
proof -
  obtain seed ent' where "pick_seed P ent = Inr (seed, ent')"
    using pick_seed_returns [of P ent] assms(3) by (auto simp: list_ex_iff)
  then obtain c where c: "Randomize P ent msg = Inr (c, ent')"
    by (simp add: Randomize_def Let_def)
  have "Derandomize P c = Inr msg \<and> length c = OptimalSeedSize P + length msg"
    using Derandomize_Randomize [OF assms(1) c] assms(2) by (auto simp: list_all_iff)
  with c show ?thesis by blast
qed

theorem Randomize_roundtrip_witness:
  "\<exists>c ent'. Randomize demo_prims [[0, 0], [5, 3], [1, 1]] [7, 8] = Inr (c, ent')
     \<and> Derandomize demo_prims c = Inr [7, 8] \<and> length c = 4"
proof -
  have "list_all (\<lambda>seed. length seed = OptimalSeedSize demo_prims) [[0, 0], [5, 3], [1, 1]]"
    and "list_ex (\<lambda>seed. seed \<noteq> NullSeed demo_prims) [[0, 0], [5, 3], [1, 1]]"
    by (simp_all add: OptimalSeedSize_def NullSeed_def demo_prims_def eval_nat_numeral)
  from Randomize_roundtrip [OF demo_prims_ok this, of "[7, 8]"] show ?thesis
    by (simp add: OptimalSeedSize_def demo_prims_def)
qed

text \<open>
  C13.  Agreement on the schedule.  Any two members, client or server, that hold the same
  schedule, process the same cleartext in the same phase hand the same messages to their
  applications, and enter the next phase with the same slots and the same message length, or
  both fault: nothing private to a member enters the schedule.
\<close>

theorem schedule_agreement:
  assumes "cleartext s = cleartext s'" and "used_slots (next_messages s) = used_slots (next_messages s')"
    and "base_msg_length s = base_msg_length s'"
  shows "map_sum id (\<lambda>(t, pushed, fin). (next_messages t, msg_length t, pushed, fin)) (ProcessCleartext P n phase s)
       = map_sum id (\<lambda>(t, pushed, fin). (next_messages t, msg_length t, pushed, fin)) (ProcessCleartext P n phase s')"
proof -
  let ?l = "\<lambda>s. \<lparr>sl_state = s, sl_offset = open_bytes n,
         sl_next = map (\<lambda>i. (i, int (SlotHeaderLength P))) (opened_slots n (cleartext s)),
         sl_length = base_msg_length s
           + int (length (opened_slots n (cleartext s))) * int (SlotHeaderLength P),
         sl_pushed = []\<rparr>"
  have "same_public (?l s) \<lparr>sl_state = s', sl_offset = open_bytes n,
         sl_next = map (\<lambda>i. (i, int (SlotHeaderLength P))) (opened_slots n (cleartext s')),
         sl_length = base_msg_length s'
           + int (length (opened_slots n (cleartext s'))) * int (SlotHeaderLength P),
         sl_pushed = []\<rparr>"
    using assms by (simp add: same_public_def)
  from foldS_same_public [OF this, of P phase "used_slots (next_messages s)"] show ?thesis
    unfolding ProcessCleartext_conv foldS_used_slots [of _ _ "next_messages s"]
      foldS_used_slots [of _ _ "next_messages s'"] assms(2) [symmetric]
    by (auto simp: same_public_def elim!: rel_sum.cases)
qed

theorem schedule_agreement_witness:
  "map_sum id (\<lambda>(t, pushed, fin). (next_messages t, msg_length t, pushed, fin))
     (ProcessCleartext demo_prims 2 5 ((demo_member [] 0 True [9])\<lparr>cleartext := replicate 15 0\<rparr>))
   = Inr ([(0, 14)], 15, [], 15)"
proof -
  let ?s = "(demo_member [] 0 True [9])\<lparr>cleartext := replicate 15 0\<rparr>"
  let ?t = "(demo_member [] 1 False [])\<lparr>cleartext := replicate 15 0\<rparr>"
  have "cleartext ?s = cleartext ?t" "used_slots (next_messages ?s) = used_slots (next_messages ?t)"
    "base_msg_length ?s = base_msg_length ?t"
    by (simp_all add: demo_member_def)
  from schedule_agreement [OF this, of demo_prims 2 5] show ?thesis
    unfolding demo_silent by (simp add: demo_member_def)
qed

text \<open>
  The schedule invariant.  From a well-formed schedule, when no owner of an open slot asks
  for a second one, processing a cleartext yields a well-formed schedule: ascending owners below
  the number of clients, positive slot lengths, and a message length equal to the open bits plus
  all slots.  The slots read are exactly the bytes behind the open bits.
\<close>

theorem ProcessCleartext_schedule:
  assumes "schedule_ok n s" and "set (opened_slots n (cleartext s)) \<inter> qmap_dom (next_messages s) = {}"
    and "ProcessCleartext P n phase s = Inr (s', pushed, fin)"
  shows "schedule_ok n s' \<and> fin = msg_length s \<and> my_idx s' = my_idx s"
proof -
  let ?l = "\<lparr>sl_state = s, sl_offset = open_bytes n,
         sl_next = map (\<lambda>i. (i, int (SlotHeaderLength P))) (opened_slots n (cleartext s)),
         sl_length = base_msg_length s
           + int (length (opened_slots n (cleartext s))) * int (SlotHeaderLength P),
         sl_pushed = []\<rparr>"
  from assms(3) obtain l where l: "foldS (process_slot P phase) (next_messages s) ?l = Inr l"
    and s': "s' = (sl_state l)\<lparr>next_messages := sl_next l, msg_length := sl_length l\<rparr>" and "fin = sl_offset l"
    unfolding ProcessCleartext_conv by (auto simp: bindS_eq_Inr)
  have "building n l \<and> sl_offset l = sl_offset ?l + sum_list (map snd (next_messages s))
    \<and> qmap_dom (sl_next l) \<subseteq> qmap_dom (next_messages s) \<union> qmap_dom (sl_next ?l)
    \<and> same_role (sl_state ?l) (sl_state l)"
    using assms(1,2) building_start [of s n P "cleartext s"]
    by (intro building_loop [OF l]) (auto simp: schedule_ok_def)
  with assms(1) show ?thesis
    by (auto simp: building_def schedule_ok_def s' same_role_def \<open>fin = sl_offset l\<close>)
qed

theorem ProcessCleartext_schedule_witness:
  "schedule_ok 2 ((demo_member [] 1 False [])\<lparr>cleartext := replicate 15 0\<rparr>)
     \<and> (15::int) = msg_length ((demo_member [] 1 False [])\<lparr>cleartext := replicate 15 0\<rparr>)"
proof -
  let ?s = "(demo_member [] 1 False [])\<lparr>cleartext := replicate 15 0\<rparr>"
  have "schedule_ok 2 ?s" by (simp add: schedule_ok_def demo_member_def demo_sizes)
  moreover have "set (opened_slots 2 (cleartext ?s)) \<inter> qmap_dom (next_messages ?s) = {}"
    by (simp add: opened_slots_def demo_upt qba_get_def)
  ultimately show ?thesis using ProcessCleartext_schedule [OF _ _ demo_silent] by blast
qed

end
