(* ===== verification/DCNet_Exchange.thy ===== *)
theory DCNet_Exchange
  imports DCNet_Correct DCNet_Slots
begin

text \<open>
  End-to-end properties of one exchange: what is revealed at each slot, what is delivered, and
  what happens to a member whose request to open a slot was lost.
\<close>

section \<open>Where a slot lies\<close>

lemma slot_offset_split:
  "o' \<notin> qmap_dom pre \<Longrightarrow> slot_offset (pre @ (o', len) # suf) (int o') b = b + sum_list (map snd pre)"
  by (induction pre arbitrary: b) (auto simp: qmap_dom_def)

lemma slot_offset_absent:
  "(\<And>o'. o' \<in> qmap_dom nm \<Longrightarrow> int o' \<noteq> me) \<Longrightarrow> slot_offset nm me b = b + sum_list (map snd nm)"
  by (induction nm arbitrary: b) auto

lemma sum_list_nonneg_snd: "list_all (\<lambda>(o', len). 0 \<le> len) nm \<Longrightarrow> 0 \<le> sum_list (map snd nm)"
  for nm :: "(nat \<times> int) list"
  by (induction nm) auto

text \<open>Two slots of one schedule do not overlap.\<close>

lemma slots_disjoint:
  fixes nm :: "(nat, int) qmap"
  assumes "nm = pre @ (o1, len1) # suf" and "nm = pre' @ (o2, len2) # suf'" and "o1 \<noteq> o2"
    and "qmap_wf nm" and "list_all (\<lambda>(o', len). 0 \<le> len) nm"
  shows "sum_list (map snd pre) + len1 \<le> sum_list (map snd pre')
    \<or> sum_list (map snd pre') + len2 \<le> sum_list (map snd pre)"
proof -
  have nn: "0 \<le> sum_list (map snd xs)" if "set xs \<subseteq> set nm" for xs
    using assms(5) that by (intro sum_list_nonneg_snd) (auto simp: list_all_iff)
  have "pre @ (o1, len1) # suf = pre' @ (o2, len2) # suf'" using assms(1,2) by simp
  then consider us where "pre' = pre @ (o1, len1) # us" | us where "pre = pre' @ (o2, len2) # us"
    using assms(3) by (auto simp: append_eq_append_conv2 Cons_eq_append_conv append_eq_Cons_conv)
  then show ?thesis
  proof cases
    case 1
    with nn [of us] assms(2) show ?thesis by auto
  next
    case 2
    with nn [of us] assms(1) show ?thesis by auto
  qed
qed

section \<open>Honest slots\<close>

text \<open>
  The clients of an exchange use the slots as the schedule \<open>nm\<close> says: the owner of an open slot
  has a message of exactly the scheduled length, a client without a slot is not in the schedule,
  and no two clients share an index.
\<close>

definition slot_honest :: "prims \<Rightarrow> exchange \<Rightarrow> (nat, int) qmap \<Rightarrow> nat \<Rightarrow> bool" where
  "slot_honest P X nm i \<longleftrightarrow>
     (let s = x_client X i in
      next_messages s = nm \<and> base_msg_length s = open_bytes (x_clients X)
      \<and> my_idx s < int (x_clients X) \<and> \<not> accuse s
      \<and> list_all (\<lambda>seed. length seed = OptimalSeedSize P) (x_entropy X i)
      \<and> length (slot_queue (x_data X i) s) + SlotHeaderLength P < 2 ^ 31
      \<and> (slot_open s \<longrightarrow>
          (nat (my_idx s), int (SlotHeaderLength P + length (slot_msg s))) \<in> set nm))"

definition slots_honest :: "prims \<Rightarrow> exchange \<Rightarrow> (nat, int) qmap \<Rightarrow> bool" where
  "slots_honest P X nm \<longleftrightarrow> exchange_honest P X
     \<and> qmap_wf nm \<and> list_all (\<lambda>(o', len). o' < x_clients X \<and> int (SlotHeaderLength P) \<le> len) nm
     \<and> int (x_len X) = open_bytes (x_clients X) + sum_list (map snd nm)
     \<and> list_all (slot_honest P X nm) (filter (bit_at (x_handled X)) [0..<x_clients X])
     \<and> distinct (map (\<lambda>i. my_idx (x_client X i)) (filter (bit_at (x_handled X)) [0..<x_clients X]))"

text \<open>The listed client that sends in a slot, if there is one.\<close>

definition x_owner :: "exchange \<Rightarrow> nat \<Rightarrow> nat option" where
  "x_owner X o' = find (\<lambda>i. slot_open (x_client X i) \<and> my_idx (x_client X i) = int o')
     (filter (bit_at (x_handled X)) [0..<x_clients X])"

definition x_revealed :: "prims \<Rightarrow> exchange \<Rightarrow> bytes" where
  "x_revealed P X =
     reveal_cleartext (x_len X) (map (\<lambda>j. fst (projr (x_server_ct P X j))) [0..<x_servers X])"

lemma open_bytes_bound:
  assumes "i < n"
  shows "int (i div 8) < open_bytes n"
proof -
  have "i div 8 < n div 8 + (if n mod 8 \<noteq> 0 then 1 else 0)"
  proof (cases "n mod 8 = 0")
    case True
    then have "n = n div 8 * 8" by (simp add: mod_eq_0_iff_dvd)
    with assms have "i < n div 8 * 8" by simp
    then have "i div 8 < n div 8" by (simp add: less_mult_imp_div_less)
    with True show ?thesis by simp
  next
    case False
    with assms show ?thesis by (simp add: less_Suc_eq_le div_le_mono)
  qed
  then show ?thesis by (simp add: open_bytes_def)
qed

lemma slots_honestD:
  assumes "slots_honest P X nm"
  shows "exchange_honest P X" and "prims_ok P" and "qmap_wf nm"
    and "list_all (\<lambda>(o', len). 0 \<le> len) nm"
    and "int (x_len X) = open_bytes (x_clients X) + sum_list (map snd nm)"
    and "\<And>i. i \<in> x_listed X \<Longrightarrow> slot_honest P X nm i"
    and "\<And>i j. i \<in> x_listed X \<Longrightarrow> j \<in> x_listed X \<Longrightarrow> my_idx (x_client X i) = my_idx (x_client X j) \<Longrightarrow> i = j"
proof -
  show h: "exchange_honest P X" and "qmap_wf nm"
    and "int (x_len X) = open_bytes (x_clients X) + sum_list (map snd nm)"
    using assms by (simp_all add: slots_honest_def)
  show "prims_ok P" using h by (simp add: exchange_honest_def)
  show "list_all (\<lambda>(o', len). 0 \<le> len) nm"
    using assms by (fastforce simp: slots_honest_def list_all_iff)
  fix i assume i: "i \<in> x_listed X"
  then have "i \<in> set (filter (bit_at (x_handled X)) [0..<x_clients X])"
    using x_listed_less [OF h i] by simp
  with assms show "slot_honest P X nm i" by (simp add: slots_honest_def list_all_iff)
  fix j assume j: "j \<in> x_listed X" and eq: "my_idx (x_client X i) = my_idx (x_client X j)"
  have "inj_on (\<lambda>i. my_idx (x_client X i)) (set (filter (bit_at (x_handled X)) [0..<x_clients X]))"
    using assms by (simp add: slots_honest_def distinct_map)
  with i j eq x_listed_less [OF h i] x_listed_less [OF h j] show "i = j"
    by (auto simp: inj_on_def)
qed

text \<open>The contribution of the owner of an open slot.\<close>

lemma open_slot_plain:
  assumes "slots_honest P X nm" and "i \<in> x_listed X" and "slot_open (x_client X i)"
    and "nm = pre @ (o', len) # suf" and "my_idx (x_client X i) = int o'"
  shows "\<exists>m. x_plain P X i = slot_plain (x_len X) (nat (open_bytes (x_clients X) + sum_list (map snd pre))) m
    \<and> length m = nat len \<and> len = int (SlotHeaderLength P + length (slot_msg (x_client X i)))
    \<and> Derandomize P m = Inr (slot_frame P (x_phase X)
          (of_nat (length (slot_queue (x_data X i) (x_client X i)) + SlotHeaderLength P))
          (slot_msg (x_client X i)))"
proof -
  let ?c = "x_client X i" and ?s = "SetupRngs_client P (x_nonce X) (x_phase X) (x_client X i)"
  note H = slots_honestD [OF assms(1)]
  have h: "slot_honest P X nm i" by (rule H(6) [OF assms(2)])
  have ch: "client_honest P X i" by (rule exchange_client_honest [OF H(1) assms(2)])
  have S: "slot_open ?s" "\<not> accuse ?s" "slot_msg ?s = slot_msg ?c"
    "slot_queue (x_data X i) ?s = slot_queue (x_data X i) ?c" "next_messages ?s = nm" "my_idx ?s = int o'"
    "base_msg_length ?s = open_bytes (x_clients X)" "nat (msg_length ?s) = x_len X"
    using h ch assms(3,5)
    by (simp_all add: slot_honest_def client_honest_def SetupRngs_client_def slot_msg_def slot_queue_def Let_def)
  obtain ct r where "x_client_ct P X i = Inr (ct, r)" using client_ct_exists [OF H(1) assms(2)] by blast
  then obtain pads s' ent' where g: "GenerateCiphertext P (x_phase X) (x_data X i) (x_entropy X i) ?s = Inr (ct, pads, s', ent')"
    by (cases r) (auto simp: x_client_ct_def)
  from S(1) g obtain m s1 base where m: "GenerateSlotMessage P (x_phase X) (x_data X i) (x_entropy X i) ?s = Inr (m, s1, ent')"
    by (rule GenerateCiphertext_openE)
  let ?f = "slot_frame P (x_phase X)
      (of_nat (length (slot_queue (x_data X i) ?c) + SlotHeaderLength P)) (slot_msg ?c)"
  from m obtain ent2 where "Randomize P (x_entropy X i) ?f = Inr (m, ent2)"
    unfolding GenerateSlotMessage_conv [OF S(2)] S(3,4) by (auto simp: bindS_eq_Inr)
  note D = Derandomize_Randomize [OF H(2) this]
  have seeds: "\<And>seed. seed \<in> set (x_entropy X i) \<Longrightarrow> length seed = OptimalSeedSize P"
    using h by (simp add: slot_honest_def Let_def list_all_iff)
  have "o' \<notin> qmap_dom pre"
    using H(3) by (auto simp: assms(4) qmap_dom_def sorted_wrt_append)
  then have off: "slot_offset nm (int o') (open_bytes (x_clients X)) = open_bytes (x_clients X) + sum_list (map snd pre)"
    unfolding assms(4) by (rule slot_offset_split)
  have "(o', int (SlotHeaderLength P + length (slot_msg ?c))) \<in> set nm"
    using h assms(3,5) by (simp add: slot_honest_def Let_def)
  moreover have "distinct (map fst nm)" using H(3) by (simp add: strict_sorted_iff)
  ultimately have len: "len = int (SlotHeaderLength P + length (slot_msg ?c))"
    using eq_key_imp_eq_value [of nm o' len] assms(4) by (metis in_set_conv_decomp)
  have "length m = SlotHeaderLength P + length (slot_msg ?c)"
    using D(2) [OF seeds] length_slot_frame [OF H(2)] by (metis add.commute)
  then show ?thesis
    using D(1) [OF seeds] len S m off by (auto simp: x_plain_def contribution_def Let_def)
qed

text \<open>A client without an open slot contributes nothing behind the open bits.\<close>

lemma closed_slot_plain:
  assumes "slots_honest P X nm" and "i \<in> x_listed X" and "\<not> slot_open (x_client X i)"
    and "open_bytes (x_clients X) \<le> int k" and "k < x_len X"
  shows "x_plain P X i ! k = 0"
proof -
  let ?s = "SetupRngs_client P (x_nonce X) (x_phase X) (x_client X i)"
  have h: "slot_honest P X nm i" and ch: "client_honest P X i"
    using slots_honestD(1,6) [OF assms(1)] assms(2) exchange_client_honest by blast+
  then have "nat (my_idx (x_client X i)) < x_clients X"
    by (auto simp: slot_honest_def client_honest_def Let_def)
  then have "nat (my_idx (x_client X i)) div 8 \<noteq> k" using open_bytes_bound assms(4) by fastforce
  with assms(3,5) ch show ?thesis
    by (simp add: x_plain_def contribution_def Let_def SetupRngs_client_def client_honest_def CheckData_def)
qed

text \<open>A client that sends in another slot contributes nothing to this one.\<close>

lemma other_slot_plain:
  assumes "slots_honest P X nm" and "i \<in> x_listed X"
    and "nm = pre @ (o', len) # suf" and "slot_open (x_client X i) \<Longrightarrow> my_idx (x_client X i) \<noteq> int o'"
    and "open_bytes (x_clients X) + sum_list (map snd pre) \<le> int k"
    and "int k < open_bytes (x_clients X) + sum_list (map snd pre) + len"
  shows "x_plain P X i ! k = 0"
proof -
  note H = slots_honestD [OF assms(1)]
  have nn: "0 \<le> sum_list (map snd pre)" "0 \<le> sum_list (map snd suf)" "0 \<le> len"
    using H(4) by (auto simp: assms(3) intro: sum_list_nonneg_snd)
  have k: "k < x_len X" using H(5) assms(6) nn by (auto simp: assms(3))
  show ?thesis
  proof (cases "slot_open (x_client X i)")
    case False
    with closed_slot_plain [OF assms(1,2)] k assms(5) nn show ?thesis by simp
  next
    case True
    let ?o = "nat (my_idx (x_client X i))"
    have io: "my_idx (x_client X i) = int ?o"
      using exchange_client_honest [OF H(1) assms(2)] by (simp add: client_honest_def)
    have "slot_honest P X nm i" by (rule H(6) [OF assms(2)])
    with True obtain pre' len' suf' where nm': "nm = pre' @ (?o, len') # suf'"
      by (auto simp: slot_honest_def Let_def dest!: split_list)
    from open_slot_plain [OF assms(1,2) True nm' io] obtain m where
      p: "x_plain P X i = slot_plain (x_len X) (nat (open_bytes (x_clients X) + sum_list (map snd pre'))) m"
      and m: "length m = nat len'" and len': "0 \<le> len'" by auto
    have nn': "0 \<le> sum_list (map snd pre')" "0 \<le> sum_list (map snd suf')"
      using H(4) by (auto simp: nm' intro: sum_list_nonneg_snd)
    have dis: "sum_list (map snd pre) + len \<le> sum_list (map snd pre')
        \<or> sum_list (map snd pre') + len' \<le> sum_list (map snd pre)"
      using slots_disjoint [OF assms(3) nm' _ H(3,4)] assms(4) [OF True] io by auto
    have fits: "nat (open_bytes (x_clients X) + sum_list (map snd pre')) + length m \<le> x_len X"
      using H(5) nn' len' m open_bytes_nonneg [of "x_clients X"] by (auto simp: nm')
    show ?thesis
      using dis assms(5,6) m len' nn' open_bytes_nonneg [of "x_clients X"]
      unfolding p nth_slot_plain [OF k fits] by auto
  qed
qed

lemma x_owner_None: "x_owner X o' = None \<Longrightarrow> exchange_honest P X \<Longrightarrow> i \<in> x_listed X \<Longrightarrow>
    slot_open (x_client X i) \<Longrightarrow> my_idx (x_client X i) \<noteq> int o'"
  using x_listed_less [of P X i] by (auto simp: x_owner_def find_None_iff)

lemma x_owner_Some: "x_owner X o' = Some i \<Longrightarrow>
    i \<in> x_listed X \<and> slot_open (x_client X i) \<and> my_idx (x_client X i) = int o'"
  unfolding x_owner_def using nth_mem [of _ "filter (bit_at (x_handled X)) [0..<x_clients X]"]
  by (fastforce simp: find_Some_iff)

text \<open>What the exchange reveals at a slot: the owner's randomized message, or zeros.\<close>

lemma revealed_slot:
  assumes "slots_honest P X nm" and "nm = pre @ (o', len) # suf"
  shows "\<exists>c. raw_view (x_revealed P X) (open_bytes (x_clients X) + sum_list (map snd pre)) len = Inr c
    \<and> (case x_owner X o' of
         None \<Rightarrow> c = replicate (nat len) 0
       | Some i \<Rightarrow> Derandomize P c = Inr (slot_frame P (x_phase X)
            (of_nat (length (slot_queue (x_data X i) (x_client X i)) + SlotHeaderLength P))
            (slot_msg (x_client X i))))"
proof -
  note H = slots_honestD [OF assms(1)]
  let ?L = "filter (bit_at (x_handled X)) [0..<x_clients X]"
  let ?off = "open_bytes (x_clients X) + sum_list (map snd pre)"
  have nn: "0 \<le> sum_list (map snd pre)" "0 \<le> sum_list (map snd suf)" "0 \<le> len"
    using H(4) by (auto simp: assms(2) intro: sum_list_nonneg_snd)
  have off: "0 \<le> ?off" and fits: "?off + len \<le> int (x_len X)"
    using H(5) nn open_bytes_nonneg [of "x_clients X"] by (auto simp: assms(2))
  have rev: "x_revealed P X = xor_all (x_len X) (map (x_plain P X) ?L)"
    unfolding x_revealed_def by (rule dcnet_reveals_contributions_aux [OF H(1)])
  have setL: "set ?L = x_listed X" using x_listed_less [OF H(1)] by auto
  have nth: "x_revealed P X ! k = bx.F (\<lambda>i. x_plain P X i ! k) (x_listed X)" if "k < x_len X" for k
  proof -
    have "length (x_plain P X i) = x_len X" if "i \<in> set ?L" for i
      using that client_ct_exists [OF H(1), of i] client_ct_nth(2) [OF H(1), of i] setL by blast
    then show ?thesis
      using nth_xor_all_map [OF that, of ?L "x_plain P X"] unfolding rev setL by simp
  qed
  let ?c = "take (nat len) (drop (nat ?off) (x_revealed P X))"
  have lenr: "length (x_revealed P X) = x_len X" by (simp add: rev)
  have view: "raw_view (x_revealed P X) ?off len = Inr ?c"
    using off fits nn by (simp add: raw_view_def lenr)
  have lc: "length ?c = nat len" using off fits nn lenr by auto
  have cn: "?c ! j = bx.F (\<lambda>i. x_plain P X i ! (nat ?off + j)) (x_listed X)" if "j < nat len" for j
    using that off fits nn lenr nth [of "nat ?off + j"] by auto
  have other: "x_plain P X i ! (nat ?off + j) = 0"
    if "j < nat len" "i \<in> x_listed X" "slot_open (x_client X i) \<Longrightarrow> my_idx (x_client X i) \<noteq> int o'" for i j
    using other_slot_plain [OF assms(1) that(2) assms(2) that(3)] that(1) off by auto
  show ?thesis
  proof (cases "x_owner X o'")
    case None
    have "?c ! j = 0" if j: "j < nat len" for j
      unfolding cn [OF j] using x_owner_None [OF None H(1)] other [OF j]
      by (intro bx.neutral ballI) blast
    then have "?c = replicate (nat len) 0" using lc by (intro nth_equalityI) auto
    with view None show ?thesis by simp
  next
    case (Some i)
    then have i: "i \<in> x_listed X" "slot_open (x_client X i)" "my_idx (x_client X i) = int o'"
      using x_owner_Some by auto
    from open_slot_plain [OF assms(1) i(1,2) assms(2) i(3)] obtain m where
      p: "x_plain P X i = slot_plain (x_len X) (nat ?off) m" and m: "length m = nat len"
      and D: "Derandomize P m = Inr (slot_frame P (x_phase X)
            (of_nat (length (slot_queue (x_data X i) (x_client X i)) + SlotHeaderLength P))
            (slot_msg (x_client X i)))" by blast
    have "?c ! j = m ! j" if j: "j < nat len" for j
    proof -
      have "bx.F (\<lambda>i. x_plain P X i ! (nat ?off + j)) (x_listed X - {i}) = 0"
      proof (intro bx.neutral ballI)
        fix i' assume i': "i' \<in> x_listed X - {i}"
        then have "my_idx (x_client X i') \<noteq> int o'" using H(7) [of i' i] i by auto
        with other [OF j, of i'] i' show "x_plain P X i' ! (nat ?off + j) = 0" by blast
      qed
      then have "?c ! j = x_plain P X i ! (nat ?off + j)"
        using cn [OF j] bx.remove [OF x_listed_finite i(1)] by simp
      also have "\<dots> = m ! j"
        using j m fits off nn unfolding p by (subst nth_slot_plain) auto
      finally show ?thesis .
    qed
    then have "?c = m" using lc m by (intro nth_equalityI) auto
    with view D Some show ?thesis by simp
  qed
qed

text \<open>What the exchange hands over for a slot, and the length the slot has in the next phase.\<close>

definition slot_delivery :: "exchange \<Rightarrow> nat \<Rightarrow> (nat \<times> bytes) list" where
  "slot_delivery X o' =
     (case x_owner X o' of None \<Rightarrow> []
      | Some i \<Rightarrow> if slot_msg (x_client X i) = [] then [] else [(o', slot_msg (x_client X i))])"

definition slot_announced :: "prims \<Rightarrow> exchange \<Rightarrow> nat \<times> int \<Rightarrow> int" where
  "slot_announced P X = (\<lambda>(o', len).
     case x_owner X o' of None \<Rightarrow> len
     | Some i \<Rightarrow> int (length (slot_queue (x_data X i) (x_client X i)) + SlotHeaderLength P))"

lemma sint_of_nat_small: "n < 2 ^ 31 \<Longrightarrow> sint (of_nat n :: int32) = int n"
  by (simp add: signed_of_nat signed_take_bit_int_eq_self)

lemma exchange_step:
  assumes "slots_honest P X nm" and "nm = pre @ (o', len) # suf"
    and "cleartext (sl_state l) = x_revealed P X"
    and "sl_offset l = open_bytes (x_clients X) + sum_list (map snd pre)"
  shows "\<exists>l'. process_slot P (x_phase X) (o', len) l = Inr l'
    \<and> sl_pushed l' = sl_pushed l @ slot_delivery X o'
    \<and> sl_next l' = qmap_insert o' (slot_announced P X (o', len)) (sl_next l)
    \<and> sl_offset l' = open_bytes (x_clients X) + sum_list (map snd (pre @ [(o', len)]))
    \<and> cleartext (sl_state l') = x_revealed P X"
proof -
  note H = slots_honestD [OF assms(1)]
  have hl: "int (SlotHeaderLength P) \<le> len"
    using assms(1) by (simp add: slots_honest_def assms(2))
  then have ln: "len \<noteq> 0" and sz: "OptimalSeedSize P \<le> nat len" by (auto simp: SlotHeaderLength_def)
  obtain c where view: "raw_view (cleartext (sl_state l)) (sl_offset l) len = Inr c"
    and c: "case x_owner X o' of None \<Rightarrow> c = replicate (nat len) 0
       | Some i \<Rightarrow> Derandomize P c = Inr (slot_frame P (x_phase X)
            (of_nat (length (slot_queue (x_data X i) (x_client X i)) + SlotHeaderLength P))
            (slot_msg (x_client X i)))"
    using revealed_slot [OF assms(1,2)] by (auto simp: assms(3,4))
  show ?thesis
  proof (cases "x_owner X o'")
    case None
    with c have "Derandomize P c = Inr []" using Derandomize_zero [OF sz] by simp
    from process_slot_silent [OF ln view this] None show ?thesis
      by (simp add: keep_slot_def with_state_def slot_delivery_def slot_announced_def assms(3,4))
  next
    case (Some i)
    then have i: "i \<in> x_listed X" using x_owner_Some by blast
    let ?n = "length (slot_queue (x_data X i) (x_client X i)) + SlotHeaderLength P"
    have "?n < 2 ^ 31" using H(6) [OF i] by (simp add: slot_honest_def Let_def)
    then have si: "sint (of_nat ?n :: int32) = int ?n" by (rule sint_of_nat_small)
    moreover have "0 < ?n" by (simp add: SlotHeaderLength_def)
    ultimately have pos: "0 < sint (of_nat ?n :: int32)" by (simp only: of_nat_0_less_iff)
    have D: "Derandomize P c = Inr (slot_frame P (x_phase X) (of_nat ?n) (slot_msg (x_client X i)))"
      using c Some by simp
    show ?thesis
      unfolding process_slot_honest [OF ln view D H(2) pos] si using Some
      by (simp add: slot_delivery_def slot_announced_def assms(3,4))
  qed
qed

lemma exchange_loop:
  assumes "slots_honest P X nm" and "nm = pre @ suf"
    and "cleartext (sl_state l) = x_revealed P X"
    and "sl_offset l = open_bytes (x_clients X) + sum_list (map snd pre)"
  shows "\<exists>l'. foldS (process_slot P (x_phase X)) suf l = Inr l'
    \<and> sl_pushed l' = sl_pushed l @ concat (map (\<lambda>(o', len). slot_delivery X o') suf)
    \<and> sl_next l' = fold (\<lambda>(o', len). qmap_insert o' (slot_announced P X (o', len))) suf (sl_next l)"
  using assms(2-)
proof (induction suf arbitrary: pre l)
  case (Cons x suf)
  obtain o' len where x: "x = (o', len)" by (cases x)
  from exchange_step [OF assms(1) Cons.prems(1) [unfolded x] Cons.prems(2,3)] obtain k where
    k: "process_slot P (x_phase X) (o', len) l = Inr k"
    "sl_pushed k = sl_pushed l @ slot_delivery X o'"
    "sl_next k = qmap_insert o' (slot_announced P X (o', len)) (sl_next l)"
    "sl_offset k = open_bytes (x_clients X) + sum_list (map snd (pre @ [(o', len)]))"
    "cleartext (sl_state k) = x_revealed P X" by blast
  from Cons.IH [OF _ k(5,4)] Cons.prems(1) show ?case
    by (simp add: x k)
qed simp

section \<open>Generating a ciphertext\<close>

text \<open>
  A slot owner whose pending message has the scheduled length produces a ciphertext: the slot
  fits, and the whole message has the scheduled length.
\<close>

lemma own_slot_fits:
  assumes "prims_ok P" and "slot_open s" and "\<not> accuse s" and "0 \<le> base_msg_length s"
    and "next_messages s = pre @ (o', int (SlotHeaderLength P + length (slot_msg s))) # suf"
    and "my_idx s = int o'" and "qmap_wf (next_messages s)"
    and "list_all (\<lambda>(o', len). 0 \<le> len) (next_messages s)"
    and "msg_length s = base_msg_length s + sum_list (map snd (next_messages s))"
    and "list_all (\<lambda>seed. length seed = OptimalSeedSize P) ent" and "list_ex (\<lambda>seed. seed \<noteq> NullSeed P) ent"
  shows "\<exists>ct r. GenerateCiphertext P phase gd ent s = Inr (ct, r) \<and> length ct = nat (msg_length s)"
proof -
  let ?f = "slot_frame P phase (of_nat (length (slot_queue gd s) + SlotHeaderLength P)) (slot_msg s)"
  obtain seed ent' where "pick_seed P ent = Inr (seed, ent')"
    using pick_seed_returns [of P ent] assms(11) by (auto simp: list_ex_iff)
  then obtain c where c: "Randomize P ent ?f = Inr (c, ent')" by (simp add: Randomize_def Let_def)
  have lc: "length c = SlotHeaderLength P + length (slot_msg s)"
  proof -
    have "length c = OptimalSeedSize P + length ?f"
      using assms(10) by (intro Derandomize_Randomize(2) [OF assms(1) c]) (simp add: list_all_iff)
    with length_slot_frame [OF assms(1)] show ?thesis by (metis add.commute)
  qed
  have "o' \<notin> qmap_dom pre" using assms(7) by (auto simp: assms(5) qmap_dom_def sorted_wrt_append)
  then have off: "my_offset s = base_msg_length s + sum_list (map snd pre)"
    unfolding assms(5,6) by (rule slot_offset_split)
  have nn: "0 \<le> sum_list (map snd pre)" "0 \<le> sum_list (map snd suf)"
    using assms(8) by (auto simp: assms(5) intro: sum_list_nonneg_snd)
  have v: "raw_view (mask_of P s) (my_offset s) (int (length c)) =
      Inr (take (length c) (drop (nat (my_offset s)) (mask_of P s)))"
  proof -
    have "0 \<le> my_offset s" "my_offset s + int (length c) \<le> int (nat (msg_length s))"
      using nn assms(4,9) unfolding off lc by (simp_all add: assms(5))
    then show ?thesis by (simp add: raw_view_def)
  qed
  have "nat (my_offset s) + length c \<le> nat (msg_length s)"
    using nn assms(4,9) unfolding off lc by (simp add: assms(5) nat_add_distrib)
  then show ?thesis
    unfolding GenerateCiphertext_open [OF assms(2)] GenerateSlotMessage_conv [OF assms(3)] c
    using v by (simp add: qba_replace_def)
qed

text \<open>
  An owner of an open slot that the schedule does not list, as when its request to open the slot
  arrived too late, computes an offset behind the last slot.
\<close>

lemma lost_slot_faults:
  assumes "prims_ok P" and "slot_open s" and "\<not> accuse s" and "0 \<le> msg_length s"
    and "\<And>o'. o' \<in> qmap_dom (next_messages s) \<Longrightarrow> int o' \<noteq> my_idx s"
    and "msg_length s = base_msg_length s + sum_list (map snd (next_messages s))"
    and "list_all (\<lambda>seed. length seed = OptimalSeedSize P) ent" and "list_ex (\<lambda>seed. seed \<noteq> NullSeed P) ent"
  shows "GenerateCiphertext P phase gd ent s = Inl OutOfBounds"
proof -
  let ?f = "slot_frame P phase (of_nat (length (slot_queue gd s) + SlotHeaderLength P)) (slot_msg s)"
  obtain seed ent' where "pick_seed P ent = Inr (seed, ent')"
    using pick_seed_returns [of P ent] assms(8) by (auto simp: list_ex_iff)
  then obtain c where c: "Randomize P ent ?f = Inr (c, ent')" by (simp add: Randomize_def Let_def)
  have "length c = OptimalSeedSize P + length ?f"
    using Derandomize_Randomize(2) [OF assms(1) c] assms(7) by (simp add: list_all_iff)
  then have lc: "0 < int (length c)" by (simp add: slot_frame_def)
  have off: "my_offset s = msg_length s"
    unfolding assms(6) by (rule slot_offset_absent) (rule assms(5))
  have "raw_view (mask_of P s) (my_offset s) (int (length c)) = Inl OutOfBounds"
    unfolding raw_view_def length_xor_all off using lc assms(4) by auto
  then show ?thesis
    unfolding GenerateCiphertext_open [OF assms(2)] GenerateSlotMessage_conv [OF assms(3)] c by simp
qed

section \<open>A concrete exchange\<close>

text \<open>
  Two clients and two servers: client 0 owns an open slot and sends one byte, client 1 asks for a
  slot.
\<close>

definition demo_secret :: "nat \<Rightarrow> nat \<Rightarrow> bytes" where
  "demo_secret i j = [of_nat (i + 3), of_nat (5 * j + 1)]"

definition demo_start :: exchange where
  "demo_start = \<lparr>x_nonce = [1], x_phase = 2, x_clients = 2, x_servers = 2, x_len = 15,
     x_secret = demo_secret, x_handled = [True, True],
     x_client = (\<lambda>i. demo_member [demo_secret i 0, demo_secret i 1] (int i) (i = 0) [7]),
     x_data = (\<lambda>i. []), x_entropy = (\<lambda>i. [[4, 2]]),
     x_server = (\<lambda>j. demo_member [demo_secret 0 j, demo_secret 1 j] 0 False []),
     x_received = (\<lambda>j. [])\<rparr>"

definition demo_exchange :: exchange where
  "demo_exchange = demo_start
     \<lparr>x_received := (\<lambda>j. [(j, fst (projr (x_client_ct demo_prims demo_start j)))])\<rparr>"

lemma demo_open: "\<exists>ct r. x_client_ct demo_prims demo_start 0 = Inr (ct, r) \<and> length ct = 15"
proof -
  let ?s = "SetupRngs_client demo_prims [1] 2 (demo_member [demo_secret 0 0, demo_secret 0 1] 0 True [7])"
  have "\<exists>ct r. GenerateCiphertext demo_prims 2 [] [[4, 2]] ?s = Inr (ct, r) \<and> length ct = nat (msg_length ?s)"
    by (rule own_slot_fits [where o' = 0 and pre = "[]" and suf = "[]"])
      (simp_all add: demo_prims_ok demo_sizes demo_member_def SetupRngs_client_def slot_msg_def)
  then show ?thesis
    by (simp add: x_client_ct_def demo_start_def) (simp add: SetupRngs_client_def demo_member_def)
qed

lemma demo_closed: "\<exists>ct r. x_client_ct demo_prims demo_start (Suc 0) = Inr (ct, r)"
  by (simp add: x_client_ct_def demo_start_def GenerateCiphertext_closed SetupRngs_client_def demo_member_def)

lemma demo_ct: "x_client_ct demo_prims demo_exchange = x_client_ct demo_prims demo_start"
  by (simp add: fun_eq_iff x_client_ct_def demo_exchange_def)

lemma demo_slots_honest: "slots_honest demo_prims demo_exchange [(0, 14)]"
proof -
  obtain ct r ct1 r1 where ct: "x_client_ct demo_prims demo_start 0 = Inr (ct, r)"
    "x_client_ct demo_prims demo_start (Suc 0) = Inr (ct1, r1)"
    using demo_open demo_closed by metis
  have fields: "x_clients demo_exchange = 2" "x_servers demo_exchange = 2" "x_len demo_exchange = 15"
    "x_handled demo_exchange = [True, True]" "x_secret demo_exchange = demo_secret"
    "x_received demo_exchange 0 = [(0, ct)]" "x_received demo_exchange (Suc 0) = [(Suc 0, ct1)]"
    "x_client demo_exchange i = demo_member [demo_secret i 0, demo_secret i 1] (int i) (i = 0) [7]"
    "x_server demo_exchange i = demo_member [demo_secret 0 i, demo_secret 1 i] 0 False []"
    "x_data demo_exchange i = []" "x_entropy demo_exchange i = [[4, 2]]" for i
    using ct by (simp_all add: demo_exchange_def demo_start_def)
  have listed: "filter (bit_at [True, True]) [0, Suc 0] = [0, Suc 0]" by (simp add: bit_at_def)
  have c: "client_honest demo_prims demo_exchange 0" "client_honest demo_prims demo_exchange (Suc 0)"
    by (simp_all add: client_honest_def fields demo_upt demo_member_def demo_secret_def)
  have s: "server_honest demo_prims demo_exchange 0" "server_honest demo_prims demo_exchange (Suc 0)"
    by (simp_all add: server_honest_def fields demo_upt demo_member_def demo_ct ct)
  have "exchange_honest demo_prims demo_exchange"
    by (simp add: exchange_honest_def fields demo_upt demo_prims_ok c s listed bit_at_def)
  then show ?thesis
    by (simp add: slots_honest_def slot_honest_def fields demo_upt listed demo_sizes Let_def
          demo_member_def slot_msg_def slot_queue_def bit_at_def)
qed

section \<open>Properties\<close>

text \<open>
  C2.  The DC-net reveals the contributions and nothing else: when all listed clients and all
  servers follow the protocol, the cleartext is the xor of the plaintext contributions (slot, open
  bit, or zeros) of exactly the clients on the agreed list; every pad cancels.
\<close>

theorem dcnet_reveals_contributions:
  assumes "exchange_honest P X"
  shows "reveal_cleartext (x_len X) (map (\<lambda>j. fst (projr (x_server_ct P X j))) [0..<x_servers X])
    = xor_all (x_len X) (map (x_plain P X) (filter (bit_at (x_handled X)) [0..<x_clients X]))"
  by (rule dcnet_reveals_contributions_aux [OF assms])

theorem dcnet_reveals_contributions_witness:
  "x_revealed demo_prims demo_exchange
     = xor_all 15 (map (x_plain demo_prims demo_exchange) [0, Suc 0])"
proof -
  have "filter (bit_at (x_handled demo_exchange)) [0..<x_clients demo_exchange] = [0, Suc 0]"
    "x_len demo_exchange = 15"
    by (simp_all add: demo_exchange_def demo_start_def demo_upt bit_at_def)
  with dcnet_reveals_contributions [OF slots_honestD(1) [OF demo_slots_honest]] show ?thesis
    by (simp add: x_revealed_def)
qed

text \<open>
  C1.  Delivery.  In an exchange where every listed client and every server follows the protocol,
  any member, client or server, whose slots of positive length are the schedule and that reads the revealed cleartext hands over, in the order of
  the slots, exactly the non-empty messages that the owners of the open slots sent, and schedules
  for the next phase the lengths the owners announced; a slot nobody used keeps its length.
\<close>

theorem exchange_delivers:
  assumes "slots_honest P X nm" and "cleartext s = x_revealed P X"
    and "used_slots (next_messages s) = nm"
  shows "\<exists>s'. ProcessCleartext P (x_clients X) (x_phase X) s =
      Inr (s', concat (map (\<lambda>(o', len). slot_delivery X o') nm), int (x_len X))
    \<and> next_messages s' = fold (\<lambda>(o', len). qmap_insert o' (slot_announced P X (o', len))) nm
        (map (\<lambda>i. (i, int (SlotHeaderLength P))) (opened_slots (x_clients X) (x_revealed P X)))"
proof -
  let ?l = "\<lparr>sl_state = s, sl_offset = open_bytes (x_clients X),
         sl_next = map (\<lambda>i. (i, int (SlotHeaderLength P))) (opened_slots (x_clients X) (cleartext s)),
         sl_length = base_msg_length s
           + int (length (opened_slots (x_clients X) (cleartext s))) * int (SlotHeaderLength P),
         sl_pushed = []\<rparr>"
  from exchange_loop [OF assms(1), of "[]" nm ?l] assms(2) obtain l where
    l: "foldS (process_slot P (x_phase X)) nm ?l = Inr l"
    "sl_pushed l = concat (map (\<lambda>(o', len). slot_delivery X o') nm)"
    "sl_next l = fold (\<lambda>(o', len). qmap_insert o' (slot_announced P X (o', len))) nm (sl_next ?l)" by auto
  have "sl_offset l = int (x_len X)"
    using process_slots_offset [OF l(1)] slots_honestD(5) [OF assms(1)] by simp
  with l show ?thesis
    unfolding ProcessCleartext_conv foldS_used_slots [of _ _ "next_messages s"] assms(3)
    by (simp add: assms(2))
qed

theorem exchange_delivers_witness:
  "\<exists>s'. ProcessCleartext demo_prims 2 2
       ((demo_member [] 0 False [])\<lparr>cleartext := x_revealed demo_prims demo_exchange\<rparr>)
     = Inr (s', [(0, [7])], 15)"
proof -
  let ?s = "(demo_member [] 0 False [])\<lparr>cleartext := x_revealed demo_prims demo_exchange\<rparr>"
  have "x_owner demo_exchange 0 = Some 0"
    by (simp add: x_owner_def demo_exchange_def demo_start_def demo_upt bit_at_def demo_member_def)
  then have d: "slot_delivery demo_exchange 0 = [(0, [7])]"
    by (simp add: slot_delivery_def slot_msg_def demo_exchange_def demo_start_def demo_member_def)
  have "cleartext ?s = x_revealed demo_prims demo_exchange" "used_slots (next_messages ?s) = [(0, 14)]"
    by (simp_all add: demo_member_def)
  from exchange_delivers [OF demo_slots_honest this] show ?thesis
    by (auto simp: d) (simp add: demo_exchange_def demo_start_def)
qed

text \<open>
  Sending.  The owner of an open slot whose pending message has the length the schedule gives
  its slot always produces a ciphertext, of exactly the scheduled message length.
\<close>

theorem GenerateCiphertext_owner:
  assumes "prims_ok P" and "schedule_ok n s" and "slot_open s" and "\<not> accuse s"
    and "my_idx s = int o'" and "(o', int (SlotHeaderLength P + length (slot_msg s))) \<in> set (next_messages s)"
    and "list_all (\<lambda>seed. length seed = OptimalSeedSize P) ent" and "list_ex (\<lambda>seed. seed \<noteq> NullSeed P) ent"
  shows "\<exists>ct r. GenerateCiphertext P phase gd ent s = Inr (ct, r) \<and> length ct = nat (msg_length s)"
proof -
  obtain pre suf where "next_messages s = pre @ (o', int (SlotHeaderLength P + length (slot_msg s))) # suf"
    using split_list [OF assms(6)] by blast
  then show ?thesis
    using assms open_bytes_nonneg [of n] schedule_ok_nonneg [OF assms(2)]
    by (intro own_slot_fits) (auto simp: schedule_ok_def)
qed

theorem GenerateCiphertext_owner_witness:
  "\<exists>ct r. GenerateCiphertext demo_prims 2 [] [[4, 2]] (demo_member [] 0 True [7]) = Inr (ct, r)
     \<and> length ct = 15"
proof -
  let ?s = "demo_member [] 0 True [7]"
  have "schedule_ok 2 ?s" "slot_open ?s" "\<not> accuse ?s" "my_idx ?s = int 0"
    "(0, int (SlotHeaderLength demo_prims + length (slot_msg ?s))) \<in> set (next_messages ?s)"
    "list_all (\<lambda>seed. length seed = OptimalSeedSize demo_prims) [[4, 2]]"
    "list_ex (\<lambda>seed. seed \<noteq> NullSeed demo_prims) [[4, 2]]"
    by (simp_all add: schedule_ok_def demo_member_def demo_sizes slot_msg_def)
  from GenerateCiphertext_owner [OF demo_prims_ok this, of 2 "[]"] show ?thesis
    by (simp add: demo_member_def)
qed

text \<open>
  A request to open a slot that was not on the list of an exchange is not repeated: the client
  already counts its slot as open, and its next ciphertext is built at an offset behind the whole
  message, an access outside the buffer.
\<close>

theorem lost_open_request:
  assumes "prims_ok P" and "schedule_ok n s" and "slot_open s" and "\<not> accuse s"
    and "my_idx s = int o'" and "o' \<notin> qmap_dom (next_messages s)"
    and "list_all (\<lambda>seed. length seed = OptimalSeedSize P) ent" and "list_ex (\<lambda>seed. seed \<noteq> NullSeed P) ent"
  shows "GenerateCiphertext P phase gd ent s = Inl OutOfBounds"
proof -
  have "0 \<le> sum_list (map snd (next_messages s))"
    using schedule_ok_nonneg [OF assms(2)] by (rule sum_list_nonneg_snd)
  with assms open_bytes_nonneg [of n] show ?thesis
    by (intro lost_slot_faults) (auto simp: schedule_ok_def)
qed

theorem lost_open_request_witness:
  "GenerateCiphertext demo_prims 2 [] [[4, 2]] (demo_member [] 1 True [7]) = Inl OutOfBounds"
proof -
  let ?s = "demo_member [] 1 True [7]"
  have "schedule_ok 2 ?s" "slot_open ?s" "\<not> accuse ?s" "my_idx ?s = int 1"
    "1 \<notin> qmap_dom (next_messages ?s)"
    "list_all (\<lambda>seed. length seed = OptimalSeedSize demo_prims) [[4, 2]]"
    "list_ex (\<lambda>seed. seed \<noteq> NullSeed demo_prims) [[4, 2]]"
    by (simp_all add: schedule_ok_def demo_member_def demo_sizes)
  from lost_open_request [OF demo_prims_ok this] show ?thesis by simp
qed

text \<open>
  A slot scheduled with fewer bytes than a seed makes every member that reads the cleartext
  access it out of bounds; nothing checks the length an owner announces against the header.
\<close>

theorem short_slot_faults:
  assumes "next_messages s = (o', len) # suf" and "0 < len" and "len < int (OptimalSeedSize P)"
    and "open_bytes n + len \<le> int (length (cleartext s))"
  shows "ProcessCleartext P n phase s = Inl OutOfBounds"
proof -
  have "Derandomize P m = Inl OutOfBounds" if "length m = nat len" for m
    using that assms(2,3) by (simp add: Derandomize_def raw_view_def)
  then show ?thesis
    using assms open_bytes_nonneg [of n]
    by (simp add: ProcessCleartext_conv process_slot_def raw_view_def Let_def)
qed

theorem short_slot_faults_witness:
  "ProcessCleartext demo_prims 2 5 ((demo_member [] 0 False [])
     \<lparr>next_messages := [(1, 1)], cleartext := [0, 9]\<rparr>) = Inl OutOfBounds"
  by (rule short_slot_faults [where o' = 1 and len = 1 and suf = "[]"]) (simp_all add: demo_sizes)

end
