(* ===== verification/Roster.thy ===== *)
theory Roster
  imports Primitives
begin

text \<open>
  Rosters, \<^verbatim>\<open>src/src/Identity/Roster.cpp\<close>: the members of a round in a fixed order, with a hash
  from their ids to their positions.
\<close>

section \<open>Definitions\<close>

text \<open>A \<^verbatim>\<open>PublicIdentity\<close>: the id, the verification key and the Diffie-Hellman public key.\<close>

record pub_identity =
  pi_id :: peer
  pi_key :: bytes
  pi_dh :: bytes

record roster =
  m_roster :: "pub_identity list"
  m_id_to_int :: "peer \<rightharpoonup> nat"

definition mk_roster :: "pub_identity list \<Rightarrow> roster" where
  "mk_roster xs = \<lparr>m_roster = xs,
     m_id_to_int = fold (\<lambda>idx m. m(pi_id (xs ! idx) \<mapsto> idx)) [0..<length xs] Map.empty\<rparr>"

definition Contains :: "roster \<Rightarrow> peer \<Rightarrow> bool" where
  "Contains R i \<longleftrightarrow> m_id_to_int R i \<noteq> None"

definition GetIndex :: "roster \<Rightarrow> peer \<Rightarrow> int" where
  "GetIndex R i = (case m_id_to_int R i of None \<Rightarrow> -1 | Some n \<Rightarrow> int n)"

definition GetId :: "roster \<Rightarrow> int \<Rightarrow> fault + peer" where
  "GetId R i = (if 0 \<le> i \<and> nat i < length (m_roster R) then Inr (pi_id (m_roster R ! nat i)) else Inl OutOfBounds)"

definition GetKey :: "roster \<Rightarrow> peer \<Rightarrow> bytes option" where
  "GetKey R i = (let index = GetIndex R i
     in if index = -1 then None else Some (pi_key (m_roster R ! nat index)))"

definition GetKeyAt :: "roster \<Rightarrow> int \<Rightarrow> fault + bytes" where
  "GetKeyAt R i = (if 0 \<le> i \<and> nat i < length (m_roster R) then Inr (pi_key (m_roster R ! nat i)) else Inl OutOfBounds)"

definition GetIdentity :: "roster \<Rightarrow> peer \<Rightarrow> pub_identity" where
  "GetIdentity R i = (let index = GetIndex R i
     in if index = -1 then \<lparr>pi_id = 0, pi_key = [], pi_dh = []\<rparr> else m_roster R ! nat index)"

definition Count :: "roster \<Rightarrow> nat" where
  "Count R = length (m_roster R)"

section \<open>Lemmas\<close>

text \<open>A roster as its constructor builds it, from identities with distinct ids.\<close>

definition roster_ok :: "roster \<Rightarrow> bool" where
  "roster_ok R \<longleftrightarrow> R = mk_roster (m_roster R) \<and> distinct (map pi_id (m_roster R))"

lemma fold_index_upd:
  "m \<le> length xs \<Longrightarrow> distinct (map pi_id xs) \<Longrightarrow>
     fold (\<lambda>idx f. f(pi_id (xs ! idx) \<mapsto> idx)) [0..<m] Map.empty i = Some n \<longleftrightarrow> n < m \<and> pi_id (xs ! n) = i"
proof (induction m)
  case (Suc m)
  have "pi_id (xs ! n) \<noteq> pi_id (xs ! m)" if "n < m"
    using that Suc.prems nth_eq_iff_index_eq [of "map pi_id xs" n m] by simp
  then show ?case using Suc by (auto simp: less_Suc_eq)
qed simp

lemma id_to_int_iff:
  assumes "roster_ok R"
  shows "m_id_to_int R i = Some n \<longleftrightarrow> n < Count R \<and> pi_id (m_roster R ! n) = i"
proof -
  have "R = mk_roster (m_roster R)" using assms by (simp add: roster_ok_def)
  then have "m_id_to_int R = m_id_to_int (mk_roster (m_roster R))" by simp
  then show ?thesis
    using assms fold_index_upd [of "length (m_roster R)" "m_roster R" i n]
    by (simp add: roster_ok_def mk_roster_def Count_def)
qed

lemma GetIndex_Some:
  assumes "roster_ok R" and "Contains R i"
  obtains n where "GetIndex R i = int n" and "n < Count R" and "pi_id (m_roster R ! n) = i"
proof -
  from assms(2) obtain n where n: "m_id_to_int R i = Some n" by (auto simp: Contains_def)
  from that [of n] show ?thesis using n id_to_int_iff [OF assms(1), of i n] by (simp add: GetIndex_def)
qed

lemma GetIndex_absent: "\<not> Contains R i \<Longrightarrow> GetIndex R i = -1"
  by (simp add: Contains_def GetIndex_def)

lemma GetIndex_bounds:
  assumes "roster_ok R"
  shows "-1 \<le> GetIndex R i" and "GetIndex R i < int (Count R)"
    and "GetIndex R i = -1 \<longleftrightarrow> \<not> Contains R i"
  by (cases "Contains R i"; (auto elim!: GetIndex_Some [OF assms] simp: GetIndex_absent))+

lemma GetIndex_nth: "roster_ok R \<Longrightarrow> n < Count R \<Longrightarrow> GetIndex R (pi_id (m_roster R ! n)) = int n"
  using id_to_int_iff [of R "pi_id (m_roster R ! n)" n] by (simp add: GetIndex_def)

lemma GetId_GetIndex: "roster_ok R \<Longrightarrow> Contains R i \<Longrightarrow> GetId R (GetIndex R i) = Inr i"
  by (erule (1) GetIndex_Some) (simp add: GetId_def Count_def)

lemma GetIndex_inj: "roster_ok R \<Longrightarrow> Contains R i \<Longrightarrow> Contains R j \<Longrightarrow> GetIndex R i = GetIndex R j \<Longrightarrow> i = j"
  by (metis GetId_GetIndex sum.inject(2))

lemma GetKey_None: "roster_ok R \<Longrightarrow> GetKey R i = None \<longleftrightarrow> \<not> Contains R i"
  using GetIndex_bounds(3) [of R i] by (simp add: GetKey_def Let_def)

lemma GetKey_GetKeyAt: "roster_ok R \<Longrightarrow> Contains R i \<Longrightarrow> GetKey R i = Some k \<longleftrightarrow> GetKeyAt R (GetIndex R i) = Inr k"
  using GetIndex_bounds [of R i] by (auto simp: GetKey_def GetKeyAt_def Let_def Count_def)

section \<open>Property\<close>

text \<open>
  A roster of identities with distinct ids is a bijection between its members' ids and the
  positions below its size: looking up the id at a position gives the position back, looking up the
  position of a member's id gives the id back, and an id that is no member has position -1 and no
  key.
\<close>

theorem roster_bijection:
  assumes "roster_ok R"
  shows "(\<forall>n < Count R. GetIndex R (pi_id (m_roster R ! n)) = int n)
    \<and> (\<forall>i. if Contains R i then GetId R (GetIndex R i) = Inr i \<and> GetKey R i \<noteq> None
           else GetIndex R i = -1 \<and> GetKey R i = None)"
  using GetIndex_nth [OF assms] GetId_GetIndex [OF assms] GetKey_None [OF assms]
    GetIndex_bounds(3) [OF assms] by auto

definition demo_roster :: "peer list \<Rightarrow> roster" where
  "demo_roster ids = mk_roster (map (\<lambda>i. \<lparr>pi_id = i, pi_key = [of_nat i], pi_dh = [of_nat i, 1]\<rparr>) ids)"

lemma demo_roster_ok: "distinct ids \<Longrightarrow> roster_ok (demo_roster ids)"
  by (simp add: roster_ok_def demo_roster_def mk_roster_def comp_def)

theorem roster_bijection_witness:
  "GetIndex (demo_roster [10, 7]) 7 = 1 \<and> GetId (demo_roster [10, 7]) 1 = Inr 7
     \<and> GetIndex (demo_roster [10, 7]) 8 = -1"
proof -
  have ok: "roster_ok (demo_roster [10, 7])" by (rule demo_roster_ok) simp
  have C: "Contains (demo_roster [10, 7]) 7" "\<not> Contains (demo_roster [10, 7]) 8"
    "Count (demo_roster [10, 7]) = 2" "pi_id (m_roster (demo_roster [10, 7]) ! 1) = 7"
    by (simp_all add: Contains_def Count_def demo_roster_def mk_roster_def)
  have "GetIndex (demo_roster [10, 7]) 7 = int 1"
    using roster_bijection [OF ok] C(3,4) by (metis one_less_numeral_iff semiring_norm(76))
  with roster_bijection [OF ok] C(1,2) show ?thesis by (metis of_nat_1)
qed

end
