(* ===== verification/Streams.thy ===== *)
theory Streams
  imports Serialization
begin

text \<open>
  The serialization operators of Qt's \<^verbatim>\<open>QDataStream\<close> that the messages of the program use are
  parameters of the model, collected in the record \<open>qds\<close>.  A stream in write mode is the list of
  bytes written so far; a read operator takes the rest of the stream and returns a value (for a
  stream that ends too early, whatever Qt leaves in the variable) and the bytes behind it.
  The documented behaviour the code relies on is \<open>qds_ok\<close>: reading returns what was written and
  leaves the rest of the stream, for values of the sizes a \<^verbatim>\<open>QByteArray\<close> or \<^verbatim>\<open>QBitArray\<close> can have.
\<close>

section \<open>Definitions\<close>

record qds =
  put_int :: "int32 \<Rightarrow> bytes"
  get_int :: "bytes \<Rightarrow> int32 \<times> bytes"
  put_bool :: "bool \<Rightarrow> bytes"
  get_bool :: "bytes \<Rightarrow> bool \<times> bytes"
  put_bytes :: "bytes \<Rightarrow> bytes"
  get_bytes :: "bytes \<Rightarrow> bytes \<times> bytes"
  put_bits :: "bits \<Rightarrow> bytes"
  get_bits :: "bytes \<Rightarrow> bits \<times> bytes"
  put_id :: "peer \<Rightarrow> bytes"
  get_id :: "bytes \<Rightarrow> peer \<times> bytes"
  put_hash :: "(nat \<rightharpoonup> bytes) \<Rightarrow> bytes"
  get_hash :: "bytes \<Rightarrow> (nat \<rightharpoonup> bytes) \<times> bytes"
  put_vec :: "bytes list \<Rightarrow> bytes"
  get_vec :: "bytes \<Rightarrow> bytes list \<times> bytes"

abbreviation small :: "'a list \<Rightarrow> bool" where
  "small xs \<equiv> length xs < 2 ^ 31"

definition qds_ok :: "qds \<Rightarrow> bool" where
  "qds_ok Q \<longleftrightarrow>
     (\<forall>x r. get_int Q (put_int Q x @ r) = (x, r))
     \<and> (\<forall>x r. get_bool Q (put_bool Q x @ r) = (x, r))
     \<and> (\<forall>x r. small x \<longrightarrow> get_bytes Q (put_bytes Q x @ r) = (x, r))
     \<and> (\<forall>x r. small x \<longrightarrow> get_bits Q (put_bits Q x @ r) = (x, r))"

lemma qds_okD:
  assumes "qds_ok Q"
  shows "get_int Q (put_int Q x @ r) = (x, r)"
    and "get_bool Q (put_bool Q b @ r) = (b, r)"
    and "small d \<Longrightarrow> get_bytes Q (put_bytes Q d @ r) = (d, r)"
    and "small bs \<Longrightarrow> get_bits Q (put_bits Q bs @ r) = (bs, r)"
  using assms by (auto simp: qds_ok_def)

text \<open>\<^verbatim>\<open>QPair\<close> and \<^verbatim>\<open>Triple\<close> (\<^verbatim>\<open>src/src/Utils/Triple.hpp\<close>) are written component by component.\<close>

definition put_triple :: "qds \<Rightarrow> int32 \<times> int32 \<times> int32 \<Rightarrow> bytes" where
  "put_triple Q = (\<lambda>(a, b, c). put_int Q a @ put_int Q b @ put_int Q c)"

definition get_triple :: "qds \<Rightarrow> bytes \<Rightarrow> (int32 \<times> int32 \<times> int32) \<times> bytes" where
  "get_triple Q s =
     (let (a, s) = get_int Q s; (b, s) = get_int Q s; (c, s) = get_int Q s in ((a, b, c), s))"

definition put_bitpair :: "qds \<Rightarrow> bits \<times> bits \<Rightarrow> bytes" where
  "put_bitpair Q = (\<lambda>(a, b). put_bits Q a @ put_bits Q b)"

definition get_bitpair :: "qds \<Rightarrow> bytes \<Rightarrow> (bits \<times> bits) \<times> bytes" where
  "get_bitpair Q s = (let (a, s) = get_bits Q s; (b, s) = get_bits Q s in ((a, b), s))"

definition put_rebuttal :: "qds \<Rightarrow> int32 \<times> bytes \<Rightarrow> bytes" where
  "put_rebuttal Q = (\<lambda>(a, b). put_int Q a @ put_bytes Q b)"

definition get_rebuttal :: "qds \<Rightarrow> bytes \<Rightarrow> (int32 \<times> bytes) \<times> bytes" where
  "get_rebuttal Q s = (let (a, s) = get_int Q s; (b, s) = get_bytes Q s in ((a, b), s))"

section \<open>A concrete instance\<close>

text \<open>
  A stream format that satisfies the laws, used to exhibit concrete runs: numbers are four bytes,
  arrays a number followed by their elements, everything else is empty.
\<close>

definition demo_get_int :: "bytes \<Rightarrow> int32 \<times> bytes" where
  "demo_get_int s = (case ReadInt s 0 of Inl _ \<Rightarrow> 0 | Inr x \<Rightarrow> x, drop 4 s)"

definition demo_qds :: qds where
  "demo_qds = \<lparr>
     put_int = int_bytes, get_int = demo_get_int,
     put_bool = (\<lambda>b. if b then [1] else [0]), get_bool = (\<lambda>s. (s \<noteq> [] \<and> hd s = 1, tl s)),
     put_bytes = (\<lambda>d. int_bytes (of_nat (length d)) @ d),
     get_bytes = (\<lambda>s. let (n, s) = demo_get_int s in (take (unat n) s, drop (unat n) s)),
     put_bits = (\<lambda>d. int_bytes (of_nat (length d)) @ map (\<lambda>b. if b then 1 else 0) d),
     get_bits = (\<lambda>s. let (n, s) = demo_get_int s in (map (\<lambda>b. b = 1) (take (unat n) s), drop (unat n) s)),
     put_id = (\<lambda>i. int_bytes (of_nat i)), get_id = (\<lambda>s. let (n, s) = demo_get_int s in (unat n, s)),
     put_hash = (\<lambda>h. []), get_hash = (\<lambda>s. (Map.empty, s)),
     put_vec = (\<lambda>v. []), get_vec = (\<lambda>s. ([], s))\<rparr>"

lemma demo_get_int [simp]: "demo_get_int (int_bytes x @ r) = (x, r)"
  using ReadInt_int_bytes [of 0 "[]" x r] by (simp add: demo_get_int_def)

lemma unat_of_small: "small xs \<Longrightarrow> unat (of_nat (length xs) :: int32) = length xs"
  by (simp add: unsigned_of_nat take_bit_nat_eq_self)

lemma demo_qds_ok: "qds_ok demo_qds"
  by (simp add: qds_ok_def demo_qds_def unat_of_small Let_def comp_def)

end
