(* ===== verification/RoundStateMachine.thy ===== *)
theory RoundStateMachine
  imports Streams
begin

text \<open>
  The state machine inside every round, \<^verbatim>\<open>src/src/Anonymity/RoundStateMachine.hpp\<close>, and its
  message log, \<^verbatim>\<open>Log.cpp\<close>.

  The class template is parameterised by the round class \<^verbatim>\<open>T\<close>: the record \<open>round_class\<close> holds what
  the machine calls in it.  A message handler or transition callback of the round returns an
  \<open>effect\<close>: the new round state and the call it makes into the machine as its last action (all
  handlers of the program call \<^verbatim>\<open>StateComplete\<close>, \<^verbatim>\<open>SetState\<close> or \<^verbatim>\<open>Stop\<close> as their last action), or the
  round state at the point where it throws a \<^verbatim>\<open>QRunTimeError\<close>.  \<^verbatim>\<open>StateComplete\<close> and \<^verbatim>\<open>ProcessData\<close>
  call each other through the handlers, so they are defined with fuel; running out of it is
  \<open>Inl Loops\<close>.  A result \<open>Inr (m, True)\<close> is an exception in flight.
\<close>

section \<open>The log\<close>

record msg_log =
  entries :: "(bytes \<times> peer) list"
  enabled :: bool

definition Log :: msg_log where
  "Log = \<lparr>entries = [], enabled = True\<rparr>"

definition ToggleEnabled :: "msg_log \<Rightarrow> msg_log" where
  "ToggleEnabled l = l\<lparr>enabled := \<not> enabled l\<rparr>"

definition Append :: "bytes \<Rightarrow> peer \<Rightarrow> msg_log \<Rightarrow> msg_log" where
  "Append entry remote l = (if enabled l then l\<lparr>entries := entries l @ [(entry, remote)]\<rparr> else l)"

definition Pop :: "msg_log \<Rightarrow> fault + msg_log" where
  "Pop l = (if enabled l
            then if entries l = [] then Inl OutOfBounds else Inr (l\<lparr>entries := butlast (entries l)\<rparr>)
            else Inr l)"

definition At :: "msg_log \<Rightarrow> int \<Rightarrow> fault + (bytes \<times> peer)" where
  "At l idx = (if int (length (entries l)) < idx \<or> idx < 0 then Inr ([], 0)
               else if nat idx < length (entries l) then Inr (entries l ! nat idx)
               else Inl OutOfBounds)"

definition Clear :: "msg_log \<Rightarrow> msg_log" where
  "Clear l = l\<lparr>entries := []\<rparr>"

section \<open>States, transitions and the round class\<close>

datatype control = Stay | Complete | Goto nat | Halt string

datatype 'r effect = Done 'r control | Throw 'r | Crash fault

type_synonym 'r handler = "int32 \<Rightarrow> peer \<Rightarrow> bytes \<Rightarrow> 'r \<Rightarrow> 'r effect"
type_synonym 'r callback = "int32 \<Rightarrow> 'r \<Rightarrow> 'r effect"

definition EmptyHandleMessage :: "'r handler" where
  "EmptyHandleMessage phase from stream r = Done r Stay"

definition EmptyTransitionCallback :: "'r callback" where
  "EmptyTransitionCallback phase r = Done r Stay"

record 'r sm_state =
  sm_id :: nat
  sm_message_type :: int
  sm_handler :: "'r handler"
  sm_callback :: "'r callback"

record 'r sm_table =
  valid_message_types :: "int list"
  state_transitions :: "nat \<rightharpoonup> nat"
  states :: "nat \<rightharpoonup> 'r sm_state"
  cycle_state :: int

definition empty_table :: "'r sm_table" where
  "empty_table = \<lparr>valid_message_types = [], state_transitions = Map.empty, states = Map.empty, cycle_state = -1\<rparr>"

definition AddState ::
    "nat \<Rightarrow> int \<Rightarrow> 'r handler option \<Rightarrow> 'r callback option \<Rightarrow> 'r sm_table \<Rightarrow> fault + 'r sm_table" where
  "AddState state message_type message_handler callback T =
     (if states T state \<noteq> None then Inl Fatal
      else Inr (T\<lparr>valid_message_types := (if message_type \<noteq> -1 then message_type # valid_message_types T
                                          else valid_message_types T),
                  states := (states T)(state \<mapsto>
                    \<lparr>sm_id = state, sm_message_type = message_type,
                     sm_handler = (case message_handler of None \<Rightarrow> EmptyHandleMessage | Some h \<Rightarrow> h),
                     sm_callback = (case callback of None \<Rightarrow> EmptyTransitionCallback | Some c \<Rightarrow> c)\<rparr>)\<rparr>))"

definition AddTransition :: "nat \<Rightarrow> nat \<Rightarrow> 'r sm_table \<Rightarrow> fault + 'r sm_table" where
  "AddTransition from to T =
     (if state_transitions T from \<noteq> None then Inl Fatal
      else Inr (T\<lparr>state_transitions := (state_transitions T)(from \<mapsto> to)\<rparr>))"

definition SetCycleState :: "nat \<Rightarrow> 'r sm_table \<Rightarrow> fault + 'r sm_table" where
  "SetCycleState state T = Inr (T\<lparr>cycle_state := int state\<rparr>)"

text \<open>What the machine uses of the round class \<^verbatim>\<open>T\<close>, and of the stream operators.\<close>

record 'r round_class =
  rc_table :: "'r sm_table"
  rc_qds :: qds
  rc_nonce :: "'r \<Rightarrow> bytes"
  rc_verify :: "'r \<Rightarrow> peer \<Rightarrow> bytes \<Rightarrow> bytes option"
  rc_before :: "'r \<Rightarrow> 'r"
  rc_cycle :: "int32 \<Rightarrow> 'r \<Rightarrow> 'r \<times> control"
  rc_stop :: "string \<Rightarrow> 'r \<Rightarrow> 'r option"
  rc_finished :: "nat"
  rc_on_stop :: "'r \<Rightarrow> 'r"

record 'r machine =
  rm_round :: 'r
  rm_current :: "nat option"
  rm_log :: msg_log
  rm_next_log :: msg_log
  rm_phase :: int32

definition IncrementPhase :: "int32 \<Rightarrow> fault + int32" where
  "IncrementPhase p = (if sint p = 2 ^ 31 - 1 then Inl Overflow else Inr (p + 1))"

text \<open>\<^verbatim>\<open>GetNextState\<close>, or the state a \<^verbatim>\<open>SetState\<close> asks for.\<close>

definition target_state :: "'r sm_table \<Rightarrow> nat option \<Rightarrow> nat \<Rightarrow> fault + 'r sm_state" where
  "target_state T tgt cur =
     (case (case tgt of None \<Rightarrow> state_transitions T cur | Some s \<Rightarrow> Some s) of
        None \<Rightarrow> Inl Fatal
      | Some s \<Rightarrow> (case states T s of None \<Rightarrow> Inl Fatal | Some st \<Rightarrow> Inr st))"

section \<open>Running the machine\<close>

text \<open>The head of a message: type, round id and, in a round with phases, the phase.\<close>

definition read_head :: "'r round_class \<Rightarrow> bytes \<Rightarrow> int \<times> bytes \<times> int32 \<times> bytes" where
  "read_head C payload =
     (let Q = rc_qds C; (mtype, s) = get_int Q payload; (round_id, s) = get_bytes Q s;
          (phase, s) = (if cycle_state (rc_table C) \<noteq> -1 then get_int Q s else (0, s))
      in (sint mtype, round_id, phase, s))"

text \<open>
  \<^verbatim>\<open>StateComplete\<close>, \<^verbatim>\<open>SetState\<close>, \<^verbatim>\<open>ProcessData\<close> and \<^verbatim>\<open>Stop\<close> reach each other through the handlers and
  callbacks of the round.  Each is defined relative to the machine that runs the nested calls,
  \<open>rec\<close>; \<open>exec\<close> ties the knot.
\<close>

datatype call = CStateComplete "nat option" | CSetState nat | CProcessData peer bytes | CStop string

type_synonym 'r runner = "call \<Rightarrow> 'r machine \<Rightarrow> fault + ('r machine \<times> bool)"

definition perform :: "'r runner \<Rightarrow> control \<Rightarrow> 'r machine \<Rightarrow> fault + ('r machine \<times> bool)" where
  "perform rec c m =
     (case c of
        Stay \<Rightarrow> Inr (m, False)
      | Complete \<Rightarrow> rec (CStateComplete None) m
      | Goto state \<Rightarrow> rec (CSetState state) m
      | Halt reason \<Rightarrow> rec (CStop reason) m)"

definition run_effect :: "'r runner \<Rightarrow> 'r effect \<Rightarrow> 'r machine \<Rightarrow> fault + ('r machine \<times> bool)" where
  "run_effect rec e m =
     (case e of
        Done r c \<Rightarrow> perform rec c (m\<lparr>rm_round := r\<rparr>)
      | Throw r \<Rightarrow> Inr (m\<lparr>rm_round := r\<rparr>, True)
      | Crash f \<Rightarrow> Inl f)"

text \<open>\<^verbatim>\<open>Round::Stop\<close>, which runs at most once and ends in the final state.\<close>

definition RoundStop :: "'r runner \<Rightarrow> 'r round_class \<Rightarrow> string \<Rightarrow> 'r machine \<Rightarrow> fault + ('r machine \<times> bool)" where
  "RoundStop rec C reason m =
     (case rc_stop C reason (rm_round m) of
        None \<Rightarrow> Inr (m, False)
      | Some r \<Rightarrow>
          bindS (rec (CSetState (rc_finished C)) (m\<lparr>rm_round := r\<rparr>)) (\<lambda>(m, thrown).
            if thrown then Inr (m, True)
            else Inr (m\<lparr>rm_round := rc_on_stop C (rm_round m)\<rparr>, False)))"

definition SetState :: "'r runner \<Rightarrow> 'r round_class \<Rightarrow> nat \<Rightarrow> 'r machine \<Rightarrow> fault + ('r machine \<times> bool)" where
  "SetState rec C state m =
     (if states (rc_table C) state = None then Inl Fatal
      else rec (CStateComplete (Some state))
             (if rm_current m = None then m\<lparr>rm_current := Some state\<rparr> else m))"

text \<open>The messages kept for later are processed after the transition, in their order of arrival.\<close>

fun replay :: "'r runner \<Rightarrow> (bytes \<times> peer) list \<Rightarrow> 'r machine \<Rightarrow> fault + ('r machine \<times> bool)" where
  "replay rec [] m = Inr (m, False)"
| "replay rec ((data, from) # tmp) m = bindS (rec (CProcessData from data) m) (\<lambda>(m, _). replay rec tmp m)"

definition enter_state ::
    "'r runner \<Rightarrow> 'r round_class \<Rightarrow> nat option \<Rightarrow> nat \<Rightarrow> (bytes \<times> peer) list \<Rightarrow> 'r machine
       \<Rightarrow> fault + ('r machine \<times> bool)" where
  "enter_state rec C tgt cur tmp m =
     bindS (target_state (rc_table C) tgt cur) (\<lambda>st.
       let m = m\<lparr>rm_current := Some (sm_id st)\<rparr>
       in bindS (run_effect rec (sm_callback st (rm_phase m) (rm_round m)) m) (\<lambda>(m, thrown).
            if thrown then Inr (m, True) else replay rec tmp m))"

definition StateComplete ::
    "'r runner \<Rightarrow> 'r round_class \<Rightarrow> nat option \<Rightarrow> 'r machine \<Rightarrow> fault + ('r machine \<times> bool)" where
  "StateComplete rec C tgt m =
     (let m = m\<lparr>rm_round := rc_before C (rm_round m)\<rparr>;
          tmp = entries (rm_next_log m);
          m = m\<lparr>rm_next_log := Log\<rparr>
      in case rm_current m of None \<Rightarrow> Inl Fatal
         | Some cur \<Rightarrow>
             if cycle_state (rc_table C) = int cur \<and> tgt = None then
               let (r, c) = rc_cycle C (rm_phase m) (rm_round m); m = m\<lparr>rm_round := r\<rparr>
               in if c \<noteq> Stay then perform rec c m
                  else bindS (IncrementPhase (rm_phase m)) (\<lambda>p.
                         enter_state rec C tgt cur tmp (m\<lparr>rm_log := Log, rm_phase := p\<rparr>))
             else enter_state rec C tgt cur tmp m)"

definition ProcessDataBase ::
    "'r runner \<Rightarrow> 'r round_class \<Rightarrow> peer \<Rightarrow> bytes \<Rightarrow> 'r machine \<Rightarrow> fault + ('r machine \<times> bool)" where
  "ProcessDataBase rec C from data m =
     (case rc_verify C (rm_round m) from data of
        None \<Rightarrow> Inr (m, True)
      | Some payload \<Rightarrow>
          let (mtype, round_id, phase, stream) = read_head C payload
          in if round_id \<noteq> rc_nonce C (rm_round m) then Inr (m, True)
             else if sint phase < sint (rm_phase m) then Inr (m, True)
             else if mtype \<notin> set (valid_message_types (rc_table C)) then Inr (m, True)
             else case rm_current m of None \<Rightarrow> Inl Fatal
               | Some cur \<Rightarrow>
                   (case states (rc_table C) cur of None \<Rightarrow> Inl Fatal
                    | Some st \<Rightarrow>
                        if mtype \<noteq> sm_message_type st \<or> sint (rm_phase m) < sint phase then
                          bindS (Pop (rm_log m)) (\<lambda>l.
                            Inr (m\<lparr>rm_log := l, rm_next_log := Append data from (rm_next_log m)\<rparr>, False))
                        else run_effect rec (sm_handler st (rm_phase m) from stream (rm_round m)) m))"

text \<open>\<^verbatim>\<open>ProcessData\<close> catches the exceptions of everything below it.\<close>

definition ProcessData ::
    "'r runner \<Rightarrow> 'r round_class \<Rightarrow> peer \<Rightarrow> bytes \<Rightarrow> 'r machine \<Rightarrow> fault + ('r machine \<times> bool)" where
  "ProcessData rec C from data m =
     bindS (ProcessDataBase rec C from data (m\<lparr>rm_log := Append data from (rm_log m)\<rparr>)) (\<lambda>(m, thrown).
       if thrown then bindS (Pop (rm_log m)) (\<lambda>l. Inr (m\<lparr>rm_log := l\<rparr>, False)) else Inr (m, False))"

definition dispatch :: "'r runner \<Rightarrow> 'r round_class \<Rightarrow> 'r runner" where
  "dispatch rec C call m =
     (case call of
        CStateComplete tgt \<Rightarrow> StateComplete rec C tgt m
      | CSetState state \<Rightarrow> SetState rec C state m
      | CProcessData from data \<Rightarrow> ProcessData rec C from data m
      | CStop reason \<Rightarrow> RoundStop rec C reason m)"

primrec exec :: "nat \<Rightarrow> 'r round_class \<Rightarrow> 'r runner" where
  "exec 0 C = (\<lambda>call m. Inl Loops)"
| "exec (Suc k) C = dispatch (exec k C) C"

section \<open>Invariants of every run\<close>

text \<open>
  Rules for a property of the results of a run: it holds of every machine that a computation
  returns, exception or not.
\<close>

definition holds :: "('r machine \<Rightarrow> bool) \<Rightarrow> fault + ('r machine \<times> bool) \<Rightarrow> bool" where
  "holds Q res \<longleftrightarrow> (\<forall>m t. res = Inr (m, t) \<longrightarrow> Q m)"

lemma holdsD: "holds Q res \<Longrightarrow> res = Inr (m, t) \<Longrightarrow> Q m"
  by (simp add: holds_def)

lemma holds_Inr: "Q m \<Longrightarrow> holds Q (Inr (m, t))"
  by (simp add: holds_def)

lemma holds_Inl: "holds Q (Inl f)"
  by (simp add: holds_def)

lemma holds_if: "(b \<Longrightarrow> holds Q x) \<Longrightarrow> (\<not> b \<Longrightarrow> holds Q y) \<Longrightarrow> holds Q (if b then x else y)"
  by simp

lemma holds_bind_pure: "(\<And>x. m = Inr x \<Longrightarrow> holds R (f x)) \<Longrightarrow> holds R (bindS m f)"
  by (cases m) (auto simp: holds_def)

lemma holds_bindS:
  assumes "holds Q m" and "\<And>x t. Q x \<Longrightarrow> holds R (f (x, t))"
  shows "holds R (bindS m f)"
proof (rule holds_bind_pure)
  fix x assume "m = Inr x"
  with holdsD [OF assms(1), of "fst x" "snd x"] assms(2) [of "fst x" "snd x"] show "holds R (f x)" by simp
qed

lemmas holds_intros = holds_Inr holds_Inl holds_if holds_bind_pure

lemma holds_perform: "(\<And>call. holds Q (rec call m)) \<Longrightarrow> Q m \<Longrightarrow> holds Q (perform rec c m)"
  by (cases c) (simp_all add: perform_def holds_Inr)

lemma holds_replay:
  assumes "\<And>call m. Q m \<Longrightarrow> holds Q (rec call m)" and "Q m"
  shows "holds Q (replay rec tmp m)"
  using assms(2)
proof (induction tmp arbitrary: m)
  case (Cons x tmp)
  obtain data "from" where x: "x = (data, from)" by (cases x)
  show ?case
    unfolding x replay.simps
    by (rule holds_bindS [OF assms(1) [OF Cons.prems]]) (simp add: Cons.IH)
qed (simp add: holds_Inr)

text \<open>
  What a round promises the machine: an invariant of its state, which may mention the phase, kept by
  every handler and callback, exception or not, and by the hooks.
\<close>

fun effect_ok :: "('r \<Rightarrow> bool) \<Rightarrow> 'r effect \<Rightarrow> bool" where
  "effect_ok I (Done r c) = I r"
| "effect_ok I (Throw r) = I r"
| "effect_ok I (Crash f) = True"

locale round_contract =
  fixes C :: "'r round_class" and I :: "int32 \<Rightarrow> 'r \<Rightarrow> bool"
  assumes handler_ok: "states (rc_table C) s = Some st \<Longrightarrow> I p r \<Longrightarrow> effect_ok (I p) (sm_handler st p from stream r)"
    and callback_ok: "states (rc_table C) s = Some st \<Longrightarrow> I p r \<Longrightarrow> effect_ok (I p) (sm_callback st p r)"
    and before_ok: "I p r \<Longrightarrow> I p (rc_before C r)"
    and cycle_ok: "I p r \<Longrightarrow> rc_cycle C p r = (r', c) \<Longrightarrow>
        (c \<noteq> Stay \<longrightarrow> I p r') \<and> (c = Stay \<longrightarrow> sint p < 2 ^ 31 - 1 \<longrightarrow> I (p + 1) r')"
    and stop_ok: "I p r \<Longrightarrow> rc_stop C reason r = Some r' \<Longrightarrow> I p r'"
    and on_stop_ok: "I p r \<Longrightarrow> I p (rc_on_stop C r)"
    and state_ids: "states (rc_table C) s = Some st \<Longrightarrow> sm_id st = s"
begin

definition machine_ok :: "int \<Rightarrow> 'r machine \<Rightarrow> bool" where
  "machine_ok p0 m \<longleftrightarrow> I (rm_phase m) (rm_round m) \<and> p0 \<le> sint (rm_phase m)
     \<and> (\<forall>s. rm_current m = Some s \<longrightarrow> states (rc_table C) s \<noteq> None)"

lemma machine_okI:
  "I (rm_phase m) r \<Longrightarrow> machine_ok p0 m \<Longrightarrow> machine_ok p0 (m\<lparr>rm_round := r\<rparr>)"
  by (simp add: machine_ok_def)

lemma run_effect_ok:
  assumes "\<And>call m. machine_ok p0 m \<Longrightarrow> holds (machine_ok p0) (rec call m)"
    and "machine_ok p0 m" and "effect_ok (I (rm_phase m)) e"
  shows "holds (machine_ok p0) (run_effect rec e m)"
proof (cases e)
  case (Done r c)
  with assms(2,3) have "machine_ok p0 (m\<lparr>rm_round := r\<rparr>)" by (simp add: machine_okI)
  with assms(1) Done show ?thesis by (simp add: run_effect_def holds_perform)
qed (use assms in \<open>simp_all add: run_effect_def holds_intros machine_okI\<close>)

lemma enter_state_ok:
  assumes "\<And>call m. machine_ok p0 m \<Longrightarrow> holds (machine_ok p0) (rec call m)" and "machine_ok p0 m"
  shows "holds (machine_ok p0) (enter_state rec C tgt cur tmp m)"
  unfolding enter_state_def Let_def
proof (rule holds_bind_pure)
  fix st assume st: "target_state (rc_table C) tgt cur = Inr st"
  then obtain s where s: "states (rc_table C) s = Some st"
    by (auto simp: target_state_def split: option.splits)
  let ?m = "m\<lparr>rm_current := Some (sm_id st)\<rparr>"
  have m: "machine_ok p0 ?m" using assms(2) s state_ids [OF s] by (simp add: machine_ok_def)
  have "effect_ok (I (rm_phase ?m)) (sm_callback st (rm_phase ?m) (rm_round ?m))"
    using callback_ok [OF s] m by (simp add: machine_ok_def)
  then have "holds (machine_ok p0) (run_effect rec (sm_callback st (rm_phase ?m) (rm_round ?m)) ?m)"
    by (rule run_effect_ok [rotated 2]) (use assms(1) m in auto)
  then show "holds (machine_ok p0) (bindS (run_effect rec (sm_callback st (rm_phase ?m) (rm_round ?m)) ?m)
      (\<lambda>(m, thrown). if thrown then Inr (m, True) else replay rec tmp m))"
    by (rule holds_bindS) (use holds_replay [OF assms(1)] in \<open>auto intro!: holds_Inr\<close>)
qed

lemma sint_Suc: "sint p < 2 ^ 31 - 1 \<Longrightarrow> sint (p + 1 :: int32) = sint p + 1"
  using sint_greater_eq [of p] by (simp add: sint_word_ariths(1) signed_take_bit_int_eq_self)

lemma IncrementPhase_Inr: "IncrementPhase p = Inr p' \<Longrightarrow> p' = p + 1 \<and> sint p < 2 ^ 31 - 1"
  using sint_less [of p] by (auto simp: IncrementPhase_def split: if_splits)

lemma StateComplete_ok:
  assumes "\<And>call m. machine_ok p0 m \<Longrightarrow> holds (machine_ok p0) (rec call m)" and "machine_ok p0 m"
  shows "holds (machine_ok p0) (StateComplete rec C tgt m)"
proof -
  let ?m = "m\<lparr>rm_round := rc_before C (rm_round m), rm_next_log := Log\<rparr>"
  have m: "machine_ok p0 ?m" using assms(2) before_ok by (simp add: machine_ok_def)
  obtain r c where rc: "rc_cycle C (rm_phase ?m) (rm_round ?m) = (r, c)" by fastforce
  note cyc = cycle_ok [OF _ rc]
  have halt: "machine_ok p0 (?m\<lparr>rm_round := r\<rparr>)" if "c \<noteq> Stay"
    using cyc m that by (simp add: machine_ok_def)
  have nxt: "machine_ok p0 (?m\<lparr>rm_round := r, rm_log := Log, rm_phase := p\<rparr>)"
    if "c = Stay" "IncrementPhase (rm_phase ?m) = Inr p" for p
    using IncrementPhase_Inr [OF that(2)] cyc m that(1) sint_Suc [of "rm_phase m"]
    by (simp add: machine_ok_def)
  show ?thesis
    using holds_perform [OF assms(1)] enter_state_ok [OF assms(1)] halt nxt m
    by (auto simp: StateComplete_def Let_def rc [simplified] split: option.split intro!: holds_intros)
qed

lemma ProcessDataBase_ok:
  assumes "\<And>call m. machine_ok p0 m \<Longrightarrow> holds (machine_ok p0) (rec call m)" and "machine_ok p0 m"
  shows "holds (machine_ok p0) (ProcessDataBase rec C from data m)"
proof -
  have "holds (machine_ok p0) (run_effect rec (sm_handler st (rm_phase m) from stream (rm_round m)) m)"
    if "states (rc_table C) s = Some st" for s st stream
  proof -
    have "I (rm_phase m) (rm_round m)" using assms(2) by (simp add: machine_ok_def)
    from handler_ok [OF that this] show ?thesis
      by (rule run_effect_ok [rotated 2]) (use assms in auto)
  qed
  moreover have "machine_ok p0 (m\<lparr>rm_log := l, rm_next_log := l'\<rparr>)" for l l'
    using assms(2) by (simp add: machine_ok_def)
  ultimately show ?thesis
    using assms(2)
    by (auto simp: ProcessDataBase_def Let_def split: option.split prod.split intro!: holds_intros)
qed

lemma ProcessData_ok:
  assumes "\<And>call m. machine_ok p0 m \<Longrightarrow> holds (machine_ok p0) (rec call m)" and "machine_ok p0 m"
  shows "holds (machine_ok p0) (ProcessData rec C from data m)"
proof -
  have log: "machine_ok p0 m \<Longrightarrow> machine_ok p0 (m\<lparr>rm_log := l\<rparr>)" for m l
    by (simp add: machine_ok_def)
  show ?thesis
    unfolding ProcessData_def
    by (rule holds_bindS [OF ProcessDataBase_ok [OF assms(1) log [OF assms(2)]]])
      (auto intro!: holds_intros log)
qed

lemma RoundStop_ok:
  assumes "\<And>call m. machine_ok p0 m \<Longrightarrow> holds (machine_ok p0) (rec call m)" and "machine_ok p0 m"
  shows "holds (machine_ok p0) (RoundStop rec C reason m)"
proof (cases "rc_stop C reason (rm_round m)")
  case None
  with assms(2) show ?thesis by (simp add: RoundStop_def holds_Inr)
next
  case (Some r)
  then have "machine_ok p0 (m\<lparr>rm_round := r\<rparr>)"
    using stop_ok [OF _ Some, of "rm_phase m"] assms(2) by (simp add: machine_ok_def)
  note stopped = assms(1) [OF this, of "CSetState (rc_finished C)"]
  have "machine_ok p0 m \<Longrightarrow> machine_ok p0 (m\<lparr>rm_round := rc_on_stop C (rm_round m)\<rparr>)" for m
    using on_stop_ok by (simp add: machine_ok_def)
  then show ?thesis
    unfolding RoundStop_def Some option.case by (intro holds_bindS [OF stopped]) (auto intro!: holds_intros)
qed

lemma SetState_ok:
  assumes "\<And>call m. machine_ok p0 m \<Longrightarrow> holds (machine_ok p0) (rec call m)" and "machine_ok p0 m"
  shows "holds (machine_ok p0) (SetState rec C state m)"
  using assms(2) by (auto simp: SetState_def machine_ok_def intro!: holds_intros assms(1))

text \<open>
  Whatever is called, on whatever data: the invariant holds afterwards, the phase has not gone back,
  and the current state is one of the table.
\<close>

lemma exec_ok: "machine_ok p0 m \<Longrightarrow> holds (machine_ok p0) (exec k C call m)"
proof (induction k arbitrary: call m)
  case 0
  show ?case by (simp add: holds_Inl)
next
  case (Suc k)
  then show ?case
    by (cases call) (auto simp: dispatch_def
        intro!: StateComplete_ok SetState_ok ProcessData_ok RoundStop_ok)
qed

lemma exec_invariant:
  assumes "exec k C call m = Inr (m', t)" and "I (rm_phase m) (rm_round m)"
    and "\<And>s. rm_current m = Some s \<Longrightarrow> states (rc_table C) s \<noteq> None"
  shows "I (rm_phase m') (rm_round m') \<and> sint (rm_phase m) \<le> sint (rm_phase m')
    \<and> (\<forall>s. rm_current m' = Some s \<longrightarrow> states (rc_table C) s \<noteq> None)"
proof -
  have "machine_ok (sint (rm_phase m)) m" using assms(2,3) by (simp add: machine_ok_def)
  from holdsD [OF exec_ok [OF this] assms(1)] show ?thesis by (simp add: machine_ok_def)
qed

end

section \<open>Fuel\<close>

text \<open>A run that has ended does not change with more fuel.\<close>

definition fueled :: "fault + 'a \<Rightarrow> fault + 'a \<Rightarrow> bool" where
  "fueled a b \<longleftrightarrow> a = Inl Loops \<or> a = b"

lemma fueled_refl: "fueled a a"
  by (simp add: fueled_def)

lemma fueled_bindS: "fueled a b \<Longrightarrow> (\<And>x. a = Inr x \<Longrightarrow> fueled (f x) (g x)) \<Longrightarrow> fueled (bindS a f) (bindS b g)"
  by (cases a) (auto simp: fueled_def)

lemma fueled_perform:
  "(\<And>call m. fueled (rec call m) (rec' call m)) \<Longrightarrow> fueled (perform rec c m) (perform rec' c m)"
  by (cases c) (simp_all add: perform_def fueled_refl)

lemma fueled_run_effect:
  "(\<And>call m. fueled (rec call m) (rec' call m)) \<Longrightarrow> fueled (run_effect rec e m) (run_effect rec' e m)"
  by (cases e) (simp_all add: run_effect_def fueled_refl fueled_perform)

lemma fueled_replay:
  "(\<And>call m. fueled (rec call m) (rec' call m)) \<Longrightarrow> fueled (replay rec tmp m) (replay rec' tmp m)"
proof (induction tmp arbitrary: m)
  case (Cons x tmp)
  then show ?case by (cases x) (auto intro!: fueled_bindS)
qed (simp add: fueled_refl)

lemma fueled_enter_state:
  "(\<And>call m. fueled (rec call m) (rec' call m)) \<Longrightarrow>
     fueled (enter_state rec C tgt cur tmp m) (enter_state rec' C tgt cur tmp m)"
  unfolding enter_state_def Let_def
  by (intro fueled_bindS fueled_refl fueled_run_effect)
    (auto simp: fueled_refl intro: fueled_replay split: prod.split)

lemma fueled_dispatch:
  assumes "\<And>call m. fueled (rec call m) (rec' call m)"
  shows "fueled (dispatch rec C call m) (dispatch rec' C call m)"
proof (cases call)
  case (CStateComplete tgt)
  then show ?thesis
    using assms
    by (auto simp: dispatch_def StateComplete_def Let_def fueled_refl fueled_perform fueled_enter_state
        intro!: fueled_bindS split: option.split prod.split)
next
  case (CProcessData "from" data)
  have "fueled (ProcessDataBase rec C from data m) (ProcessDataBase rec' C from data m)" for m
    using fueled_run_effect [of rec rec', OF assms]
    by (auto simp: ProcessDataBase_def Let_def fueled_refl split: option.split prod.split)
  with CProcessData show ?thesis
    by (auto simp: dispatch_def ProcessData_def fueled_refl intro!: fueled_bindS)
next
  case (CStop reason)
  then show ?thesis
    using assms by (auto simp: dispatch_def RoundStop_def fueled_refl intro!: fueled_bindS split: option.split)
qed (use assms in \<open>simp add: dispatch_def SetState_def fueled_refl\<close>)

lemma fueled_exec: "fueled (exec k C call m) (exec (Suc k) C call m)"
proof (induction k arbitrary: call m)
  case (Suc k)
  then show ?case by (simp only: exec.simps(2)) (rule fueled_dispatch)
qed (simp add: fueled_def)

section \<open>Properties\<close>

text \<open>
  Fuel is immaterial: a run that ends with some fuel ends in the same machine, or with the same
  fault, with any larger amount.
\<close>

theorem exec_fuel_mono:
  assumes "exec k C call m = res" and "res \<noteq> Inl Loops" and "k \<le> k'"
  shows "exec k' C call m = res"
  using assms(3)
proof (induction k' rule: dec_induct)
  case base
  show ?case by (rule assms(1))
next
  case (step n)
  with fueled_exec [of n C call m] assms(2) show ?case by (simp add: fueled_def)
qed

text \<open>
  Rejection.  A message with a wrong signature, for another round, for an earlier phase or of
  a type no state of the machine expects changes nothing: no state of the round, no log, no phase.
\<close>

theorem ProcessData_rejects:
  assumes "case rc_verify C (rm_round m) from data of None \<Rightarrow> True
     | Some payload \<Rightarrow> (case read_head C payload of (mtype, round_id, phase, stream) \<Rightarrow>
          round_id \<noteq> rc_nonce C (rm_round m) \<or> sint phase < sint (rm_phase m)
          \<or> mtype \<notin> set (valid_message_types (rc_table C)))"
  shows "exec (Suc k) C (CProcessData from data) m = Inr (m, False)"
proof -
  let ?m = "m\<lparr>rm_log := Append data from (rm_log m)\<rparr>"
  have "ProcessDataBase (exec k C) C from data ?m = Inr (?m, True)"
    using assms by (auto simp: ProcessDataBase_def Let_def split: option.splits prod.splits)
  moreover have "Pop (rm_log ?m) = Inr (rm_log m)" by (simp add: Pop_def Append_def)
  ultimately show ?thesis by (simp add: dispatch_def ProcessData_def)
qed

text \<open>
  Deferral.  A verified message of this round, of a known type, that the current state does not
  expect or that belongs to a later phase is neither handled nor dropped: it is appended to the
  messages that are processed after the next transition, and nothing else changes.
\<close>

theorem ProcessData_defers:
  assumes "rc_verify C (rm_round m) from data = Some payload"
    and "read_head C payload = (mtype, rc_nonce C (rm_round m), phase, stream)"
    and "sint (rm_phase m) \<le> sint phase" and "mtype \<in> set (valid_message_types (rc_table C))"
    and "rm_current m = Some cur" and "states (rc_table C) cur = Some st"
    and "mtype \<noteq> sm_message_type st \<or> sint (rm_phase m) < sint phase"
  shows "exec (Suc k) C (CProcessData from data) m
    = Inr (m\<lparr>rm_next_log := Append data from (rm_next_log m)\<rparr>, False)"
proof -
  let ?m = "m\<lparr>rm_log := Append data from (rm_log m)\<rparr>"
  have pop: "Pop (rm_log ?m) = Inr (rm_log m)" by (simp add: Pop_def Append_def)
  have "ProcessDataBase (exec k C) C from data ?m =
      Inr (m\<lparr>rm_next_log := Append data from (rm_next_log m)\<rparr>, False)"
    using assms pop by (cases m) (auto simp: ProcessDataBase_def Let_def)
  then show ?thesis by (simp add: dispatch_def ProcessData_def)
qed

text \<open>
  An index equal to the number of entries passes the check of \<^verbatim>\<open>Log::At\<close> and reads behind the
  last entry; a smaller one returns the entry that was appended.
\<close>

theorem Log_At:
  "(idx < length (entries l) \<longrightarrow> At l (int idx) = Inr (entries l ! idx))
   \<and> At l (int (length (entries l))) = Inl OutOfBounds
   \<and> (enabled l \<longrightarrow> At (Append entry remote l) (int (length (entries l))) = Inr (entry, remote))
   \<and> Pop (Append entry remote l) = Inr l"
  by (simp add: At_def Append_def Pop_def)

theorem Log_At_witness:
  "At (Append [1] 7 Log) 0 = Inr ([1], 7) \<and> At Log 0 = Inl OutOfBounds"
  using Log_At [of 0 Log "[1]" 7] by (simp add: Log_def)

end
