(* ===== verification/CSRound.thy ===== *)
theory CSRound
  imports DCNet Roster RoundStateMachine "HOL-Library.Signed_Division"
begin

text \<open>
  The control plane of the client/server DC-net, \<^verbatim>\<open>src/src/Anonymity/CSDCNetRound.cpp\<close>: the state
  of a server, the message handlers and transition callbacks, the blame protocol, and the tables of
  states and transitions that \<^verbatim>\<open>InitServer\<close> and \<^verbatim>\<open>InitClient\<close> build.  Sending is modelled from
  \<^verbatim>\<open>Round.cpp\<close>: a message goes to the list \<open>outbox\<close>, from which the network delivers it.

  What a member reads from its surroundings is an argument or a field: the constants of the round
  object are the record \<open>cs_config\<close>; the answers of \<^verbatim>\<open>GetData\<close>, the random seeds and the clock are
  the fields \<open>inputs\<close>, \<open>entropy\<close> and \<open>clock\<close> of the state.  The two shuffle rounds are other
  objects: what they delivered is in \<open>shuffle_sink\<close> and \<open>blame_sink\<close>.
\<close>

section \<open>State\<close>

text \<open>Diffie-Hellman as the round uses it: the local secret key, proofs and their verification.\<close>

record dh_ops =
  shared_secret :: "bytes \<Rightarrow> bytes"
  prove_shared_secret :: "bytes \<Rightarrow> bytes"
  verify_shared_secret :: "bytes \<Rightarrow> bytes \<Rightarrow> bytes \<Rightarrow> bytes"

record cs_config =
  cf_prims :: prims
  cf_qds :: qds
  cf_dh :: dh_ops
  cf_clients :: roster
  cf_servers :: roster
  cf_nonce :: bytes
  cf_header :: bytes
  cf_local :: peer
  cf_key :: bytes
  cf_am_server :: bool
  cf_server_ids :: "peer list"
  cf_connections :: "peer list"
  cf_fresh_key :: "nat \<Rightarrow> bytes"
  cf_key_valid :: "bytes \<Rightarrow> bool"

record phase_log =
  pl_phase :: int32
  pl_max :: nat
  message_offsets :: "int list"
  message_length :: int
  client_to_server :: "nat \<rightharpoonup> int"
  messages :: "(nat, bytes) qmap"
  my_sub_ciphertexts :: "(nat, bytes) qmap"

definition PhaseLog :: "int32 \<Rightarrow> nat \<Rightarrow> phase_log" where
  "PhaseLog phase n = \<lparr>pl_phase = phase, pl_max = n, message_offsets = [], message_length = 0,
     client_to_server = Map.empty, messages = [], my_sub_ciphertexts = []\<rparr>"

text \<open>
  The state of a server extends that of a member.  \<open>period\<close> is the delay of the running timer
  \<^verbatim>\<open>client_ciphertext_period\<close>; the shared pointer \<^verbatim>\<open>current_phase_log\<close> is the key of its log in
  \<open>phase_logs\<close>.
\<close>

record cs_round = cs_state +
  period :: "int option"
  start_of_phase :: int
  expected_clients :: int
  my_commit :: bytes
  my_ciphertext :: bytes
  allowed_clients :: "peer list"
  handled_clients :: bits
  signed_hash :: bytes
  client_ciphertexts :: "(nat \<times> bytes) list"
  handled_servers :: "peer list"
  rng_to_gidx :: "nat list"
  server_commits :: "int \<rightharpoonup> bytes"
  server_ciphertexts :: "(int, bytes) qmap"
  phase_logs :: "int32 \<rightharpoonup> phase_log"
  current_phase_log :: int32
  accuse_found :: bool
  current_blame :: "int32 \<times> int32 \<times> int32"
  blame_bits :: "(peer, bits \<times> bits) qmap"
  server_bits :: bits
  expected_rebuttal :: peer
  bad_dude :: peer
  verdict_hash :: bytes
  verdict_signatures :: "(peer, bytes) qmap"
  stop_next :: bool
  successful :: bool
  interrupted :: bool
  bad_members :: "int list"
  stopped :: bool
  stop_reason :: string
  finished_signals :: nat
  shuffle_started :: bool
  blame_started :: bool
  shuffle_sink :: "bytes list"
  blame_sink :: "bytes list"
  outbox :: "(peer \<times> bytes) list"
  delivered :: "(nat \<times> bytes) list"
  inputs :: "bytes list"
  entropy :: "bytes list"
  clock :: int

text \<open>Message types and states, by their numbers in the enumerations of \<^verbatim>\<open>CSDCNetRound.hpp\<close>.\<close>

datatype msg_type = CLIENT_CIPHERTEXT | SERVER_CLIENT_LIST | SERVER_COMMIT | SERVER_CIPHERTEXT
  | SERVER_VALIDATION | SERVER_CLEARTEXT | SERVER_BLAME_BITS | SERVER_REBUTTAL_OR_VERDICT
  | CLIENT_REBUTTAL | SERVER_VERDICT_SIGNATURE

fun mtype_num :: "msg_type \<Rightarrow> nat" where
  "mtype_num CLIENT_CIPHERTEXT = 0"
| "mtype_num SERVER_CLIENT_LIST = 1"
| "mtype_num SERVER_COMMIT = 2"
| "mtype_num SERVER_CIPHERTEXT = 3"
| "mtype_num SERVER_VALIDATION = 4"
| "mtype_num SERVER_CLEARTEXT = 5"
| "mtype_num SERVER_BLAME_BITS = 6"
| "mtype_num SERVER_REBUTTAL_OR_VERDICT = 7"
| "mtype_num CLIENT_REBUTTAL = 8"
| "mtype_num SERVER_VERDICT_SIGNATURE = 9"

datatype cs_sm_state = OFFLINE | SHUFFLING | PROCESS_BOOTSTRAP | PREPARE_FOR_BULK
  | CLIENT_WAIT_FOR_CLEARTEXT | SERVER_WAIT_FOR_CLIENT_CIPHERTEXT | SERVER_WAIT_FOR_CLIENT_LISTS
  | SERVER_WAIT_FOR_SERVER_COMMITS | SERVER_WAIT_FOR_SERVER_CIPHERTEXT
  | SERVER_WAIT_FOR_SERVER_VALIDATION | SERVER_PUSH_CLEARTEXT | STARTING_BLAME_SHUFFLE
  | WAITING_FOR_BLAME_SHUFFLE | WAITING_FOR_DATA_REQUEST_OR_VERDICT | SERVER_TRANSMIT_BLAME_BITS
  | SERVER_WAITING_FOR_BLAME_BITS | SERVER_DETERMINE_MISMATCH | SERVER_REQUEST_CLIENT_REBUTTAL
  | SERVER_WAIT_FOR_CLIENT_REBUTTAL | SERVER_MAKE_JUDGEMENT | SERVER_EXCHANGE_VERDICT_SIGNATURE
  | SERVER_WAIT_FOR_VERDICT_SIGNATURE | SERVER_SHARE_VERDICT | FINISHED

fun state_num :: "cs_sm_state \<Rightarrow> nat" where
  "state_num OFFLINE = 0"
| "state_num SHUFFLING = 1"
| "state_num PROCESS_BOOTSTRAP = 2"
| "state_num PREPARE_FOR_BULK = 3"
| "state_num CLIENT_WAIT_FOR_CLEARTEXT = 4"
| "state_num SERVER_WAIT_FOR_CLIENT_CIPHERTEXT = 5"
| "state_num SERVER_WAIT_FOR_CLIENT_LISTS = 6"
| "state_num SERVER_WAIT_FOR_SERVER_COMMITS = 7"
| "state_num SERVER_WAIT_FOR_SERVER_CIPHERTEXT = 8"
| "state_num SERVER_WAIT_FOR_SERVER_VALIDATION = 9"
| "state_num SERVER_PUSH_CLEARTEXT = 10"
| "state_num STARTING_BLAME_SHUFFLE = 11"
| "state_num WAITING_FOR_BLAME_SHUFFLE = 12"
| "state_num WAITING_FOR_DATA_REQUEST_OR_VERDICT = 13"
| "state_num SERVER_TRANSMIT_BLAME_BITS = 14"
| "state_num SERVER_WAITING_FOR_BLAME_BITS = 15"
| "state_num SERVER_DETERMINE_MISMATCH = 16"
| "state_num SERVER_REQUEST_CLIENT_REBUTTAL = 17"
| "state_num SERVER_WAIT_FOR_CLIENT_REBUTTAL = 18"
| "state_num SERVER_MAKE_JUDGEMENT = 19"
| "state_num SERVER_EXCHANGE_VERDICT_SIGNATURE = 20"
| "state_num SERVER_WAIT_FOR_VERDICT_SIGNATURE = 21"
| "state_num SERVER_SHARE_VERDICT = 22"
| "state_num FINISHED = 23"

section \<open>Sending and verifying (Round.cpp)\<close>

definition signed :: "cs_config \<Rightarrow> bytes \<Rightarrow> bytes" where
  "signed cf data = cf_header cf @ data @ sign (cf_prims cf) (cf_key cf) data"

definition VerifiableSend :: "cs_config \<Rightarrow> peer \<Rightarrow> bytes \<Rightarrow> cs_round \<Rightarrow> cs_round" where
  "VerifiableSend cf to data r = r\<lparr>outbox := outbox r @ [(to, signed cf data)]\<rparr>"

definition VerifiableBroadcastToServers :: "cs_config \<Rightarrow> bytes \<Rightarrow> cs_round \<Rightarrow> cs_round" where
  "VerifiableBroadcastToServers cf data r =
     fold (\<lambda>i r. r\<lparr>outbox := outbox r @ [(i, signed cf data)]\<rparr>) (cf_server_ids cf) r"

definition VerifiableBroadcastToClients :: "cs_config \<Rightarrow> bytes \<Rightarrow> cs_round \<Rightarrow> cs_round" where
  "VerifiableBroadcastToClients cf data r =
     fold (\<lambda>i r. if i \<in> set (cf_server_ids cf) then r
                 else r\<lparr>outbox := outbox r @ [(i, signed cf data)]\<rparr>) (cf_connections cf) r"

definition Verify :: "cs_config \<Rightarrow> peer \<Rightarrow> bytes \<Rightarrow> bytes option" where
  "Verify cf from data =
     (case (case GetKey (cf_servers cf) from of None \<Rightarrow> GetKey (cf_clients cf) from | Some k \<Rightarrow> Some k) of
        None \<Rightarrow> None
      | Some key \<Rightarrow>
          let sig_size = signature_length (cf_prims cf) key in
          if length data < sig_size then None
          else let msg = take (length data - sig_size) data; sig = drop (length msg) data
               in if verify (cf_prims cf) key msg sig then Some msg else None)"

text \<open>The head of every message of the round.\<close>

definition head :: "cs_config \<Rightarrow> msg_type \<Rightarrow> int32 \<Rightarrow> bytes" where
  "head cf mt phase =
     put_int (cf_qds cf) (of_nat (mtype_num mt)) @ put_bytes (cf_qds cf) (cf_nonce cf) @ put_int (cf_qds cf) phase"

text \<open>A computation that may fault, as the effect of a handler.\<close>

definition eff :: "fault + cs_round effect \<Rightarrow> cs_round effect" where
  "eff x = (case x of Inl f \<Rightarrow> Crash f | Inr e \<Rightarrow> e)"

text \<open>An update through the pointer \<^verbatim>\<open>current_phase_log\<close>.\<close>

definition upd_log :: "(phase_log \<Rightarrow> phase_log) \<Rightarrow> cs_round \<Rightarrow> cs_round" where
  "upd_log f r = r\<lparr>phase_logs := (phase_logs r)(current_phase_log r := map_option f (phase_logs r (current_phase_log r)))\<rparr>"

abbreviation n_clients :: "cs_config \<Rightarrow> nat" where
  "n_clients cf \<equiv> Count (cf_clients cf)"

abbreviation n_servers :: "cs_config \<Rightarrow> nat" where
  "n_servers cf \<equiv> Count (cf_servers cf)"

section \<open>The data plane inside a round\<close>

text \<open>
  Whether \<^verbatim>\<open>GenerateCiphertext\<close> asks the application for data, through \<^verbatim>\<open>GenerateSlotMessage\<close> or
  \<^verbatim>\<open>CheckData\<close>; each \<^verbatim>\<open>GetData\<close> takes the next element of \<open>inputs\<close>.
\<close>

definition data_requested :: "'a cs_state_scheme \<Rightarrow> bool" where
  "data_requested s = (if slot_open s then read s else next_msg s = [])"

definition GetData :: "cs_round \<Rightarrow> bytes" where
  "GetData r = (case inputs r of [] \<Rightarrow> [] | d # _ \<Rightarrow> d)"

text \<open>\<^verbatim>\<open>SetupRngs\<close>: a client's seeds are all its base seeds, a server's those of the listed clients.\<close>

definition SetupRngs :: "cs_config \<Rightarrow> int32 \<Rightarrow> cs_round \<Rightarrow> fault + cs_round" where
  "SetupRngs cf phase r =
     (if cf_am_server cf then
        let gidx = filter (bit_at (handled_clients r)) [0..<length (handled_clients r)]
        in if list_ex (\<lambda>i. length (base_seeds r) \<le> i) gidx then Inl OutOfBounds
           else Inr (SetupRngs_server (cf_prims cf) (cf_nonce cf) phase (handled_clients r) (r\<lparr>rng_to_gidx := gidx\<rparr>))
      else Inr (SetupRngs_client (cf_prims cf) (cf_nonce cf) phase r))"

text \<open>What both kinds of ciphertext share: taking data and seeds, and logging the pads of a server.\<close>

definition log_pads :: "cs_config \<Rightarrow> bytes list \<Rightarrow> cs_round \<Rightarrow> cs_round" where
  "log_pads cf pads r =
     (if cf_am_server cf
      then upd_log (\<lambda>l. l\<lparr>my_sub_ciphertexts :=
             fold (\<lambda>(g, pad) m. qmap_insert g pad m) (zip (rng_to_gidx r) pads) (my_sub_ciphertexts l)\<rparr>) r
      else r)"

definition take_inputs :: "cs_round \<Rightarrow> bytes list \<Rightarrow> cs_round \<Rightarrow> cs_round" where
  "take_inputs r ent r' = r'\<lparr>inputs := (if data_requested r then tl (inputs r) else inputs r), entropy := ent\<rparr>"

definition GenerateCiphertext_round :: "cs_config \<Rightarrow> int32 \<Rightarrow> cs_round \<Rightarrow> fault + (bytes \<times> cs_round)" where
  "GenerateCiphertext_round cf phase r =
     bindS (GenerateCiphertext (cf_prims cf) phase (GetData r) (entropy r) r) (\<lambda>(ct, pads, r', ent).
       Inr (ct, log_pads cf pads (take_inputs r ent r')))"

definition GenerateServerCiphertext_round :: "cs_config \<Rightarrow> int32 \<Rightarrow> cs_round \<Rightarrow> fault + cs_round" where
  "GenerateServerCiphertext_round cf phase r =
     (if list_ex (\<lambda>(i, t). length (handled_clients r) \<le> i) (client_ciphertexts r) then Inl OutOfBounds
      else bindS (GenerateServerCiphertext (cf_prims cf) (n_clients cf) phase (GetData r) (entropy r)
                    (handled_clients r) (client_ciphertexts r) r) (\<lambda>(ct, pads, r', ent).
        Inr ((log_pads cf pads (take_inputs r ent r'))
               \<lparr>my_ciphertext := ct, my_commit := hash (cf_prims cf) ct\<rparr>)))"

text \<open>The offsets of the slots of all clients, for the log of the phase.\<close>

definition slot_starts :: "nat \<Rightarrow> int \<Rightarrow> (nat, int) qmap \<Rightarrow> int list" where
  "slot_starts n offset nm =
     fst (fold (\<lambda>idx (offs, calc). (offs @ [calc], calc + qmap_value nm idx 0)) [0..<n] ([], offset))"

definition ProcessCleartext_round :: "cs_config \<Rightarrow> int32 \<Rightarrow> cs_round \<Rightarrow> fault + cs_round" where
  "ProcessCleartext_round cf phase r =
     (let n = n_clients cf;
          r = (if cf_am_server cf
               then upd_log (\<lambda>l. l\<lparr>message_offsets := message_offsets l
                       @ slot_starts n (open_bytes n) (next_messages r)\<rparr>) r
               else r)
      in bindS (ProcessCleartext (cf_prims cf) n phase r) (\<lambda>(r, pushed, fin).
           let r = r\<lparr>delivered := delivered r @ pushed\<rparr>
           in Inr (if cf_am_server cf then upd_log (\<lambda>l. l\<lparr>message_length := fin\<rparr>) r else r)))"

section \<open>Message handlers\<close>

definition HandleServerCleartext :: "cs_config \<Rightarrow> cs_round handler" where
  "HandleServerCleartext cf phase from stream r =
     (if cf_am_server cf then Throw r
      else if my_server r \<noteq> from then Throw r
      else let (sigs, s) = get_hash (cf_qds cf) stream;
               (clear, s) = get_bytes (cf_qds cf) s;
               (online, s) = get_bits (cf_qds cf) s
           in if int (length clear) \<noteq> msg_length r then Throw r
              else let h = hash (cf_prims cf) (clear @ put_bits (cf_qds cf) online)
                   in if list_all (\<lambda>idx. verify (cf_prims cf) (pi_key (m_roster (cf_servers cf) ! idx)) h
                                           (case sigs idx of None \<Rightarrow> [] | Some sg \<Rightarrow> sg))
                           [0..<n_servers cf]
                      then eff (bindS (ProcessCleartext_round cf phase (r\<lparr>cleartext := clear\<rparr>)) (\<lambda>r.
                             Inr (Done r (if start_accuse r then Goto (state_num STARTING_BLAME_SHUFFLE)
                                          else Complete))))
                      else Done r (Halt ''Failed to verify signatures''))"

definition HandleClientCiphertext :: "cs_config \<Rightarrow> cs_round handler" where
  "HandleClientCiphertext cf phase from stream r =
     (if \<not> cf_am_server cf then Throw r
      else let idx = GetIndex (cf_clients cf) from
           in if from \<notin> set (allowed_clients r) then Throw r
              else if idx < 0 \<or> int (length (handled_clients r)) \<le> idx then Crash OutOfBounds
              else if handled_clients r ! nat idx then Throw r
              else let (payload, s) = get_bytes (cf_qds cf) stream
                   in if int (length payload) \<noteq> msg_length r then Throw r
                      else let r = r\<lparr>handled_clients := (handled_clients r)[nat idx := True],
                                     client_ciphertexts := client_ciphertexts r @ [(nat idx, payload)]\<rparr>;
                               r = upd_log (\<lambda>l. l\<lparr>messages := qmap_insert (nat idx) payload (messages l)\<rparr>) r
                           in if length (allowed_clients r) = length (client_ciphertexts r) then Done r Complete
                              else if int (length (client_ciphertexts r)) = expected_clients r
                              then Done (r\<lparr>period := Some (clock r - start_of_phase r)\<rparr>) Stay
                              else Done r Stay)"

text \<open>What the handlers of messages from all servers do last.\<close>

definition servers_done :: "cs_config \<Rightarrow> cs_round \<Rightarrow> cs_round effect" where
  "servers_done cf r = Done r (if length (handled_servers r) = n_servers cf then Complete else Stay)"

definition HandleServerClientList :: "cs_config \<Rightarrow> cs_round handler" where
  "HandleServerClientList cf phase from stream r =
     (if from \<notin> set (cf_server_ids cf) then Throw r
      else if from \<in> set (handled_servers r) then Throw r
      else let (clients, s) = get_bits (cf_qds cf) stream;
               r = r\<lparr>handled_clients := bits_or (handled_clients r) clients,
                     handled_servers := from # handled_servers r\<rparr>;
               sidx = GetIndex (cf_servers cf) from;
               r = upd_log (\<lambda>l. l\<lparr>client_to_server :=
                     fold (\<lambda>idx m. if clients ! 0 then m(idx \<mapsto> sidx) else m) [0..<length clients]
                       (client_to_server l)\<rparr>) r
           in servers_done cf r)"

definition HandleServerCommit :: "cs_config \<Rightarrow> cs_round handler" where
  "HandleServerCommit cf phase from stream r =
     (if \<not> cf_am_server cf then Throw r
      else if \<not> Contains (cf_servers cf) from then Throw r
      else if from \<in> set (handled_servers r) then Throw r
      else let (commit, s) = get_bytes (cf_qds cf) stream
           in servers_done cf
                (r\<lparr>handled_servers := from # handled_servers r,
                   server_commits := (server_commits r)(GetIndex (cf_servers cf) from \<mapsto> commit)\<rparr>))"

definition HandleServerCiphertext :: "cs_config \<Rightarrow> cs_round handler" where
  "HandleServerCiphertext cf phase from stream r =
     (if \<not> cf_am_server cf then Throw r
      else if \<not> Contains (cf_servers cf) from then Throw r
      else if from \<in> set (handled_servers r) then Throw r
      else let (ciphertext, s) = get_bytes (cf_qds cf) stream
           in if int (length ciphertext) \<noteq> msg_length r then Throw r
              else let idx = GetIndex (cf_servers cf) from
                   in if hash (cf_prims cf) ciphertext
                           \<noteq> (case server_commits r idx of None \<Rightarrow> [] | Some c \<Rightarrow> c) then Throw r
                      else servers_done cf
                             (r\<lparr>handled_servers := from # handled_servers r,
                                server_ciphertexts := qmap_insert idx ciphertext (server_ciphertexts r)\<rparr>))"

definition HandleServerValidation :: "cs_config \<Rightarrow> cs_round handler" where
  "HandleServerValidation cf phase from stream r =
     (if \<not> cf_am_server cf then Throw r
      else if \<not> Contains (cf_servers cf) from then Throw r
      else if from \<in> set (handled_servers r) then Throw r
      else let (signature, s) = get_bytes (cf_qds cf) stream
           in if \<not> verify (cf_prims cf) (pi_key (GetIdentity (cf_servers cf) from)) (signed_hash r) signature
              then Throw r
              else servers_done cf
                     (r\<lparr>handled_servers := from # handled_servers r,
                        signatures := (signatures r)(nat (GetIndex (cf_servers cf) from) \<mapsto> signature)\<rparr>))"

definition HandleBlameBits :: "cs_config \<Rightarrow> cs_round handler" where
  "HandleBlameBits cf phase from stream r =
     (if \<not> cf_am_server cf then Throw r
      else if \<not> Contains (cf_servers cf) from then Throw r
      else if map_of (blame_bits r) from \<noteq> None then Throw r
      else let (bb, s) = get_bitpair (cf_qds cf) stream;
               r = r\<lparr>blame_bits := qmap_insert from bb (blame_bits r)\<rparr>
           in Done r (if length (blame_bits r) = n_servers cf then Complete else Stay))"

text \<open>The bit of a pad that a blame is about; C++ division truncates, a negative index is out of bounds.\<close>

definition pad_bit :: "bytes \<Rightarrow> int \<Rightarrow> fault + bool" where
  "pad_bit pad idx =
     (if idx < 0 then Inl OutOfBounds
      else Inr (qba_get pad (nat idx div 8) AND bit_mask (nat idx mod 8) \<noteq> 0))"

text \<open>The pad of one phase that belongs to a shared secret.\<close>

definition blame_pad :: "cs_config \<Rightarrow> int32 \<Rightarrow> bytes \<Rightarrow> nat \<Rightarrow> bytes" where
  "blame_pad cf phase secret n =
     fst (GenerateBlock (cf_prims cf) (CryptoRandom (cf_prims cf) (phase_seed (cf_prims cf) (cf_nonce cf) phase secret)) n)"

text \<open>The verdict of \<^verbatim>\<open>HandleRebuttal\<close> on a proof for an admissible server.\<close>

definition judge_rebuttal :: "cs_config \<Rightarrow> peer \<Rightarrow> int32 \<times> bytes \<Rightarrow> cs_round \<Rightarrow> fault + peer" where
  "judge_rebuttal cf from = (\<lambda>(sidx, proof) r.
     bindS (GetId (cf_servers cf) (sint sidx)) (\<lambda>server.
       let secret = verify_shared_secret (cf_dh cf) (pi_dh (GetIdentity (cf_clients cf) from))
                      (pi_dh (GetIdentity (cf_servers cf) server)) proof
       in if secret = [] then Inr from
          else if int (length (server_bits r)) \<le> sint sidx then Inr from
          else let (owner, aidx, bphase) = current_blame r
               in if sint aidx < 0 then Inl OutOfBounds
                  else let pad = blame_pad cf bphase secret (nat (sint aidx) div 8 + 1)
                       in bindS (pad_bit pad (sint aidx)) (\<lambda>b.
                            Inr (if b = server_bits r ! nat (sint sidx) then from else server))))"

definition HandleRebuttal :: "cs_config \<Rightarrow> cs_round handler" where
  "HandleRebuttal cf phase from stream r =
     (if from \<noteq> expected_rebuttal r then Throw r
      else let (rebuttal, s) = get_rebuttal (cf_qds cf) stream
           in if sint (fst rebuttal) < int (n_servers cf) then Done (r\<lparr>bad_dude := from\<rparr>) Complete
              else eff (bindS (judge_rebuttal cf from rebuttal r) (\<lambda>p. Inr (Done (r\<lparr>bad_dude := p\<rparr>) Complete))))"

definition HandleVerdictSignature :: "cs_config \<Rightarrow> cs_round handler" where
  "HandleVerdictSignature cf phase from stream r =
     (if \<not> cf_am_server cf then Throw r
      else if \<not> Contains (cf_servers cf) from then Throw r
      else if map_of (verdict_signatures r) from \<noteq> None then Throw r
      else let (signature, s) = get_bytes (cf_qds cf) stream
           in if \<not> verify (cf_prims cf) (pi_key (GetIdentity (cf_servers cf) from)) (verdict_hash r) signature
              then Throw r
              else let r = r\<lparr>verdict_signatures := qmap_insert from signature (verdict_signatures r)\<rparr>
                   in Done r (if length (verdict_signatures r) = n_servers cf then Complete else Stay))"

text \<open>
  \<^verbatim>\<open>GetRebuttal\<close>: the client looks for the server whose claimed bit differs from the pad it shares
  with that server.
\<close>

fun find_liar :: "cs_config \<Rightarrow> int32 \<Rightarrow> int \<Rightarrow> nat \<Rightarrow> bits \<Rightarrow> nat \<Rightarrow> bytes list \<Rightarrow> fault + int" where
  "find_liar cf phase aidx msg_size sbits idx [] = Inr (-1)"
| "find_liar cf phase aidx msg_size sbits idx (seed # seeds) =
     bindS (pad_bit (blame_pad cf phase seed msg_size) aidx) (\<lambda>b.
       if length sbits \<le> idx then Inl OutOfBounds
       else if b \<noteq> sbits ! idx then Inr (int idx)
       else find_liar cf phase aidx msg_size sbits (Suc idx) seeds)"

definition GetRebuttal :: "cs_config \<Rightarrow> int32 \<Rightarrow> int32 \<Rightarrow> bits \<Rightarrow> cs_round \<Rightarrow> fault + (int32 \<times> bytes)" where
  "GetRebuttal cf phase aidx sbits r =
     (let a = sint aidx;
          msg_size = a sdiv 8 + (if a smod 8 > 0 then 1 else 0)
      in bindS (find_liar cf phase a (nat msg_size) sbits 0 (base_seeds r)) (\<lambda>bidx.
           let bidx = (if 0 \<le> bidx then bidx else sint phase smod int (n_servers cf))
           in bindS (GetId (cf_servers cf) bidx) (\<lambda>bid.
                Inr (of_int bidx, prove_shared_secret (cf_dh cf) (pi_dh (GetIdentity (cf_servers cf) bid))))))"

definition verdict_msg :: "cs_config \<Rightarrow> int32 \<times> int32 \<times> int32 \<Rightarrow> peer \<Rightarrow> bytes" where
  "verdict_msg cf blame bad = put_triple (cf_qds cf) blame @ put_id (cf_qds cf) bad"

definition HandleRebuttalOrVerdict :: "cs_config \<Rightarrow> cs_round handler" where
  "HandleRebuttalOrVerdict cf phase from stream r =
     (if cf_am_server cf then Throw r
      else if \<not> Contains (cf_servers cf) from then Throw r
      else let (verdict, s) = get_bool (cf_qds cf) stream
           in if \<not> verdict then
                let (bphase, s) = get_int (cf_qds cf) s; (aidx, s) = get_int (cf_qds cf) s;
                    (sbits, s) = get_bits (cf_qds cf) s
                in eff (bindS (GetRebuttal cf bphase aidx sbits r) (\<lambda>rebuttal.
                     Inr (Done (VerifiableSend cf from
                                 (head cf CLIENT_REBUTTAL phase @ put_rebuttal (cf_qds cf) rebuttal) r) Stay)))
              else
                let (blame, s) = get_triple (cf_qds cf) s; (bad, s) = get_id (cf_qds cf) s;
                    (sigs, s) = get_vec (cf_qds cf) s;
                    h = hash (cf_prims cf) (verdict_msg cf blame bad)
                in eff (bindS (foldS (\<lambda>idx ok.
                          if \<not> ok then Inr False
                          else if length sigs \<le> idx then Inl OutOfBounds
                          else Inr (verify (cf_prims cf) (pi_key (m_roster (cf_servers cf) ! idx)) h (sigs ! idx)))
                        [0..<n_servers cf] True) (\<lambda>ok.
                     Inr (if \<not> ok then Throw r
                          else let r = r\<lparr>successful := False\<rparr>
                               in if Contains (cf_servers cf) bad
                                  then Done (r\<lparr>bad_members := [GetIndex (cf_servers cf) bad]\<rparr>)
                                         (Halt ''Bad member found and reported'')
                                  else Done r (Halt ''Bad member found, but I am a lowly client without knowledge of the peer'')))))"

section \<open>Transition callbacks\<close>

definition StartShuffle :: "cs_config \<Rightarrow> cs_round callback" where
  "StartShuffle cf phase r = Done (r\<lparr>shuffle_started := True\<rparr>) Stay"

text \<open>\<^verbatim>\<open>GetShuffleData\<close>, with the fresh key pair; the private key stays, the public one is shuffled.\<close>

definition GetShuffleData :: "bytes \<Rightarrow> bytes \<Rightarrow> cs_round \<Rightarrow> bytes \<times> cs_round" where
  "GetShuffleData priv pub r = (pub, r\<lparr>anonymous_key := priv, shuffle_data := pub\<rparr>)"

definition GetBlameData :: "cs_config \<Rightarrow> cs_round \<Rightarrow> bytes" where
  "GetBlameData cf r =
     (if \<not> my_accuse r then []
      else let msg = WriteUInt (of_int (my_idx r)) (replicate 12 0) 0;
               msg = WriteUInt (of_int (accuse_idx r)) msg 4;
               msg = WriteUInt (of_int (blame_phase r)) msg 8
           in msg @ sign (cf_prims cf) (anonymous_key r) msg)"

text \<open>The slot called when the descriptor shuffle ends.\<close>

definition ShuffleFinished :: "bool \<Rightarrow> int list \<Rightarrow> bool \<Rightarrow> cs_round \<Rightarrow> cs_round effect" where
  "ShuffleFinished success bad was_interrupted r =
     (if \<not> success then
        Done (r\<lparr>bad_members := bad, interrupted := interrupted r \<or> was_interrupted\<rparr>) (Halt ''ShuffleRound failed'')
      else Done r Complete)"

text \<open>
  The keys of the slots.  Each entry of the shuffle gets a newly constructed \<^verbatim>\<open>DsaPublicKey\<close>, not
  one read from the entry.
\<close>

definition shuffle_entry :: "cs_config \<Rightarrow> nat \<times> bytes \<Rightarrow> cs_round \<Rightarrow> cs_round" where
  "shuffle_entry cf = (\<lambda>(idx, entry) r.
     let key = cf_fresh_key cf idx
     in if \<not> cf_key_valid cf key then r
        else let r = (if shuffle_data r = entry then r\<lparr>my_idx := int (length (anonymous_keys r))\<rparr> else r)
             in r\<lparr>anonymous_keys := anonymous_keys r @ [key]\<rparr>)"

definition ProcessDataShuffle :: "cs_config \<Rightarrow> cs_round callback" where
  "ProcessDataShuffle cf phase r =
     (if length (shuffle_sink r) \<noteq> n_clients cf then Crash Fatal
      else Done (fold (shuffle_entry cf) (zip [0..<length (shuffle_sink r)] (shuffle_sink r)) r) Complete)"

definition SetupRngSeeds :: "cs_config \<Rightarrow> cs_round \<Rightarrow> cs_round" where
  "SetupRngSeeds cf r =
     r\<lparr>base_seeds := base_seeds r @ map (\<lambda>gc. if pi_id gc = cf_local cf then []
                                               else shared_secret (cf_dh cf) (pi_dh gc))
        (m_roster (if cf_am_server cf then cf_clients cf else cf_servers cf))\<rparr>"

definition PrepareForBulk :: "cs_config \<Rightarrow> cs_round callback" where
  "PrepareForBulk cf phase r =
     (let len = int (n_clients cf div 8); len = (if n_clients cf mod 8 \<noteq> 0 then len + 1 else len)
      in Done (SetupRngSeeds cf (r\<lparr>msg_length := len, base_msg_length := len\<rparr>)) Complete)"

definition SubmitClientCiphertext :: "cs_config \<Rightarrow> cs_round callback" where
  "SubmitClientCiphertext cf phase r =
     eff (bindS (SetupRngs cf phase r) (\<lambda>r.
       bindS (GenerateCiphertext_round cf phase r) (\<lambda>(ct, r).
         Inr (Done (VerifiableSend cf (my_server r)
                     (head cf CLIENT_CIPHERTEXT phase @ put_bytes (cf_qds cf) ct) r) Stay))))"

text \<open>
  The hard deadline, and the number of clients after which the flexible one starts:
  \<^verbatim>\<open>int(count * .95)\<close>; the \<^verbatim>\<open>float\<close> product truncates to the exact quotient for every number of
  clients up to two hundred thousand.
\<close>

definition SetOnlineClients :: "cs_config \<Rightarrow> cs_round callback" where
  "SetOnlineClients cf phase r =
     (if allowed_clients r = [] then Done r Complete
      else Done (r\<lparr>period := Some 120000, start_of_phase := clock r,
                   expected_clients := int (length (allowed_clients r) * 95 div 100)\<rparr>) Stay)"

definition SubmitClientList :: "cs_config \<Rightarrow> cs_round callback" where
  "SubmitClientList cf phase r =
     Done (VerifiableBroadcastToServers cf
            (head cf SERVER_CLIENT_LIST phase @ put_bits (cf_qds cf) (handled_clients r)) r) Stay"

definition SubmitCommit :: "cs_config \<Rightarrow> cs_round callback" where
  "SubmitCommit cf phase r =
     eff (bindS (SetupRngs cf phase r) (\<lambda>r.
       bindS (GenerateServerCiphertext_round cf phase r) (\<lambda>r.
         Inr (Done (VerifiableBroadcastToServers cf
                     (head cf SERVER_COMMIT phase @ put_bytes (cf_qds cf) (my_commit r)) r) Stay))))"

definition SubmitServerCiphertext :: "cs_config \<Rightarrow> cs_round callback" where
  "SubmitServerCiphertext cf phase r =
     Done (VerifiableBroadcastToServers cf
            (head cf SERVER_CIPHERTEXT phase @ put_bytes (cf_qds cf) (my_ciphertext r)) r) Stay"

definition SubmitValidation :: "cs_config \<Rightarrow> cs_round callback" where
  "SubmitValidation cf phase r =
     (let clear = reveal_cleartext (nat (msg_length r)) (map snd (server_ciphertexts r));
          h = hash (cf_prims cf) (clear @ put_bits (cf_qds cf) (handled_clients r));
          r = r\<lparr>cleartext := clear, signed_hash := h\<rparr>
      in Done (VerifiableBroadcastToServers cf
                (head cf SERVER_VALIDATION phase @ put_bytes (cf_qds cf) (sign (cf_prims cf) (cf_key cf) h)) r) Stay)"

definition PushCleartext :: "cs_config \<Rightarrow> cs_round callback" where
  "PushCleartext cf phase r =
     (let r = VerifiableBroadcastToClients cf
                (head cf SERVER_CLEARTEXT phase @ put_hash (cf_qds cf) (signatures r)
                 @ put_bytes (cf_qds cf) (cleartext r) @ put_bits (cf_qds cf) (handled_clients r)) r
      in eff (bindS (ProcessCleartext_round cf phase r) (\<lambda>r.
           Inr (Done r (if start_accuse r then Goto (state_num STARTING_BLAME_SHUFFLE) else Complete)))))"

subsection \<open>Blame\<close>

definition StartBlameShuffle :: "cs_config \<Rightarrow> cs_round callback" where
  "StartBlameShuffle cf phase r = Done (r\<lparr>blame_started := True\<rparr>) Stay"

text \<open>
  One entry of the blame shuffle: \<open>None\<close> when it is skipped, otherwise the accusation it makes.  The
  entry must be longer than 8 bytes, but 12 are read.
\<close>

definition check_accusation ::
    "cs_config \<Rightarrow> cs_round \<Rightarrow> bytes \<Rightarrow> fault + (int32 \<times> int32 \<times> int32) option" where
  "check_accusation cf r blame =
     (if length blame \<le> 8 then Inr None
      else let msg = take 12 blame; signature = drop 12 blame in
        bindS (ReadInt msg 0) (\<lambda>owner_idx.
        bindS (ReadInt msg 4) (\<lambda>aidx.
        let a = sint aidx; accuse_bidx = a sdiv 8 + (if a smod 8 \<noteq> 0 then 1 else 0) in
        bindS (ReadInt msg 8) (\<lambda>phase.
        case phase_logs r phase of
          None \<Rightarrow> Inr None
        | Some plog \<Rightarrow>
            if sint owner_idx < 0 \<or> int (length (anonymous_keys r)) \<le> sint owner_idx then Inr None
            else let o' = nat (sint owner_idx); offs = message_offsets plog in
              if length offs \<le> o' then Inl OutOfBounds
              else let start = offs ! o';
                       fin = (if o' + 1 = length offs then message_length plog else offs ! (o' + 1))
                   in if fin - start + accuse_bidx \<le> 0 then Inr None
                      else if \<not> verify (cf_prims cf) (anonymous_keys r ! o') msg signature then Inr None
                      else Inr (Some (owner_idx, aidx, phase))))))"

definition ProcessBlameShuffle :: "cs_config \<Rightarrow> cs_round callback" where
  "ProcessBlameShuffle cf phase r =
     (if \<not> cf_am_server cf then Done r Complete
      else eff (bindS (foldS (\<lambda>blame r.
                  bindS (check_accusation cf r blame) (\<lambda>acc.
                    Inr (case acc of None \<Rightarrow> r
                         | Some t \<Rightarrow> if accuse_found r then r
                                     else r\<lparr>current_blame := t, accuse_found := True\<rparr>)))
                 (blame_sink r) r) (\<lambda>r.
             Inr (if accuse_found r then Done r Complete else Throw r))))"

text \<open>\<^verbatim>\<open>PhaseLog::GetBitsAtIndex\<close>.\<close>

definition log_bits :: "nat \<Rightarrow> int \<Rightarrow> (nat, bytes) qmap \<Rightarrow> fault + bits" where
  "log_bits n msg_idx m =
     foldS (\<lambda>(idx, d) bs. bindS (pad_bit d msg_idx) (\<lambda>b.
              if length bs \<le> idx then Inl OutOfBounds else Inr (bs[idx := b]))) m (replicate n False)"

definition GetBitsAtIndex :: "int \<Rightarrow> phase_log \<Rightarrow> fault + (bits \<times> bits)" where
  "GetBitsAtIndex msg_idx l =
     bindS (log_bits (pl_max l) msg_idx (messages l)) (\<lambda>clients.
     bindS (log_bits (pl_max l) msg_idx (my_sub_ciphertexts l)) (\<lambda>mine. Inr (clients, mine)))"

definition TransmitBlameBits :: "cs_config \<Rightarrow> cs_round callback" where
  "TransmitBlameBits cf phase r =
     (let (owner, aidx, bphase) = current_blame r
      in case phase_logs r bphase of None \<Rightarrow> Crash Fatal
         | Some plog \<Rightarrow>
             eff (bindS (GetBitsAtIndex (sint aidx) plog) (\<lambda>bs.
               Inr (Done (VerifiableBroadcastToServers cf
                           (head cf SERVER_BLAME_BITS phase @ put_bitpair (cf_qds cf) bs) r) Complete))))"

text \<open>
  \<^verbatim>\<open>FindMismatch\<close>: the first client for which the pads the servers computed do not xor to the bits
  they received.  \<open>Inl ()\<close> stands for the exception, \<open>Inr None\<close> for the result -1.
\<close>

definition FindMismatch :: "cs_config \<Rightarrow> cs_round \<Rightarrow> fault + (unit + (nat \<times> bits) option)" where
  "FindMismatch cf r =
     (let zero = replicate (n_servers cf) False;
          actual = fold (\<lambda>(p, a, e) acc. bits_xor acc a) (blame_bits r) zero;
          expected = fold (\<lambda>(p, a, e) acc. bits_xor acc e) (blame_bits r) zero
      in if actual = expected then Inr (Inl ())
         else let mismatch = bits_xor actual expected
              in case find (bit_at mismatch) [0..<length mismatch] of
                   None \<Rightarrow> Inr (Inr None)
                 | Some first \<Rightarrow>
                     bindS (foldS (\<lambda>(idx, pid) sb.
                              let e = snd (qmap_value (blame_bits r) (pi_id pid) ([], []))
                              in if length e \<le> first \<or> length sb \<le> idx then Inl OutOfBounds
                                 else Inr (sb[idx := e ! first]))
                            (zip [0..<n_servers cf] (m_roster (cf_servers cf)))
                            (replicate (length (blame_bits r)) False)) (\<lambda>sb.
                       Inr (Inr (Some (first, sb)))))"

definition RequestRebuttal :: "cs_config \<Rightarrow> cs_round callback" where
  "RequestRebuttal cf phase r =
     eff (bindS (FindMismatch cf r) (\<lambda>res.
       case res of Inl _ \<Rightarrow> Inr (Throw r)
       | Inr None \<Rightarrow> Inr (Done r Stay)
       | Inr (Some (gidx, sbits)) \<Rightarrow>
           bindS (GetId (cf_clients cf) (int gidx)) (\<lambda>i.
             let r = r\<lparr>expected_rebuttal := i, server_bits := sbits\<rparr>;
                 (owner, aidx, bphase) = current_blame r
             in Inr (Done (VerifiableSend cf i
                      (head cf SERVER_REBUTTAL_OR_VERDICT phase @ put_bool (cf_qds cf) False
                       @ put_int (cf_qds cf) bphase @ put_int (cf_qds cf) aidx @ put_bits (cf_qds cf) sbits) r) Complete))))"

definition SubmitVerdictSignature :: "cs_config \<Rightarrow> cs_round callback" where
  "SubmitVerdictSignature cf phase r =
     (let h = hash (cf_prims cf) (verdict_msg cf (current_blame r) (bad_dude r));
          r = r\<lparr>verdict_hash := h\<rparr>
      in Done (VerifiableBroadcastToServers cf
                (head cf SERVER_VERDICT_SIGNATURE phase
                 @ put_bytes (cf_qds cf) (sign (cf_prims cf) (cf_key cf) h)) r) Complete)"

definition PushVerdict :: "cs_config \<Rightarrow> cs_round callback" where
  "PushVerdict cf phase r =
     (let sigs = map (\<lambda>pid. qmap_value (verdict_signatures r) (pi_id pid) []) (m_roster (cf_servers cf));
          r = VerifiableBroadcastToClients cf
                (head cf SERVER_REBUTTAL_OR_VERDICT phase @ put_bool (cf_qds cf) True
                 @ put_triple (cf_qds cf) (current_blame r) @ put_id (cf_qds cf) (bad_dude r)
                 @ put_vec (cf_qds cf) sigs) r
      in Done (r\<lparr>successful := False, bad_members := [GetIndex (cf_servers cf) (bad_dude r)]\<rparr>)
           (Halt ''Bad member found and reported''))"

section \<open>Hooks of the state machine\<close>

definition BeforeStateTransition :: "cs_config \<Rightarrow> cs_round \<Rightarrow> cs_round" where
  "BeforeStateTransition cf r = (if cf_am_server cf then r\<lparr>period := None, handled_servers := []\<rparr> else r)"

definition CycleComplete :: "cs_config \<Rightarrow> int32 \<Rightarrow> cs_round \<Rightarrow> cs_round \<times> control" where
  "CycleComplete cf phase r =
     (let r = (if cf_am_server cf then
                 let r = r\<lparr>handled_clients := replicate (n_clients cf) False, client_ciphertexts := [],
                           server_ciphertexts := []\<rparr>;
                     nphase = phase + 1;
                     logs = (if sint nphase > 5 then (phase_logs r)(nphase - 5 := None) else phase_logs r)
                 in r\<lparr>phase_logs := logs(nphase \<mapsto> PhaseLog nphase (n_clients cf)), current_phase_log := nphase\<rparr>
               else r)
      in if stop_next r then (r\<lparr>interrupted := True\<rparr>, Halt ''Stopped for join'') else (r, Stay))"

text \<open>\<^verbatim>\<open>StartStop::Stop\<close> with the first half of \<^verbatim>\<open>CSDCNetRound::OnStop\<close>, and \<^verbatim>\<open>Round::OnStop\<close>.\<close>

definition Stop :: "cs_config \<Rightarrow> string \<Rightarrow> cs_round \<Rightarrow> cs_round option" where
  "Stop cf reason r =
     (if stopped r then None
      else Some ((if cf_am_server cf then r\<lparr>period := None\<rparr> else r)\<lparr>stopped := True, stop_reason := reason\<rparr>))"

definition OnStop :: "cs_round \<Rightarrow> cs_round" where
  "OnStop r = r\<lparr>finished_signals := finished_signals r + 1\<rparr>"

section \<open>The state tables\<close>

abbreviation add_state ::
    "cs_sm_state \<Rightarrow> msg_type option \<Rightarrow> cs_round handler option \<Rightarrow> cs_round callback option
       \<Rightarrow> cs_round sm_table \<Rightarrow> fault + cs_round sm_table" where
  "add_state st mt h c \<equiv>
     AddState (state_num st) (case mt of None \<Rightarrow> -1 | Some m \<Rightarrow> int (mtype_num m)) h c"

abbreviation add_trans :: "cs_sm_state \<Rightarrow> cs_sm_state \<Rightarrow> cs_round sm_table \<Rightarrow> fault + cs_round sm_table" where
  "add_trans a b \<equiv> AddTransition (state_num a) (state_num b)"

text \<open>The constructor's table, then what \<^verbatim>\<open>InitServer\<close> or \<^verbatim>\<open>InitClient\<close> adds.\<close>

definition common_table :: "cs_config \<Rightarrow> (cs_round sm_table \<Rightarrow> fault + cs_round sm_table) list" where
  "common_table cf =
     [add_state OFFLINE None None None,
      add_state SHUFFLING None None (Some (StartShuffle cf)),
      add_state PREPARE_FOR_BULK None None (Some (PrepareForBulk cf)),
      add_state STARTING_BLAME_SHUFFLE None None (Some (StartBlameShuffle cf)),
      add_state WAITING_FOR_BLAME_SHUFFLE None None (Some (ProcessBlameShuffle cf)),
      add_state FINISHED None None None,
      add_state PROCESS_BOOTSTRAP None None (Some (ProcessDataShuffle cf)),
      add_trans OFFLINE SHUFFLING,
      add_trans SHUFFLING PROCESS_BOOTSTRAP,
      add_trans PROCESS_BOOTSTRAP PREPARE_FOR_BULK,
      add_trans STARTING_BLAME_SHUFFLE WAITING_FOR_BLAME_SHUFFLE]"

definition InitServer_table :: "cs_config \<Rightarrow> (cs_round sm_table \<Rightarrow> fault + cs_round sm_table) list" where
  "InitServer_table cf =
     [add_state SERVER_WAIT_FOR_CLIENT_CIPHERTEXT (Some CLIENT_CIPHERTEXT)
        (Some (HandleClientCiphertext cf)) (Some (SetOnlineClients cf)),
      add_state SERVER_WAIT_FOR_CLIENT_LISTS (Some SERVER_CLIENT_LIST)
        (Some (HandleServerClientList cf)) (Some (SubmitClientList cf)),
      add_state SERVER_WAIT_FOR_SERVER_COMMITS (Some SERVER_COMMIT)
        (Some (HandleServerCommit cf)) (Some (SubmitCommit cf)),
      add_state SERVER_WAIT_FOR_SERVER_CIPHERTEXT (Some SERVER_CIPHERTEXT)
        (Some (HandleServerCiphertext cf)) (Some (SubmitServerCiphertext cf)),
      add_state SERVER_WAIT_FOR_SERVER_VALIDATION (Some SERVER_VALIDATION)
        (Some (HandleServerValidation cf)) (Some (SubmitValidation cf)),
      add_state SERVER_PUSH_CLEARTEXT None None (Some (PushCleartext cf)),
      add_state SERVER_TRANSMIT_BLAME_BITS None None (Some (TransmitBlameBits cf)),
      add_state SERVER_WAITING_FOR_BLAME_BITS (Some SERVER_BLAME_BITS) (Some (HandleBlameBits cf)) None,
      add_state SERVER_REQUEST_CLIENT_REBUTTAL None None (Some (RequestRebuttal cf)),
      add_state SERVER_WAIT_FOR_CLIENT_REBUTTAL (Some CLIENT_REBUTTAL) (Some (HandleRebuttal cf)) None,
      add_state SERVER_EXCHANGE_VERDICT_SIGNATURE None None (Some (SubmitVerdictSignature cf)),
      add_state SERVER_SHARE_VERDICT None None (Some (PushVerdict cf)),
      add_state SERVER_WAIT_FOR_VERDICT_SIGNATURE (Some SERVER_VERDICT_SIGNATURE)
        (Some (HandleVerdictSignature cf)) None,
      add_trans PREPARE_FOR_BULK SERVER_WAIT_FOR_CLIENT_CIPHERTEXT,
      add_trans SERVER_WAIT_FOR_CLIENT_CIPHERTEXT SERVER_WAIT_FOR_CLIENT_LISTS,
      add_trans SERVER_WAIT_FOR_CLIENT_LISTS SERVER_WAIT_FOR_SERVER_COMMITS,
      add_trans SERVER_WAIT_FOR_SERVER_COMMITS SERVER_WAIT_FOR_SERVER_CIPHERTEXT,
      add_trans SERVER_WAIT_FOR_SERVER_CIPHERTEXT SERVER_WAIT_FOR_SERVER_VALIDATION,
      add_trans SERVER_WAIT_FOR_SERVER_VALIDATION SERVER_PUSH_CLEARTEXT,
      add_trans SERVER_PUSH_CLEARTEXT SERVER_WAIT_FOR_CLIENT_CIPHERTEXT,
      SetCycleState (state_num SERVER_PUSH_CLEARTEXT),
      add_trans WAITING_FOR_BLAME_SHUFFLE SERVER_TRANSMIT_BLAME_BITS,
      add_trans SERVER_TRANSMIT_BLAME_BITS SERVER_WAITING_FOR_BLAME_BITS,
      add_trans SERVER_WAITING_FOR_BLAME_BITS SERVER_REQUEST_CLIENT_REBUTTAL,
      add_trans SERVER_REQUEST_CLIENT_REBUTTAL SERVER_WAIT_FOR_CLIENT_REBUTTAL,
      add_trans SERVER_WAIT_FOR_CLIENT_REBUTTAL SERVER_EXCHANGE_VERDICT_SIGNATURE,
      add_trans SERVER_EXCHANGE_VERDICT_SIGNATURE SERVER_WAIT_FOR_VERDICT_SIGNATURE,
      add_trans SERVER_WAIT_FOR_VERDICT_SIGNATURE SERVER_SHARE_VERDICT]"

definition InitClient_table :: "cs_config \<Rightarrow> (cs_round sm_table \<Rightarrow> fault + cs_round sm_table) list" where
  "InitClient_table cf =
     [add_state CLIENT_WAIT_FOR_CLEARTEXT (Some SERVER_CLEARTEXT)
        (Some (HandleServerCleartext cf)) (Some (SubmitClientCiphertext cf)),
      add_state WAITING_FOR_DATA_REQUEST_OR_VERDICT (Some SERVER_REBUTTAL_OR_VERDICT)
        (Some (HandleRebuttalOrVerdict cf)) None,
      add_trans PREPARE_FOR_BULK CLIENT_WAIT_FOR_CLEARTEXT,
      add_trans CLIENT_WAIT_FOR_CLEARTEXT CLIENT_WAIT_FOR_CLEARTEXT,
      SetCycleState (state_num CLIENT_WAIT_FOR_CLEARTEXT),
      add_trans WAITING_FOR_BLAME_SHUFFLE WAITING_FOR_DATA_REQUEST_OR_VERDICT]"

definition build_table :: "cs_config \<Rightarrow> fault + cs_round sm_table" where
  "build_table cf = foldS (\<lambda>f T. f T)
     (common_table cf @ (if cf_am_server cf then InitServer_table cf else InitClient_table cf)) empty_table"

definition cs_table :: "cs_config \<Rightarrow> cs_round sm_table" where
  "cs_table cf = (case build_table cf of Inl _ \<Rightarrow> empty_table | Inr T \<Rightarrow> T)"

definition cs_class :: "cs_config \<Rightarrow> cs_round round_class" where
  "cs_class cf = \<lparr>rc_table = cs_table cf, rc_qds = cf_qds cf, rc_nonce = (\<lambda>r. cf_nonce cf),
     rc_verify = (\<lambda>r. Verify cf), rc_before = BeforeStateTransition cf, rc_cycle = CycleComplete cf,
     rc_stop = Stop cf, rc_finished = state_num FINISHED, rc_on_stop = OnStop\<rparr>"

section \<open>Entry points\<close>

text \<open>
  \<^verbatim>\<open>ProcessPacket\<close>: which of the objects of the round a packet is for.  The header of the blame
  shuffle ends in 2.
\<close>

datatype packet_for = ForMachine bytes | ForShuffle bytes | Dropped

definition ProcessPacket :: "bytes \<Rightarrow> packet_for" where
  "ProcessPacket data =
     (case data of [] \<Rightarrow> Dropped
      | ty # rest \<Rightarrow> if ty = 0 then ForMachine rest else if ty = 1 then ForShuffle rest else Dropped)"

definition dcnet_header :: bytes where "dcnet_header = [127, 0]"
definition shuffle_header :: bytes where "shuffle_header = [127, 1]"
definition blame_header :: bytes where "blame_header = [127, 2]"

text \<open>\<^verbatim>\<open>HandleDisconnect\<close>; \<open>True\<close> in the result: the disconnect is handed to the shuffle round.\<close>

definition HandleDisconnect :: "cs_config \<Rightarrow> nat option \<Rightarrow> peer \<Rightarrow> cs_round \<Rightarrow> cs_round \<times> control \<times> bool" where
  "HandleDisconnect cf state i r =
     (if \<not> Contains (cf_servers cf) i \<and> \<not> Contains (cf_clients cf) i then (r, Stay, False)
      else let r = (if cf_am_server cf \<and> Contains (cf_clients cf) i
                    then r\<lparr>allowed_clients := removeAll i (allowed_clients r)\<rparr> else r)
           in if state = Some (state_num OFFLINE) \<or> state = Some (state_num SHUFFLING) then (r, Stay, True)
              else if Contains (cf_servers cf) i
              then (r\<lparr>interrupted := True\<rparr>, Halt ''A server disconnected.'', False)
              else (r, Stay, False))"

text \<open>The states the constructors leave: a member that has done nothing, and the fields of a server.\<close>

definition init_round :: "cs_config \<Rightarrow> bytes list \<Rightarrow> bytes list \<Rightarrow> int \<Rightarrow> cs_round" where
  "init_round cf ins ent now =
     \<lparr>anonymous_keys = [], base_seeds = [], anonymous_rngs = [], next_messages = [], signatures = Map.empty,
      cleartext = [], anonymous_key = [], shuffle_data = [], read = False, slot_open = False, accuse = False,
      next_msg = [], last_msg = [], last_ciphertext = [], msg_length = 0, base_msg_length = 0, my_idx = 0,
      my_server = (case find (\<lambda>i. i \<in> set (cf_server_ids cf)) (cf_connections cf) of None \<Rightarrow> 0 | Some i \<Rightarrow> i),
      start_accuse = False, accuser = 0, my_accuse = False, accuse_idx = 0, blame_phase = 0,
      period = None, start_of_phase = 0, expected_clients = 0, my_commit = [], my_ciphertext = [],
      allowed_clients = (if cf_am_server cf
                         then remdups (filter (\<lambda>i. i \<notin> set (cf_server_ids cf)) (cf_connections cf)) else []),
      handled_clients = (if cf_am_server cf then replicate (n_clients cf) False else []),
      signed_hash = [], client_ciphertexts = [], handled_servers = [], rng_to_gidx = [],
      server_commits = Map.empty, server_ciphertexts = [],
      phase_logs = (if cf_am_server cf then [0 \<mapsto> PhaseLog 0 (n_clients cf)] else Map.empty),
      current_phase_log = 0, accuse_found = False, current_blame = (0, 0, 0), blame_bits = [],
      server_bits = [], expected_rebuttal = 0, bad_dude = 0, verdict_hash = [], verdict_signatures = [],
      stop_next = False, successful = False, interrupted = False, bad_members = [], stopped = False,
      stop_reason = [], finished_signals = 0, shuffle_started = False, blame_started = False,
      shuffle_sink = [], blame_sink = [], outbox = [], delivered = [], inputs = ins, entropy = ent, clock = now\<rparr>"

definition init_machine :: "cs_config \<Rightarrow> bytes list \<Rightarrow> bytes list \<Rightarrow> int \<Rightarrow> cs_round machine" where
  "init_machine cf ins ent now =
     \<lparr>rm_round = init_round cf ins ent now, rm_current = Some (state_num OFFLINE), rm_log = Log,
      rm_next_log = Log, rm_phase = 0\<rparr>"

end
