(* ===== verification/CSRound_Frame.thy ===== *)
theory CSRound_Frame
  imports CSRound DCNet_Slots
begin

text \<open>
  The data plane does not touch the server's part of the state: what \<^verbatim>\<open>GenerateCiphertext\<close> and
  \<^verbatim>\<open>ProcessCleartext\<close> return has the extension fields they were given.
\<close>

definition ext_kept :: "'a \<Rightarrow> 'a slot_loop \<Rightarrow> bool" where
  "ext_kept e l \<longleftrightarrow> cs_state.more (sl_state l) = e"

lemma more_blame_own_slot [simp]: "cs_state.more (blame_own_slot phase owner st c s) = cs_state.more s"
  by (simp add: blame_own_slot_def Let_def split: option.splits)

lemma ext_kept_intros:
  "ext_kept e l \<Longrightarrow> ext_kept e (keep_slot owner len l)"
  "ext_kept e l \<Longrightarrow> ext_kept e (l\<lparr>sl_offset := n\<rparr>)"
  "ext_kept e l \<Longrightarrow> ext_kept e (l\<lparr>sl_pushed := ps\<rparr>)"
  "ext_kept e l \<Longrightarrow> ext_kept e (note_accusation owner m l)"
  "ext_kept e l \<Longrightarrow> ext_kept e (with_state (blame_own_slot phase owner st c) l)"
  "ext_kept e l \<Longrightarrow> ext_kept e
     (with_state (\<lambda>s. if my_idx s = int owner then s\<lparr>read := False, slot_open := True\<rparr> else s) l)"
  by (auto simp: ext_kept_def keep_slot_def with_state_def note_accusation_def Let_def)

lemma ext_kept_if: "(b \<Longrightarrow> ext_kept e l) \<Longrightarrow> (\<not> b \<Longrightarrow> ext_kept e l') \<Longrightarrow> ext_kept e (if b then l else l')"
  by simp

lemma process_slot_ext: "ext_kept e l \<Longrightarrow> post (ext_kept e) (process_slot P phase x l)"
  unfolding process_slot_def Let_def
  by (cases x) (auto simp only: case_prod_conv intro!: post_bindS post_if post_Inr ext_kept_if ext_kept_intros)

lemma ProcessCleartext_more:
  assumes "ProcessCleartext P n phase s = Inr (s', pushed, fin)"
  shows "cs_state.more s' = cs_state.more s"
proof -
  let ?l = "\<lparr>sl_state = s, sl_offset = open_bytes n,
         sl_next = map (\<lambda>i. (i, int (SlotHeaderLength P))) (opened_slots n (cleartext s)),
         sl_length = base_msg_length s
           + int (length (opened_slots n (cleartext s))) * int (SlotHeaderLength P),
         sl_pushed = []\<rparr>"
  from assms obtain l where l: "foldS (process_slot P phase) (next_messages s) ?l = Inr l"
    and s': "cs_state.more s' = cs_state.more (sl_state l)"
    unfolding ProcessCleartext_conv by (auto simp: bindS_eq_Inr)
  from l have "ext_kept (cs_state.more s) l"
  proof (rule foldS_invariant)
    show "ext_kept (cs_state.more s) ?l" by (simp add: ext_kept_def)
    fix x k k' assume "ext_kept (cs_state.more s) k" and "process_slot P phase x k = Inr k'"
    from process_slot_ext [OF this(1)] this(2) show "ext_kept (cs_state.more s) k'" by (rule postD)
  qed
  with s' show ?thesis by (simp add: ext_kept_def)
qed

lemma GenerateSlotMessage_more:
  "GenerateSlotMessage P phase gd ent s = Inr (c, s', ent') \<Longrightarrow> cs_state.more s' = cs_state.more s"
  by (auto simp: GenerateSlotMessage_def Let_def bindS_eq_Inr split: if_splits)

lemma GenerateCiphertext_more:
  assumes "GenerateCiphertext P phase gd ent s = Inr (ct, pads, s', ent')"
  shows "cs_state.more s' = cs_state.more s"
proof -
  have "post (\<lambda>(ct, pads, s', ent'). cs_state.more s' = cs_state.more s) (GenerateCiphertext P phase gd ent s)"
    unfolding GenerateCiphertext_def Let_def CheckData_def
    by (auto simp: post_def bindS_eq_Inr case_prod_unfold dest!: GenerateSlotMessage_more split: if_splits)
  with assms show ?thesis by (auto simp: post_def)
qed

lemma GenerateServerCiphertext_more:
  assumes "GenerateServerCiphertext P n phase gd ent handled cts s = Inr (ct, pads, s', ent')"
  shows "cs_state.more s' = cs_state.more s"
  using assms by (auto simp: GenerateServerCiphertext_def Let_def bindS_eq_Inr dest!: GenerateCiphertext_more)

end
