(* ===== verification/CSRound_Inv.thy ===== *)
theory CSRound_Inv
  imports CSRound_Frame
begin

text \<open>
  The invariant of a server of the DC-net round, kept by every message handler, every transition
  callback and every hook: who was heard, which ciphertexts were taken, and which phase logs are
  held.  It is the contract that the round state machine asks of its round.
\<close>

section \<open>The invariant\<close>

definition cf_ok :: "cs_config \<Rightarrow> bool" where
  "cf_ok cf \<longleftrightarrow> roster_ok (cf_clients cf) \<and> roster_ok (cf_servers cf)
     \<and> list_all (Contains (cf_servers cf)) (cf_server_ids cf)"

definition logs_ok :: "cs_config \<Rightarrow> int32 \<Rightarrow> int32 \<Rightarrow> (int32 \<rightharpoonup> phase_log) \<Rightarrow> bool" where
  "logs_ok cf p cur logs \<longleftrightarrow> 0 \<le> sint p \<and> cur = p \<and> logs p \<noteq> None
     \<and> (\<forall>k l. logs k = Some l \<longrightarrow> pl_phase l = k \<and> pl_max l = n_clients cf
            \<and> 0 \<le> sint k \<and> sint k \<le> sint p \<and> (k = 0 \<or> sint p - 5 < sint k))"

definition srv_ok :: "cs_config \<Rightarrow> int32 \<Rightarrow> cs_round \<Rightarrow> bool" where
  "srv_ok cf p r \<longleftrightarrow>
     distinct (handled_servers r) \<and> list_all (Contains (cf_servers cf)) (handled_servers r)
     \<and> distinct (map fst (client_ciphertexts r))
     \<and> list_all (\<lambda>(i, t). i < n_clients cf \<and> bit_at (handled_clients r) i) (client_ciphertexts r)
     \<and> n_clients cf \<le> length (handled_clients r)
     \<and> qmap_wf (server_ciphertexts r)
     \<and> list_all (\<lambda>(i, t). 0 \<le> i \<and> i < int (n_servers cf)) (server_ciphertexts r)
     \<and> (interrupted r \<or> logs_ok cf p (current_phase_log r) (phase_logs r))"

definition cs_inv :: "cs_config \<Rightarrow> int32 \<Rightarrow> cs_round \<Rightarrow> bool" where
  "cs_inv cf p r \<longleftrightarrow> (cf_ok cf \<and> cf_am_server cf \<longrightarrow> srv_ok cf p r)"

section \<open>Frame rules\<close>

lemma srv_ok_fields:
  assumes "handled_servers r' = handled_servers r" "client_ciphertexts r' = client_ciphertexts r"
    "handled_clients r' = handled_clients r" "server_ciphertexts r' = server_ciphertexts r"
    "current_phase_log r' = current_phase_log r" "phase_logs r' = phase_logs r"
    "interrupted r' = interrupted r"
  shows "cs_inv cf p r' \<longleftrightarrow> cs_inv cf p r"
  using assms by (simp add: cs_inv_def srv_ok_def)

lemma cs_inv_more:
  assumes "cs_state.more r' = cs_state.more r"
  shows "cs_inv cf p r' \<longleftrightarrow> cs_inv cf p r"
  by (rule srv_ok_fields) (use assms in \<open>cases r; cases r'; simp\<close>)+

lemma logs_ok_upd:
  assumes "logs_ok cf p cur logs" and "\<And>l. pl_phase (f l) = pl_phase l" and "\<And>l. pl_max (f l) = pl_max l"
  shows "logs_ok cf p cur (logs(cur := map_option f (logs cur)))"
  using assms by (auto simp: logs_ok_def split: if_splits)

lemma cs_inv_upd_log:
  assumes "cs_inv cf p r" and "\<And>l. pl_phase (f l) = pl_phase l" and "\<And>l. pl_max (f l) = pl_max l"
  shows "cs_inv cf p (upd_log f r)"
  using assms logs_ok_upd [of cf p "current_phase_log r" "phase_logs r" f]
  by (auto simp: cs_inv_def srv_ok_def upd_log_def)

lemma BroadcastToServers_conv:
  "VerifiableBroadcastToServers cf data r =
     r\<lparr>outbox := outbox r @ map (\<lambda>i. (i, signed cf data)) (cf_server_ids cf)\<rparr>"
proof -
  have "fold (\<lambda>i r. r\<lparr>outbox := outbox r @ [(i, d)]\<rparr>) xs r = r\<lparr>outbox := outbox r @ map (\<lambda>i. (i, d)) xs\<rparr>"
    for xs d and r :: cs_round by (induction xs arbitrary: r) simp_all
  then show ?thesis by (simp add: VerifiableBroadcastToServers_def)
qed

lemma BroadcastToClients_conv:
  "VerifiableBroadcastToClients cf data r =
     r\<lparr>outbox := outbox r @ map (\<lambda>i. (i, signed cf data))
        (filter (\<lambda>i. i \<notin> set (cf_server_ids cf)) (cf_connections cf))\<rparr>"
proof -
  have "fold (\<lambda>i r. if Q i then r else r\<lparr>outbox := outbox r @ [(i, d)]\<rparr>) xs r =
      r\<lparr>outbox := outbox r @ map (\<lambda>i. (i, d)) (filter (\<lambda>i. \<not> Q i) xs)\<rparr>"
    for xs d Q and r :: cs_round by (induction xs arbitrary: r) simp_all
  then show ?thesis by (simp add: VerifiableBroadcastToClients_def)
qed

lemma cs_inv_sends [simp]:
  "cs_inv cf p (VerifiableSend cf' to data r) \<longleftrightarrow> cs_inv cf p r"
  "cs_inv cf p (VerifiableBroadcastToServers cf' data r) \<longleftrightarrow> cs_inv cf p r"
  "cs_inv cf p (VerifiableBroadcastToClients cf' data r) \<longleftrightarrow> cs_inv cf p r"
  by (rule srv_ok_fields; simp add: VerifiableSend_def BroadcastToServers_conv BroadcastToClients_conv)+

lemma effect_ok_eff: "(\<And>e. x = Inr e \<Longrightarrow> effect_ok I e) \<Longrightarrow> effect_ok I (eff x)"
  by (cases x) (auto simp: eff_def)

section \<open>The data plane keeps the invariant\<close>

lemma cs_inv_SetupRngs:
  assumes "SetupRngs cf p' r = Inr r'" and "cs_inv cf p r"
  shows "cs_inv cf p r'"
proof -
  have "handled_servers r' = handled_servers r \<and> client_ciphertexts r' = client_ciphertexts r
    \<and> handled_clients r' = handled_clients r \<and> server_ciphertexts r' = server_ciphertexts r
    \<and> current_phase_log r' = current_phase_log r \<and> phase_logs r' = phase_logs r
    \<and> interrupted r' = interrupted r"
    using assms(1)
    by (auto simp: SetupRngs_def Let_def SetupRngs_server_def SetupRngs_client_def split: if_splits)
  with assms(2) srv_ok_fields [of r' r cf p] show ?thesis by blast
qed

lemma cs_inv_take_inputs [simp]: "cs_inv cf p (take_inputs r ent r') \<longleftrightarrow> cs_inv cf p r'"
  by (rule srv_ok_fields) (simp_all add: take_inputs_def)

lemma cs_inv_log_pads: "cs_inv cf p r \<Longrightarrow> cs_inv cf p (log_pads cf pads r)"
  by (simp add: log_pads_def cs_inv_upd_log)

lemma cs_inv_GenerateCiphertext:
  assumes "GenerateCiphertext_round cf phase r = Inr (ct, r')" and "cs_inv cf p r"
  shows "cs_inv cf p r'"
proof -
  from assms(1) obtain pads s ent where
    g: "GenerateCiphertext (cf_prims cf) phase (GetData r) (entropy r) r = Inr (ct, pads, s, ent)"
    and r': "r' = log_pads cf pads (take_inputs r ent s)"
    by (auto simp: GenerateCiphertext_round_def bindS_eq_Inr)
  have "cs_inv cf p s" using cs_inv_more [OF GenerateCiphertext_more [OF g]] assms(2) by blast
  then show ?thesis by (simp add: r' cs_inv_log_pads)
qed

lemma cs_inv_GenerateServerCiphertext:
  assumes "GenerateServerCiphertext_round cf phase r = Inr r'" and "cs_inv cf p r"
  shows "cs_inv cf p r'"
proof -
  from assms(1) obtain ct pads s ent where
    g: "GenerateServerCiphertext (cf_prims cf) (n_clients cf) phase (GetData r) (entropy r)
          (handled_clients r) (client_ciphertexts r) r = Inr (ct, pads, s, ent)"
    and r': "r' = (log_pads cf pads (take_inputs r ent s))\<lparr>my_ciphertext := ct, my_commit := hash (cf_prims cf) ct\<rparr>"
    by (auto simp: GenerateServerCiphertext_round_def bindS_eq_Inr split: if_splits)
  have "cs_inv cf p s" using cs_inv_more [OF GenerateServerCiphertext_more [OF g]] assms(2) by blast
  then have "cs_inv cf p (log_pads cf pads (take_inputs r ent s))" by (simp add: cs_inv_log_pads)
  then show ?thesis
    unfolding r' by (subst srv_ok_fields [of _ "log_pads cf pads (take_inputs r ent s)"]) simp_all
qed

lemma cs_inv_ProcessCleartext:
  assumes "ProcessCleartext_round cf phase r = Inr r'" and "cs_inv cf p r"
  shows "cs_inv cf p r'"
proof -
  let ?r = "if cf_am_server cf
      then upd_log (\<lambda>l. l\<lparr>message_offsets := message_offsets l
             @ slot_starts (n_clients cf) (open_bytes (n_clients cf)) (next_messages r)\<rparr>) r else r"
  from assms(1) obtain s pushed fin where
    g: "ProcessCleartext (cf_prims cf) (n_clients cf) phase ?r = Inr (s, pushed, fin)"
    and r': "r' = (let s = s\<lparr>delivered := delivered s @ pushed\<rparr>
        in if cf_am_server cf then upd_log (\<lambda>l. l\<lparr>message_length := fin\<rparr>) s else s)"
    by (auto simp: ProcessCleartext_round_def Let_def bindS_eq_Inr)
  have "cs_inv cf p ?r" using assms(2) by (simp add: cs_inv_upd_log)
  with cs_inv_more [OF ProcessCleartext_more [OF g]] have "cs_inv cf p s" by blast
  then have "cs_inv cf p (s\<lparr>delivered := delivered s @ pushed\<rparr>)"
    by (subst srv_ok_fields [of _ s]) simp_all
  then show ?thesis by (simp add: r' Let_def cs_inv_upd_log)
qed

section \<open>Handlers keep the invariant\<close>

lemma HandleServerCleartext_ok:
  assumes "cs_inv cf p r"
  shows "effect_ok (cs_inv cf p) (HandleServerCleartext cf ph from stream r)"
proof -
  have "cs_inv cf p (r\<lparr>cleartext := c\<rparr>)" for c
    using assms by (subst srv_ok_fields [of _ r]) simp_all
  then show ?thesis
    using assms
    by (auto simp: HandleServerCleartext_def Let_def bindS_eq_Inr cs_inv_ProcessCleartext
        split: prod.split intro!: effect_ok_eff)
qed

lemma cs_inv_new_ciphertext:
  assumes "cf_ok cf" and "cs_inv cf p r" and "idx = GetIndex (cf_clients cf) from" and "0 \<le> idx"
    and "idx < int (length (handled_clients r))" and "\<not> handled_clients r ! nat idx"
  shows "cs_inv cf p (r\<lparr>handled_clients := (handled_clients r)[nat idx := True],
            client_ciphertexts := client_ciphertexts r @ [(nat idx, payload)]\<rparr>)"
proof (cases "cf_am_server cf")
  case True
  with assms(1,2) have s: "srv_ok cf p r" by (simp add: cs_inv_def)
  have n: "nat idx < n_clients cf"
    using assms(1,3,4) GetIndex_bounds(2) [of "cf_clients cf" "from"] by (simp add: cf_ok_def)
  have l: "nat idx < length (handled_clients r)" using assms(4,5) by simp
  have fresh: "nat idx \<notin> fst ` set (client_ciphertexts r)"
    using s assms(6) by (auto simp: srv_ok_def list_all_iff bit_at_def)
  have old: "bit_at ((handled_clients r)[nat idx := True]) i" if "bit_at (handled_clients r) i" for i
    using that by (cases "i = nat idx") (auto simp: bit_at_def)
  have new: "bit_at ((handled_clients r)[nat idx := True]) (nat idx)" using l by (simp add: bit_at_def)
  have "list_all (\<lambda>(i, t). i < n_clients cf \<and> bit_at ((handled_clients r)[nat idx := True]) i) (client_ciphertexts r)"
    using s old by (auto simp: srv_ok_def list_all_iff)
  with s n fresh new show ?thesis by (simp add: cs_inv_def srv_ok_def)
qed (simp add: cs_inv_def)

lemma HandleClientCiphertext_ok:
  assumes "cf_ok cf" and "cs_inv cf p r"
  shows "effect_ok (cs_inv cf p) (HandleClientCiphertext cf ph from stream r)"
proof -
  have per: "cs_inv cf p (r\<lparr>period := t\<rparr>) \<longleftrightarrow> cs_inv cf p r" for t r
    by (rule srv_ok_fields) simp_all
  show ?thesis
    using assms
    by (auto simp: HandleClientCiphertext_def Let_def per
        intro!: cs_inv_upd_log cs_inv_new_ciphertext split: prod.split)
qed

lemma cs_inv_heard:
  assumes "cs_inv cf p r" and "Contains (cf_servers cf) from" and "from \<notin> set (handled_servers r)"
  shows "cs_inv cf p (r\<lparr>handled_servers := from # handled_servers r\<rparr>)"
  using assms by (simp add: cs_inv_def srv_ok_def)

lemma HandleServerClientList_ok:
  assumes "cf_ok cf" and "cs_inv cf p r"
  shows "effect_ok (cs_inv cf p) (HandleServerClientList cf ph from stream r)"
proof -
  have "cs_inv cf p (r\<lparr>handled_clients := bits_or (handled_clients r) cl, handled_servers := from # handled_servers r\<rparr>)"
    if "from \<in> set (cf_server_ids cf)" "from \<notin> set (handled_servers r)" for cl
    using assms that
    by (auto simp: cs_inv_def srv_ok_def cf_ok_def list_all_iff bit_at_bits_or)
  then show ?thesis
    using assms
    by (auto simp: HandleServerClientList_def Let_def servers_done_def
        intro!: cs_inv_upd_log split: prod.split)
qed

lemma HandleServerCommit_ok:
  assumes "cs_inv cf p r"
  shows "effect_ok (cs_inv cf p) (HandleServerCommit cf ph from stream r)"
  using assms
  by (auto simp: HandleServerCommit_def Let_def servers_done_def cs_inv_def srv_ok_def split: prod.split)

lemma HandleServerCiphertext_ok:
  assumes "cf_ok cf" and "cs_inv cf p r"
  shows "effect_ok (cs_inv cf p) (HandleServerCiphertext cf ph from stream r)"
proof -
  let ?i = "GetIndex (cf_servers cf) from"
  have "cs_inv cf p (r\<lparr>handled_servers := from # handled_servers r,
          server_ciphertexts := qmap_insert ?i c (server_ciphertexts r)\<rparr>)"
    if "Contains (cf_servers cf) from" "from \<notin> set (handled_servers r)" for c
  proof -
    have "0 \<le> ?i \<and> ?i < int (n_servers cf)"
      using assms(1) that(1) GetIndex_bounds [of "cf_servers cf" "from"] by (auto simp: cf_ok_def)
    then show ?thesis
      using assms(2) that
      by (auto simp: cs_inv_def srv_ok_def intro!: list_all_qmap_insert qmap_insert_wf)
  qed
  then show ?thesis
    using assms
    by (auto simp: HandleServerCiphertext_def Let_def servers_done_def split: prod.split)
qed

lemma HandleServerValidation_ok:
  assumes "cs_inv cf p r"
  shows "effect_ok (cs_inv cf p) (HandleServerValidation cf ph from stream r)"
  using assms
  by (auto simp: HandleServerValidation_def Let_def servers_done_def cs_inv_def srv_ok_def split: prod.split)

text \<open>The handlers and callbacks that touch nothing the invariant is about.\<close>

lemma cs_inv_unrelated [simp]:
  "cs_inv cf p (r\<lparr>blame_bits := bb\<rparr>) \<longleftrightarrow> cs_inv cf p r"
  "cs_inv cf p (r\<lparr>bad_dude := b\<rparr>) \<longleftrightarrow> cs_inv cf p r"
  "cs_inv cf p (r\<lparr>verdict_signatures := vs\<rparr>) \<longleftrightarrow> cs_inv cf p r"
  "cs_inv cf p (r\<lparr>verdict_hash := vh\<rparr>) \<longleftrightarrow> cs_inv cf p r"
  "cs_inv cf p (r\<lparr>successful := su\<rparr>) \<longleftrightarrow> cs_inv cf p r"
  "cs_inv cf p (r\<lparr>bad_members := bm\<rparr>) \<longleftrightarrow> cs_inv cf p r"
  "cs_inv cf p (r\<lparr>shuffle_started := ss\<rparr>) \<longleftrightarrow> cs_inv cf p r"
  "cs_inv cf p (r\<lparr>blame_started := bs\<rparr>) \<longleftrightarrow> cs_inv cf p r"
  "cs_inv cf p (r\<lparr>expected_rebuttal := er, server_bits := sb\<rparr>) \<longleftrightarrow> cs_inv cf p r"
  "cs_inv cf p (r\<lparr>current_blame := cb, accuse_found := af\<rparr>) \<longleftrightarrow> cs_inv cf p r"
  "cs_inv cf p (r\<lparr>my_idx := mi\<rparr>) \<longleftrightarrow> cs_inv cf p r"
  "cs_inv cf p (r\<lparr>anonymous_keys := ak\<rparr>) \<longleftrightarrow> cs_inv cf p r"
  "cs_inv cf p (r\<lparr>base_seeds := bse\<rparr>) \<longleftrightarrow> cs_inv cf p r"
  "cs_inv cf p (r\<lparr>msg_length := ml, base_msg_length := bml\<rparr>) \<longleftrightarrow> cs_inv cf p r"
  "cs_inv cf p (r\<lparr>period := pd, start_of_phase := sp, expected_clients := ec\<rparr>) \<longleftrightarrow> cs_inv cf p r"
  "cs_inv cf p (r\<lparr>cleartext := cl, signed_hash := sh\<rparr>) \<longleftrightarrow> cs_inv cf p r"
  "cs_inv cf p (r\<lparr>period := pd\<rparr>) \<longleftrightarrow> cs_inv cf p r"
  "cs_inv cf p (r\<lparr>stopped := st, stop_reason := re\<rparr>) \<longleftrightarrow> cs_inv cf p r"
  "cs_inv cf p (r\<lparr>period := pd, stopped := st, stop_reason := re\<rparr>) \<longleftrightarrow> cs_inv cf p r"
  "cs_inv cf p (r\<lparr>finished_signals := fs\<rparr>) \<longleftrightarrow> cs_inv cf p r"
  by (rule srv_ok_fields; simp)+

lemma HandleBlameBits_ok:
  "cs_inv cf p r \<Longrightarrow> effect_ok (cs_inv cf p) (HandleBlameBits cf ph from stream r)"
  by (auto simp: HandleBlameBits_def Let_def split: prod.split)

lemma HandleRebuttal_ok:
  "cs_inv cf p r \<Longrightarrow> effect_ok (cs_inv cf p) (HandleRebuttal cf ph from stream r)"
  by (auto simp: HandleRebuttal_def Let_def bindS_eq_Inr split: prod.split intro!: effect_ok_eff)

lemma HandleVerdictSignature_ok:
  "cs_inv cf p r \<Longrightarrow> effect_ok (cs_inv cf p) (HandleVerdictSignature cf ph from stream r)"
  by (auto simp: HandleVerdictSignature_def Let_def split: prod.split)

lemma HandleRebuttalOrVerdict_ok:
  "cs_inv cf p r \<Longrightarrow> effect_ok (cs_inv cf p) (HandleRebuttalOrVerdict cf ph from stream r)"
  by (auto simp: HandleRebuttalOrVerdict_def Let_def bindS_eq_Inr split: prod.split intro!: effect_ok_eff)

lemmas handlers_ok = HandleServerCleartext_ok HandleClientCiphertext_ok HandleServerClientList_ok
  HandleServerCommit_ok HandleServerCiphertext_ok HandleServerValidation_ok HandleBlameBits_ok
  HandleRebuttal_ok HandleVerdictSignature_ok HandleRebuttalOrVerdict_ok

section \<open>Callbacks keep the invariant\<close>

lemma shuffle_entry_ok: "cs_inv cf p r \<Longrightarrow> cs_inv cf p (fold (shuffle_entry cf) xs r)"
proof (induction xs arbitrary: r)
  case (Cons x xs)
  have "cs_inv cf p (shuffle_entry cf x r)"
    using Cons.prems by (auto simp: shuffle_entry_def Let_def split: prod.split)
  with Cons.IH show ?case by simp
qed simp

lemma simple_callbacks_ok:
  assumes "cs_inv cf p r"
  shows "effect_ok (cs_inv cf p) (StartShuffle cf ph r)"
    and "effect_ok (cs_inv cf p) (ProcessDataShuffle cf ph r)"
    and "effect_ok (cs_inv cf p) (PrepareForBulk cf ph r)"
    and "effect_ok (cs_inv cf p) (SetOnlineClients cf ph r)"
    and "effect_ok (cs_inv cf p) (SubmitClientList cf ph r)"
    and "effect_ok (cs_inv cf p) (SubmitServerCiphertext cf ph r)"
    and "effect_ok (cs_inv cf p) (SubmitValidation cf ph r)"
    and "effect_ok (cs_inv cf p) (StartBlameShuffle cf ph r)"
    and "effect_ok (cs_inv cf p) (SubmitVerdictSignature cf ph r)"
    and "effect_ok (cs_inv cf p) (PushVerdict cf ph r)"
  using assms shuffle_entry_ok
  by (simp_all add: StartShuffle_def ProcessDataShuffle_def PrepareForBulk_def SetupRngSeeds_def
      SetOnlineClients_def SubmitClientList_def SubmitServerCiphertext_def SubmitValidation_def
      StartBlameShuffle_def SubmitVerdictSignature_def PushVerdict_def Let_def)

lemma SubmitClientCiphertext_ok:
  "cs_inv cf p r \<Longrightarrow> effect_ok (cs_inv cf p) (SubmitClientCiphertext cf ph r)"
  by (auto simp: SubmitClientCiphertext_def bindS_eq_Inr intro!: effect_ok_eff
      dest!: cs_inv_SetupRngs cs_inv_GenerateCiphertext)

lemma SubmitCommit_ok: "cs_inv cf p r \<Longrightarrow> effect_ok (cs_inv cf p) (SubmitCommit cf ph r)"
  by (auto simp: SubmitCommit_def bindS_eq_Inr intro!: effect_ok_eff
      dest!: cs_inv_SetupRngs cs_inv_GenerateServerCiphertext)

lemma PushCleartext_ok: "cs_inv cf p r \<Longrightarrow> effect_ok (cs_inv cf p) (PushCleartext cf ph r)"
  by (auto simp: PushCleartext_def Let_def bindS_eq_Inr intro!: effect_ok_eff dest!: cs_inv_ProcessCleartext)

lemma ProcessBlameShuffle_ok:
  assumes "cs_inv cf p r"
  shows "effect_ok (cs_inv cf p) (ProcessBlameShuffle cf ph r)"
proof -
  let ?f = "\<lambda>blame r. bindS (check_accusation cf r blame) (\<lambda>acc.
      Inr (case acc of None \<Rightarrow> r
           | Some t \<Rightarrow> if accuse_found r then r else r\<lparr>current_blame := t, accuse_found := True\<rparr>))"
  have "cs_inv cf p r'" if "foldS ?f xs r = Inr r'" for xs r'
    using that assms
  proof (rule foldS_invariant)
    fix x s s' assume "cs_inv cf p s" and "?f x s = Inr s'"
    then obtain acc where "cs_inv cf p s" and "s' = (case acc of None \<Rightarrow> s
        | Some t \<Rightarrow> if accuse_found s then s else s\<lparr>current_blame := t, accuse_found := True\<rparr>)"
      by (auto simp: bindS_eq_Inr)
    then show "cs_inv cf p s'" by (cases acc) auto
  qed
  then show ?thesis
    using assms by (auto simp: ProcessBlameShuffle_def bindS_eq_Inr intro!: effect_ok_eff)
qed

lemma TransmitBlameBits_ok: "cs_inv cf p r \<Longrightarrow> effect_ok (cs_inv cf p) (TransmitBlameBits cf ph r)"
  by (auto simp: TransmitBlameBits_def bindS_eq_Inr split: option.split prod.split intro!: effect_ok_eff)

lemma RequestRebuttal_ok: "cs_inv cf p r \<Longrightarrow> effect_ok (cs_inv cf p) (RequestRebuttal cf ph r)"
proof -
  assume inv: "cs_inv cf p r"
  obtain owner aidx bphase where cb: "current_blame r = (owner, aidx, bphase)" by (cases "current_blame r") auto
  show ?thesis
    unfolding RequestRebuttal_def
  proof (rule effect_ok_eff)
    fix e assume e: "bindS (FindMismatch cf r) (\<lambda>res.
       case res of Inl _ \<Rightarrow> Inr (Throw r)
       | Inr None \<Rightarrow> Inr (Done r Stay)
       | Inr (Some (gidx, sbits)) \<Rightarrow>
           bindS (GetId (cf_clients cf) (int gidx)) (\<lambda>i.
             let r = r\<lparr>expected_rebuttal := i, server_bits := sbits\<rparr>;
                 (owner, aidx, bphase) = current_blame r
             in Inr (Done (VerifiableSend cf i
                      (head cf SERVER_REBUTTAL_OR_VERDICT ph @ put_bool (cf_qds cf) False
                       @ put_int (cf_qds cf) bphase @ put_int (cf_qds cf) aidx @ put_bits (cf_qds cf) sbits) r) Complete))) = Inr e"
    then obtain res where "FindMismatch cf r = Inr res" by (auto simp: bindS_eq_Inr)
    with e inv cb show "effect_ok (cs_inv cf p) e"
      by (cases res) (auto simp: Let_def bindS_eq_Inr split: option.splits)
  qed
qed

lemmas callbacks_ok = simple_callbacks_ok SubmitClientCiphertext_ok SubmitCommit_ok PushCleartext_ok
  ProcessBlameShuffle_ok TransmitBlameBits_ok RequestRebuttal_ok

section \<open>Hooks keep the invariant\<close>

lemma cs_inv_before: "cs_inv cf p r \<Longrightarrow> cs_inv cf p (BeforeStateTransition cf r)"
  by (auto simp: BeforeStateTransition_def cs_inv_def srv_ok_def)

lemma cs_inv_stop: "cs_inv cf p r \<Longrightarrow> Stop cf reason r = Some r' \<Longrightarrow> cs_inv cf p r'"
  by (auto simp: Stop_def split: if_splits)

lemma cs_inv_on_stop: "cs_inv cf p r \<Longrightarrow> cs_inv cf p (OnStop r)"
  by (simp add: OnStop_def)

lemma sint_plus_one: "sint p < 2 ^ 31 - 1 \<Longrightarrow> sint (p + 1 :: int32) = sint p + 1"
  using sint_greater_eq [of p] by (simp add: sint_word_ariths(1) signed_take_bit_int_eq_self)

lemma sint_minus_small: "0 \<le> sint p \<Longrightarrow> sint (p - 5 :: int32) = sint p - 5"
  using sint_less [of p] by (simp add: sint_word_ariths(2) signed_take_bit_int_eq_self)

lemma logs_ok_cycle:
  assumes "logs_ok cf p cur logs" and "sint p < 2 ^ 31 - 1"
  shows "logs_ok cf (p + 1) (p + 1)
    ((if sint (p + 1) > 5 then logs(p + 1 - 5 := None) else logs)(p + 1 \<mapsto> PhaseLog (p + 1) (n_clients cf)))"
    (is "logs_ok cf ?p ?p (?logs(?p \<mapsto> ?l))")
proof -
  have p: "sint ?p = sint p + 1" by (rule sint_plus_one [OF assms(2)])
  have p0: "0 \<le> sint p" using assms(1) by (simp add: logs_ok_def)
  have p5: "sint (?p - 5) = sint p - 4" using sint_minus_small [of ?p] p p0 by simp
  have "pl_phase l = k \<and> pl_max l = n_clients cf \<and> 0 \<le> sint k \<and> sint k \<le> sint ?p
      \<and> (k = 0 \<or> sint ?p - 5 < sint k)" if "(?logs(?p \<mapsto> ?l)) k = Some l" for k l
  proof (cases "k = ?p")
    case True
    with that p p0 show ?thesis by (auto simp: PhaseLog_def)
  next
    case False
    then have k: "logs k = Some l" "sint ?p > 5 \<longrightarrow> k \<noteq> ?p - 5"
      using that by (auto split: if_splits)
    then have o': "pl_phase l = k" "pl_max l = n_clients cf" "0 \<le> sint k" "sint k \<le> sint p"
      "k = 0 \<or> sint p - 5 < sint k"
      using assms(1) by (auto simp: logs_ok_def)
    have "sint k \<noteq> sint p - 4" if "sint ?p > 5"
      using k(2) that p5 by (metis signed_word_eqI)
    moreover have "sint k \<noteq> 0" if "k \<noteq> 0" using that by (metis signed_0 signed_word_eqI)
    ultimately show ?thesis using o' p by fastforce
  qed
  then show ?thesis using p p0 by (auto simp: logs_ok_def)
qed

lemma cs_inv_cycle:
  assumes "cs_inv cf p r" and "CycleComplete cf p r = (r', c)"
  shows "(c \<noteq> Stay \<longrightarrow> cs_inv cf p r') \<and> (c = Stay \<longrightarrow> sint p < 2 ^ 31 - 1 \<longrightarrow> cs_inv cf (p + 1) r')"
proof (cases "cf_am_server cf")
  case False
  with assms(2) show ?thesis by (auto simp: cs_inv_def)
next
  case True
  let ?logs = "(if sint (p + 1) > 5 then (phase_logs r)(p + 1 - 5 := None) else phase_logs r)
      (p + 1 \<mapsto> PhaseLog (p + 1) (n_clients cf))"
  let ?r = "r\<lparr>handled_clients := replicate (n_clients cf) False, client_ciphertexts := [],
      server_ciphertexts := [], phase_logs := ?logs, current_phase_log := p + 1\<rparr>"
  have cc: "CycleComplete cf p r = (if stop_next r then (?r\<lparr>interrupted := True\<rparr>, Halt ''Stopped for join'') else (?r, Stay))"
    using True by (simp add: CycleComplete_def Let_def)
  have "cs_inv cf p (?r\<lparr>interrupted := True\<rparr>)"
    using assms(1) by (simp add: cs_inv_def srv_ok_def)
  moreover have "cs_inv cf (p + 1) ?r" if "sint p < 2 ^ 31 - 1"
    using assms(1) logs_ok_cycle [OF _ that, of cf "current_phase_log r" "phase_logs r"]
    by (auto simp: cs_inv_def srv_ok_def)
  ultimately show ?thesis using assms(2) unfolding cc by (auto split: if_splits)
qed

section \<open>The table of states\<close>

text \<open>A property of all entries of a table survives the operations that build the table.\<close>

definition all_states :: "(nat \<Rightarrow> 'r sm_state \<Rightarrow> bool) \<Rightarrow> 'r sm_table \<Rightarrow> bool" where
  "all_states Q T \<longleftrightarrow> (\<forall>s st. states T s = Some st \<longrightarrow> Q s st)"

definition builds :: "(nat \<Rightarrow> 'r sm_state \<Rightarrow> bool) \<Rightarrow> ('r sm_table \<Rightarrow> fault + 'r sm_table) \<Rightarrow> bool" where
  "builds Q f \<longleftrightarrow> (\<forall>T T'. all_states Q T \<longrightarrow> f T = Inr T' \<longrightarrow> all_states Q T')"

lemma builds_AddState:
  "Q s \<lparr>sm_id = s, sm_message_type = mt,
        sm_handler = (case h of None \<Rightarrow> EmptyHandleMessage | Some h \<Rightarrow> h),
        sm_callback = (case c of None \<Rightarrow> EmptyTransitionCallback | Some c \<Rightarrow> c)\<rparr> \<Longrightarrow>
     builds Q (AddState s mt h c)"
  by (auto simp: builds_def all_states_def AddState_def split: if_splits)

lemma builds_AddTransition: "builds Q (AddTransition a b)"
  by (auto simp: builds_def all_states_def AddTransition_def split: if_splits)

lemma builds_SetCycleState: "builds Q (SetCycleState s)"
  by (auto simp: builds_def all_states_def SetCycleState_def)

definition state_kept :: "cs_config \<Rightarrow> nat \<Rightarrow> cs_round sm_state \<Rightarrow> bool" where
  "state_kept cf s st \<longleftrightarrow> sm_id st = s
     \<and> (\<forall>p r from stream. cs_inv cf p r \<longrightarrow> effect_ok (cs_inv cf p) (sm_handler st p from stream r))
     \<and> (\<forall>p r. cs_inv cf p r \<longrightarrow> effect_ok (cs_inv cf p) (sm_callback st p r))"

lemma builds_state:
  assumes "\<And>p r from stream. cs_inv cf p r \<Longrightarrow>
      effect_ok (cs_inv cf p) ((case h of None \<Rightarrow> EmptyHandleMessage | Some h \<Rightarrow> h) p from stream r)"
    and "\<And>p r. cs_inv cf p r \<Longrightarrow>
      effect_ok (cs_inv cf p) ((case c of None \<Rightarrow> EmptyTransitionCallback | Some c \<Rightarrow> c) p r)"
  shows "builds (state_kept cf) (AddState s mt h c)"
  by (rule builds_AddState) (use assms in \<open>simp add: state_kept_def\<close>)

lemma empty_ok:
  "cs_inv cf p r \<Longrightarrow> effect_ok (cs_inv cf p) (EmptyHandleMessage p from stream r)"
  "cs_inv cf p r \<Longrightarrow> effect_ok (cs_inv cf p) (EmptyTransitionCallback p r)"
  by (simp_all add: EmptyHandleMessage_def EmptyTransitionCallback_def)

lemma effect_ok_trivial: "\<not> cf_ok cf \<Longrightarrow> effect_ok (cs_inv cf p) e"
  by (cases e) (simp_all add: cs_inv_def)

lemma tables_kept:
  "list_all (builds (state_kept cf)) (common_table cf)"
  "list_all (builds (state_kept cf)) (InitServer_table cf)"
  "list_all (builds (state_kept cf)) (InitClient_table cf)"
  by (cases "cf_ok cf"; simp add: common_table_def InitServer_table_def InitClient_table_def builds_state
      builds_AddTransition builds_SetCycleState handlers_ok callbacks_ok empty_ok effect_ok_trivial
      del: state_num.simps mtype_num.simps)+

lemma cs_table_kept:
  assumes "states (cs_table cf) s = Some st"
  shows "state_kept cf s st"
proof (cases "build_table cf")
  case (Inl f)
  with assms show ?thesis by (simp add: cs_table_def empty_table_def)
next
  case (Inr T)
  have "all_states (state_kept cf) T"
  proof (rule foldS_invariant [where P = "all_states (state_kept cf)"])
    show "foldS (\<lambda>f T. f T) (common_table cf @ (if cf_am_server cf then InitServer_table cf
        else InitClient_table cf)) empty_table = Inr T"
      using Inr by (simp add: build_table_def)
    show "all_states (state_kept cf) empty_table" by (simp add: all_states_def empty_table_def)
    fix f T T' assume "f \<in> set (common_table cf @ (if cf_am_server cf then InitServer_table cf
        else InitClient_table cf))" and "all_states (state_kept cf) T" and "f T = Inr T'"
    moreover from this(1) have "builds (state_kept cf) f"
      using tables_kept [of cf] by (auto simp: list_all_iff split: if_splits)
    ultimately show "all_states (state_kept cf) T'" by (simp add: builds_def)
  qed
  with assms Inr show ?thesis by (simp add: all_states_def cs_table_def)
qed

text \<open>The DC-net round keeps the contract of the state machine.\<close>

interpretation dcnet: round_contract "cs_class cf" "cs_inv cf" for cf
proof
  fix s st p r "from" stream
  assume "states (rc_table (cs_class cf)) s = Some st"
  then have "state_kept cf s st" by (simp add: cs_class_def cs_table_kept)
  then show "sm_id st = s"
    and "cs_inv cf p r \<Longrightarrow> effect_ok (cs_inv cf p) (sm_handler st p from stream r)"
    and "cs_inv cf p r \<Longrightarrow> effect_ok (cs_inv cf p) (sm_callback st p r)"
    by (simp_all add: state_kept_def)
next
  fix p r r' c reason
  assume inv: "cs_inv cf p r"
  show "cs_inv cf p (rc_before (cs_class cf) r)" and "cs_inv cf p (rc_on_stop (cs_class cf) r)"
    using inv by (simp_all add: cs_class_def cs_inv_before cs_inv_on_stop)
  show "rc_stop (cs_class cf) reason r = Some r' \<Longrightarrow> cs_inv cf p r'"
    using cs_inv_stop [OF inv] by (simp add: cs_class_def)
  show "rc_cycle (cs_class cf) p r = (r', c) \<Longrightarrow>
      (c \<noteq> Stay \<longrightarrow> cs_inv cf p r') \<and> (c = Stay \<longrightarrow> sint p < 2 ^ 31 - 1 \<longrightarrow> cs_inv cf (p + 1) r')"
    using cs_inv_cycle [OF inv] by (simp add: cs_class_def)
qed

end
