(* ===== verification/CSRound_Props.thy ===== *)
theory CSRound_Props
  imports CSRound_Inv
begin

text \<open>
  Runs of a member of the DC-net round as a step relation, and the properties of the control plane:
  the server invariant on every reachable state, quorums, commitments, what a client accepts, and
  the blame protocol.
\<close>

section \<open>Runs\<close>

text \<open>
  What can happen to a member: the round starts, a packet arrives, the submission timer fires, a
  shuffle ends, a peer disconnects or joins, time passes, the application queues data.  Each case
  runs the state machine with some amount of fuel.
\<close>

inductive cs_step :: "cs_config \<Rightarrow> cs_round machine \<Rightarrow> cs_round machine \<Rightarrow> bool" for cf where
  start: "exec k (cs_class cf) (CStateComplete None) m = Inr (m', t) \<Longrightarrow> cs_step cf m m'"
| packet: "ProcessPacket data = ForMachine d \<Longrightarrow>
    exec k (cs_class cf) (CProcessData from d) m = Inr (m', t) \<Longrightarrow> cs_step cf m m'"
| timer: "period (rm_round m) \<noteq> None \<Longrightarrow>
    exec k (cs_class cf) (CStateComplete None) m = Inr (m', t) \<Longrightarrow> cs_step cf m m'"
| shuffle: "ShuffleFinished success bad was_interrupted ((rm_round m)\<lparr>shuffle_sink := ents\<rparr>) = e \<Longrightarrow>
    run_effect (exec k (cs_class cf)) e m = Inr (m', t) \<Longrightarrow> cs_step cf m m'"
| blame: "exec k (cs_class cf) (CStateComplete None)
      (m\<lparr>rm_round := (rm_round m)\<lparr>blame_sink := ents\<rparr>\<rparr>) = Inr (m', t) \<Longrightarrow> cs_step cf m m'"
| disconnect: "HandleDisconnect cf (rm_current m) i (rm_round m) = (r, c, b) \<Longrightarrow>
    perform (exec k (cs_class cf)) c (m\<lparr>rm_round := r\<rparr>) = Inr (m', t) \<Longrightarrow> cs_step cf m m'"
| joined: "cs_step cf m (m\<lparr>rm_round := (rm_round m)\<lparr>stop_next := True\<rparr>\<rparr>)"
| tick: "cs_step cf m (m\<lparr>rm_round := (rm_round m)\<lparr>clock := now\<rparr>\<rparr>)"
| input: "cs_step cf m (m\<lparr>rm_round := (rm_round m)\<lparr>inputs := inputs (rm_round m) @ [d]\<rparr>\<rparr>)"

definition reachable :: "cs_config \<Rightarrow> cs_round machine \<Rightarrow> bool" where
  "reachable cf m \<longleftrightarrow> (\<exists>ins ent now. (cs_step cf)\<^sup>*\<^sup>* (init_machine cf ins ent now) m)"

definition good :: "cs_config \<Rightarrow> int \<Rightarrow> cs_round machine \<Rightarrow> bool" where
  "good cf p0 m \<longleftrightarrow> cs_inv cf (rm_phase m) (rm_round m) \<and> p0 \<le> sint (rm_phase m)
     \<and> (\<forall>s. rm_current m = Some s \<longrightarrow> states (rc_table (cs_class cf)) s \<noteq> None)"

lemma good_exec: "exec k (cs_class cf) call m = Inr (m', t) \<Longrightarrow> good cf p0 m \<Longrightarrow> good cf p0 m'"
  using dcnet.exec_invariant [of k cf call m m' t] unfolding good_def by force

lemma good_perform:
  "perform (exec k (cs_class cf)) c m = Inr (m', t) \<Longrightarrow> good cf p0 m \<Longrightarrow> good cf p0 m'"
  by (cases c) (auto simp: perform_def dest: good_exec)

lemma good_env:
  assumes "good cf p0 m"
  shows "good cf p0 (m\<lparr>rm_round := (rm_round m)\<lparr>stop_next := b\<rparr>\<rparr>)"
    and "good cf p0 (m\<lparr>rm_round := (rm_round m)\<lparr>clock := now\<rparr>\<rparr>)"
    and "good cf p0 (m\<lparr>rm_round := (rm_round m)\<lparr>inputs := ins\<rparr>\<rparr>)"
    and "good cf p0 (m\<lparr>rm_round := (rm_round m)\<lparr>blame_sink := es\<rparr>\<rparr>)"
    and "good cf p0 (m\<lparr>rm_round := (rm_round m)\<lparr>shuffle_sink := es\<rparr>\<rparr>)"
    and "good cf p0 (m\<lparr>rm_round := (rm_round m)\<lparr>allowed_clients := al\<rparr>\<rparr>)"
  using assms by (simp_all add: good_def cs_inv_def srv_ok_def)

lemma good_interrupt:
  assumes "good cf p0 m"
  shows "good cf p0 (m\<lparr>rm_round := (rm_round m)\<lparr>interrupted := True\<rparr>\<rparr>)"
    and "good cf p0 (m\<lparr>rm_round := (rm_round m)\<lparr>allowed_clients := al, interrupted := True\<rparr>\<rparr>)"
  using assms by (auto simp: good_def cs_inv_def srv_ok_def)

lemma good_disconnect:
  assumes "good cf p0 m" and "HandleDisconnect cf s i (rm_round m) = (r, c, b)"
  shows "good cf p0 (m\<lparr>rm_round := r\<rparr>)"
  using assms good_env(6) [OF assms(1)] good_interrupt [OF assms(1)]
  by (auto simp: HandleDisconnect_def Let_def split: if_splits)

lemma good_shuffle_end:
  assumes "good cf p0 m" and "run_effect (exec k (cs_class cf))
      (ShuffleFinished success bad was ((rm_round m)\<lparr>shuffle_sink := ents\<rparr>)) m = Inr (m', t)"
  shows "good cf p0 m'"
proof (cases success)
  case True
  with assms(2) good_perform good_env(5) [OF assms(1)] show ?thesis
    by (auto simp: ShuffleFinished_def run_effect_def)
next
  case False
  let ?r = "(rm_round m)\<lparr>shuffle_sink := ents, bad_members := bad,
      interrupted := interrupted (rm_round m) \<or> was\<rparr>"
  have "good cf p0 (m\<lparr>rm_round := ?r\<rparr>)"
    using assms(1) by (auto simp: good_def cs_inv_def srv_ok_def)
  moreover have "perform (exec k (cs_class cf)) (Halt ''ShuffleRound failed'') (m\<lparr>rm_round := ?r\<rparr>) = Inr (m', t)"
    using assms(2) False by (simp add: ShuffleFinished_def run_effect_def)
  ultimately show ?thesis using good_perform by blast
qed

lemma good_step: "cs_step cf m m' \<Longrightarrow> good cf p0 m \<Longrightarrow> good cf p0 m'"
proof (induction rule: cs_step.induct)
  case (shuffle success bad was m ents e k m' t)
  then show ?case using good_shuffle_end by blast
next
  case (disconnect m i r c b k m' t)
  then show ?case using good_perform good_disconnect by blast
qed (auto dest: good_exec good_env intro: good_env)

section \<open>The tables\<close>

lemma client_table:
  assumes "\<not> cf_am_server cf"
  shows "\<exists>T. build_table cf = Inr T \<and> dom (states T) = {0, 1, 2, 3, 4, 11, 12, 13, 23}
     \<and> state_transitions T = [0 \<mapsto> 1, 1 \<mapsto> 2, 2 \<mapsto> 3, 11 \<mapsto> 12, 3 \<mapsto> 4, 4 \<mapsto> 4, 12 \<mapsto> 13]
     \<and> cycle_state T = 4 \<and> set (valid_message_types T) = {5, 7}"
  using assms
  by (simp add: build_table_def common_table_def InitClient_table_def AddState_def AddTransition_def
      SetCycleState_def empty_table_def) (simp add: insert_commute)

lemma server_table:
  assumes "cf_am_server cf"
  shows "\<exists>T. build_table cf = Inr T
     \<and> dom (states T) = {0, 1, 2, 3, 5, 6, 7, 8, 9, 10, 11, 12, 14, 15, 17, 18, 20, 21, 22, 23}
     \<and> state_transitions T = [0 \<mapsto> 1, 1 \<mapsto> 2, 2 \<mapsto> 3, 11 \<mapsto> 12, 3 \<mapsto> 5, 5 \<mapsto> 6, 6 \<mapsto> 7, 7 \<mapsto> 8, 8 \<mapsto> 9,
        9 \<mapsto> 10, 10 \<mapsto> 5, 12 \<mapsto> 14, 14 \<mapsto> 15, 15 \<mapsto> 17, 17 \<mapsto> 18, 18 \<mapsto> 20, 20 \<mapsto> 21, 21 \<mapsto> 22]
     \<and> cycle_state T = 10 \<and> set (valid_message_types T) = {0, 1, 2, 3, 4, 6, 8, 9}"
  using assms
  by (simp add: build_table_def common_table_def InitServer_table_def AddState_def AddTransition_def
      SetCycleState_def empty_table_def) (simp add: insert_commute)

lemma cs_table_built: "build_table cf = Inr (cs_table cf)"
  using client_table [of cf] server_table [of cf] by (cases "cf_am_server cf") (auto simp: cs_table_def)

lemma offline_registered: "states (cs_table cf) (state_num OFFLINE) \<noteq> None"
proof -
  have "0 \<in> dom (states (cs_table cf))"
    using client_table [of cf] server_table [of cf] cs_table_built [of cf]
    by (cases "cf_am_server cf") auto
  then show ?thesis by auto
qed

lemma good_init: "good cf 0 (init_machine cf ins ent now)"
  using offline_registered [of cf]
  by (auto simp: good_def init_machine_def init_round_def cs_inv_def srv_ok_def logs_ok_def cs_class_def PhaseLog_def)

lemma reachable_good: "reachable cf m \<Longrightarrow> good cf 0 m"
proof -
  have "good cf 0 m" if "(cs_step cf)\<^sup>*\<^sup>* m0 m" and "good cf 0 m0" for m0
    using that by (induction rule: rtranclp_induct) (auto intro: good_step)
  then show "reachable cf m \<Longrightarrow> good cf 0 m" using good_init by (auto simp: reachable_def)
qed

section \<open>A concrete server\<close>

definition demo_dh :: dh_ops where
  "demo_dh = \<lparr>shared_secret = (\<lambda>pub. 1 # pub), prove_shared_secret = (\<lambda>pub. [3]),
     verify_shared_secret = (\<lambda>a b pf. [4])\<rparr>"

definition demo_cf :: "bool \<Rightarrow> cs_config" where
  "demo_cf server = \<lparr>cf_prims = demo_prims, cf_qds = demo_qds, cf_dh = demo_dh,
     cf_clients = demo_roster [1, 2], cf_servers = demo_roster [10, 11], cf_nonce = [5], cf_header = dcnet_header,
     cf_local = (if server then 10 else 1), cf_key = (if server then [10] else [1]), cf_am_server = server,
     cf_server_ids = [10, 11], cf_connections = (if server then [1, 11] else [10]),
     cf_fresh_key = (\<lambda>i. [of_nat i]), cf_key_valid = (\<lambda>k. True)\<rparr>"

lemma demo_cf_ok: "cf_ok (demo_cf server)"
  by (simp add: cf_ok_def demo_cf_def demo_roster_ok)
    (simp add: demo_roster_def Contains_def mk_roster_def)

section \<open>Properties\<close>

text \<open>
  C4.  The server invariant.  In every state a server can reach, by packets from anybody, timers,
  shuffle results, disconnects and stops in any order: the servers it has heard in this step are
  members of the roster, each counted once; every client ciphertext it took is from a different
  client of the roster that is marked as handled; the server ciphertexts are indexed by the roster;
  it holds the log of the current phase and, unless the round was interrupted, at most those of the
  four phases before it and that of phase zero; and the machine is in a state of its table.
\<close>

theorem server_invariant:
  assumes "reachable cf m" and "cf_ok cf" and "cf_am_server cf"
  shows "srv_ok cf (rm_phase m) (rm_round m) \<and> 0 \<le> sint (rm_phase m)
    \<and> (\<forall>s. rm_current m = Some s \<longrightarrow> s \<in> dom (states (cs_table cf)))"
  using reachable_good [OF assms(1)] assms(2,3) by (auto simp: good_def cs_inv_def cs_class_def)

theorem server_invariant_witness:
  "srv_ok (demo_cf True) 0 (init_round (demo_cf True) [] [] 0)"
proof -
  have "reachable (demo_cf True) (init_machine (demo_cf True) [] [] 0)" unfolding reachable_def by blast
  from server_invariant [OF this demo_cf_ok] show ?thesis by (simp add: demo_cf_def init_machine_def)
qed


text \<open>
  C17.  Quorums.  A server leaves the exchange of client lists, of commitments, of ciphertexts and of
  signatures only when it has a message of that kind from every server of the roster.
\<close>

lemma all_servers_heard:
  assumes "roster_ok R" and "distinct xs" and "list_all (Contains R) xs" and "length xs = Count R"
  shows "set xs = set (map pi_id (m_roster R))"
proof -
  have "set xs \<subseteq> set (map pi_id (m_roster R))"
  proof
    fix i assume "i \<in> set xs"
    then have "Contains R i" using assms(3) by (simp add: list_all_iff)
    from GetIndex_Some [OF assms(1) this] show "i \<in> set (map pi_id (m_roster R))"
      by (metis Count_def length_map nth_map nth_mem)
  qed
  moreover have "card (set xs) = card (set (map pi_id (m_roster R)))"
    using assms distinct_card [of xs] distinct_card [of "map pi_id (m_roster R)"]
    by (simp add: roster_ok_def Count_def)
  ultimately show ?thesis by (simp add: card_subset_eq)
qed

lemma servers_done_Complete: "servers_done cf r = Done r' Complete \<Longrightarrow> r' = r \<and> length (handled_servers r') = n_servers cf"
  by (auto simp: servers_done_def split: if_splits)

lemma quorum_length:
  assumes "h \<in> {HandleServerClientList cf, HandleServerCommit cf, HandleServerCiphertext cf, HandleServerValidation cf}"
    and "h p from stream r = Done r' Complete"
  shows "length (handled_servers r') = n_servers cf"
  using assms
  by (auto simp: HandleServerClientList_def HandleServerCommit_def HandleServerCiphertext_def
      HandleServerValidation_def Let_def dest!: servers_done_Complete split: if_splits prod.splits)

theorem server_quorum:
  assumes "cf_ok cf" and "cf_am_server cf" and "srv_ok cf p r"
    and "h \<in> {HandleServerClientList cf, HandleServerCommit cf, HandleServerCiphertext cf, HandleServerValidation cf}"
    and "h p from stream r = Done r' Complete"
  shows "set (handled_servers r') = set (map pi_id (m_roster (cf_servers cf)))"
proof -
  have "cs_inv cf p r" using assms(3) by (simp add: cs_inv_def)
  then have "effect_ok (cs_inv cf p) (h p from stream r)" using assms(1,4) by (auto simp: handlers_ok)
  then have "srv_ok cf p r'" using assms(1,2,5) by (simp add: cs_inv_def)
  then show ?thesis
    using assms(1) quorum_length [OF assms(4,5)]
    by (intro all_servers_heard) (auto simp: srv_ok_def cf_ok_def)
qed

theorem server_quorum_witness:
  "set (handled_servers (case HandleServerCommit (demo_cf True) 0 11 [] ((init_round (demo_cf True) [] [] 0)\<lparr>handled_servers := [10]\<rparr>)
      of Done r c \<Rightarrow> r)) = {10, 11}"
proof -
  let ?r = "(init_round (demo_cf True) [] [] 0)\<lparr>handled_servers := [10]\<rparr>"
  have C: "Contains (demo_roster [10, 11]) 10" "Contains (demo_roster [10, 11]) 11" "Count (demo_roster [10, 11]) = 2"
    "map pi_id (m_roster (demo_roster [10, 11])) = [10, 11]"
    by (simp_all add: Contains_def Count_def demo_roster_def mk_roster_def)
  have s: "srv_ok (demo_cf True) 0 ?r"
    using C by (simp add: srv_ok_def init_round_def demo_cf_def logs_ok_def PhaseLog_def)
  obtain commit rest where "get_bytes demo_qds [] = (commit, rest)" by fastforce
  then obtain r' where r': "HandleServerCommit (demo_cf True) 0 11 [] ?r = Done r' Complete"
    using C by (simp add: HandleServerCommit_def servers_done_def demo_cf_def init_round_def)
  have "cf_am_server (demo_cf True)" by (simp add: demo_cf_def)
  then have "set (handled_servers r') = set (map pi_id (m_roster (cf_servers (demo_cf True))))"
    by (rule server_quorum [where h = "HandleServerCommit (demo_cf True)", OF demo_cf_ok _ s _ r']) simp
  moreover have "map pi_id (m_roster (cf_servers (demo_cf True))) = [10, 11]" using C by (simp add: demo_cf_def)
  ultimately show ?thesis by (simp only: r' effect.case) simp
qed



text \<open>
  C15.  What a client accepts.  A client's state changes on a cleartext message only if the message
  comes from its own server, has the length of the phase and carries, for every server of the
  roster, a signature that verifies on the hash of the cleartext and the list of online clients;
  then the new state is the result of processing that cleartext.
\<close>

theorem cleartext_fully_signed:
  assumes "get_hash (cf_qds cf) stream = (sigs, s1)" and "get_bytes (cf_qds cf) s1 = (clear, s2)"
    and "get_bits (cf_qds cf) s2 = (online, s3)"
    and "HandleServerCleartext cf p from stream r = Done r' c" and "r' \<noteq> r"
  shows "from = my_server r \<and> int (length clear) = msg_length r
    \<and> (\<forall>j < n_servers cf. verify (cf_prims cf) (pi_key (m_roster (cf_servers cf) ! j))
          (hash (cf_prims cf) (clear @ put_bits (cf_qds cf) online))
          (case sigs j of None \<Rightarrow> [] | Some sg \<Rightarrow> sg))
    \<and> ProcessCleartext_round cf p (r\<lparr>cleartext := clear\<rparr>) = Inr r'"
proof -
  have "from = my_server r" "int (length clear) = msg_length r"
    using assms(4) by (auto simp: HandleServerCleartext_def assms(1-3) split: if_splits)
  moreover have v: "list_all (\<lambda>j. verify (cf_prims cf) (pi_key (m_roster (cf_servers cf) ! j))
          (hash (cf_prims cf) (clear @ put_bits (cf_qds cf) online))
          (case sigs j of None \<Rightarrow> [] | Some sg \<Rightarrow> sg)) [0..<n_servers cf]"
    using assms(4,5) by (auto simp: HandleServerCleartext_def assms(1-3) Let_def split: if_splits)
  moreover have "ProcessCleartext_round cf p (r\<lparr>cleartext := clear\<rparr>) = Inr r'"
    using assms(4) v
    by (cases "ProcessCleartext_round cf p (r\<lparr>cleartext := clear\<rparr>)")
      (auto simp: HandleServerCleartext_def assms(1-3) Let_def eff_def split: if_splits)
  ultimately show ?thesis by (auto simp: list_all_iff)
qed

theorem cleartext_fully_signed_witness:
  "\<exists>r' c. HandleServerCleartext ((demo_cf False)\<lparr>cf_prims := demo_prims\<lparr>verify := \<lambda>k m sg. True\<rparr>\<rparr>) 0 10
      (put_bytes demo_qds [0] @ put_bits demo_qds [True, True] @ [])
      ((init_round (demo_cf False) [] [] 0)\<lparr>msg_length := 1, base_msg_length := 1\<rparr>) = Done r' c
    \<and> int (length [0::byte]) = 1"
proof -
  let ?cf = "(demo_cf False)\<lparr>cf_prims := demo_prims\<lparr>verify := \<lambda>k m sg. True\<rparr>\<rparr>"
  let ?r = "(init_round (demo_cf False) [] [] 0)\<lparr>msg_length := 1, base_msg_length := 1\<rparr>"
  let ?s = "put_bytes demo_qds [0] @ put_bits demo_qds [True, True] @ []"
  have g: "get_hash (cf_qds ?cf) ?s = (Map.empty, ?s)"
    "get_bytes (cf_qds ?cf) ?s = ([0], put_bits demo_qds [True, True] @ [])"
    "get_bits (cf_qds ?cf) (put_bits demo_qds [True, True] @ []) = ([True, True], [])"
    using qds_okD(3) [OF demo_qds_ok, of "[0]"] qds_okD(4) [OF demo_qds_ok, of "[True, True]" "[]"]
    by (simp_all add: demo_cf_def) (simp add: demo_qds_def)
  have o': "opened_slots 2 [0] = []" by (simp add: opened_slots_def qba_get_def numeral_2_eq_2)
  have n: "Count (cf_clients ?cf) = 2" "Count (cf_servers ?cf) = 2"
    by (simp_all add: demo_cf_def Count_def demo_roster_def mk_roster_def)
  obtain r' where pc: "ProcessCleartext_round ?cf 0 (?r\<lparr>cleartext := [0]\<rparr>) = Inr r'" and cl: "cleartext r' = [0]"
    by (simp add: ProcessCleartext_round_def ProcessCleartext_conv Let_def n o' demo_cf_def init_round_def)
  have h: "HandleServerCleartext ?cf 0 10 ?s ?r = Done r' (if start_accuse r' then Goto (state_num STARTING_BLAME_SHUFFLE) else Complete)"
    unfolding HandleServerCleartext_def g case_prod_conv Let_def pc
    by (simp add: eff_def demo_cf_def init_round_def list_all_iff)
  moreover have "r' \<noteq> ?r" using cl by (auto simp: init_round_def)
  ultimately show ?thesis using cleartext_fully_signed [OF g h] by auto
qed



subsection \<open>Blame\<close>

text \<open>
  The packets of the blame shuffle never reach it: \<^verbatim>\<open>ProcessPacket\<close> knows the types 0 and 1,
  and the header under which the blame shuffle sends ends in 2.  The packets of the round and of
  the descriptor shuffle do reach their objects.
\<close>

theorem blame_packets_dropped:
  "ProcessPacket (tl (blame_header @ data)) = Dropped
   \<and> ProcessPacket (tl (dcnet_header @ data)) = ForMachine data
   \<and> ProcessPacket (tl (shuffle_header @ data)) = ForShuffle data"
  by (simp add: ProcessPacket_def blame_header_def dcnet_header_def shuffle_header_def)

text \<open>
  The guard of \<^verbatim>\<open>HandleRebuttal\<close> is inverted: a rebuttal that names a server of the roster makes
  the client the culprit whatever it proves, and one that does not reads behind the roster.  A
  server is never found guilty.
\<close>

theorem rebuttal_blames_client:
  assumes "get_rebuttal (cf_qds cf) stream = ((sidx, proof), rest)" and "from = expected_rebuttal r"
  shows "HandleRebuttal cf p from stream r =
    (if sint sidx < int (n_servers cf) then Done (r\<lparr>bad_dude := from\<rparr>) Complete else Crash OutOfBounds)"
  using assms by (auto simp: HandleRebuttal_def judge_rebuttal_def GetId_def Count_def eff_def)

theorem rebuttal_blames_client_witness:
  "HandleRebuttal (demo_cf True) 0 0 (int_bytes 1 @ put_bytes demo_qds [3] @ []) (init_round (demo_cf True) [] [] 0)
   = Done ((init_round (demo_cf True) [] [] 0)\<lparr>bad_dude := 0\<rparr>) Complete"
proof -
  have "get_rebuttal (cf_qds (demo_cf True)) (int_bytes 1 @ put_bytes demo_qds [3] @ []) = ((1, [3]), [])"
    using qds_okD(1) [OF demo_qds_ok, of 1 "put_bytes demo_qds [3] @ []"] qds_okD(3) [OF demo_qds_ok, of "[3]" "[]"]
    by (simp add: get_rebuttal_def demo_cf_def) (simp add: demo_qds_def)
  from rebuttal_blames_client [OF this, of 0 "init_round (demo_cf True) [] [] 0" 0] show ?thesis
    by (simp add: demo_cf_def Count_def demo_roster_def mk_roster_def init_round_def)
qed

text \<open>
  Which server a client is attributed to depends on the first bit of the list only: if the list
  of a server contains client 0, every client up to the length of the list is attributed to that
  server, whether it is on the list or not; otherwise none is.
\<close>

lemma fold_upd_const: "fold (\<lambda>idx m. m(idx \<mapsto> v)) [0..<n] m = (\<lambda>i. if i < n then Some v else m i)"
  by (induction n) (auto simp: fun_eq_iff)

lemma fold_unchanged: "fold (\<lambda>idx m. m) xs m = m"
  by (induction xs) auto

theorem client_list_attribution:
  assumes "from \<in> set (cf_server_ids cf)" and "from \<notin> set (handled_servers r)"
    and "get_bits (cf_qds cf) stream = (clients, rest)"
    and "phase_logs r (current_phase_log r) = Some l"
  shows "\<exists>r' c l'. HandleServerClientList cf p from stream r = Done r' c
    \<and> phase_logs r' (current_phase_log r') = Some l'
    \<and> client_to_server l' = (\<lambda>i. if i < length clients \<and> clients ! 0 then Some (GetIndex (cf_servers cf) from)
                                 else client_to_server l i)"
proof -
  let ?v = "GetIndex (cf_servers cf) from"
  have "fold (\<lambda>idx m. if clients ! 0 then m(idx \<mapsto> ?v) else m) [0..<length clients] (client_to_server l)
      = (\<lambda>i. if i < length clients \<and> clients ! 0 then Some ?v else client_to_server l i)"
    by (cases "clients ! 0") (simp_all add: fold_upd_const fold_unchanged fun_eq_iff)
  with assms show ?thesis by (simp add: HandleServerClientList_def servers_done_def upd_log_def)
qed

theorem client_list_attribution_witness:
  "\<exists>r' c l'. HandleServerClientList (demo_cf True) 0 11 (put_bits demo_qds [True, False] @ []) (init_round (demo_cf True) [] [] 0) = Done r' c
    \<and> phase_logs r' (current_phase_log r') = Some l' \<and> client_to_server l' 1 = Some 1"
proof -
  have i: "GetIndex (cf_servers (demo_cf True)) 11 = 1"
    by (simp add: demo_cf_def demo_roster_def mk_roster_def GetIndex_def)
  have "11 \<in> set (cf_server_ids (demo_cf True))" "11 \<notin> set (handled_servers (init_round (demo_cf True) [] [] 0))"
    "get_bits (cf_qds (demo_cf True)) (put_bits demo_qds [True, False] @ []) = ([True, False], [])"
    "phase_logs (init_round (demo_cf True) [] [] 0) (current_phase_log (init_round (demo_cf True) [] [] 0))
       = Some (PhaseLog 0 2)"
    using qds_okD(4) [OF demo_qds_ok, of "[True, False]" "[]"]
    by (simp_all add: demo_cf_def init_round_def)
      (simp add: demo_roster_def mk_roster_def Count_def numeral_2_eq_2)
  from client_list_attribution [OF this, of 0] obtain r' c l' where
    "HandleServerClientList (demo_cf True) 0 11 (put_bits demo_qds [True, False] @ []) (init_round (demo_cf True) [] [] 0) = Done r' c"
    "phase_logs r' (current_phase_log r') = Some l'"
    "client_to_server l' = (\<lambda>i. if i < length [True, False] \<and> [True, False] ! 0 then Some 1 else client_to_server (PhaseLog 0 2) i)"
    unfolding i by blast
  then show ?thesis by auto
qed

text \<open>
  An entry of the blame shuffle of nine to eleven bytes passes the length check and makes every
  server read behind it.
\<close>

theorem short_accusation_faults:
  assumes "8 < length blame" and "length blame < 12"
  shows "check_accusation cf r blame = Inl OutOfBounds"
proof -
  have "ReadInt blame 8 = Inl OutOfBounds" using assms by (simp add: ReadInt_def)
  moreover have "ReadInt blame 0 = Inl e \<Longrightarrow> e = OutOfBounds" "ReadInt blame 4 = Inl e \<Longrightarrow> e = OutOfBounds" for e
    by (simp_all add: ReadInt_def split: if_splits)
  ultimately show ?thesis
    using assms by (cases "ReadInt blame 0"; cases "ReadInt blame 4") (auto simp: check_accusation_def Let_def)
qed

theorem short_accusation_faults_witness:
  "check_accusation (demo_cf True) (init_round (demo_cf True) [] [] 0) (replicate 9 1) = Inl OutOfBounds"
  by (rule short_accusation_faults) simp_all

text \<open>
  The mismatch the servers look for.  \<^verbatim>\<open>FindMismatch\<close> finds the accusation false exactly when
  the bits the servers received and the bits they computed xor to the same bit vector; otherwise the
  client it names is the first one for which the two differ.
\<close>

abbreviation xor_received :: "cs_config \<Rightarrow> cs_round \<Rightarrow> bits" where
  "xor_received cf r \<equiv> fold (\<lambda>(p, a, e) acc. bits_xor acc a) (blame_bits r) (replicate (n_servers cf) False)"

abbreviation xor_computed :: "cs_config \<Rightarrow> cs_round \<Rightarrow> bits" where
  "xor_computed cf r \<equiv> fold (\<lambda>(p, a, e) acc. bits_xor acc e) (blame_bits r) (replicate (n_servers cf) False)"

theorem FindMismatch_first:
  assumes "FindMismatch cf r = Inr res"
  shows "case res of
      Inl _ \<Rightarrow> xor_received cf r = xor_computed cf r
    | Inr None \<Rightarrow> xor_received cf r \<noteq> xor_computed cf r
        \<and> (\<forall>i. bit_at (xor_received cf r) i = bit_at (xor_computed cf r) i)
    | Inr (Some (first, sbits)) \<Rightarrow>
        bit_at (xor_received cf r) first \<noteq> bit_at (xor_computed cf r) first
        \<and> (\<forall>i < first. bit_at (xor_received cf r) i = bit_at (xor_computed cf r) i)
        \<and> length sbits = length (blame_bits r)"
proof (cases "xor_received cf r = xor_computed cf r")
  case True
  with assms show ?thesis by (auto simp: FindMismatch_def)
next
  case False
  let ?a = "xor_received cf r" and ?e = "xor_computed cf r"
  let ?m = "bits_xor ?a ?e"
  have bm: "bit_at ?m i \<longleftrightarrow> bit_at ?a i \<noteq> bit_at ?e i" for i by (rule bit_at_bits_xor)
  show ?thesis
  proof (cases "find (bit_at ?m) [0..<length ?m]")
    case None
    then have "\<not> bit_at ?m i" for i by (cases "i < length ?m") (auto simp: find_None_iff bit_at_def)
    moreover have "res = Inr None" using None False assms by (simp add: FindMismatch_def Let_def)
    ultimately show ?thesis using False bm by simp
  next
    case (Some first)
    then have first: "first < length ?m" "bit_at ?m first" "\<forall>i<first. \<not> bit_at ?m i"
      by (auto simp: find_Some_iff)
    let ?f = "\<lambda>(idx, pid) sb. let e = snd (qmap_value (blame_bits r) (pi_id pid) ([], []))
        in if length e \<le> first \<or> length sb \<le> idx then Inl OutOfBounds else Inr (sb[idx := e ! first])"
    from Some False assms obtain sb where
      sb: "foldS ?f (zip [0..<n_servers cf] (m_roster (cf_servers cf))) (replicate (length (blame_bits r)) False) = Inr sb"
      and res: "res = Inr (Some (first, sb))"
      by (auto simp: FindMismatch_def Let_def bindS_eq_Inr)
    from sb have "length sb = length (blame_bits r)"
      by (rule foldS_invariant [where P = "\<lambda>sb. length sb = length (blame_bits r)"])
        (auto simp: Let_def split: if_splits)
    with res first bm show ?thesis by simp
  qed
qed

theorem FindMismatch_first_witness:
  "FindMismatch (demo_cf True) ((init_round (demo_cf True) [] [] 0)
      \<lparr>blame_bits := [(10, [True, True], [True, False]), (11, [False, False], [False, False])]\<rparr>)
     = Inr (Inr (Some (1, [False, False])))
   \<and> bit_at (bits_xor (bits_xor [False, False] [True, True]) [False, False]) 1
     \<noteq> bit_at (bits_xor (bits_xor [False, False] [True, False]) [False, False]) 1"
proof -
  let ?r = "(init_round (demo_cf True) [] [] 0)
      \<lparr>blame_bits := [(10, [True, True], [True, False]), (11, [False, False], [False, False])]\<rparr>"
  have n: "n_servers (demo_cf True) = Suc (Suc 0)" "m_roster (cf_servers (demo_cf True)) =
     [\<lparr>pi_id = 10, pi_key = [10], pi_dh = [10, 1]\<rparr>, \<lparr>pi_id = 11, pi_key = [11], pi_dh = [11, 1]\<rparr>]"
    by (simp_all add: demo_cf_def Count_def demo_roster_def mk_roster_def)
  have x: "bits_xor [a, b] [c, d] = [a \<noteq> c, b \<noteq> d]" for a b c d
    by (simp add: bits_xor_def bits_zip_def bit_at_def)
  have f: "FindMismatch (demo_cf True) ?r = Inr (Inr (Some (1, [False, False])))"
    by (simp add: FindMismatch_def n Let_def x bit_at_def qmap_value_def)
  from FindMismatch_first [OF f] f show ?thesis by (simp add: n numeral_2_eq_2)
qed

section \<open>Runs of the machine on a concrete server\<close>

lemma Verify_signed:
  assumes "GetKey (cf_servers cf) from = Some k \<or> (GetKey (cf_servers cf) from = None \<and> GetKey (cf_clients cf) from = Some k)"
    and "length sg = signature_length (cf_prims cf) k" and "verify (cf_prims cf) k msg sg"
  shows "Verify cf from (msg @ sg) = Some msg"
  using assms by (auto simp: Verify_def Let_def)

lemma demo_unknown_peer: "Verify (demo_cf True) 99 d = None"
  by (simp add: Verify_def demo_cf_def demo_roster_def mk_roster_def GetKey_def GetIndex_def)

theorem ProcessData_rejects_witness:
  "exec 1 (cs_class (demo_cf True)) (CProcessData 99 [1, 2]) (init_machine (demo_cf True) [] [] 0)
     = Inr (init_machine (demo_cf True) [] [] 0, False)"
  using ProcessData_rejects [of "cs_class (demo_cf True)" "init_machine (demo_cf True) [] [] 0" 99 "[1, 2]" 0]
  by (simp add: cs_class_def demo_unknown_peer)

theorem exec_fuel_mono_witness:
  "exec 7 (cs_class (demo_cf True)) (CSetState 99) (init_machine (demo_cf True) [] [] 0) = Inl Fatal"
proof -
  have "99 \<notin> dom (states (cs_table (demo_cf True)))"
    using server_table [of "demo_cf True"] cs_table_built [of "demo_cf True"] by (simp add: demo_cf_def)
  then have "exec 1 (cs_class (demo_cf True)) (CSetState 99) (init_machine (demo_cf True) [] [] 0) = Inl Fatal"
    by (simp add: dispatch_def SetState_def cs_class_def domIff)
  then show ?thesis by (rule exec_fuel_mono) simp_all
qed

lemma server_offline_state:
  assumes "cf_am_server cf"
  shows "\<exists>T. build_table cf = Inr T \<and> states T 0 =
    Some \<lparr>sm_id = 0, sm_message_type = -1, sm_handler = EmptyHandleMessage, sm_callback = EmptyTransitionCallback\<rparr>"
  using assms
  by (simp add: build_table_def common_table_def InitServer_table_def AddState_def AddTransition_def
      SetCycleState_def empty_table_def)

lemma demo_offline_type:
  "\<exists>st. states (cs_table (demo_cf True)) 0 = Some st \<and> sm_message_type st = -1"
proof -
  have "cf_am_server (demo_cf True)" by (simp add: demo_cf_def)
  from server_offline_state [OF this] show ?thesis by (auto simp: cs_table_built)
qed

theorem ProcessData_defers_witness:
  "exec 1 (cs_class (demo_cf True))
     (CProcessData 1 (head (demo_cf True) CLIENT_CIPHERTEXT 0 @ 1 # demo_hash (head (demo_cf True) CLIENT_CIPHERTEXT 0)))
     (init_machine (demo_cf True) [] [] 0)
   = Inr ((init_machine (demo_cf True) [] [] 0)\<lparr>rm_next_log := Append
       (head (demo_cf True) CLIENT_CIPHERTEXT 0 @ 1 # demo_hash (head (demo_cf True) CLIENT_CIPHERTEXT 0)) 1 Log\<rparr>, False)"
proof -
  let ?h = "head (demo_cf True) CLIENT_CIPHERTEXT 0" and ?m = "init_machine (demo_cf True) [] [] 0"
  let ?C = "cs_class (demo_cf True)"
  have v: "rc_verify ?C (rm_round ?m) 1 (?h @ 1 # demo_hash ?h) = Some ?h"
    unfolding cs_class_def round_class.simps
    by (rule Verify_signed [where k = "[1]"])
      (simp_all add: demo_cf_def demo_roster_def mk_roster_def GetKey_def GetIndex_def demo_prims_def demo_hash_def)
  have T: "set (valid_message_types (rc_table ?C)) = {0, 1, 2, 3, 4, 6, 8, 9}" "cycle_state (rc_table ?C) = 10"
    using server_table [of "demo_cf True"] cs_table_built [of "demo_cf True"]
    by (auto simp: cs_class_def demo_cf_def)
  have hd: "read_head ?C ?h = (0, rc_nonce ?C (rm_round ?m), 0, [])"
    using T(2) qds_okD(1) [OF demo_qds_ok, of 0 "[]"]
      qds_okD(1) [OF demo_qds_ok, of 0 "put_bytes demo_qds [5] @ put_int demo_qds 0"]
      qds_okD(3) [OF demo_qds_ok, of "[5]" "put_int demo_qds 0"]
    by (simp add: read_head_def head_def cs_class_def demo_cf_def Let_def)
  obtain st where st: "states (rc_table ?C) 0 = Some st" "sm_message_type st = -1"
    using demo_offline_type by (auto simp: cs_class_def)
  have m: "sint (rm_phase ?m) \<le> sint (0 :: int32)" "rm_current ?m = Some 0" "rm_next_log ?m = Log"
    by (simp_all add: init_machine_def)
  have "0 \<in> set (valid_message_types (rc_table ?C))" "0 \<noteq> sm_message_type st \<or> sint (rm_phase ?m) < sint (0 :: int32)"
    using T st by simp_all
  from ProcessData_defers [OF v hd m(1) this(1) m(2) st(1) this(2), of 0] show ?thesis by (simp add: m(3))
qed

end
