(* ===== verification/MessageStateMachine.thy ===== *)
theory MessageStateMachine
  imports Prelude
begin

text \<open>
  The state machine of a session, \<^verbatim>\<open>src/src/Messaging/State.hpp\<close> and \<^verbatim>\<open>StateMachine.hpp\<close>.

  A state class is a record of its virtual methods and its handler table.  The member variables of
  the state objects are kept in one context \<open>'d\<close> together with the shared state data; a state
  object is created anew on every transition, so its constructor \<open>sc_new\<close> resets them.  A method
  returns a \<open>process_result\<close>, or throws a \<^verbatim>\<open>QRunTimeError\<close> with the context as it is at that point, or
  does something C++ leaves undefined.  The methods of the program return one flag at a time.

  A node is connected to itself through a \<^verbatim>\<open>NullEdge\<close>, which hands a packet to the receiver inside the
  call that sends it.  A method that sends to its own node therefore runs \<^verbatim>\<open>ProcessData\<close> before it
  returns: the outcome \<open>Loopback\<close> holds these messages.  All such methods send after their last use of
  the state, so that the messages are processed between the body of the method and its return.

  \<^verbatim>\<open>SetNewState\<close> and \<^verbatim>\<open>ProcessData\<close> reach each other through \<^verbatim>\<open>Init\<close>, through messages to the own node and
  through the messages that are processed again; they are defined relative to the machine \<open>rec\<close> that
  runs the nested calls, and \<open>run\<close> ties the knot with fuel.  The locale \<open>state_contract\<close> carries an
  invariant per state through every run; the theory \<open>MachineTermination\<close> shows how much fuel is enough.
\<close>

section \<open>Definitions\<close>

datatype process_result = NoChange | StoreMessage | NextState | Restart

text \<open>The sender of a message; \<open>None\<close> for one that is not an \<^verbatim>\<open>IOverlaySender\<close>.\<close>

type_synonym sender = "peer option"

text \<open>\<open>Loopback d msgs res\<close>: the messages are delivered, then the method returns (or, \<open>None\<close>, throws).\<close>

datatype ('d, 'm) outcome =
    Ret 'd process_result
  | Raise 'd
  | Abort fault
  | Loopback 'd "(sender \<times> 'm) list" "process_result option"

record ('d, 'm) state_class =
  sc_state :: int
  sc_msg_type :: int
  sc_new :: "'d \<Rightarrow> 'd"
  sc_init :: "'d \<Rightarrow> ('d, 'm) outcome"
  sc_packet :: "sender \<Rightarrow> 'm \<Rightarrow> 'd \<Rightarrow> ('d, 'm) outcome"
  sc_handlers :: "int \<rightharpoonup> (sender \<Rightarrow> 'm \<Rightarrow> 'd \<Rightarrow> ('d, 'm) outcome)"
  sc_connection :: "peer \<Rightarrow> 'd \<Rightarrow> ('d, 'm) outcome"
  sc_disconnection :: "peer \<Rightarrow> 'd \<Rightarrow> ('d, 'm) outcome"

record ('d, 'm) machine_class =
  mc_states :: "int \<rightharpoonup> ('d, 'm) state_class"
  mc_transitions :: "int \<rightharpoonup> int"
  mc_restart :: int
  mc_type :: "'m \<Rightarrow> int"

record ('d, 'm) state_machine =
  msm_data :: 'd
  msm_cstate :: "int option"
  msm_storage :: "(sender \<times> 'm) list"

text \<open>The defaults of \<^verbatim>\<open>State\<close> and \<^verbatim>\<open>SessionState\<close>.\<close>

definition default_init :: "'d \<Rightarrow> ('d, 'm) outcome" where
  "default_init d = Ret d NoChange"

definition default_packet :: "sender \<Rightarrow> 'm \<Rightarrow> 'd \<Rightarrow> ('d, 'm) outcome" where
  "default_packet from msg d = Ret d NoChange"

definition default_connection :: "peer \<Rightarrow> 'd \<Rightarrow> ('d, 'm) outcome" where
  "default_connection remote d = Ret d NoChange"

definition Process :: "('d, 'm) machine_class \<Rightarrow> ('d, 'm) state_class \<Rightarrow> sender \<Rightarrow> 'm \<Rightarrow> 'd \<Rightarrow> ('d, 'm) outcome" where
  "Process C st from msg d =
     (if sc_msg_type st = mc_type C msg then sc_packet st from msg d
      else case sc_handlers st (mc_type C msg) of
             Some handler \<Rightarrow> handler from msg d
           | None \<Rightarrow> Ret d NoChange)"

datatype 'm call = Enter int | Receive sender 'm

type_synonym ('d, 'm) runner = "'m call \<Rightarrow> ('d, 'm) state_machine \<Rightarrow> fault + ('d, 'm) state_machine"

text \<open>The current state object; using it before the first \<^verbatim>\<open>SetState\<close> is using a null pointer.\<close>

definition GetCurrentState :: "('d, 'm) machine_class \<Rightarrow> ('d, 'm) state_machine \<Rightarrow> fault + ('d, 'm) state_class" where
  "GetCurrentState C m =
     (case msm_cstate m of None \<Rightarrow> Inl NullPointer
      | Some s \<Rightarrow> (case mc_states C s of None \<Rightarrow> Inl NullPointer | Some st \<Rightarrow> Inr st))"

text \<open>
  \<^verbatim>\<open>m_transitions[cstate]\<close> of a \<^verbatim>\<open>QHash\<close>: the value zero for a state without a transition.
\<close>

definition next_state :: "('d, 'm) machine_class \<Rightarrow> int \<Rightarrow> int" where
  "next_state C s = (case mc_transitions C s of None \<Rightarrow> 0 | Some t \<Rightarrow> t)"

definition msm_StateComplete ::
    "('d, 'm) runner \<Rightarrow> ('d, 'm) machine_class \<Rightarrow> ('d, 'm) state_machine \<Rightarrow> fault + ('d, 'm) state_machine" where
  "msm_StateComplete rec C m =
     bindS (GetCurrentState C m) (\<lambda>st. rec (Enter (next_state C (sc_state st))) m)"

definition ResultProcessor ::
    "('d, 'm) runner \<Rightarrow> ('d, 'm) machine_class \<Rightarrow> process_result \<Rightarrow> ('d, 'm) state_machine
       \<Rightarrow> fault + ('d, 'm) state_machine" where
  "ResultProcessor rec C pr m =
     (case pr of
        NoChange \<Rightarrow> Inr m
      | NextState \<Rightarrow> msm_StateComplete rec C m
      | Restart \<Rightarrow> rec (Enter (mc_restart C)) m
      | StoreMessage \<Rightarrow> Inl Fatal)"

text \<open>
  What happens to the outcome of a method: a result that asks for nothing or for a transition, or
  the exception.
\<close>

definition deliver ::
    "('d, 'm) runner \<Rightarrow> (sender \<times> 'm) list \<Rightarrow> ('d, 'm) state_machine \<Rightarrow> fault + ('d, 'm) state_machine" where
  "deliver rec msgs = foldS (\<lambda>(from, msg). rec (Receive from msg)) msgs"

fun settle ::
    "('d, 'm) runner \<Rightarrow> ('d, 'm) outcome \<Rightarrow> ('d, 'm) state_machine
       \<Rightarrow> fault + (('d, 'm) state_machine \<times> process_result option)" where
  "settle rec (Ret d pr) m = Inr (m\<lparr>msm_data := d\<rparr>, Some pr)"
| "settle rec (Raise d) m = Inr (m\<lparr>msm_data := d\<rparr>, None)"
| "settle rec (Abort f) m = Inl f"
| "settle rec (Loopback d msgs res) m =
     bindS (deliver rec msgs (m\<lparr>msm_data := d\<rparr>)) (\<lambda>m. Inr (m, res))"

text \<open>\<^verbatim>\<open>ProcessData\<close> catches what a handler throws and stores a message the state is not ready for.\<close>

definition msm_ProcessData ::
    "('d, 'm) runner \<Rightarrow> ('d, 'm) machine_class \<Rightarrow> sender \<Rightarrow> 'm \<Rightarrow> ('d, 'm) state_machine
       \<Rightarrow> fault + ('d, 'm) state_machine" where
  "msm_ProcessData rec C from msg m =
     bindS (GetCurrentState C m) (\<lambda>st.
       bindS (settle rec (Process C st from msg (msm_data m)) m) (\<lambda>(m, res).
         case res of None \<Rightarrow> Inr m
         | Some pr \<Rightarrow>
             (if pr = StoreMessage then Inr (m\<lparr>msm_storage := msm_storage m @ [(from, msg)]\<rparr>)
              else ResultProcessor rec C pr m)))"

text \<open>An exception of \<^verbatim>\<open>Init\<close>, of a connection or of a disconnection handler is not caught.\<close>

definition process_outcome ::
    "('d, 'm) runner \<Rightarrow> ('d, 'm) machine_class \<Rightarrow> ('d, 'm) outcome \<Rightarrow> ('d, 'm) state_machine
       \<Rightarrow> fault + ('d, 'm) state_machine" where
  "process_outcome rec C res m =
     bindS (settle rec res m) (\<lambda>(m, res).
       case res of None \<Rightarrow> Inl Uncaught | Some pr \<Rightarrow> ResultProcessor rec C pr m)"

definition process_again ::
    "('d, 'm) runner \<Rightarrow> ('d, 'm) machine_class \<Rightarrow> ('d, 'm) state_machine \<Rightarrow> fault + ('d, 'm) state_machine" where
  "process_again rec C m =
     foldS (\<lambda>(from, msg). msm_ProcessData rec C from msg) (msm_storage m) (m\<lparr>msm_storage := []\<rparr>)"

definition SetNewState ::
    "('d, 'm) runner \<Rightarrow> ('d, 'm) machine_class \<Rightarrow> int \<Rightarrow> ('d, 'm) state_machine
       \<Rightarrow> fault + ('d, 'm) state_machine" where
  "SetNewState rec C state m =
     (case mc_states C state of None \<Rightarrow> Inl NullPointer
      | Some st \<Rightarrow>
          let d = sc_new st (msm_data m)
          in bindS (process_outcome rec C (sc_init st d) (m\<lparr>msm_cstate := Some state, msm_data := d\<rparr>))
               (process_again rec C))"

primrec run :: "nat \<Rightarrow> ('d, 'm) machine_class \<Rightarrow> ('d, 'm) runner" where
  "run 0 C = (\<lambda>call m. Inl Loops)"
| "run (Suc k) C = (\<lambda>call. case call of
     Enter state \<Rightarrow> SetNewState (run k C) C state
   | Receive from msg \<Rightarrow> msm_ProcessData (run k C) C from msg)"

definition msm_SetState ::
    "('d, 'm) runner \<Rightarrow> ('d, 'm) machine_class \<Rightarrow> int \<Rightarrow> ('d, 'm) state_machine
       \<Rightarrow> fault + ('d, 'm) state_machine" where
  "msm_SetState rec C state m = (if mc_states C state = None then Inr m else rec (Enter state) m)"

definition msm_HandleConnection ::
    "('d, 'm) runner \<Rightarrow> ('d, 'm) machine_class \<Rightarrow> peer \<Rightarrow> ('d, 'm) state_machine
       \<Rightarrow> fault + ('d, 'm) state_machine" where
  "msm_HandleConnection rec C connector m =
     (if msm_cstate m = None then Inr m
      else bindS (GetCurrentState C m) (\<lambda>st. process_outcome rec C (sc_connection st connector (msm_data m)) m))"

definition msm_HandleDisconnection ::
    "('d, 'm) runner \<Rightarrow> ('d, 'm) machine_class \<Rightarrow> peer \<Rightarrow> ('d, 'm) state_machine
       \<Rightarrow> fault + ('d, 'm) state_machine" where
  "msm_HandleDisconnection rec C disconnector m =
     (if msm_cstate m = None then Inr m
      else bindS (GetCurrentState C m) (\<lambda>st. process_outcome rec C (sc_disconnection st disconnector (msm_data m)) m))"

lemmas msm_defs = msm_ProcessData_def ResultProcessor_def msm_StateComplete_def GetCurrentState_def
  next_state_def process_outcome_def process_again_def SetNewState_def Process_def

section \<open>Invariants\<close>

text \<open>
  \<open>I s d\<close> holds of the context while the machine is in state \<open>s\<close>, \<open>N t d\<close> is what it takes to enter
  state \<open>t\<close>.  A method keeps \<open>I\<close>, and establishes \<open>N\<close> of the state it asks for.
\<close>

text \<open>A message that a state drops without any effect (or that ends the program).\<close>

definition quiet :: "('d, 'm) machine_class \<Rightarrow> ('d, 'm) state_class \<Rightarrow> 'd \<Rightarrow> sender \<times> 'm \<Rightarrow> bool" where
  "quiet C st d = (\<lambda>(from, msg). Process C st from msg d \<in> {Raise d, Ret d NoChange} \<union> range Abort)"

fun result_ok ::
    "('d, 'm) machine_class \<Rightarrow> (int \<Rightarrow> 'd \<Rightarrow> bool) \<Rightarrow> (int \<Rightarrow> 'd \<Rightarrow> bool) \<Rightarrow> int \<Rightarrow> 'd \<Rightarrow> process_result option \<Rightarrow> bool" where
  "result_ok C I N s d None = I s d"
| "result_ok C I N s d (Some pr) =
     (case pr of NextState \<Rightarrow> N (next_state C s) d | Restart \<Rightarrow> N (mc_restart C) d | _ \<Rightarrow> I s d)"

text \<open>
  A method that sends to its own node asks for nothing afterwards, or the messages have no effect.
\<close>

fun outcome_ok ::
    "('d, 'm) machine_class \<Rightarrow> (int \<Rightarrow> 'd \<Rightarrow> bool) \<Rightarrow> (int \<Rightarrow> 'd \<Rightarrow> bool) \<Rightarrow> ('d, 'm) state_class \<Rightarrow> int
       \<Rightarrow> ('d, 'm) outcome \<Rightarrow> bool" where
  "outcome_ok C I N st s (Ret d pr) = result_ok C I N s d (Some pr)"
| "outcome_ok C I N st s (Raise d) = I s d"
| "outcome_ok C I N st s (Abort f) = True"
| "outcome_ok C I N st s (Loopback d msgs res) =
     (I s d \<and> res \<in> {None, Some NoChange} \<or> result_ok C I N s d res \<and> list_all (quiet C st d) msgs)"

locale state_contract =
  fixes C :: "('d, 'm) machine_class" and I :: "int \<Rightarrow> 'd \<Rightarrow> bool" and N :: "int \<Rightarrow> 'd \<Rightarrow> bool"
  assumes enter_ok: "mc_states C t = Some st \<Longrightarrow> N t d \<Longrightarrow> outcome_ok C I N st t (sc_init st (sc_new st d))"
    and process_ok: "mc_states C s = Some st \<Longrightarrow> I s d \<Longrightarrow> outcome_ok C I N st s (Process C st from msg d)"
    and connection_ok: "mc_states C s = Some st \<Longrightarrow> I s d \<Longrightarrow> outcome_ok C I N st s (sc_connection st i d)"
    and disconnection_ok: "mc_states C s = Some st \<Longrightarrow> I s d \<Longrightarrow> outcome_ok C I N st s (sc_disconnection st i d)"
    and id_ok: "mc_states C s = Some st \<Longrightarrow> sc_state st = s"
begin

definition in_state :: "('d, 'm) state_machine \<Rightarrow> bool" where
  "in_state m \<longleftrightarrow> (\<exists>s. msm_cstate m = Some s \<and> mc_states C s \<noteq> None \<and> I s (msm_data m))"

definition keeps :: "('d, 'm) runner \<Rightarrow> bool" where
  "keeps rec \<longleftrightarrow> (\<forall>t m. N t (msm_data m) \<longrightarrow> post in_state (rec (Enter t) m))
     \<and> (\<forall>from msg m. in_state m \<longrightarrow> post in_state (rec (Receive from msg) m))
     \<and> (\<forall>from msg m st. GetCurrentState C m = Inr st \<longrightarrow> quiet C st (msm_data m) (from, msg)
          \<longrightarrow> post (\<lambda>m'. m' = m) (rec (Receive from msg) m))"

lemma in_stateE:
  assumes "in_state m"
  obtains s st where "msm_cstate m = Some s" and "mc_states C s = Some st" and "I s (msm_data m)"
    and "GetCurrentState C m = Inr st"
  using assms by (auto simp: in_state_def GetCurrentState_def)

lemma result_keeps:
  assumes "keeps rec" and "msm_cstate m = Some s" and "mc_states C s = Some st"
    and "result_ok C I N s (msm_data m) (Some pr)"
  shows "post in_state (ResultProcessor rec C pr m)"
  using assms id_ok [OF assms(3)]
  by (cases pr) (auto simp: ResultProcessor_def msm_StateComplete_def GetCurrentState_def keeps_def in_state_def
      intro!: post_Inr post_Inl)

lemma keepsD:
  assumes "keeps rec"
  shows "N t (msm_data m) \<Longrightarrow> rec (Enter t) m = Inr m' \<Longrightarrow> in_state m'"
    and "in_state m \<Longrightarrow> rec (Receive from msg) m = Inr m' \<Longrightarrow> in_state m'"
    and "GetCurrentState C m = Inr st \<Longrightarrow> quiet C st (msm_data m) (from, msg) \<Longrightarrow>
      rec (Receive from msg) m = Inr m' \<Longrightarrow> m' = m"
  using assms unfolding keeps_def post_def by blast+

lemma deliver_keeps: "keeps rec \<Longrightarrow> in_state m \<Longrightarrow> deliver rec msgs m = Inr m' \<Longrightarrow> in_state m'"
  unfolding deliver_def by (erule foldS_invariant [where P = in_state]) (auto dest: keepsD(2))

lemma deliver_quiet:
  "keeps rec \<Longrightarrow> GetCurrentState C m = Inr st \<Longrightarrow> list_all (quiet C st (msm_data m)) msgs \<Longrightarrow>
     deliver rec msgs m = Inr m' \<Longrightarrow> m' = m"
  unfolding deliver_def
  by (erule foldS_invariant [where P = "\<lambda>m'. m' = m"]) (auto simp: list_all_iff dest: keepsD(3))

text \<open>After a method has settled, the machine is in a state in which the result may be used.\<close>

definition settled :: "('d, 'm) state_machine \<times> process_result option \<Rightarrow> bool" where
  "settled = (\<lambda>(m, res). \<exists>s st. msm_cstate m = Some s \<and> mc_states C s = Some st
     \<and> result_ok C I N s (msm_data m) res)"

lemma settled_in_state: "in_state m \<Longrightarrow> res \<in> {None, Some NoChange} \<Longrightarrow> settled (m, res)"
  by (auto simp: settled_def in_state_def)

lemma settle_keeps:
  assumes "keeps rec" and "msm_cstate m = Some s" and "mc_states C s = Some st" and "outcome_ok C I N st s out"
  shows "post settled (settle rec out m)"
proof (cases out)
  case (Loopback d msgs res)
  let ?m = "m\<lparr>msm_data := d\<rparr>"
  from assms(4) Loopback consider (free) "I s d" "res \<in> {None, Some NoChange}"
    | (quiet) "result_ok C I N s d res" "list_all (quiet C st d) msgs" by auto
  then have "settled (m', res)" if "deliver rec msgs ?m = Inr m'" for m'
  proof cases
    case free
    with assms(2,3) have "in_state ?m" by (simp add: in_state_def)
    from deliver_keeps [OF assms(1) this that] free show ?thesis by (auto intro: settled_in_state)
  next
    case quiet
    have "GetCurrentState C ?m = Inr st" using assms(2,3) by (simp add: GetCurrentState_def)
    from deliver_quiet [OF assms(1) this _ that] quiet assms(2,3) show ?thesis by (simp add: settled_def)
  qed
  then show ?thesis by (auto simp: Loopback intro!: post_bindS post_Inr)
qed (use assms in \<open>auto simp: settled_def intro!: post_Inr post_Inl\<close>)

lemma settled_result: "keeps rec \<Longrightarrow> settled (m, Some pr) \<Longrightarrow> post in_state (ResultProcessor rec C pr m)"
  by (auto simp: settled_def simp del: result_ok.simps intro: result_keeps)

lemma outcome_keeps:
  assumes "keeps rec" and "msm_cstate m = Some s" and "mc_states C s = Some st" and "outcome_ok C I N st s out"
  shows "post in_state (process_outcome rec C out m)"
  unfolding process_outcome_def
  by (rule post_bindS, drule postD [OF settle_keeps [OF assms]])
    (auto split: option.split intro!: post_Inl settled_result [OF assms(1)])

lemma process_keeps:
  assumes "keeps rec" and "in_state m"
  shows "post in_state (msm_ProcessData rec C from msg m)"
proof -
  from assms(2) obtain s st where s: "msm_cstate m = Some s" "mc_states C s = Some st" "I s (msm_data m)"
    "GetCurrentState C m = Inr st" by (rule in_stateE)
  have "in_state m" if "settled (m, None)" for m
    using that by (auto simp: settled_def in_state_def)
  moreover have "in_state (m\<lparr>msm_storage := l\<rparr>)" if "settled (m, Some StoreMessage)" for m l
    using that by (auto simp: settled_def in_state_def)
  ultimately show ?thesis
    unfolding msm_ProcessData_def s(4) bindS.simps
    by (intro post_bindS, drule_tac postD [OF settle_keeps [OF assms(1) s(1,2) process_ok [OF s(2,3)]]])
      (auto split: option.split intro!: post_Inr settled_result [OF assms(1)])
qed

lemma again_keeps:
  assumes "keeps rec" and "in_state m"
  shows "post in_state (process_again rec C m)"
proof -
  have "in_state (m\<lparr>msm_storage := []\<rparr>)" using assms(2) by (simp add: in_state_def)
  then show ?thesis
    unfolding process_again_def post_def
    by (auto elim!: foldS_invariant [where P = in_state] dest: postD [OF process_keeps [OF assms(1)]])
qed

lemma set_keeps:
  assumes "keeps rec" and "N t (msm_data m)"
  shows "post in_state (SetNewState rec C t m)"
proof (cases "mc_states C t")
  case (Some st)
  have "post in_state (process_outcome rec C (sc_init st (sc_new st (msm_data m)))
      (m\<lparr>msm_cstate := Some t, msm_data := sc_new st (msm_data m)\<rparr>))"
    by (rule outcome_keeps [OF assms(1) _ Some]) (simp_all add: enter_ok [OF Some assms(2)])
  then show ?thesis
    by (auto simp: SetNewState_def Some Let_def intro!: post_bindS again_keeps [OF assms(1)] dest: postD)
qed (simp add: SetNewState_def post_Inl)

lemma process_quiet:
  "GetCurrentState C m = Inr st \<Longrightarrow> quiet C st (msm_data m) (from, msg) \<Longrightarrow>
     post (\<lambda>m'. m' = m) (msm_ProcessData rec C from msg m)"
  by (auto simp: msm_ProcessData_def quiet_def ResultProcessor_def intro!: post_Inr post_Inl)

lemma run_keeps: "keeps (run k C)"
proof (induction k)
  case 0
  then show ?case by (simp add: keeps_def post_Inl)
next
  case (Suc k)
  from set_keeps [OF this] process_keeps [OF this] process_quiet [of _ _ _ _ "run k C"] show ?case
    by (auto simp: keeps_def)
qed

lemma events_keep:
  assumes "in_state m"
  shows "post in_state (msm_ProcessData (run k C) C from msg m)"
    and "post in_state (msm_HandleConnection (run k C) C i m)"
    and "post in_state (msm_HandleDisconnection (run k C) C i m)"
proof -
  from assms obtain s st where s: "msm_cstate m = Some s" "mc_states C s = Some st" "I s (msm_data m)"
    "GetCurrentState C m = Inr st" by (rule in_stateE)
  show "post in_state (msm_ProcessData (run k C) C from msg m)"
    using run_keeps assms by (rule process_keeps)
  show "post in_state (msm_HandleConnection (run k C) C i m)"
    using outcome_keeps [OF run_keeps s(1,2) connection_ok [OF s(2,3)]] s
    by (simp add: msm_HandleConnection_def)
  show "post in_state (msm_HandleDisconnection (run k C) C i m)"
    using outcome_keeps [OF run_keeps s(1,2) disconnection_ok [OF s(2,3)]] s
    by (simp add: msm_HandleDisconnection_def)
qed

end

end
