(* ===== verification/SessionMessages.thy ===== *)
theory SessionMessages
  imports Streams
begin

text \<open>
  The messages of the session protocol, \<^verbatim>\<open>src/src/Session/Server*.hpp\<close>, \<^verbatim>\<open>ClientRegister.hpp\<close>,
  \<^verbatim>\<open>SessionData.hpp\<close> and \<^verbatim>\<open>SerializeList.hpp\<close>, the serialization of keys in
  \<^verbatim>\<open>src/src/Crypto/Serialization.hpp\<close>, and the choice of the parser by the first byte in
  \<^verbatim>\<open>src/src/Messaging/Message.hpp\<close>.

  A class becomes a record with its member variables; the members every signed message has are the
  record \<open>signed_msg\<close>, which the others extend.  The constructor from fields is \<open>mk_X\<close>, the constructor
  from a packet is \<open>parse_X\<close>.  The latter fails a \<^verbatim>\<open>Q_ASSERT\<close> on a wrong type byte.
  The stream operators of Qt are parameters (record \<open>sqds\<close>), as is the decoding of a key.
\<close>

section \<open>Stream operators and keys\<close>

text \<open>
  A \<^verbatim>\<open>QVariant\<close> is an array of bytes or something else, which is only compared and converted.
\<close>

datatype variant = VBytes bytes | VOther bytes

text \<open>An \<^verbatim>\<open>AsymmetricKey\<close> as the session sees it: its kind, encoding and validity.\<close>

record asym_key =
  ak_type :: int32
  ak_private :: bool
  ak_bytes :: bytes
  ak_valid :: bool

record sqds = qds +
  put_int8 :: "byte \<Rightarrow> bytes"
  get_int8 :: "bytes \<Rightarrow> byte \<times> bytes"
  put_int64 :: "64 word \<Rightarrow> bytes"
  get_int64 :: "bytes \<Rightarrow> 64 word \<times> bytes"
  put_variant :: "variant \<Rightarrow> bytes"
  get_variant :: "bytes \<Rightarrow> variant \<times> bytes"
  put_string :: "string \<Rightarrow> bytes"
  get_string :: "bytes \<Rightarrow> string \<times> bytes"
  put_list :: "bytes list \<Rightarrow> bytes"
  get_list :: "bytes \<Rightarrow> bytes list \<times> bytes"
  bytes_ok :: "bytes \<Rightarrow> bool"
  load_key :: "int32 \<Rightarrow> bool \<Rightarrow> bytes \<Rightarrow> asym_key"

definition key_RSA :: int32 where "key_RSA = 0"
definition key_DSA :: int32 where "key_DSA = 1"

definition put_key :: "sqds \<Rightarrow> asym_key \<Rightarrow> bytes" where
  "put_key Q key = put_int Q (ak_type key) @ put_bool Q (ak_private key) @ put_bytes Q (ak_bytes key)"

text \<open>A key of an unknown type leaves the shared pointer null.\<close>

definition get_key :: "sqds \<Rightarrow> bytes \<Rightarrow> asym_key option \<times> bytes" where
  "get_key Q s =
     (let (key_type, s) = get_int Q s; (private_key, s) = get_bool Q s; (bkey, s) = get_bytes Q s
      in (if key_type = key_RSA \<or> key_type = key_DSA then Some (load_key Q key_type private_key bkey)
          else None, s))"

section \<open>Signed messages\<close>

definition BadMessageType :: int where "BadMessageType = -1"
definition mt_ServerInit :: byte where "mt_ServerInit = 0"
definition mt_ServerEnlist :: byte where "mt_ServerEnlist = 1"
definition mt_ServerEnlisted :: byte where "mt_ServerEnlisted = 2"
definition mt_ServerAgree :: byte where "mt_ServerAgree = 3"
definition mt_ServerQueued :: byte where "mt_ServerQueued = 4"
definition mt_ClientRegister :: byte where "mt_ClientRegister = 5"
definition mt_ServerList :: byte where "mt_ServerList = 6"
definition mt_ServerVerifyList :: byte where "mt_ServerVerifyList = 7"
definition mt_ServerStart :: byte where "mt_ServerStart = 8"
definition mt_ServerStop :: byte where "mt_ServerStop = 9"
definition mt_SessionData :: byte where "mt_SessionData = 127"

lemmas mt_defs = mt_ServerInit_def mt_ServerEnlist_def mt_ServerEnlisted_def mt_ServerAgree_def
  mt_ServerQueued_def mt_ClientRegister_def mt_ServerList_def mt_ServerVerifyList_def mt_ServerStart_def
  mt_ServerStop_def mt_SessionData_def

record signed_msg =
  msg_packet :: bytes
  msg_payload :: bytes
  msg_signature :: bytes

definition SetSignature :: "sqds \<Rightarrow> byte \<Rightarrow> bytes \<Rightarrow> 'a signed_msg_scheme \<Rightarrow> 'a signed_msg_scheme" where
  "SetSignature Q mtype signature m =
     m\<lparr>msg_signature := signature,
       msg_packet := put_int8 Q mtype @ put_bytes Q (msg_payload m) @ put_bytes Q signature\<rparr>"

text \<open>The head all constructors from a packet share: \<open>None\<close> is a failed \<^verbatim>\<open>Q_ASSERT\<close>.\<close>

definition parse_signed :: "sqds \<Rightarrow> byte \<Rightarrow> bytes \<Rightarrow> fault + bytes \<times> bytes" where
  "parse_signed Q mtype packet =
     (let (message_type, s) = get_int8 Q packet; (payload, s) = get_bytes Q s; (signature, s) = get_bytes Q s
      in if message_type = mtype then Inr (payload, signature) else Inl Fatal)"

section \<open>Lists of messages\<close>

definition SerializeList :: "sqds \<Rightarrow> ('a signed_msg_scheme) list \<Rightarrow> bytes" where
  "SerializeList Q xs =
     put_int Q (of_nat (length xs)) @ concat (map (\<lambda>element. put_bytes Q (msg_packet element)) xs)"

text \<open>
  The loop of \<^verbatim>\<open>DeserializeList\<close>: \<open>ok\<close> is the status of the stream.  The constructor of an element
  runs even when reading it failed; the loop ends after it.
\<close>

fun deserialize_loop ::
    "sqds \<Rightarrow> (bytes \<Rightarrow> fault + 'a) \<Rightarrow> nat \<Rightarrow> bool \<Rightarrow> bytes \<Rightarrow> fault + 'a list" where
  "deserialize_loop Q parse 0 ok s = Inr []"
| "deserialize_loop Q parse (Suc count) ok s =
     (if \<not> ok then Inr []
      else let (entry, s') = get_bytes Q s
           in bindS (parse entry) (\<lambda>x.
                bindS (deserialize_loop Q parse count (bytes_ok Q s) s') (\<lambda>xs. Inr (x # xs))))"

definition DeserializeList :: "sqds \<Rightarrow> (bytes \<Rightarrow> fault + 'a) \<Rightarrow> bytes \<Rightarrow> fault + 'a list" where
  "DeserializeList Q parse data =
     (let (count, s) = get_int Q data
      in if sint count < 0 then Inr [] else deserialize_loop Q parse (nat (sint count)) True s)"

section \<open>The message classes\<close>

record server_init = signed_msg +
  si_peer :: peer
  si_nonce :: bytes
  si_timestamp :: "64 word"
  si_group :: bytes

definition mk_ServerInit :: "sqds \<Rightarrow> peer \<Rightarrow> bytes \<Rightarrow> 64 word \<Rightarrow> bytes \<Rightarrow> server_init" where
  "mk_ServerInit Q peer nonce timestamp group_id =
     \<lparr>msg_packet = [],
      msg_payload = put_id Q peer @ put_bytes Q nonce @ put_int64 Q timestamp @ put_bytes Q group_id,
      msg_signature = [], si_peer = peer, si_nonce = nonce, si_timestamp = timestamp, si_group = group_id\<rparr>"

definition parse_ServerInit :: "sqds \<Rightarrow> bytes \<Rightarrow> fault + server_init" where
  "parse_ServerInit Q packet =
     bindS (parse_signed Q mt_ServerInit packet) (\<lambda>(payload, signature).
       let (peer, s) = get_id Q payload; (nonce, s) = get_bytes Q s;
           (timestamp, s) = get_int64 Q s; (group_id, s) = get_bytes Q s
       in Inr \<lparr>msg_packet = packet, msg_payload = payload, msg_signature = signature,
               si_peer = peer, si_nonce = nonce, si_timestamp = timestamp, si_group = group_id\<rparr>)"

record server_enlist = signed_msg +
  se_peer :: peer
  se_init :: server_init
  se_key :: "asym_key option"
  se_optional :: variant

definition mk_ServerEnlist :: "sqds \<Rightarrow> peer \<Rightarrow> server_init \<Rightarrow> asym_key \<Rightarrow> variant \<Rightarrow> server_enlist" where
  "mk_ServerEnlist Q peer init key optional =
     \<lparr>msg_packet = [],
      msg_payload = put_id Q peer @ put_bytes Q (msg_packet init) @ put_key Q key @ put_variant Q optional,
      msg_signature = [], se_peer = peer, se_init = init, se_key = Some key, se_optional = optional\<rparr>"

definition parse_ServerEnlist :: "sqds \<Rightarrow> bytes \<Rightarrow> fault + server_enlist" where
  "parse_ServerEnlist Q packet =
     bindS (parse_signed Q mt_ServerEnlist packet) (\<lambda>(payload, signature).
       let (peer, s) = get_id Q payload; (init, s) = get_bytes Q s;
           (key, s) = get_key Q s; (optional, s) = get_variant Q s
       in bindS (parse_ServerInit Q init) (\<lambda>init.
          Inr \<lparr>msg_packet = packet, msg_payload = payload, msg_signature = signature,
               se_peer = peer, se_init = init, se_key = key, se_optional = optional\<rparr>))"

record server_enlisted = signed_msg +
  sed_enlists :: "server_enlist list"

definition mk_ServerEnlisted :: "sqds \<Rightarrow> server_enlist list \<Rightarrow> server_enlisted" where
  "mk_ServerEnlisted Q enlists =
     \<lparr>msg_packet = [], msg_payload = SerializeList Q enlists, msg_signature = [], sed_enlists = enlists\<rparr>"

definition parse_ServerEnlisted :: "sqds \<Rightarrow> bytes \<Rightarrow> fault + server_enlisted" where
  "parse_ServerEnlisted Q packet =
     bindS (parse_signed Q mt_ServerEnlisted packet) (\<lambda>(payload, signature).
       bindS (DeserializeList Q (parse_ServerEnlist Q) payload) (\<lambda>enlists.
         Inr \<lparr>msg_packet = packet, msg_payload = payload, msg_signature = signature, sed_enlists = enlists\<rparr>))"

text \<open>\<^verbatim>\<open>ServerAgree\<close> and \<^verbatim>\<open>ClientRegister\<close> have the same members and differ in their type byte.\<close>

record member_msg = signed_msg +
  mm_peer :: peer
  mm_round_id :: bytes
  mm_key :: "asym_key option"
  mm_optional :: variant

type_synonym server_agree = member_msg
type_synonym client_register = member_msg

definition mk_member :: "sqds \<Rightarrow> peer \<Rightarrow> bytes \<Rightarrow> asym_key \<Rightarrow> variant \<Rightarrow> member_msg" where
  "mk_member Q peer round_id key optional =
     \<lparr>msg_packet = [],
      msg_payload = put_id Q peer @ put_bytes Q round_id @ put_key Q key @ put_variant Q optional,
      msg_signature = [], mm_peer = peer, mm_round_id = round_id, mm_key = Some key, mm_optional = optional\<rparr>"

definition parse_member :: "byte \<Rightarrow> sqds \<Rightarrow> bytes \<Rightarrow> fault + member_msg" where
  "parse_member mtype Q packet =
     bindS (parse_signed Q mtype packet) (\<lambda>(payload, signature).
       let (peer, s) = get_id Q payload; (round_id, s) = get_bytes Q s;
           (key, s) = get_key Q s; (optional, s) = get_variant Q s
       in Inr \<lparr>msg_packet = packet, msg_payload = payload, msg_signature = signature,
               mm_peer = peer, mm_round_id = round_id, mm_key = key, mm_optional = optional\<rparr>)"

definition mk_ServerAgree :: "sqds \<Rightarrow> peer \<Rightarrow> bytes \<Rightarrow> asym_key \<Rightarrow> variant \<Rightarrow> server_agree" where
  "mk_ServerAgree = mk_member"

definition parse_ServerAgree :: "sqds \<Rightarrow> bytes \<Rightarrow> fault + server_agree" where
  "parse_ServerAgree = parse_member mt_ServerAgree"

definition mk_ClientRegister :: "sqds \<Rightarrow> peer \<Rightarrow> bytes \<Rightarrow> asym_key \<Rightarrow> variant \<Rightarrow> client_register" where
  "mk_ClientRegister = mk_member"

definition parse_ClientRegister :: "sqds \<Rightarrow> bytes \<Rightarrow> fault + client_register" where
  "parse_ClientRegister = parse_member mt_ClientRegister"

record server_queued = signed_msg +
  sq_agree_list :: "server_agree list"
  sq_agree :: bytes
  sq_nonce :: bytes

definition mk_ServerQueued :: "sqds \<Rightarrow> server_agree list \<Rightarrow> bytes \<Rightarrow> bytes \<Rightarrow> server_queued" where
  "mk_ServerQueued Q agree_list nonce agree =
     (let agree = (if agree = [] then SerializeList Q agree_list else agree)
      in \<lparr>msg_packet = [], msg_payload = put_bytes Q agree @ put_bytes Q nonce, msg_signature = [],
          sq_agree_list = agree_list, sq_agree = agree, sq_nonce = nonce\<rparr>)"

definition parse_ServerQueued :: "sqds \<Rightarrow> bytes \<Rightarrow> fault + server_queued" where
  "parse_ServerQueued Q packet =
     bindS (parse_signed Q mt_ServerQueued packet) (\<lambda>(payload, signature).
       let (agree, s) = get_bytes Q payload; (nonce, s) = get_bytes Q s
       in bindS (DeserializeList Q (parse_ServerAgree Q) agree) (\<lambda>agree_list.
          Inr \<lparr>msg_packet = packet, msg_payload = payload, msg_signature = signature,
               sq_agree_list = agree_list, sq_agree = agree, sq_nonce = nonce\<rparr>))"

record server_list = signed_msg +
  sl_register_list :: "client_register list"

definition mk_ServerList :: "sqds \<Rightarrow> client_register list \<Rightarrow> server_list" where
  "mk_ServerList Q register_list =
     \<lparr>msg_packet = [], msg_payload = SerializeList Q register_list, msg_signature = [],
      sl_register_list = register_list\<rparr>"

definition parse_ServerList :: "sqds \<Rightarrow> bytes \<Rightarrow> fault + server_list" where
  "parse_ServerList Q packet =
     bindS (parse_signed Q mt_ServerList packet) (\<lambda>(payload, signature).
       bindS (DeserializeList Q (parse_ClientRegister Q) payload) (\<lambda>register_list.
         Inr \<lparr>msg_packet = packet, msg_payload = payload, msg_signature = signature,
              sl_register_list = register_list\<rparr>))"

record server_stop = signed_msg +
  st_peer :: peer
  st_round_id :: bytes
  st_immediate :: bool
  st_reason :: string

definition mk_ServerStop :: "sqds \<Rightarrow> peer \<Rightarrow> bytes \<Rightarrow> bool \<Rightarrow> string \<Rightarrow> server_stop" where
  "mk_ServerStop Q peer round_id immediate reason =
     \<lparr>msg_packet = [],
      msg_payload = put_id Q peer @ put_bytes Q round_id @ put_bool Q immediate @ put_string Q reason,
      msg_signature = [], st_peer = peer, st_round_id = round_id, st_immediate = immediate, st_reason = reason\<rparr>"

definition parse_ServerStop :: "sqds \<Rightarrow> bytes \<Rightarrow> fault + server_stop" where
  "parse_ServerStop Q packet =
     bindS (parse_signed Q mt_ServerStop packet) (\<lambda>(payload, signature).
       let (peer, s) = get_id Q payload; (round_id, s) = get_bytes Q s;
           (immediate, s) = get_bool Q s; (reason, s) = get_string Q s
       in Inr \<lparr>msg_packet = packet, msg_payload = payload, msg_signature = signature,
               st_peer = peer, st_round_id = round_id, st_immediate = immediate, st_reason = reason\<rparr>)"

text \<open>The messages without a signature of their own.\<close>

record server_verify_list =
  sv_packet :: bytes
  sv_signature :: bytes

definition mk_ServerVerifyList :: "bytes \<Rightarrow> server_verify_list" where
  "mk_ServerVerifyList signature = \<lparr>sv_packet = mt_ServerVerifyList # signature, sv_signature = signature\<rparr>"

definition parse_ServerVerifyList :: "bytes \<Rightarrow> fault + server_verify_list" where
  "parse_ServerVerifyList packet = Inr \<lparr>sv_packet = packet, sv_signature = drop 1 packet\<rparr>"

record server_start =
  sr_packet :: bytes
  sr_register_list :: "client_register list"
  sr_register :: bytes
  sr_signatures :: "bytes list"

definition mk_ServerStart :: "sqds \<Rightarrow> client_register list \<Rightarrow> bytes list \<Rightarrow> server_start" where
  "mk_ServerStart Q register_list signatures =
     (let register = SerializeList Q register_list
      in \<lparr>sr_packet = put_int8 Q mt_ServerStart @ put_bytes Q register @ put_list Q signatures,
          sr_register_list = register_list, sr_register = register, sr_signatures = signatures\<rparr>)"

definition parse_ServerStart :: "sqds \<Rightarrow> bytes \<Rightarrow> fault + server_start" where
  "parse_ServerStart Q packet =
     (let (message_type, s) = get_int8 Q packet; (register, s) = get_bytes Q s; (signatures, s) = get_list Q s
      in if message_type \<noteq> mt_ServerStart then Inl Fatal
         else bindS (DeserializeList Q (parse_ClientRegister Q) register) (\<lambda>register_list.
           Inr \<lparr>sr_packet = packet, sr_register_list = register_list, sr_register = register,
                sr_signatures = signatures\<rparr>))"

text \<open>The packet of a \<^verbatim>\<open>SessionData\<close> is the packet without its first byte.\<close>

definition parse_SessionData :: "bytes \<Rightarrow> fault + bytes" where
  "parse_SessionData packet =
     (if packet = [] then Inl OutOfBounds else if hd packet \<noteq> mt_SessionData then Inl Fatal else Inr (drop 1 packet))"

section \<open>Choosing the parser\<close>

datatype session_msg =
    MServerInit server_init
  | MServerEnlist server_enlist
  | MServerEnlisted server_enlisted
  | MServerAgree server_agree
  | MServerQueued server_queued
  | MClientRegister client_register
  | MServerList server_list
  | MServerVerifyList server_verify_list
  | MServerStart server_start
  | MServerStop server_stop
  | MSessionData bytes
  | BadMessage

fun GetMessageType :: "session_msg \<Rightarrow> int" where
  "GetMessageType (MServerInit m) = 0"
| "GetMessageType (MServerEnlist m) = 1"
| "GetMessageType (MServerEnlisted m) = 2"
| "GetMessageType (MServerAgree m) = 3"
| "GetMessageType (MServerQueued m) = 4"
| "GetMessageType (MClientRegister m) = 5"
| "GetMessageType (MServerList m) = 6"
| "GetMessageType (MServerVerifyList m) = 7"
| "GetMessageType (MServerStart m) = 8"
| "GetMessageType (MServerStop m) = 9"
| "GetMessageType (MSessionData m) = 127"
| "GetMessageType BadMessage = -1"

definition as_msg :: "('a \<Rightarrow> session_msg) \<Rightarrow> fault + 'a \<Rightarrow> fault + session_msg" where
  "as_msg f m = bindS m (\<lambda>x. Inr (f x))"

text \<open>\<^verbatim>\<open>MessageDemuxer::ParseMessage\<close> over a table of parsers.\<close>

definition ParseMessage :: "(byte \<rightharpoonup> (bytes \<Rightarrow> fault + session_msg)) \<Rightarrow> bytes \<Rightarrow> fault + session_msg" where
  "ParseMessage amps packet =
     (if packet = [] then Inr BadMessage
      else case amps (hd packet) of None \<Rightarrow> Inr BadMessage | Some parse \<Rightarrow> parse packet)"

definition server_parsers :: "sqds \<Rightarrow> byte \<rightharpoonup> (bytes \<Rightarrow> fault + session_msg)" where
  "server_parsers Q =
     [mt_ServerInit \<mapsto> \<lambda>p. as_msg MServerInit (parse_ServerInit Q p),
      mt_ServerEnlist \<mapsto> \<lambda>p. as_msg MServerEnlist (parse_ServerEnlist Q p),
      mt_ServerEnlisted \<mapsto> \<lambda>p. as_msg MServerEnlisted (parse_ServerEnlisted Q p),
      mt_ServerAgree \<mapsto> \<lambda>p. as_msg MServerAgree (parse_ServerAgree Q p),
      mt_ClientRegister \<mapsto> \<lambda>p. as_msg MClientRegister (parse_ClientRegister Q p),
      mt_ServerList \<mapsto> \<lambda>p. as_msg MServerList (parse_ServerList Q p),
      mt_ServerVerifyList \<mapsto> \<lambda>p. as_msg MServerVerifyList (parse_ServerVerifyList p),
      mt_SessionData \<mapsto> \<lambda>p. as_msg MSessionData (parse_SessionData p),
      mt_ServerStop \<mapsto> \<lambda>p. as_msg MServerStop (parse_ServerStop Q p)]"

definition client_parsers :: "sqds \<Rightarrow> byte \<rightharpoonup> (bytes \<Rightarrow> fault + session_msg)" where
  "client_parsers Q =
     [mt_SessionData \<mapsto> \<lambda>p. as_msg MSessionData (parse_SessionData p),
      mt_ServerQueued \<mapsto> \<lambda>p. as_msg MServerQueued (parse_ServerQueued Q p),
      mt_ServerStart \<mapsto> \<lambda>p. as_msg MServerStart (parse_ServerStart Q p),
      mt_ServerStop \<mapsto> \<lambda>p. as_msg MServerStop (parse_ServerStop Q p)]"

section \<open>Round trips\<close>

text \<open>The documented behaviour of the stream operators the messages rely on.\<close>

definition sqds_ok :: "sqds \<Rightarrow> bool" where
  "sqds_ok Q \<longleftrightarrow>
     (\<forall>x r. get_int Q (put_int Q x @ r) = (x, r))
     \<and> (\<forall>x r. get_bool Q (put_bool Q x @ r) = (x, r))
     \<and> (\<forall>x r. small x \<longrightarrow> get_bytes Q (put_bytes Q x @ r) = (x, r) \<and> bytes_ok Q (put_bytes Q x @ r))
     \<and> (\<forall>x. put_int8 Q x = [x]) \<and> (\<forall>x r. get_int8 Q (x # r) = (x, r))
     \<and> (\<forall>x r. get_int64 Q (put_int64 Q x @ r) = (x, r))
     \<and> (\<forall>x r. get_variant Q (put_variant Q x @ r) = (x, r))
     \<and> (\<forall>x r. get_string Q (put_string Q x @ r) = (x, r))
     \<and> (\<forall>x r. small x \<longrightarrow> list_all small x \<longrightarrow> get_list Q (put_list Q x @ r) = (x, r))"

definition id_ok :: "sqds \<Rightarrow> peer \<Rightarrow> bool" where
  "id_ok Q i \<longleftrightarrow> (\<forall>r. get_id Q (put_id Q i @ r) = (i, r))"

definition key_ok :: "sqds \<Rightarrow> asym_key \<Rightarrow> bool" where
  "key_ok Q k \<longleftrightarrow> ak_type k \<in> {key_RSA, key_DSA} \<and> small (ak_bytes k)
     \<and> load_key Q (ak_type k) (ak_private k) (ak_bytes k) = k"

text \<open>Messages as the program makes and signs them.\<close>

definition signed_ok :: "'a signed_msg_scheme \<Rightarrow> bool" where
  "signed_ok m \<longleftrightarrow> small (msg_payload m) \<and> small (msg_signature m) \<and> small (msg_packet m)"

definition member_made :: "sqds \<Rightarrow> byte \<Rightarrow> member_msg \<Rightarrow> bool" where
  "member_made Q mtype m \<longleftrightarrow> signed_ok m \<and> (\<exists>peer round_id key optional signature.
     m = SetSignature Q mtype signature (mk_member Q peer round_id key optional)
     \<and> id_ok Q peer \<and> small round_id \<and> key_ok Q key)"

definition init_made :: "sqds \<Rightarrow> server_init \<Rightarrow> bool" where
  "init_made Q m \<longleftrightarrow> signed_ok m \<and> (\<exists>peer nonce timestamp group_id signature.
     m = SetSignature Q mt_ServerInit signature (mk_ServerInit Q peer nonce timestamp group_id)
     \<and> id_ok Q peer \<and> small nonce \<and> small group_id)"

definition enlist_made :: "sqds \<Rightarrow> server_enlist \<Rightarrow> bool" where
  "enlist_made Q m \<longleftrightarrow> signed_ok m \<and> (\<exists>peer init key optional signature.
     m = SetSignature Q mt_ServerEnlist signature (mk_ServerEnlist Q peer init key optional)
     \<and> id_ok Q peer \<and> init_made Q init \<and> key_ok Q key)"

definition stop_made :: "sqds \<Rightarrow> server_stop \<Rightarrow> bool" where
  "stop_made Q m \<longleftrightarrow> signed_ok m \<and> (\<exists>peer round_id immediate reason signature.
     m = SetSignature Q mt_ServerStop signature (mk_ServerStop Q peer round_id immediate reason)
     \<and> id_ok Q peer \<and> small round_id)"

fun msg_made :: "sqds \<Rightarrow> session_msg \<Rightarrow> bool" where
  "msg_made Q (MServerInit m) = init_made Q m"
| "msg_made Q (MServerEnlist m) = enlist_made Q m"
| "msg_made Q (MServerEnlisted m) = (signed_ok m \<and> (\<exists>xs signature.
     m = SetSignature Q mt_ServerEnlisted signature (mk_ServerEnlisted Q xs)
     \<and> small xs \<and> list_all (enlist_made Q) xs))"
| "msg_made Q (MServerAgree m) = member_made Q mt_ServerAgree m"
| "msg_made Q (MServerQueued m) = (signed_ok m \<and> (\<exists>xs nonce signature.
     m = SetSignature Q mt_ServerQueued signature (mk_ServerQueued Q xs nonce (SerializeList Q xs))
     \<and> small xs \<and> small nonce \<and> small (SerializeList Q xs) \<and> list_all (member_made Q mt_ServerAgree) xs))"
| "msg_made Q (MClientRegister m) = member_made Q mt_ClientRegister m"
| "msg_made Q (MServerList m) = (signed_ok m \<and> (\<exists>xs signature.
     m = SetSignature Q mt_ServerList signature (mk_ServerList Q xs)
     \<and> small xs \<and> list_all (member_made Q mt_ClientRegister) xs))"
| "msg_made Q (MServerVerifyList m) = (\<exists>signature. m = mk_ServerVerifyList signature)"
| "msg_made Q (MServerStart m) = (\<exists>xs signatures. m = mk_ServerStart Q xs signatures
     \<and> small xs \<and> small signatures \<and> list_all small signatures
     \<and> small (SerializeList Q xs) \<and> list_all (member_made Q mt_ClientRegister) xs)"
| "msg_made Q (MServerStop m) = stop_made Q m"
| "msg_made Q (MSessionData d) = True"
| "msg_made Q BadMessage = False"

text \<open>What goes over the wire; a round puts the byte 127 in front of its data.\<close>

fun wire :: "session_msg \<Rightarrow> bytes" where
  "wire (MServerInit m) = msg_packet m"
| "wire (MServerEnlist m) = msg_packet m"
| "wire (MServerEnlisted m) = msg_packet m"
| "wire (MServerAgree m) = msg_packet m"
| "wire (MServerQueued m) = msg_packet m"
| "wire (MClientRegister m) = msg_packet m"
| "wire (MServerList m) = msg_packet m"
| "wire (MServerVerifyList m) = sv_packet m"
| "wire (MServerStart m) = sr_packet m"
| "wire (MServerStop m) = msg_packet m"
| "wire (MSessionData d) = mt_SessionData # d"
| "wire BadMessage = []"

lemma sqds_okD:
  assumes "sqds_ok Q"
  shows "get_int Q (put_int Q x @ r) = (x, r)" and "get_bool Q (put_bool Q b @ r) = (b, r)"
    and "small d \<Longrightarrow> get_bytes Q (put_bytes Q d @ r) = (d, r)" and "small d \<Longrightarrow> bytes_ok Q (put_bytes Q d @ r)"
    and "put_int8 Q t = [t]" and "get_int8 Q (t # r) = (t, r)"
    and "get_int64 Q (put_int64 Q l @ r) = (l, r)" and "get_variant Q (put_variant Q v @ r) = (v, r)"
    and "get_string Q (put_string Q s @ r) = (s, r)"
    and "small ds \<Longrightarrow> list_all small ds \<Longrightarrow> get_list Q (put_list Q ds @ r) = (ds, r)"
  using assms by (simp_all add: sqds_ok_def)

lemmas get_bytes_end = sqds_okD(3) [where r = "[]", simplified]
lemmas get_rest_end = get_bytes_end sqds_okD(8) [where r = "[]", simplified]
  sqds_okD(9) [where r = "[]", simplified] sqds_okD(10) [where r = "[]", simplified]

lemma parse_signed_ok:
  assumes "sqds_ok Q" and "m = SetSignature Q mtype signature m0" and "signed_ok m"
  shows "parse_signed Q mtype (msg_packet m) = Inr (msg_payload m, msg_signature m)"
  using assms(3)
  by (simp add: assms(2) parse_signed_def SetSignature_def signed_ok_def sqds_okD [OF assms(1)]
      get_bytes_end [OF assms(1)] Let_def)

lemma get_key_put_key: "sqds_ok Q \<Longrightarrow> key_ok Q k \<Longrightarrow> get_key Q (put_key Q k @ r) = (Some k, r)"
  by (auto simp: get_key_def put_key_def key_ok_def sqds_okD Let_def)

lemma id_okD: "id_ok Q i \<Longrightarrow> get_id Q (put_id Q i @ r) = (i, r)"
  by (simp add: id_ok_def)

lemmas roundtrip_simps = sqds_okD get_rest_end get_key_put_key

lemma parse_member_made:
  assumes "sqds_ok Q" and "member_made Q mtype m"
  shows "parse_member mtype Q (msg_packet m) = Inr m"
proof -
  from assms(2) obtain peer round_id key optional signature where
    m: "m = SetSignature Q mtype signature (mk_member Q peer round_id key optional)" "signed_ok m" and ok: "id_ok Q peer" "small round_id" "key_ok Q key"
    by (auto simp: member_made_def)
  have payload: "msg_payload m = put_id Q peer @ put_bytes Q round_id @ put_key Q key @ put_variant Q optional"
    and eq: "\<lparr>msg_packet = msg_packet m, msg_payload = put_id Q peer @ put_bytes Q round_id @ put_key Q key @ put_variant Q optional, msg_signature = msg_signature m, mm_peer = peer, mm_round_id = round_id, mm_key = Some key, mm_optional = optional\<rparr> = m"
    by (simp_all add: m(1) SetSignature_def mk_member_def)
  show ?thesis
    using ok
    by (simp add: parse_member_def parse_signed_ok [OF assms(1) m] payload eq Let_def id_okD
        roundtrip_simps [OF assms(1)])
qed

lemma parse_init_made:
  assumes "sqds_ok Q" and "init_made Q m"
  shows "parse_ServerInit Q (msg_packet m) = Inr m"
proof -
  from assms(2) obtain peer nonce timestamp group_id signature where
    m: "m = SetSignature Q mt_ServerInit signature (mk_ServerInit Q peer nonce timestamp group_id)" "signed_ok m" and ok: "id_ok Q peer" "small nonce" "small group_id"
    by (auto simp: init_made_def)
  have payload: "msg_payload m = put_id Q peer @ put_bytes Q nonce @ put_int64 Q timestamp @ put_bytes Q group_id"
    and eq: "\<lparr>msg_packet = msg_packet m, msg_payload = put_id Q peer @ put_bytes Q nonce @ put_int64 Q timestamp @ put_bytes Q group_id, msg_signature = msg_signature m, si_peer = peer, si_nonce = nonce, si_timestamp = timestamp, si_group = group_id\<rparr> = m"
    by (simp_all add: m(1) SetSignature_def mk_ServerInit_def)
  show ?thesis
    using ok
    by (simp add: parse_ServerInit_def parse_signed_ok [OF assms(1) m] payload eq Let_def id_okD
        roundtrip_simps [OF assms(1)])
qed

lemma init_made_small: "init_made Q m \<Longrightarrow> small (msg_packet m)"
  by (simp add: init_made_def signed_ok_def)

lemma parse_enlist_made:
  assumes "sqds_ok Q" and "enlist_made Q m"
  shows "parse_ServerEnlist Q (msg_packet m) = Inr m"
proof -
  from assms(2) obtain peer init key optional signature where
    m: "m = SetSignature Q mt_ServerEnlist signature (mk_ServerEnlist Q peer init key optional)" "signed_ok m" and ok: "id_ok Q peer" "init_made Q init" "key_ok Q key"
    by (auto simp: enlist_made_def)
  have payload: "msg_payload m = put_id Q peer @ put_bytes Q (msg_packet init) @ put_key Q key @ put_variant Q optional"
    and eq: "\<lparr>msg_packet = msg_packet m, msg_payload = put_id Q peer @ put_bytes Q (msg_packet init) @ put_key Q key @ put_variant Q optional, msg_signature = msg_signature m, se_peer = peer, se_init = init, se_key = Some key, se_optional = optional\<rparr> = m"
    by (simp_all add: m(1) SetSignature_def mk_ServerEnlist_def)
  show ?thesis
    using ok init_made_small [OF ok(2)]
    by (simp add: parse_ServerEnlist_def parse_signed_ok [OF assms(1) m] payload eq Let_def id_okD
        roundtrip_simps [OF assms(1)] parse_init_made [OF assms(1) ok(2)])
qed

lemma parse_stop_made:
  assumes "sqds_ok Q" and "stop_made Q m"
  shows "parse_ServerStop Q (msg_packet m) = Inr m"
proof -
  from assms(2) obtain peer round_id immediate reason signature where
    m: "m = SetSignature Q mt_ServerStop signature (mk_ServerStop Q peer round_id immediate reason)" "signed_ok m" and ok: "id_ok Q peer" "small round_id"
    by (auto simp: stop_made_def)
  have payload: "msg_payload m = put_id Q peer @ put_bytes Q round_id @ put_bool Q immediate @ put_string Q reason"
    and eq: "\<lparr>msg_packet = msg_packet m, msg_payload = put_id Q peer @ put_bytes Q round_id @ put_bool Q immediate @ put_string Q reason, msg_signature = msg_signature m, st_peer = peer, st_round_id = round_id, st_immediate = immediate, st_reason = reason\<rparr> = m"
    by (simp_all add: m(1) SetSignature_def mk_ServerStop_def)
  show ?thesis
    using ok
    by (simp add: parse_ServerStop_def parse_signed_ok [OF assms(1) m] payload eq Let_def id_okD
        roundtrip_simps [OF assms(1)])
qed

lemma deserialize_loop_ok:
  assumes "sqds_ok Q" and "\<And>x. x \<in> set xs \<Longrightarrow> small (msg_packet x) \<and> parse (msg_packet x) = Inr x"
  shows "deserialize_loop Q parse (length xs) True (concat (map (\<lambda>x. put_bytes Q (msg_packet x)) xs)) = Inr xs"
  using assms(2) by (induction xs) (simp_all add: sqds_okD [OF assms(1)])

lemma DeserializeList_ok:
  assumes "sqds_ok Q" and "small xs" and "\<And>x. x \<in> set xs \<Longrightarrow> small (msg_packet x) \<and> parse (msg_packet x) = Inr x"
  shows "DeserializeList Q parse (SerializeList Q xs) = Inr xs"
proof -
  have "sint (of_nat (length xs) :: int32) = int (length xs)"
    using assms(2) by (simp add: signed_of_nat signed_take_bit_int_eq_self)
  with deserialize_loop_ok [OF assms(1,3)] show ?thesis
    by (simp add: DeserializeList_def SerializeList_def sqds_okD(1) [OF assms(1)])
qed

lemma made_packets:
  assumes "sqds_ok Q"
  shows "list_all (member_made Q mtype) xs \<Longrightarrow> small xs \<Longrightarrow> DeserializeList Q (parse_member mtype Q) (SerializeList Q xs) = Inr xs"
    and "list_all (enlist_made Q) ys \<Longrightarrow> small ys \<Longrightarrow> DeserializeList Q (parse_ServerEnlist Q) (SerializeList Q ys) = Inr ys"
  by (auto intro!: DeserializeList_ok assms parse_member_made parse_enlist_made simp: list_all_iff
      dest: bspec) (simp_all add: member_made_def enlist_made_def signed_ok_def)

lemma ParseMessage_Cons: "amps t = Some parse \<Longrightarrow> p = t # r \<Longrightarrow> ParseMessage amps p = parse p"
  by (simp add: ParseMessage_def)

lemma signed_packet:
  "sqds_ok Q \<Longrightarrow> msg_packet (SetSignature Q t signature m) = t # put_bytes Q (msg_payload m) @ put_bytes Q signature"
  by (simp add: SetSignature_def sqds_okD)

text \<open>One lemma per kind of message: the parser of its type byte returns it.\<close>

lemma parse_enlisted_made:
  assumes "sqds_ok Q" and "msg_made Q (MServerEnlisted m)"
  shows "parse_ServerEnlisted Q (msg_packet m) = Inr m"
proof -
  from assms(2) obtain xs signature where
    m: "m = SetSignature Q mt_ServerEnlisted signature (mk_ServerEnlisted Q xs)" "signed_ok m"
    and xs: "list_all (enlist_made Q) xs" "small xs" by auto
  have "\<lparr>msg_packet = msg_packet m, msg_payload = SerializeList Q xs, msg_signature = msg_signature m,
     sed_enlists = xs\<rparr> = m" "msg_payload m = SerializeList Q xs"
    by (simp_all add: m(1) SetSignature_def mk_ServerEnlisted_def)
  then show ?thesis
    by (simp add: parse_ServerEnlisted_def parse_signed_ok [OF assms(1) m] made_packets(2) [OF assms(1) xs])
qed

lemma parse_list_made:
  assumes "sqds_ok Q" and "msg_made Q (MServerList m)"
  shows "parse_ServerList Q (msg_packet m) = Inr m"
proof -
  from assms(2) obtain xs signature where
    m: "m = SetSignature Q mt_ServerList signature (mk_ServerList Q xs)" "signed_ok m"
    and xs: "list_all (member_made Q mt_ClientRegister) xs" "small xs" by auto
  have "\<lparr>msg_packet = msg_packet m, msg_payload = SerializeList Q xs, msg_signature = msg_signature m,
     sl_register_list = xs\<rparr> = m" "msg_payload m = SerializeList Q xs"
    by (simp_all add: m(1) SetSignature_def mk_ServerList_def)
  then show ?thesis
    by (simp add: parse_ServerList_def parse_ClientRegister_def parse_signed_ok [OF assms(1) m]
        made_packets(1) [OF assms(1) xs])
qed

lemma parse_queued_made:
  assumes "sqds_ok Q" and "msg_made Q (MServerQueued m)"
  shows "parse_ServerQueued Q (msg_packet m) = Inr m"
proof -
  from assms(2) obtain xs nonce signature where
    m: "m = SetSignature Q mt_ServerQueued signature (mk_ServerQueued Q xs nonce (SerializeList Q xs))" "signed_ok m"
    and xs: "list_all (member_made Q mt_ServerAgree) xs" "small xs"
    and ok: "small nonce" "small (SerializeList Q xs)" by auto
  have payload: "msg_payload m = put_bytes Q (SerializeList Q xs) @ put_bytes Q nonce"
    and eq: "\<lparr>msg_packet = msg_packet m, msg_payload = put_bytes Q (SerializeList Q xs) @ put_bytes Q nonce,
      msg_signature = msg_signature m, sq_agree_list = xs, sq_agree = SerializeList Q xs, sq_nonce = nonce\<rparr> = m"
    by (simp_all add: m(1) SetSignature_def mk_ServerQueued_def Let_def)
  show ?thesis
    using ok
    by (simp add: parse_ServerQueued_def parse_ServerAgree_def parse_signed_ok [OF assms(1) m] payload Let_def
        roundtrip_simps [OF assms(1)] made_packets(1) [OF assms(1) xs] eq)
qed

lemma parse_start_made:
  assumes "sqds_ok Q" and "msg_made Q (MServerStart m)"
  shows "parse_ServerStart Q (sr_packet m) = Inr m"
  using assms(2) made_packets(1) [OF assms(1)]
  by (auto simp: mk_ServerStart_def parse_ServerStart_def parse_ClientRegister_def Let_def
      roundtrip_simps [OF assms(1)])

lemma as_msg_Inr: "m = Inr x \<Longrightarrow> as_msg f m = Inr (f x)"
  by (simp add: as_msg_def)

lemmas parse_made = parse_init_made parse_enlist_made parse_stop_made parse_enlisted_made parse_list_made
  parse_queued_made parse_start_made parse_member_made

section \<open>A concrete instance\<close>

text \<open>A stream format that satisfies the laws: counts are written in unary.\<close>

definition put_un :: "nat \<Rightarrow> bytes" where
  "put_un n = replicate n 1 @ [0]"

definition get_un :: "bytes \<Rightarrow> nat \<times> bytes" where
  "get_un s = (let n = length (takeWhile ((=) 1) s) in (n, drop (Suc n) s))"

definition put_un_bytes :: "bytes \<Rightarrow> bytes" where
  "put_un_bytes d = put_un (length d) @ d"

definition get_un_bytes :: "bytes \<Rightarrow> bytes \<times> bytes" where
  "get_un_bytes s = (let (n, s) = get_un s in (take n s, drop n s))"

fun get_un_list :: "nat \<Rightarrow> bytes \<Rightarrow> bytes list \<times> bytes" where
  "get_un_list 0 s = ([], s)"
| "get_un_list (Suc n) s = (let (d, s) = get_un_bytes s; (ds, s) = get_un_list n s in (d # ds, s))"

definition demo_sqds :: sqds where
  "demo_sqds = qds.extend demo_qds \<lparr>
     put_int8 = (\<lambda>x. [x]), get_int8 = (\<lambda>s. if s = [] then (0, []) else (hd s, tl s)),
     put_int64 = (\<lambda>x. put_un (unat x)), get_int64 = (\<lambda>s. let (n, s) = get_un s in (of_nat n, s)),
     put_variant = (\<lambda>v. case v of VBytes d \<Rightarrow> 0 # put_un_bytes d | VOther d \<Rightarrow> 1 # put_un_bytes d),
     get_variant = (\<lambda>s. if s = [] then (VOther [], [])
        else let (d, r) = get_un_bytes (tl s) in (if hd s = 0 then VBytes d else VOther d, r)),
     put_string = (\<lambda>s. put_un_bytes (map (\<lambda>c. of_nat (of_char c)) s)),
     get_string = (\<lambda>s. let (d, s) = get_un_bytes s in (map (\<lambda>b. char_of (unat b)) d, s)),
     put_list = (\<lambda>ds. put_un (length ds) @ concat (map put_un_bytes ds)),
     get_list = (\<lambda>s. let (n, s) = get_un s in get_un_list n s),
     bytes_ok = (\<lambda>s. 4 \<le> length s \<and> unat (fst (demo_get_int s)) + 4 \<le> length s),
     load_key = (\<lambda>t p d. \<lparr>ak_type = t, ak_private = p, ak_bytes = d, ak_valid = d \<noteq> []\<rparr>)\<rparr>"

lemma get_put_un [simp]: "get_un (put_un n @ r) = (n, r)"
proof -
  have "takeWhile ((=) 1) (replicate n (1 :: byte) @ 0 # r) = replicate n 1" by (induction n) auto
  then show ?thesis by (simp add: get_un_def put_un_def)
qed

lemma get_put_un_bytes [simp]: "get_un_bytes (put_un_bytes d @ r) = (d, r)"
  by (simp add: get_un_bytes_def put_un_bytes_def)

lemma get_un_list_put [simp]: "get_un_list (length ds) (concat (map put_un_bytes ds) @ r) = (ds, r)"
  by (induction ds) auto

lemma char_of_of_char [simp]: "char_of (unat (of_nat (of_char c) :: byte)) = c"
  using nat_of_char_less_256 [of c] by (simp add: unsigned_of_nat take_bit_nat_eq_self)

lemma demo_sqds_ok: "sqds_ok demo_sqds"
proof -
  have "bytes_ok demo_sqds (put_bytes demo_sqds x @ r) \<and> get_bytes demo_sqds (put_bytes demo_sqds x @ r) = (x, r)"
    if "small x" for x r
    using unat_of_small [OF that] by (simp add: demo_sqds_def qds.extend_def demo_qds_def)
  then show ?thesis
    unfolding sqds_ok_def
    by (auto simp: demo_sqds_def qds.extend_def demo_qds_def comp_def split: variant.split)
qed

definition demo_key :: asym_key where
  "demo_key = \<lparr>ak_type = key_DSA, ak_private = False, ak_bytes = [7], ak_valid = True\<rparr>"

definition demo_registration :: "peer \<Rightarrow> client_register" where
  "demo_registration i = SetSignature demo_sqds mt_ClientRegister [9] (mk_ClientRegister demo_sqds i [1] demo_key (VBytes [3]))"

abbreviation demo_register :: client_register where
  "demo_register \<equiv> demo_registration 2"

lemma demo_id_ok: "i < 2 ^ 32 \<Longrightarrow> id_ok demo_sqds i"
  by (simp add: id_ok_def demo_sqds_def qds.extend_def demo_qds_def unsigned_of_nat take_bit_nat_eq_self)

lemma demo_key_ok: "key_ok demo_sqds demo_key"
  by (simp add: key_ok_def demo_key_def demo_sqds_def qds.extend_def demo_qds_def)

lemma demo_registration_simps [simp]:
  "mm_peer (demo_registration i) = i" "mm_round_id (demo_registration i) = [1]"
  "msg_signature (demo_registration i) = [9]" "mm_key (demo_registration i) = Some demo_key"
  by (simp_all add: demo_registration_def SetSignature_def mk_ClientRegister_def mk_member_def)

lemma demo_registration_made:
  assumes "i < 2 ^ 32"
  shows "member_made demo_sqds mt_ClientRegister (demo_registration i)"
proof -
  have "signed_ok (demo_registration i)"
    by (simp add: signed_ok_def demo_registration_def SetSignature_def mk_ClientRegister_def mk_member_def demo_sqds_def
        qds.extend_def demo_qds_def put_key_def put_un_bytes_def put_un_def demo_key_def)
  then show ?thesis
    using demo_id_ok [OF assms] demo_key_ok
    by (simp add: member_made_def mk_ClientRegister_def demo_registration_def)
      (rule exI [of _ i], rule exI [of _ "[1]"], rule exI [of _ demo_key], auto)
qed

lemma demo_registration_parses:
  assumes "i < 2 ^ 32"
  shows "ParseMessage (server_parsers demo_sqds) (msg_packet (demo_registration i)) = Inr (MClientRegister (demo_registration i))"
proof -
  have "ParseMessage (server_parsers demo_sqds) (msg_packet (demo_registration i))
      = as_msg MClientRegister (parse_ClientRegister demo_sqds (msg_packet (demo_registration i)))"
    by (rule ParseMessage_Cons [of _ mt_ClientRegister])
      (simp_all add: server_parsers_def mt_defs demo_registration_def signed_packet [OF demo_sqds_ok])
  then show ?thesis
    by (simp add: parse_ClientRegister_def as_msg_Inr parse_member_made [OF demo_sqds_ok demo_registration_made [OF assms]])
qed

section \<open>Properties\<close>

text \<open>
  C27.  Every message the session makes and signs is read back unchanged on the other side: the parser
  that the first byte selects, in the table of a server for the messages servers receive and in the
  table of a client for the messages clients receive, returns the message that was sent, nested
  messages and lists included.
\<close>

theorem messages_roundtrip:
  assumes "sqds_ok Q" and "msg_made Q m"
  shows "(GetMessageType m \<in> {0, 1, 2, 3, 5, 6, 7, 9, 127} \<longrightarrow> ParseMessage (server_parsers Q) (wire m) = Inr m)
    \<and> (GetMessageType m \<in> {4, 8, 9, 127} \<longrightarrow> ParseMessage (client_parsers Q) (wire m) = Inr m)"
proof -
  note parse = parse_made [OF assms(1)]
  have head: "\<exists>r. wire m = of_int (GetMessageType m) # r"
    using assms(2)
    by (cases m) (auto simp: signed_packet [OF assms(1)] mt_defs init_made_def enlist_made_def member_made_def stop_made_def
        mk_ServerVerifyList_def mk_ServerStart_def Let_def sqds_okD(5) [OF assms(1)])
  then have wire: "wire m \<noteq> []" "hd (wire m) = of_int (GetMessageType m)" by auto
  have verify: "parse_ServerVerifyList (sv_packet v) = Inr v" if "msg_made Q (MServerVerifyList v)" for v
    using that by (auto simp: parse_ServerVerifyList_def mk_ServerVerifyList_def)
  show ?thesis
    using assms(2) wire
    by (cases m) (simp_all add: ParseMessage_def server_parsers_def client_parsers_def mt_defs as_msg_Inr
        parse parse_ServerAgree_def parse_ClientRegister_def verify parse_SessionData_def
        del: msg_made.simps(3,5,7,8,9))
qed

theorem messages_roundtrip_witness:
  "ParseMessage (server_parsers demo_sqds) (msg_packet demo_register) = Inr (MClientRegister demo_register)"
  using messages_roundtrip [OF demo_sqds_ok, of "MClientRegister demo_register"]
    demo_registration_made [of 2] by simp

end
