(* ===== verification/SendQueue.thy ===== *)
theory SendQueue
  imports Prelude
begin

text \<open>
  The queue of outgoing application data, \<^verbatim>\<open>SessionSharedState::DataQueue\<close> in
  \<^verbatim>\<open>src/src/Session/SessionSharedState.hpp\<close> and \<^verbatim>\<open>.cpp\<close>.  A round asks for data through the callback
  \<^verbatim>\<open>GetData\<close>; the messages it was given are only removed by the next request, so that \<^verbatim>\<open>UnGet\<close> can
  put them back when the round fails.

  The locale \<open>send_buffer\<close> states what a round relies on, in terms of two lists: the messages
  handed out last and the messages still waiting.  \<open>DataQueue\<close> implements it.
\<close>

section \<open>Definitions\<close>

record data_queue =
  dq_queue :: "bytes list"
  dq_trim :: nat

definition DataQueue :: data_queue where
  "DataQueue = \<lparr>dq_queue = [], dq_trim = 0\<rparr>"

definition AddData :: "bytes \<Rightarrow> data_queue \<Rightarrow> data_queue" where
  "AddData data q = q\<lparr>dq_queue := dq_queue q @ [data]\<rparr>"

definition UnGet :: "data_queue \<Rightarrow> data_queue" where
  "UnGet q = q\<lparr>dq_trim := 0\<rparr>"

text \<open>
  The loop of \<^verbatim>\<open>GetData\<close> over the messages from index \<open>idx\<close> on: a message longer than \<open>limit\<close> is
  skipped, the first one that does not fit behind the data gathered so far ends the loop.
\<close>

fun gather :: "int \<Rightarrow> bytes list \<Rightarrow> nat \<Rightarrow> bytes \<Rightarrow> nat \<times> bytes" where
  "gather limit [] idx data = (idx, data)"
| "gather limit (m # ms) idx data =
     (if limit < int (length m) then gather limit ms (Suc idx) data
      else if limit < int (length data) + int (length m) then (idx, data)
      else gather limit ms (Suc idx) (data @ m))"

definition GetData :: "int \<Rightarrow> data_queue \<Rightarrow> (bytes \<times> bool) \<times> data_queue" where
  "GetData limit q =
     (let queue = (if 0 < dq_trim q then drop (dq_trim q) (dq_queue q) else dq_queue q);
          (idx, data) = gather limit queue 0 []
      in ((data, length queue \<noteq> idx), q\<lparr>dq_queue := queue, dq_trim := idx\<rparr>))"

section \<open>The contract\<close>

text \<open>
  What one request may take: a first part of the waiting messages, at least one if there is any,
  whose messages that fit into \<open>limit\<close> make up the data; the message behind it would not fit.
\<close>

definition fits :: "int \<Rightarrow> bytes \<Rightarrow> bool" where
  "fits limit m \<longleftrightarrow> int (length m) \<le> limit"

lemma fits_simps: "fits limit m \<longleftrightarrow> \<not> limit < int (length m)"
  by (auto simp: fits_def)

definition takes :: "int \<Rightarrow> bytes list \<Rightarrow> bytes list \<Rightarrow> bytes list \<Rightarrow> bytes \<Rightarrow> bool" where
  "takes limit waiting handed rest data \<longleftrightarrow>
     waiting = handed @ rest \<and> data = concat (filter (fits limit) handed)
     \<and> (waiting \<noteq> [] \<longrightarrow> handed \<noteq> [])
     \<and> (0 \<le> limit \<longrightarrow> int (length data) \<le> limit)
     \<and> (\<forall>m ms. rest = m # ms \<longrightarrow> fits limit m \<and> limit < int (length data) + int (length m))"

locale send_buffer =
  fixes add :: "bytes \<Rightarrow> 'q \<Rightarrow> 'q"
    and get :: "int \<Rightarrow> 'q \<Rightarrow> (bytes \<times> bool) \<times> 'q"
    and unget :: "'q \<Rightarrow> 'q"
    and out :: "'q \<Rightarrow> bytes list" and waiting :: "'q \<Rightarrow> bytes list"
    and wf :: "'q \<Rightarrow> bool"
  assumes get_takes: "wf q \<Longrightarrow> get limit q = ((data, left), q') \<Longrightarrow>
      takes limit (waiting q) (out q') (waiting q') data \<and> (left \<longleftrightarrow> waiting q' \<noteq> []) \<and> wf q'"
    and unget_back: "wf q \<Longrightarrow> waiting (unget q) = out q @ waiting q \<and> out (unget q) = [] \<and> wf (unget q)"
    and add_last: "wf q \<Longrightarrow> waiting (add d q) = waiting q @ [d] \<and> out (add d q) = out q \<and> wf (add d q)"
begin

fun drain :: "nat \<Rightarrow> int \<Rightarrow> 'q \<Rightarrow> bytes list \<times> 'q" where
  "drain 0 limit q = ([], q)"
| "drain (Suc n) limit q =
     (let ((data, left), q) = get limit q; (rest, q) = drain n limit q in (data # rest, q))"

lemma drain_all:
  assumes "wf q" and "length (waiting q) \<le> n" and "drain n limit q = (ds, q')"
  shows "concat ds = concat (filter (fits limit) (waiting q)) \<and> waiting q' = []"
  using assms
proof (induction n arbitrary: q ds)
  case 0
  then show ?case by simp
next
  case (Suc n)
  obtain data left q1 where g: "get limit q = ((data, left), q1)" by (metis prod.collapse)
  obtain rest q2 where d: "drain n limit q1 = (rest, q2)" by fastforce
  note law = get_takes [OF Suc.prems(1) g]
  from law have split: "waiting q = out q1 @ waiting q1" "data = concat (filter (fits limit) (out q1))"
    by (simp_all add: takes_def)
  have "length (waiting q1) \<le> n"
    using law Suc.prems(2) split(1) by (cases "out q1") (auto simp: takes_def)
  with Suc.IH [of q1 rest] law d Suc.prems(3) g have "concat rest = concat (filter (fits limit) (waiting q1)) \<and> waiting q2 = []" by simp
  with Suc.prems(3) g d split show ?case by auto
qed

lemma retry:
  assumes "wf q" and "get limit q = ((data, left), q')"
  shows "waiting (unget q') = waiting q"
  using get_takes [OF assms] unget_back [of q'] by (simp add: takes_def)

end

section \<open>The implementation\<close>

lemma gather_takes:
  assumes "gather limit ms k d = (idx, data)" and "0 \<le> limit \<longrightarrow> int (length d) \<le> limit"
  shows "\<exists>n. idx = k + n \<and> n \<le> length ms \<and> data = d @ concat (filter (fits limit) (take n ms))
    \<and> (d = [] \<longrightarrow> ms \<noteq> [] \<longrightarrow> 0 < n) \<and> (0 \<le> limit \<longrightarrow> int (length data) \<le> limit)
    \<and> (n < length ms \<longrightarrow> fits limit (ms ! n) \<and> limit < int (length data) + int (length (ms ! n)))"
  using assms
proof (induction limit ms k d rule: gather.induct)
  case (1 limit idx' d)
  then show ?case by simp
next
  case (2 limit m ms k d)
  consider (skip) "limit < int (length m)" | (full) "\<not> limit < int (length m)" "limit < int (length d) + int (length m)"
    | (room) "\<not> limit < int (length m)" "\<not> limit < int (length d) + int (length m)" by blast
  then show ?case
  proof cases
    case skip
    with 2 obtain n where "idx = Suc k + n \<and> n \<le> length ms \<and> data = d @ concat (filter (fits limit) (take n ms))
      \<and> (0 \<le> limit \<longrightarrow> int (length data) \<le> limit)
      \<and> (n < length ms \<longrightarrow> fits limit (ms ! n) \<and> limit < int (length data) + int (length (ms ! n)))" by auto
    with skip show ?thesis by (intro exI [of _ "Suc n"]) (auto simp: fits_simps [of _ m])
  next
    case full
    with 2 show ?thesis by (intro exI [of _ 0]) (auto simp: fits_simps [of _ m])
  next
    case room
    with 2 obtain n where "idx = Suc k + n \<and> n \<le> length ms
      \<and> data = (d @ m) @ concat (filter (fits limit) (take n ms))
      \<and> (0 \<le> limit \<longrightarrow> int (length data) \<le> limit)
      \<and> (n < length ms \<longrightarrow> fits limit (ms ! n) \<and> limit < int (length data) + int (length (ms ! n)))" by auto
    with room show ?thesis by (intro exI [of _ "Suc n"]) (auto simp: fits_simps [of _ m])
  qed
qed

definition dq_out :: "data_queue \<Rightarrow> bytes list" where
  "dq_out q = take (dq_trim q) (dq_queue q)"

definition dq_waiting :: "data_queue \<Rightarrow> bytes list" where
  "dq_waiting q = drop (dq_trim q) (dq_queue q)"

definition dq_wf :: "data_queue \<Rightarrow> bool" where
  "dq_wf q \<longleftrightarrow> dq_trim q \<le> length (dq_queue q)"

lemmas dq_defs = dq_out_def dq_waiting_def dq_wf_def

lemma GetData_takes:
  assumes "GetData limit q = ((data, left), q')"
  shows "takes limit (dq_waiting q) (dq_out q') (dq_waiting q') data
    \<and> (left \<longleftrightarrow> dq_waiting q' \<noteq> []) \<and> dq_wf q'"
proof -
  let ?w = "dq_waiting q"
  have w: "(if 0 < dq_trim q then drop (dq_trim q) (dq_queue q) else dq_queue q) = ?w"
    by (simp add: dq_waiting_def)
  obtain idx d where g: "gather limit ?w 0 [] = (idx, d)" by fastforce
  from assms g have q': "data = d" "left \<longleftrightarrow> length ?w \<noteq> idx" "q' = q\<lparr>dq_queue := ?w, dq_trim := idx\<rparr>"
    by (auto simp: GetData_def w Let_def)
  from gather_takes [OF g] have n: "idx \<le> length ?w" "d = concat (filter (fits limit) (take idx ?w))"
    "?w \<noteq> [] \<longrightarrow> 0 < idx" "0 \<le> limit \<longrightarrow> int (length d) \<le> limit"
    "idx < length ?w \<longrightarrow> fits limit (?w ! idx) \<and> limit < int (length d) + int (length (?w ! idx))" by auto
  have "fits limit m \<and> limit < int (length d) + int (length m)" if "drop idx ?w = m # ms" for m ms
  proof -
    have "idx < length ?w" using that by (metis drop_all list.distinct(1) not_le_imp_less)
    moreover from this that have "?w ! idx = m" by (metis Cons_nth_drop_Suc list.inject)
    ultimately show ?thesis using n(5) by simp
  qed
  moreover have "dq_out q' = take idx ?w" "dq_waiting q' = drop idx ?w" "dq_wf q' \<longleftrightarrow> idx \<le> length ?w"
    by (simp_all add: q' dq_out_def dq_waiting_def [of "q\<lparr>dq_queue := _, dq_trim := _\<rparr>"] dq_wf_def)
  ultimately show ?thesis using n q'(1,2) by (auto simp: takes_def)
qed

interpretation dq: send_buffer AddData GetData UnGet dq_out dq_waiting dq_wf
proof
  show "takes limit (dq_waiting q) (dq_out q') (dq_waiting q') data \<and> (left \<longleftrightarrow> dq_waiting q' \<noteq> []) \<and> dq_wf q'"
    if "GetData limit q = ((data, left), q')" for limit q data left q'
    using that by (rule GetData_takes)
qed (auto simp: UnGet_def AddData_def dq_defs)

section \<open>Properties\<close>

text \<open>
  C21.  The send queue implements its contract: a request takes a first part of the waiting messages,
  returns the ones among them that fit into \<open>limit\<close> bytes, never returns left than \<open>limit\<close> bytes, stops only
  before a message that does not fit behind the others, and says whether messages remain; when the
  round fails, \<^verbatim>\<open>UnGet\<close> puts back exactly what was handed out, in front; new data goes to the end.
\<close>

theorem send_queue_refines:
  assumes "dq_wf q" and "GetData limit q = ((data, left), q')"
  shows "takes limit (dq_waiting q) (dq_out q') (dq_waiting q') data
    \<and> (left \<longleftrightarrow> dq_waiting q' \<noteq> [])
    \<and> dq_waiting (UnGet q') = dq_waiting q
    \<and> dq_waiting (AddData d q') = dq_waiting q' @ [d]"
  using dq.get_takes [OF assms] dq.retry [OF assms] dq.add_last [of q' d] by auto

theorem send_queue_refines_witness:
  "takes 3 [[1, 2], [1, 1, 1, 1], [5]] [[1, 2], [1, 1, 1, 1], [5]] [] [1, 2, 5 :: byte]"
  using send_queue_refines [of "\<lparr>dq_queue = [[1, 2], [1, 1, 1, 1], [5]], dq_trim = 0\<rparr>" 3 _ False _ "[]"]
  by (simp add: GetData_def dq_defs)

text \<open>
  C29.  No message that fits is lost or reordered, and none waits for ever: as many requests as there
  are waiting messages return, one after the other, all messages of at most \<open>limit\<close> bytes in their order,
  and leave the queue empty.
\<close>

theorem send_queue_drains:
  assumes "dq_wf q" and "length (dq_waiting q) \<le> n"
  shows "concat (fst (dq.drain n limit q)) = concat (filter (fits limit) (dq_waiting q))
    \<and> dq_waiting (snd (dq.drain n limit q)) = []"
  by (cases "dq.drain n limit q") (use dq.drain_all [OF assms] in auto)

theorem send_queue_drains_witness:
  "concat (fst (dq.drain 3 2 \<lparr>dq_queue = [[1], [2, 2], [3, 3, 3]], dq_trim = 0\<rparr>)) = [1, 2, 2 :: byte]"
  using send_queue_drains [of "\<lparr>dq_queue = [[1], [2, 2], [3, 3, 3]], dq_trim = 0\<rparr>" 3 2]
  by (simp add: dq_defs fits_def)

end
