(* ===== verification/SessionShared.thy ===== *)
theory SessionShared
  imports MessageStateMachine SessionMessages SendQueue Roster
begin

text \<open>
  The state that servers and clients of a session share, \<^verbatim>\<open>src/src/Session/SessionSharedState.cpp\<close>, and
  how a session uses the overlay and the round.

  The record \<open>sess_config\<close> holds what is fixed for a node, and the parameters of the model: the key
  lookup by id, the signature scheme, the hash, the random values a node draws (indexed by a
  counter), the clock, and the round, whose creation is a function pointer in the program.
  \<open>ss_sent\<close> collects what is sent to other nodes, \<open>ss_cons\<close> is the list of remote ids in the connection
  table.
\<close>

section \<open>Definitions\<close>

record 'r round_ops =
  ro_create :: "roster \<Rightarrow> roster \<Rightarrow> peer \<Rightarrow> asym_key option \<Rightarrow> bytes \<Rightarrow> bytes \<Rightarrow> 'r"
  ro_start :: "'r \<Rightarrow> data_queue \<Rightarrow> fault + ('r \<times> data_queue \<times> bool)"
  ro_packet :: "peer \<Rightarrow> bytes \<Rightarrow> 'r \<Rightarrow> data_queue \<Rightarrow> fault + ('r \<times> data_queue \<times> bool)"
  ro_disconnect :: "peer \<Rightarrow> 'r \<Rightarrow> data_queue \<Rightarrow> fault + ('r \<times> data_queue \<times> bool)"
  ro_stop :: "'r \<Rightarrow> data_queue \<Rightarrow> fault + ('r \<times> data_queue \<times> bool)"
  ro_interrupt :: "'r \<Rightarrow> 'r"
  ro_successful :: "'r \<Rightarrow> bool"

record 'r sess_config =
  cf_qds :: sqds
  cf_id :: peer
  cf_servers :: "peer list"
  cf_key :: "peer \<Rightarrow> asym_key option"
  cf_verify :: "asym_key \<Rightarrow> bytes \<Rightarrow> bytes \<Rightarrow> bool"
  cf_sign :: "bytes \<Rightarrow> bytes"
  cf_hash :: "bytes \<Rightarrow> bytes"
  cf_new_key :: "nat \<Rightarrow> asym_key"
  cf_public :: "asym_key \<Rightarrow> asym_key"
  cf_new_dh :: "nat \<Rightarrow> bytes \<times> bytes"
  cf_nonce :: "nat \<Rightarrow> bytes"
  cf_time :: "nat \<Rightarrow> 64 word"
  cf_variant :: "bytes \<Rightarrow> bytes"
  cf_round :: "'r round_ops"

text \<open>A \<^verbatim>\<open>SessionData\<close> notification to a node, or a broadcast over the connection to a node.\<close>

datatype destination = ToPeer peer | Flood peer

record 'r shared_state =
  ss_cons :: "peer list"
  ss_sent :: "(destination \<times> bytes) list"
  ss_draws :: nat
  ss_stopped :: bool
  m_ephemeral_key :: "asym_key option"
  m_optional_public :: variant
  m_optional_private :: variant
  m_round :: "'r option"
  m_round_id :: bytes
  m_server_list :: "server_agree list"
  m_server_bytes :: bytes
  m_client_list :: "client_register list"
  m_last :: bytes
  m_send_queue :: data_queue

text \<open>A check passes with a value, throws a \<^verbatim>\<open>QRunTimeError\<close>, or uses a null pointer.\<close>

datatype 'a check = Passes 'a | Throws | Faults fault

fun bindC :: "'a check \<Rightarrow> ('a \<Rightarrow> 'b check) \<Rightarrow> 'b check" where
  "bindC (Passes x) f = f x"
| "bindC Throws f = Throws"
| "bindC (Faults e) f = Faults e"

definition demand :: "bool \<Rightarrow> unit check" where
  "demand b = (if b then Passes () else Throws)"

fun check_all :: "('a \<Rightarrow> unit check) \<Rightarrow> 'a list \<Rightarrow> unit check" where
  "check_all f [] = Passes ()"
| "check_all f (x # xs) = bindC (f x) (\<lambda>_. check_all f xs)"

text \<open>A handler that has to pass a check before it goes on; the exception leaves the state as it is.\<close>

fun checked :: "'a check \<Rightarrow> 'd \<Rightarrow> ('a \<Rightarrow> ('d, 'm) outcome) \<Rightarrow> ('d, 'm) outcome" where
  "checked (Passes x) d f = f x"
| "checked Throws d f = Raise d"
| "checked (Faults e) d f = Abort e"

definition mk_outcome :: "'d \<Rightarrow> (sender \<times> 'm) list \<Rightarrow> process_result option \<Rightarrow> ('d, 'm) outcome" where
  "mk_outcome d msgs res =
     (if msgs \<noteq> [] then Loopback d msgs res else case res of None \<Rightarrow> Raise d | Some pr \<Rightarrow> Ret d pr)"

section \<open>The overlay\<close>

definition IsServer :: "'r sess_config \<Rightarrow> peer \<Rightarrow> bool" where
  "IsServer cf i \<longleftrightarrow> i \<in> set (cf_servers cf)"

text \<open>\<^verbatim>\<open>GetServerIds().first()\<close>.\<close>

definition GetProposer :: "'r sess_config \<Rightarrow> peer check" where
  "GetProposer cf = (case cf_servers cf of [] \<Rightarrow> Faults OutOfBounds | i # _ \<Rightarrow> Passes i)"

definition SendNotification :: "'r sess_config \<Rightarrow> peer \<Rightarrow> bytes \<Rightarrow> ('r, 'x) shared_state_scheme \<Rightarrow> ('r, 'x) shared_state_scheme" where
  "SendNotification cf to packet d =
     (if to = cf_id cf then d else d\<lparr>ss_sent := ss_sent d @ [(ToPeer to, packet)]\<rparr>)"

definition notify_all :: "'r sess_config \<Rightarrow> peer list \<Rightarrow> bytes \<Rightarrow> ('r, 'x) shared_state_scheme \<Rightarrow> ('r, 'x) shared_state_scheme" where
  "notify_all cf ids packet = fold (\<lambda>i. SendNotification cf i packet) ids"

text \<open>
  \<^verbatim>\<open>Overlay::Broadcast\<close> sends a \<^verbatim>\<open>CS::Broadcast\<close> notification over every connection; the receivers pass it on.
\<close>

definition Broadcast :: "'r sess_config \<Rightarrow> bytes \<Rightarrow> ('r, 'x) shared_state_scheme \<Rightarrow> ('r, 'x) shared_state_scheme" where
  "Broadcast cf packet d =
     d\<lparr>ss_sent := ss_sent d @ map (\<lambda>i. (Flood i, packet)) (filter (\<lambda>i. i \<noteq> cf_id cf) (ss_cons d))\<rparr>"

definition BroadcastToServers :: "'r sess_config \<Rightarrow> bytes \<Rightarrow> ('r, 'x) shared_state_scheme \<Rightarrow> ('r, 'x) shared_state_scheme" where
  "BroadcastToServers cf = notify_all cf (cf_servers cf)"

text \<open>The messages that go to the node itself when a packet is sent to \<open>ids\<close>.\<close>

definition to_self :: "'r sess_config \<Rightarrow> peer list \<Rightarrow> session_msg \<Rightarrow> (sender \<times> session_msg) list" where
  "to_self cf ids msg = map (\<lambda>i. (Some i, msg)) (filter ((=) (cf_id cf)) ids)"

section \<open>Keys and checks\<close>

text \<open>\<^verbatim>\<open>GetKeyShare()->GetKey(id)->Verify(payload, signature)\<close>; the key of an unknown id is null.\<close>

definition verify_by :: "'r sess_config \<Rightarrow> peer \<Rightarrow> bytes \<Rightarrow> bytes \<Rightarrow> bool check" where
  "verify_by cf i payload signature =
     (case cf_key cf i of None \<Rightarrow> Faults NullPointer | Some key \<Rightarrow> Passes (cf_verify cf key payload signature))"

definition demand_signature :: "'r sess_config \<Rightarrow> peer \<Rightarrow> 'a signed_msg_scheme \<Rightarrow> unit check" where
  "demand_signature cf i m = bindC (verify_by cf i (msg_payload m) (msg_signature m)) demand"

definition demand_valid :: "asym_key option \<Rightarrow> unit check" where
  "demand_valid key = (case key of None \<Rightarrow> Faults NullPointer | Some k \<Rightarrow> demand (ak_valid k))"

definition GenerateRoundData :: "'r sess_config \<Rightarrow> ('r, 'x) shared_state_scheme \<Rightarrow> ('r, 'x) shared_state_scheme" where
  "GenerateRoundData cf d =
     (let n = ss_draws d; (pub, priv) = cf_new_dh cf n
      in d\<lparr>ss_draws := Suc n, m_ephemeral_key := Some (cf_new_key cf n),
           m_optional_public := VBytes pub, m_optional_private := VBytes priv\<rparr>)"

definition SetServers :: "'r sess_config \<Rightarrow> server_agree list \<Rightarrow> ('r, 'x) shared_state_scheme \<Rightarrow> ('r, 'x) shared_state_scheme" where
  "SetServers cf servers d =
     d\<lparr>m_server_list := servers, m_server_bytes := SerializeList (cf_qds cf) servers\<rparr>"

definition CheckServerAgree :: "'r sess_config \<Rightarrow> server_agree \<Rightarrow> bytes \<Rightarrow> unit check" where
  "CheckServerAgree cf agree round_id =
     bindC (demand (mm_round_id agree = round_id)) (\<lambda>_.
     bindC (demand_signature cf (mm_peer agree) agree) (\<lambda>_.
     demand_valid (mm_key agree)))"

definition CheckServerStop :: "'r sess_config \<Rightarrow> ('r, 'x) shared_state_scheme \<Rightarrow> server_stop \<Rightarrow> bool check" where
  "CheckServerStop cf d stop =
     bindC (demand (st_round_id stop \<noteq> [])) (\<lambda>_.
     bindC (demand_signature cf (st_peer stop) stop) (\<lambda>_.
     bindC (demand (m_round_id d = st_round_id stop)) (\<lambda>_.
     Passes (st_immediate stop))))"

text \<open>
  \<^verbatim>\<open>CheckServerStop\<close> is virtual, so it is an argument here.  The proposer passes the message on; it
  gets its own broadcast back.
\<close>

definition DefaultHandleServerStop ::
    "(('r, 'x) shared_state_scheme \<Rightarrow> server_stop \<Rightarrow> bool check) \<Rightarrow> 'r sess_config \<Rightarrow> sender \<Rightarrow> session_msg
       \<Rightarrow> ('r, 'x) shared_state_scheme \<Rightarrow> (('r, 'x) shared_state_scheme, session_msg) outcome" where
  "DefaultHandleServerStop check_stop cf from msg d =
     (case msg of
        MServerStop stop \<Rightarrow>
          let hashvalue = cf_hash cf (msg_packet stop)
          in if hashvalue = m_last d then Ret d NoChange
             else let d = d\<lparr>m_last := hashvalue\<rparr>
               in checked (check_stop d stop) d (\<lambda>_.
                  checked (GetProposer cf) d (\<lambda>proposer.
                    if proposer = cf_id cf then
                      (if m_round_id d = st_round_id stop
                       then mk_outcome (Broadcast cf (msg_packet stop) d) (to_self cf (ss_cons d) msg) (Some Restart)
                       else mk_outcome (BroadcastToServers cf (msg_packet stop) d) (to_self cf (cf_servers cf) msg) (Some Restart))
                    else Ret d Restart))
      | _ \<Rightarrow> Abort NullPointer)"

section \<open>The round\<close>

definition toByteArray :: "'r sess_config \<Rightarrow> variant \<Rightarrow> bytes" where
  "toByteArray cf v = (case v of VBytes b \<Rightarrow> b | VOther b \<Rightarrow> cf_variant cf b)"

definition identity_of :: "'r sess_config \<Rightarrow> member_msg \<Rightarrow> pub_identity" where
  "identity_of cf m =
     \<lparr>pi_id = mm_peer m, pi_key = (case mm_key m of None \<Rightarrow> [] | Some k \<Rightarrow> ak_bytes k),
      pi_dh = toByteArray cf (mm_optional m)\<rparr>"

definition NextRound :: "'r sess_config \<Rightarrow> ('r, 'x) shared_state_scheme \<Rightarrow> ('r, 'x) shared_state_scheme" where
  "NextRound cf d =
     d\<lparr>m_round := Some (ro_create (cf_round cf)
         (mk_roster (map (identity_of cf) (m_client_list d)))
         (mk_roster (map (identity_of cf) (m_server_list d)))
         (cf_id cf) (m_ephemeral_key d) (toByteArray cf (m_optional_private d)) (m_round_id d))\<rparr>"

definition RoundFinished :: "'r sess_config \<Rightarrow> 'r \<Rightarrow> ('r, 'x) shared_state_scheme \<Rightarrow> ('r, 'x) shared_state_scheme" where
  "RoundFinished cf r d =
     (if \<not> ro_successful (cf_round cf) r then d\<lparr>m_send_queue := UnGet (m_send_queue d)\<rparr> else d)"

text \<open>
  \<^verbatim>\<open>Session::HandleRoundFinishedSlot\<close> for the current round: unless the session has been stopped, it
  completes the state.
\<close>

definition HandleRoundFinished ::
    "'r sess_config \<Rightarrow> 'r \<Rightarrow> ('r, 'x) shared_state_scheme \<Rightarrow> ('r, 'x) shared_state_scheme \<times> process_result" where
  "HandleRoundFinished cf r d = (RoundFinished cf r d, if ss_stopped d then NoChange else NextState)"

text \<open>
  A call into the round.  When the round ends during the call, its signal is handled inside the
  call, which is the last thing the calling method does before it returns \<open>NoChange\<close>: completing the
  state there is the same as returning \<open>NextState\<close>.
\<close>

definition call_round ::
    "'r sess_config \<Rightarrow> ('r \<Rightarrow> data_queue \<Rightarrow> fault + ('r \<times> data_queue \<times> bool)) \<Rightarrow> ('r, 'x) shared_state_scheme
       \<Rightarrow> (('r, 'x) shared_state_scheme, session_msg) outcome" where
  "call_round cf f d =
     (case m_round d of None \<Rightarrow> Abort NullPointer
      | Some r \<Rightarrow>
          (case f r (m_send_queue d) of Inl e \<Rightarrow> Abort e
           | Inr (r, q, finished) \<Rightarrow>
               let d = d\<lparr>m_round := Some r, m_send_queue := q\<rparr>
               in if finished then (let (d, pr) = HandleRoundFinished cf r d in Ret d pr) else Ret d NoChange))"

section \<open>Lemmas\<close>

lemma bindC_Passes [simp]: "bindC c f = Passes y \<longleftrightarrow> (\<exists>x. c = Passes x \<and> f x = Passes y)"
  by (cases c) auto

lemma demand_Passes [simp]: "demand b = Passes u \<longleftrightarrow> b"
  by (simp add: demand_def)

lemma check_all_Passes [simp]: "check_all f xs = Passes () \<longleftrightarrow> (\<forall>x \<in> set xs. f x = Passes ())"
  by (induction xs) (auto simp: ex_neg_all_pos)

text \<open>A signature of \<open>i\<close> that this node accepts.\<close>

definition signed_by :: "'r sess_config \<Rightarrow> peer \<Rightarrow> bytes \<Rightarrow> bytes \<Rightarrow> bool" where
  "signed_by cf i payload signature \<longleftrightarrow> (\<exists>key. cf_key cf i = Some key \<and> cf_verify cf key payload signature)"

lemma verify_by_Passes: "verify_by cf i p s = Passes b \<longleftrightarrow> cf_key cf i \<noteq> None \<and> b = signed_by cf i p s"
  by (auto simp: verify_by_def signed_by_def split: option.split)

lemma demand_signature_Passes [simp]:
  "demand_signature cf i m = Passes u \<longleftrightarrow> signed_by cf i (msg_payload m) (msg_signature m)"
  by (auto simp: demand_signature_def verify_by_Passes) (auto simp: signed_by_def)

lemma demand_valid_Passes [simp]: "demand_valid key = Passes u \<longleftrightarrow> (\<exists>k. key = Some k \<and> ak_valid k)"
  by (auto simp: demand_valid_def split: option.split)

lemma CheckServerAgree_Passes:
  "CheckServerAgree cf agree round_id = Passes u \<longleftrightarrow>
     mm_round_id agree = round_id \<and> signed_by cf (mm_peer agree) (msg_payload agree) (msg_signature agree)
     \<and> (\<exists>k. mm_key agree = Some k \<and> ak_valid k)"
  by (auto simp: CheckServerAgree_def)

text \<open>Sending changes nothing but the record of what was sent.\<close>

lemma SendNotification_more:
  "SendNotification cf to packet d = d\<lparr>ss_sent := ss_sent d @ (if to = cf_id cf then [] else [(ToPeer to, packet)])\<rparr>"
  by (simp add: SendNotification_def)

lemma notify_all_sent:
  "notify_all cf ids packet d = d\<lparr>ss_sent := ss_sent d @ map (\<lambda>i. (ToPeer i, packet)) (filter (\<lambda>i. i \<noteq> cf_id cf) ids)\<rparr>"
  by (induction ids arbitrary: d) (simp_all add: notify_all_def SendNotification_def)

lemmas sends = SendNotification_more notify_all_sent Broadcast_def BroadcastToServers_def

lemma to_self_in: "x \<in> set (to_self cf ids msg) \<Longrightarrow> x = (Some (cf_id cf), msg)"
  by (auto simp: to_self_def)

text \<open>The contract of a state, for a handler that is put together from checks and messages.\<close>

lemma ok_checked:
  "I s d \<Longrightarrow> (\<And>x. c = Passes x \<Longrightarrow> outcome_ok C I N st s (f x)) \<Longrightarrow> outcome_ok C I N st s (checked c d f)"
  by (cases c) auto

lemma ok_mk_stay: "I s d \<Longrightarrow> outcome_ok C I N st s (mk_outcome d msgs (Some NoChange))"
  by (simp add: mk_outcome_def)

lemma ok_mk_quiet:
  "result_ok C I N s d res \<Longrightarrow> (\<And>x. x \<in> set msgs \<Longrightarrow> quiet C st d x) \<Longrightarrow> outcome_ok C I N st s (mk_outcome d msgs res)"
  by (cases res) (auto simp: mk_outcome_def list_all_iff)

end
