(* ===== verification/ServerSession.thy ===== *)
theory ServerSession
  imports SessionShared
begin

text \<open>
  The session of a server, \<^verbatim>\<open>src/src/Session/ServerSession.cpp\<close>.

  \<open>server_state\<close> is \<^verbatim>\<open>ServerSessionSharedState\<close> together with the member variables of the state
  objects (\<open>l_\<close>).  The definitions follow the states in the order of the file; \<open>X_Init\<close>,
  \<open>X_ProcessPacket\<close> and so on are the methods of the class \<^verbatim>\<open>XState\<close>.
\<close>

section \<open>State\<close>

record 'r server_state = "'r shared_state" +
  m_init :: "server_init option"
  m_enlist_msgs :: "(peer, server_enlist) qmap"
  m_agree_msgs :: "(peer, server_agree) qmap"
  m_agree :: bytes
  m_registered_msgs :: "(peer, client_register) qmap"
  m_verify :: "(peer, bytes) qmap"
  l_enlist_msgs :: "(peer, server_enlist) qmap"
  l_agree_msgs :: "(peer, server_agree) qmap"
  l_registered_msgs :: "(peer, client_register) qmap"
  l_list_received :: "(peer, bool) qmap"
  l_verify :: "(peer, bytes) qmap"
  l_registered :: bytes

type_synonym 'r srv_outcome = "('r server_state, session_msg) outcome"

definition st_Offline :: int where "st_Offline = 0"
definition st_WaitingForServers :: int where "st_WaitingForServers = 1"
definition st_Init :: int where "st_Init = 2"
definition st_Enlist :: int where "st_Enlist = 3"
definition st_Agree :: int where "st_Agree = 4"
definition st_WaitingForServer :: int where "st_WaitingForServer = 5"
definition st_Queuing :: int where "st_Queuing = 6"
definition st_Registering :: int where "st_Registering = 7"
definition st_ListExchange :: int where "st_ListExchange = 8"
definition st_VerifyList :: int where "st_VerifyList = 9"
definition st_Communicating :: int where "st_Communicating = 10"

lemmas st_defs = st_Offline_def st_WaitingForServers_def st_Init_def st_Enlist_def st_Agree_def
  st_WaitingForServer_def st_Queuing_def st_Registering_def st_ListExchange_def st_VerifyList_def
  st_Communicating_def

definition qmap_vals :: "('k, 'v) qmap \<Rightarrow> 'v list" where
  "qmap_vals m = map snd m"

section \<open>Checks of the shared state\<close>

definition CheckClientRegister :: "'r sess_config \<Rightarrow> 'r server_state \<Rightarrow> client_register \<Rightarrow> unit check" where
  "CheckClientRegister cf d clr =
     bindC (demand (mm_round_id clr = m_round_id d)) (\<lambda>_.
     bindC (demand_signature cf (mm_peer clr) clr) (\<lambda>_.
     demand_valid (mm_key clr)))"

definition Reset :: "'r server_state \<Rightarrow> 'r server_state" where
  "Reset d = d\<lparr>m_init := None, m_enlist_msgs := [], m_agree_msgs := [], m_agree := [],
     m_registered_msgs := [], m_verify := [], m_round_id := []\<rparr>"

text \<open>The id under which a stop is announced: the nonce of the init while there is no round id.\<close>

definition stop_id :: "'r server_state \<Rightarrow> bytes check" where
  "stop_id d = (if m_round_id d \<noteq> [] then Passes (m_round_id d)
     else case m_init d of None \<Rightarrow> Faults NullPointer | Some init \<Rightarrow> Passes (si_nonce init))"

definition DefaultHandleDisconnection :: "'r sess_config \<Rightarrow> (peer \<Rightarrow> string) \<Rightarrow> peer \<Rightarrow> 'r server_state \<Rightarrow> 'r srv_outcome" where
  "DefaultHandleDisconnection cf reason i d =
     (if IsServer cf i then
        checked (stop_id d) d (\<lambda>round_id.
          let stop = mk_ServerStop (cf_qds cf) (cf_id cf) round_id True (reason i);
              stop = SetSignature (cf_qds cf) mt_ServerStop (cf_sign cf (msg_payload stop)) stop
          in mk_outcome (Broadcast cf (msg_packet stop) d) (to_self cf (ss_cons d) (MServerStop stop)) (Some NoChange))
      else Ret d NoChange)"

definition srv_CheckServerStop :: "'r sess_config \<Rightarrow> 'r server_state \<Rightarrow> server_stop \<Rightarrow> bool check" where
  "srv_CheckServerStop cf d stop =
     bindC (demand (st_round_id stop \<noteq> [])) (\<lambda>_.
     bindC (demand_signature cf (st_peer stop) stop) (\<lambda>_.
     bindC (stop_id d) (\<lambda>_.
     bindC (demand (\<not> (m_round_id d \<noteq> st_round_id stop
              \<and> (case m_init d of None \<Rightarrow> False | Some init \<Rightarrow> si_nonce init \<noteq> st_round_id stop)))) (\<lambda>_.
     Passes (st_immediate stop)))))"

definition srv_stop :: "'r sess_config \<Rightarrow> sender \<Rightarrow> session_msg \<Rightarrow> 'r server_state \<Rightarrow> 'r srv_outcome" where
  "srv_stop cf = DefaultHandleServerStop (srv_CheckServerStop cf) cf"

definition store :: "sender \<Rightarrow> session_msg \<Rightarrow> 'd \<Rightarrow> ('d, session_msg) outcome" where
  "store from msg d = Ret d StoreMessage"

section \<open>Waiting for the servers\<close>

definition CheckServers :: "'r sess_config \<Rightarrow> 'r server_state \<Rightarrow> bool" where
  "CheckServers cf d \<longleftrightarrow> length (filter (IsServer cf) (ss_cons d)) = length (cf_servers cf)"

definition Waiting_Init :: "'r sess_config \<Rightarrow> 'r server_state \<Rightarrow> 'r srv_outcome" where
  "Waiting_Init cf d = (let d = Reset d in Ret d (if CheckServers cf d then NextState else NoChange))"

definition Waiting_HandleConnection :: "'r sess_config \<Rightarrow> peer \<Rightarrow> 'r server_state \<Rightarrow> 'r srv_outcome" where
  "Waiting_HandleConnection cf remote d =
     Ret d (if IsServer cf remote \<and> CheckServers cf d then NextState else NoChange)"

section \<open>Init\<close>

definition Init_Init :: "'r sess_config \<Rightarrow> 'r server_state \<Rightarrow> 'r srv_outcome" where
  "Init_Init cf d =
     checked (GetProposer cf) d (\<lambda>proposer.
       if cf_id cf \<noteq> proposer then Ret d NoChange
       else let n = ss_draws d;
                init = mk_ServerInit (cf_qds cf) (cf_id cf) (cf_nonce cf n) (cf_time cf n) (replicate 16 0);
                init = SetSignature (cf_qds cf) mt_ServerInit (cf_sign cf (msg_payload init)) init;
                d = d\<lparr>ss_draws := Suc n, m_init := Some init\<rparr>
            in Ret (notify_all cf (filter (\<lambda>i. i \<noteq> proposer) (cf_servers cf)) (msg_packet init) d) NextState)"

definition Init_ProcessPacket :: "'r sess_config \<Rightarrow> sender \<Rightarrow> session_msg \<Rightarrow> 'r server_state \<Rightarrow> 'r srv_outcome" where
  "Init_ProcessPacket cf from msg d =
     (case msg of
        MServerInit init \<Rightarrow>
          checked (GetProposer cf) d (\<lambda>first.
          checked (bindC (demand (si_peer init = first)) (\<lambda>_. demand_signature cf first init)) d (\<lambda>_.
            case m_init d of
              None \<Rightarrow> Ret (d\<lparr>m_init := Some init\<rparr>) NextState
            | Some c_init \<Rightarrow>
                if sint (si_timestamp c_init) > sint (si_timestamp init) then Raise d
                else if msg_packet c_init = msg_packet init then Ret d NoChange
                else Ret (d\<lparr>m_init := Some init\<rparr>) NextState))
      | _ \<Rightarrow> Abort NullPointer)"

definition Init_HandleDisconnection :: "'r sess_config \<Rightarrow> peer \<Rightarrow> 'r server_state \<Rightarrow> 'r srv_outcome" where
  "Init_HandleDisconnection cf i d = Ret d (if IsServer cf i then Restart else NoChange)"

section \<open>Enlist\<close>

definition Enlist_Init :: "'r sess_config \<Rightarrow> 'r server_state \<Rightarrow> 'r srv_outcome" where
  "Enlist_Init cf d =
     (let d = GenerateRoundData cf d
      in case (m_init d, m_ephemeral_key d) of
           (Some init, Some key) \<Rightarrow>
             let enlist = mk_ServerEnlist (cf_qds cf) (cf_id cf) init (cf_public cf key) (m_optional_public d);
                 enlist = SetSignature (cf_qds cf) mt_ServerEnlist (cf_sign cf (msg_payload enlist)) enlist
             in checked (GetProposer cf) d (\<lambda>proposer.
                  mk_outcome (SendNotification cf proposer (msg_packet enlist) d)
                    (to_self cf [proposer] (MServerEnlist enlist)) (Some NoChange))
         | _ \<Rightarrow> Abort NullPointer)"

text \<open>The conditions of \<^verbatim>\<open>VerifyEnlist\<close>, in their order.\<close>

definition check_enlist :: "'r sess_config \<Rightarrow> server_enlist \<Rightarrow> 'r server_state \<Rightarrow> unit check" where
  "check_enlist cf enlist d =
     bindC (demand (IsServer cf (se_peer enlist))) (\<lambda>_.
     bindC (case m_init d of None \<Rightarrow> Faults NullPointer
            | Some init \<Rightarrow> demand (msg_packet init = msg_packet (se_init enlist))) (\<lambda>_.
     bindC (demand (se_peer enlist \<notin> qmap_dom (l_enlist_msgs d))) (\<lambda>_.
     bindC (demand_signature cf (se_peer enlist) enlist) (\<lambda>_.
     demand_valid (se_key enlist)))))"

text \<open>The result: the new state, what is sent to the node itself, and the \<^verbatim>\<open>ProcessResult\<close>.\<close>

definition VerifyEnlist ::
    "'r sess_config \<Rightarrow> server_enlist \<Rightarrow> 'r server_state
       \<Rightarrow> ('r server_state \<times> (sender \<times> session_msg) list \<times> process_result) check" where
  "VerifyEnlist cf enlist d =
     bindC (check_enlist cf enlist d) (\<lambda>_.
       let d = d\<lparr>l_enlist_msgs := qmap_insert (se_peer enlist) enlist (l_enlist_msgs d)\<rparr>
       in if length (l_enlist_msgs d) \<noteq> length (cf_servers cf) then Passes (d, [], NoChange)
          else bindC (GetProposer cf) (\<lambda>proposer.
            let d = d\<lparr>m_enlist_msgs := l_enlist_msgs d\<rparr>;
                enlisted = mk_ServerEnlisted (cf_qds cf) (qmap_vals (l_enlist_msgs d));
                enlisted = SetSignature (cf_qds cf) mt_ServerEnlisted (cf_sign cf (msg_payload enlisted)) enlisted;
                ids = filter (\<lambda>i. i \<noteq> proposer) (cf_servers cf)
            in Passes (notify_all cf ids (msg_packet enlisted) d, to_self cf ids (MServerEnlisted enlisted), NextState)))"

text \<open>The loop of \<^verbatim>\<open>EnlistState::ProcessPacket\<close>: it ignores what \<^verbatim>\<open>VerifyEnlist\<close> returns.\<close>

fun verify_enlists ::
    "'r sess_config \<Rightarrow> server_enlist list \<Rightarrow> 'r server_state \<Rightarrow> (sender \<times> session_msg) list \<Rightarrow> 'r srv_outcome" where
  "verify_enlists cf [] d msgs = mk_outcome d msgs (Some NextState)"
| "verify_enlists cf (enlist # enlists) d msgs =
     (case VerifyEnlist cf enlist d of
        Passes (d, ms, pr) \<Rightarrow> verify_enlists cf enlists d (msgs @ ms)
      | Throws \<Rightarrow> mk_outcome d msgs None
      | Faults f \<Rightarrow> Abort f)"

definition Enlist_ProcessPacket :: "'r sess_config \<Rightarrow> sender \<Rightarrow> session_msg \<Rightarrow> 'r server_state \<Rightarrow> 'r srv_outcome" where
  "Enlist_ProcessPacket cf from msg d =
     (case msg of
        MServerEnlisted enlisted \<Rightarrow>
          checked (bindC (GetProposer cf) (\<lambda>proposer. demand_signature cf proposer enlisted)) d (\<lambda>_.
          checked (demand (length (cf_servers cf) = length (sed_enlists enlisted))) d (\<lambda>_.
            verify_enlists cf (sed_enlists enlisted) d []))
      | _ \<Rightarrow> Abort NullPointer)"

definition Enlist_HandleServerEnlist :: "'r sess_config \<Rightarrow> sender \<Rightarrow> session_msg \<Rightarrow> 'r server_state \<Rightarrow> 'r srv_outcome" where
  "Enlist_HandleServerEnlist cf from msg d =
     checked (GetProposer cf) d (\<lambda>proposer.
       if cf_id cf = proposer then
         (case msg of
            MServerEnlist enlist \<Rightarrow> checked (VerifyEnlist cf enlist d) d (\<lambda>(d, ms, pr). mk_outcome d ms (Some pr))
          | _ \<Rightarrow> Abort NullPointer)
       else Raise d)"

section \<open>Agree\<close>

definition Agree_Init :: "'r sess_config \<Rightarrow> 'r server_state \<Rightarrow> 'r srv_outcome" where
  "Agree_Init cf d =
     (let round_id = cf_hash cf (concat (map msg_payload (qmap_vals (m_enlist_msgs d))));
          d = d\<lparr>m_round_id := round_id\<rparr>
      in case m_ephemeral_key d of None \<Rightarrow> Abort NullPointer
         | Some key \<Rightarrow>
             let agree = mk_ServerAgree (cf_qds cf) (cf_id cf) round_id (cf_public cf key) (m_optional_public d);
                 agree = SetSignature (cf_qds cf) mt_ServerAgree (cf_sign cf (msg_payload agree)) agree
             in mk_outcome (notify_all cf (cf_servers cf) (msg_packet agree) d)
                  (to_self cf (cf_servers cf) (MServerAgree agree)) (Some NoChange))"

text \<open>The agree message has to repeat what the server enlisted with.\<close>

definition same_keys :: "asym_key option \<Rightarrow> asym_key option \<Rightarrow> bool check" where
  "same_keys a b = (case (a, b) of (Some k, Some l) \<Rightarrow> Passes (ak_bytes k = ak_bytes l) | _ \<Rightarrow> Faults NullPointer)"

definition matches_enlist :: "'r server_state \<Rightarrow> server_agree \<Rightarrow> unit check" where
  "matches_enlist d agree =
     (case map_of (m_enlist_msgs d) (mm_peer agree) of None \<Rightarrow> Faults NullPointer
      | Some enlist \<Rightarrow>
          bindC (demand (se_peer enlist = mm_peer agree)) (\<lambda>_.
          bindC (same_keys (se_key enlist) (mm_key agree)) (\<lambda>same.
          demand (same \<and> se_optional enlist = mm_optional agree))))"

definition Agree_ProcessPacket :: "'r sess_config \<Rightarrow> sender \<Rightarrow> session_msg \<Rightarrow> 'r server_state \<Rightarrow> 'r srv_outcome" where
  "Agree_ProcessPacket cf from msg d =
     (case msg of
        MServerAgree agree \<Rightarrow>
          checked
            (bindC (demand (IsServer cf (mm_peer agree))) (\<lambda>_.
             bindC (demand (mm_peer agree \<notin> qmap_dom (l_agree_msgs d))) (\<lambda>_.
             bindC (CheckServerAgree cf agree (m_round_id d)) (\<lambda>_.
             matches_enlist d agree)))) d (\<lambda>_.
          let d = d\<lparr>l_agree_msgs := qmap_insert (mm_peer agree) agree (l_agree_msgs d)\<rparr>
          in if length (l_agree_msgs d) \<noteq> length (cf_servers cf) then Ret d NoChange
             else Ret (SetServers cf (qmap_vals (l_agree_msgs d)) (d\<lparr>m_agree_msgs := l_agree_msgs d\<rparr>)) NextState)
      | _ \<Rightarrow> Abort NullPointer)"

section \<open>Registering\<close>

definition queued_packet :: "'r sess_config \<Rightarrow> 'r server_state \<Rightarrow> bytes" where
  "queued_packet cf d =
     (let queued = mk_ServerQueued (cf_qds cf) (m_server_list d) (replicate 16 0) (m_server_bytes d)
      in msg_packet (SetSignature (cf_qds cf) mt_ServerQueued (cf_sign cf (msg_payload queued)) queued))"

definition Registering_Init :: "'r sess_config \<Rightarrow> 'r server_state \<Rightarrow> 'r srv_outcome" where
  "Registering_Init cf d =
     Ret (notify_all cf (filter (\<lambda>i. \<not> IsServer cf i) (ss_cons d)) (queued_packet cf d) d) NoChange"

definition Registering_ProcessPacket :: "'r sess_config \<Rightarrow> sender \<Rightarrow> session_msg \<Rightarrow> 'r server_state \<Rightarrow> 'r srv_outcome" where
  "Registering_ProcessPacket cf from msg d =
     (case msg of
        MClientRegister clr \<Rightarrow>
          checked
            (bindC (demand (\<not> IsServer cf (mm_peer clr))) (\<lambda>_.
             bindC (demand (mm_peer clr \<notin> qmap_dom (l_registered_msgs d))) (\<lambda>_.
             CheckClientRegister cf d clr))) d (\<lambda>_.
          Ret (d\<lparr>l_registered_msgs := qmap_insert (mm_peer clr) clr (l_registered_msgs d)\<rparr>) NoChange)
      | _ \<Rightarrow> Abort NullPointer)"

definition Registering_HandleConnection :: "'r sess_config \<Rightarrow> peer \<Rightarrow> 'r server_state \<Rightarrow> 'r srv_outcome" where
  "Registering_HandleConnection cf remote d = Ret (SendNotification cf remote (queued_packet cf d) d) NoChange"

text \<open>The callback of the registration timer; it then asks for the next state.\<close>

definition FinishClientRegister :: "'r server_state \<Rightarrow> 'r server_state" where
  "FinishClientRegister d = d\<lparr>m_registered_msgs := l_registered_msgs d\<rparr>"

section \<open>List exchange\<close>

definition ListExchange_Init :: "'r sess_config \<Rightarrow> 'r server_state \<Rightarrow> 'r srv_outcome" where
  "ListExchange_Init cf d =
     (let d = d\<lparr>l_registered_msgs := m_registered_msgs d\<rparr>;
          slist = mk_ServerList (cf_qds cf) (qmap_vals (m_registered_msgs d));
          slist = SetSignature (cf_qds cf) mt_ServerList (cf_sign cf (msg_payload slist)) slist
      in mk_outcome (notify_all cf (cf_servers cf) (msg_packet slist) d)
           (to_self cf (cf_servers cf) (MServerList slist)) (Some NoChange))"

definition check_sender :: "'r sess_config \<Rightarrow> (peer, 'v) qmap \<Rightarrow> sender \<Rightarrow> peer check" where
  "check_sender cf seen from =
     (case from of None \<Rightarrow> Throws
      | Some remote \<Rightarrow>
          bindC (demand (IsServer cf remote)) (\<lambda>_.
          bindC (demand (remote \<notin> qmap_dom seen)) (\<lambda>_. Passes remote)))"

definition ListExchange_ProcessPacket :: "'r sess_config \<Rightarrow> sender \<Rightarrow> session_msg \<Rightarrow> 'r server_state \<Rightarrow> 'r srv_outcome" where
  "ListExchange_ProcessPacket cf from msg d =
     (case msg of
        MServerList slist \<Rightarrow>
          checked (check_sender cf (l_list_received d) from) d (\<lambda>remote.
          checked (check_all (CheckClientRegister cf d) (sl_register_list slist)) d (\<lambda>_.
          let d = d\<lparr>l_registered_msgs :=
                      fold (\<lambda>clr. qmap_insert (mm_peer clr) clr) (sl_register_list slist) (l_registered_msgs d),
                    l_list_received := qmap_insert remote True (l_list_received d)\<rparr>
          in if length (l_list_received d) \<noteq> length (cf_servers cf) then Ret d NoChange
             else Ret (d\<lparr>m_registered_msgs := l_registered_msgs d, m_client_list := qmap_vals (l_registered_msgs d)\<rparr>) NextState))
      | _ \<Rightarrow> Abort NullPointer)"

section \<open>Verify list\<close>

definition VerifyList_Init :: "'r sess_config \<Rightarrow> 'r server_state \<Rightarrow> 'r srv_outcome" where
  "VerifyList_Init cf d =
     (let registered = cf_hash cf (SerializeList (cf_qds cf) (m_client_list d));
          d = d\<lparr>l_registered := registered\<rparr>;
          vlist = mk_ServerVerifyList (cf_sign cf registered)
      in mk_outcome (notify_all cf (cf_servers cf) (sv_packet vlist) d)
           (to_self cf (cf_servers cf) (MServerVerifyList vlist)) (Some NoChange))"

definition VerifyList_ProcessPacket :: "'r sess_config \<Rightarrow> sender \<Rightarrow> session_msg \<Rightarrow> 'r server_state \<Rightarrow> 'r srv_outcome" where
  "VerifyList_ProcessPacket cf from msg d =
     checked (check_sender cf (l_verify d) from) d (\<lambda>remote.
       case msg of
         MServerVerifyList vlist \<Rightarrow>
           checked (bindC (verify_by cf remote (l_registered d) (sv_signature vlist)) demand) d (\<lambda>_.
           let d = d\<lparr>l_verify := qmap_insert remote (sv_signature vlist) (l_verify d)\<rparr>
           in if length (l_verify d) \<noteq> length (cf_servers cf) then Ret d NoChange
              else Ret (d\<lparr>m_verify := l_verify d\<rparr>) NextState)
       | _ \<Rightarrow> Abort NullPointer)"

section \<open>Communicating\<close>

definition Comm_Init :: "'r sess_config \<Rightarrow> 'r server_state \<Rightarrow> 'r srv_outcome" where
  "Comm_Init cf d =
     (let d = NextRound cf d;
          start = mk_ServerStart (cf_qds cf) (m_client_list d) (qmap_vals (m_verify d));
          d = notify_all cf (filter (\<lambda>i. i \<in> qmap_dom (m_registered_msgs d)) (ss_cons d)) (sr_packet start) d
      in call_round cf (ro_start (cf_round cf)) d)"

definition Comm_ProcessPacket ::
    "'r sess_config \<Rightarrow> sender \<Rightarrow> session_msg \<Rightarrow> ('r, 'x) shared_state_scheme \<Rightarrow> (('r, 'x) shared_state_scheme, session_msg) outcome" where
  "Comm_ProcessPacket cf from msg d =
     (case msg of
        MSessionData packet \<Rightarrow>
          (case from of None \<Rightarrow> Raise d
           | Some remote \<Rightarrow> call_round cf (ro_packet (cf_round cf) remote packet) d)
      | _ \<Rightarrow> Raise d)"

definition Comm_HandleDisconnection :: "'r sess_config \<Rightarrow> peer \<Rightarrow> 'r server_state \<Rightarrow> 'r srv_outcome" where
  "Comm_HandleDisconnection cf i d = call_round cf (ro_disconnect (cf_round cf) i) d"

section \<open>The state machine\<close>

definition session_state :: "int \<Rightarrow> int \<Rightarrow> ('d, session_msg) state_class" where
  "session_state s t =
     \<lparr>sc_state = s, sc_msg_type = t, sc_new = (\<lambda>d. d), sc_init = default_init, sc_packet = default_packet,
      sc_handlers = Map.empty, sc_connection = default_connection, sc_disconnection = default_connection\<rparr>"

definition server_states :: "'r sess_config \<Rightarrow> (peer \<Rightarrow> string) \<Rightarrow> int \<rightharpoonup> ('r server_state, session_msg) state_class" where
  "server_states cf reason =
     [st_Offline \<mapsto> (session_state st_Offline (-1))\<lparr>sc_handlers := [0 \<mapsto> store, 9 \<mapsto> store]\<rparr>,
      st_WaitingForServers \<mapsto> (session_state st_WaitingForServers (-1))
        \<lparr>sc_init := Waiting_Init cf, sc_handlers := [0 \<mapsto> store, 9 \<mapsto> store],
         sc_connection := Waiting_HandleConnection cf\<rparr>,
      st_Init \<mapsto> (session_state st_Init 0)
        \<lparr>sc_init := Init_Init cf, sc_packet := Init_ProcessPacket cf, sc_handlers := [9 \<mapsto> store],
         sc_disconnection := Init_HandleDisconnection cf\<rparr>,
      st_Enlist \<mapsto> (session_state st_Enlist 2)
        \<lparr>sc_new := (\<lambda>d. d\<lparr>l_enlist_msgs := []\<rparr>), sc_init := Enlist_Init cf,
         sc_packet := Enlist_ProcessPacket cf,
         sc_handlers := [3 \<mapsto> store, 1 \<mapsto> Enlist_HandleServerEnlist cf, 9 \<mapsto> srv_stop cf],
         sc_disconnection := DefaultHandleDisconnection cf reason\<rparr>,
      st_Agree \<mapsto> (session_state st_Agree 3)
        \<lparr>sc_new := (\<lambda>d. d\<lparr>l_agree_msgs := []\<rparr>), sc_init := Agree_Init cf,
         sc_packet := Agree_ProcessPacket cf,
         sc_handlers := [5 \<mapsto> store, 6 \<mapsto> store, 9 \<mapsto> srv_stop cf],
         sc_disconnection := DefaultHandleDisconnection cf reason\<rparr>,
      st_Registering \<mapsto> (session_state st_Registering 5)
        \<lparr>sc_new := (\<lambda>d. d\<lparr>l_registered_msgs := []\<rparr>), sc_init := Registering_Init cf,
         sc_packet := Registering_ProcessPacket cf, sc_handlers := [6 \<mapsto> store, 9 \<mapsto> srv_stop cf],
         sc_connection := Registering_HandleConnection cf,
         sc_disconnection := DefaultHandleDisconnection cf reason\<rparr>,
      st_ListExchange \<mapsto> (session_state st_ListExchange 6)
        \<lparr>sc_new := (\<lambda>d. d\<lparr>l_list_received := [], l_registered_msgs := []\<rparr>), sc_init := ListExchange_Init cf,
         sc_packet := ListExchange_ProcessPacket cf, sc_handlers := [7 \<mapsto> store, 9 \<mapsto> srv_stop cf],
         sc_disconnection := DefaultHandleDisconnection cf reason\<rparr>,
      st_VerifyList \<mapsto> (session_state st_VerifyList 7)
        \<lparr>sc_new := (\<lambda>d. d\<lparr>l_verify := [], l_registered := []\<rparr>), sc_init := VerifyList_Init cf,
         sc_packet := VerifyList_ProcessPacket cf, sc_handlers := [127 \<mapsto> store, 9 \<mapsto> srv_stop cf],
         sc_disconnection := DefaultHandleDisconnection cf reason\<rparr>,
      st_Communicating \<mapsto> (session_state st_Communicating 127)
        \<lparr>sc_init := Comm_Init cf, sc_packet := Comm_ProcessPacket cf,
         sc_handlers := [0 \<mapsto> store, 9 \<mapsto> srv_stop cf],
         sc_disconnection := Comm_HandleDisconnection cf\<rparr>]"

definition server_transitions :: "int \<rightharpoonup> int" where
  "server_transitions =
     [st_Offline \<mapsto> st_WaitingForServers, st_WaitingForServers \<mapsto> st_Init, st_Init \<mapsto> st_Enlist,
      st_Enlist \<mapsto> st_Agree, st_Agree \<mapsto> st_Registering, st_Registering \<mapsto> st_ListExchange,
      st_ListExchange \<mapsto> st_VerifyList, st_VerifyList \<mapsto> st_Communicating,
      st_Communicating \<mapsto> st_WaitingForServers]"

definition server_class :: "'r sess_config \<Rightarrow> (peer \<Rightarrow> string) \<Rightarrow> ('r server_state, session_msg) machine_class" where
  "server_class cf reason =
     \<lparr>mc_states = server_states cf reason, mc_transitions = server_transitions,
      mc_restart = st_WaitingForServers, mc_type = GetMessageType\<rparr>"

definition new_shared :: "'x \<Rightarrow> ('r, 'x) shared_state_scheme" where
  "new_shared x =
     \<lparr>ss_cons = [], ss_sent = [], ss_draws = 0, ss_stopped = False, m_ephemeral_key = None,
      m_optional_public = VOther [], m_optional_private = VOther [], m_round = None, m_round_id = [],
      m_server_list = [], m_server_bytes = [], m_client_list = [], m_last = [], m_send_queue = DataQueue,
      \<dots> = x\<rparr>"

definition new_server :: "'r server_state" where
  "new_server = new_shared
     \<lparr>m_init = None, m_enlist_msgs = [], m_agree_msgs = [], m_agree = [], m_registered_msgs = [], m_verify = [],
      l_enlist_msgs = [], l_agree_msgs = [], l_registered_msgs = [], l_list_received = [], l_verify = [],
      l_registered = []\<rparr>"

type_synonym 'r server_machine = "('r server_state, session_msg) state_machine"

text \<open>\<^verbatim>\<open>SetState(Offline)\<close> in the constructor enters a state without an \<^verbatim>\<open>Init\<close>.\<close>

definition ServerSession :: "'r server_machine" where
  "ServerSession = \<lparr>msm_data = new_server, msm_cstate = Some st_Offline, msm_storage = []\<rparr>"

section \<open>The session\<close>

text \<open>\<^verbatim>\<open>Session::HandleData\<close>: a packet no parser knows is dropped.\<close>

definition HandleData ::
    "('d, session_msg) runner \<Rightarrow> ('d, session_msg) machine_class \<Rightarrow> (byte \<rightharpoonup> (bytes \<Rightarrow> fault + session_msg))
       \<Rightarrow> sender \<Rightarrow> bytes \<Rightarrow> ('d, session_msg) state_machine \<Rightarrow> fault + ('d, session_msg) state_machine" where
  "HandleData rec C amps from packet m =
     bindS (ParseMessage amps packet) (\<lambda>msg.
       if GetMessageType msg = BadMessageType then Inr m else msm_ProcessData rec C from msg m)"

text \<open>\<^verbatim>\<open>Session::OnStart\<close>: the connections there are, then the first transition.\<close>

definition OnStart ::
    "('d, session_msg) runner \<Rightarrow> ('d, session_msg) machine_class \<Rightarrow> peer list
       \<Rightarrow> ('d, session_msg) state_machine \<Rightarrow> fault + ('d, session_msg) state_machine" where
  "OnStart rec C cons m =
     bindS (foldS (msm_HandleConnection rec C) cons m) (msm_StateComplete rec C)"

text \<open>The slot for the end of the current round, in whatever state the session is.\<close>

definition HandleRoundFinishedSlot ::
    "('r server_state, session_msg) runner \<Rightarrow> 'r sess_config \<Rightarrow> (peer \<Rightarrow> string)
       \<Rightarrow> 'r server_machine \<Rightarrow> fault + 'r server_machine" where
  "HandleRoundFinishedSlot rec cf reason m =
     (case m_round (msm_data m) of None \<Rightarrow> Inl NullPointer
      | Some r \<Rightarrow>
          let (d, pr) = HandleRoundFinished cf r (msm_data m)
          in ResultProcessor rec (server_class cf reason) pr (m\<lparr>msm_data := d\<rparr>))"

definition register_timeout ::
    "('r server_state, session_msg) runner \<Rightarrow> 'r sess_config \<Rightarrow> (peer \<Rightarrow> string)
       \<Rightarrow> 'r server_machine \<Rightarrow> fault + 'r server_machine" where
  "register_timeout rec cf reason m =
     (if msm_cstate m = Some st_Registering
      then ResultProcessor rec (server_class cf reason) NextState (m\<lparr>msm_data := FinishClientRegister (msm_data m)\<rparr>)
      else Inr m)"

definition Send :: "bytes \<Rightarrow> ('r, 'x) shared_state_scheme \<Rightarrow> ('r, 'x) shared_state_scheme" where
  "Send data d = d\<lparr>m_send_queue := AddData data (m_send_queue d)\<rparr>"

end
