(* ===== verification/ClientSession.thy ===== *)
theory ClientSession
  imports ServerSession
begin

text \<open>
  The session of a client, \<^verbatim>\<open>src/src/Session/ClientSession.cpp\<close>.

  \<open>client_state\<close> is \<^verbatim>\<open>ClientSessionSharedState\<close>; the state objects of a client have no members of their
  own.  \<open>cl_X\<close> is the method of the class that implements the state; the machine, the shared state and
  the messages are those of the server.  A client is not one of the servers, so none of its messages
  goes to itself except through \<^verbatim>\<open>Broadcast\<close>, which only the proposer uses.
\<close>

section \<open>State\<close>

record 'r client_state = "'r shared_state" +
  m_server :: peer

type_synonym 'r cl_outcome = "('r client_state, session_msg) outcome"

section \<open>Waiting for a server\<close>

text \<open>The first connection to a server becomes the server of the client.\<close>

definition CheckServer :: "'r sess_config \<Rightarrow> 'r client_state \<Rightarrow> 'r client_state \<times> bool" where
  "CheckServer cf d =
     (case filter (IsServer cf) (ss_cons d) of
        [] \<Rightarrow> (d, False)
      | server # _ \<Rightarrow> (d\<lparr>m_server := server\<rparr>, True))"

definition cl_Waiting_Init :: "'r sess_config \<Rightarrow> 'r client_state \<Rightarrow> 'r cl_outcome" where
  "cl_Waiting_Init cf d = (let (d, found) = CheckServer cf d in Ret d (if found then NextState else NoChange))"

definition cl_Waiting_HandleConnection :: "'r sess_config \<Rightarrow> peer \<Rightarrow> 'r client_state \<Rightarrow> 'r cl_outcome" where
  "cl_Waiting_HandleConnection cf connector d =
     (if \<not> IsServer cf connector then Ret d NoChange
      else let (d, found) = CheckServer cf d in Ret d (if found then NextState else NoChange))"

section \<open>Queuing\<close>

text \<open>\<^verbatim>\<open>HandleDisconnection\<close> is the same in the states that follow.\<close>

definition cl_HandleDisconnection :: "peer \<Rightarrow> 'r client_state \<Rightarrow> 'r cl_outcome" where
  "cl_HandleDisconnection i d = Ret d (if i = m_server d then Restart else NoChange)"

definition Queuing_ProcessPacket :: "'r sess_config \<Rightarrow> sender \<Rightarrow> session_msg \<Rightarrow> 'r client_state \<Rightarrow> 'r cl_outcome" where
  "Queuing_ProcessPacket cf from msg d =
     (case msg of
        MServerQueued queued \<Rightarrow>
          checked (demand_signature cf (m_server d) queued) d (\<lambda>_.
          let servers = sq_agree_list queued
          in checked (demand (length servers = length (cf_servers cf))) d (\<lambda>_.
             case servers of [] \<Rightarrow> Abort OutOfBounds
             | first # _ \<Rightarrow>
                 checked (check_all (\<lambda>agree. CheckServerAgree cf agree (mm_round_id first)) servers) d (\<lambda>_.
                 Ret (SetServers cf servers (d\<lparr>m_round_id := mm_round_id first\<rparr>)) NextState)))
      | _ \<Rightarrow> Abort NullPointer)"

section \<open>Registering\<close>

definition cl_Registering_Init :: "'r sess_config \<Rightarrow> 'r client_state \<Rightarrow> 'r cl_outcome" where
  "cl_Registering_Init cf d =
     (let d = GenerateRoundData cf d
      in case m_ephemeral_key d of None \<Rightarrow> Abort NullPointer
         | Some key \<Rightarrow>
             let reg = mk_ClientRegister (cf_qds cf) (cf_id cf) (m_round_id d) (cf_public cf key) (m_optional_public d);
                 reg = SetSignature (cf_qds cf) mt_ClientRegister (cf_sign cf (msg_payload reg)) reg
             in Ret (SendNotification cf (m_server d) (msg_packet reg) d) NoChange)"

text \<open>The loop over the server ids, with the signature at the same index.\<close>

fun check_signatures :: "'r sess_config \<Rightarrow> bytes \<Rightarrow> peer list \<Rightarrow> bytes list \<Rightarrow> unit check" where
  "check_signatures cf hash_data [] signatures = Passes ()"
| "check_signatures cf hash_data (i # ids) [] = Faults OutOfBounds"
| "check_signatures cf hash_data (i # ids) (signature # signatures) =
     bindC (bindC (verify_by cf i hash_data signature) demand) (\<lambda>_. check_signatures cf hash_data ids signatures)"

definition cl_Registering_ProcessPacket :: "'r sess_config \<Rightarrow> sender \<Rightarrow> session_msg \<Rightarrow> 'r client_state \<Rightarrow> 'r cl_outcome" where
  "cl_Registering_ProcessPacket cf from msg d =
     (case msg of
        MServerStart start \<Rightarrow>
          checked (demand (length (sr_signatures start) = length (cf_servers cf))) d (\<lambda>_.
          checked (check_signatures cf (cf_hash cf (sr_register start)) (cf_servers cf) (sr_signatures start)) d (\<lambda>_.
          Ret (NextRound cf (d\<lparr>m_client_list := sr_register_list start\<rparr>)) NextState))
      | _ \<Rightarrow> Abort NullPointer)"

definition cl_stop :: "'r sess_config \<Rightarrow> sender \<Rightarrow> session_msg \<Rightarrow> 'r client_state \<Rightarrow> 'r cl_outcome" where
  "cl_stop cf = DefaultHandleServerStop (CheckServerStop cf) cf"

section \<open>Communicating\<close>

definition cl_Comm_Init :: "'r sess_config \<Rightarrow> 'r client_state \<Rightarrow> 'r cl_outcome" where
  "cl_Comm_Init cf d = call_round cf (ro_start (cf_round cf)) d"

definition cl_Comm_HandleServerStop :: "'r sess_config \<Rightarrow> sender \<Rightarrow> session_msg \<Rightarrow> 'r client_state \<Rightarrow> 'r cl_outcome" where
  "cl_Comm_HandleServerStop cf from msg d =
     (case msg of
        MServerStop stop \<Rightarrow>
          checked (CheckServerStop cf d stop) d (\<lambda>immediate.
            if immediate then call_round cf (ro_stop (cf_round cf)) d
            else (case m_round d of None \<Rightarrow> Abort NullPointer
                  | Some r \<Rightarrow> Ret (d\<lparr>m_round := Some (ro_interrupt (cf_round cf) r)\<rparr>) NoChange))
      | _ \<Rightarrow> Abort NullPointer)"

section \<open>The state machine\<close>

definition client_states :: "'r sess_config \<Rightarrow> int \<rightharpoonup> ('r client_state, session_msg) state_class" where
  "client_states cf =
     [st_Offline \<mapsto> (session_state st_Offline (-1))\<lparr>sc_handlers := [4 \<mapsto> store]\<rparr>,
      st_WaitingForServer \<mapsto> (session_state st_WaitingForServer (-1))
        \<lparr>sc_init := cl_Waiting_Init cf, sc_handlers := [4 \<mapsto> store],
         sc_connection := cl_Waiting_HandleConnection cf\<rparr>,
      st_Queuing \<mapsto> (session_state st_Queuing 4)
        \<lparr>sc_packet := Queuing_ProcessPacket cf, sc_disconnection := cl_HandleDisconnection\<rparr>,
      st_Registering \<mapsto> (session_state st_Registering 8)
        \<lparr>sc_init := cl_Registering_Init cf, sc_packet := cl_Registering_ProcessPacket cf,
         sc_handlers := [127 \<mapsto> store, 9 \<mapsto> cl_stop cf], sc_disconnection := cl_HandleDisconnection\<rparr>,
      st_Communicating \<mapsto> (session_state st_Communicating 127)
        \<lparr>sc_init := cl_Comm_Init cf, sc_packet := Comm_ProcessPacket cf,
         sc_handlers := [4 \<mapsto> store, 9 \<mapsto> cl_Comm_HandleServerStop cf],
         sc_disconnection := cl_HandleDisconnection\<rparr>]"

definition client_transitions :: "int \<rightharpoonup> int" where
  "client_transitions =
     [st_Offline \<mapsto> st_WaitingForServer, st_WaitingForServer \<mapsto> st_Queuing, st_Queuing \<mapsto> st_Registering,
      st_Registering \<mapsto> st_Communicating, st_Communicating \<mapsto> st_WaitingForServer]"

definition client_class :: "'r sess_config \<Rightarrow> ('r client_state, session_msg) machine_class" where
  "client_class cf =
     \<lparr>mc_states = client_states cf, mc_transitions = client_transitions,
      mc_restart = st_WaitingForServer, mc_type = GetMessageType\<rparr>"

type_synonym 'r client_machine = "('r client_state, session_msg) state_machine"

text \<open>The default constructor of \<^verbatim>\<open>Id\<close> draws a random id.\<close>

definition ClientSession :: "peer \<Rightarrow> 'r client_machine" where
  "ClientSession random_id = \<lparr>msm_data = new_shared \<lparr>m_server = random_id\<rparr>, msm_cstate = Some st_Offline, msm_storage = []\<rparr>"

text \<open>\<^verbatim>\<open>ClientSession::HandleConnection\<close> looks at connections to servers only.\<close>

definition cl_HandleConnection ::
    "('r client_state, session_msg) runner \<Rightarrow> 'r sess_config \<Rightarrow> peer \<Rightarrow> 'r client_machine \<Rightarrow> fault + 'r client_machine" where
  "cl_HandleConnection rec cf remote m =
     (if \<not> IsServer cf remote then Inr m else msm_HandleConnection rec (client_class cf) remote m)"

definition cl_OnStart ::
    "('r client_state, session_msg) runner \<Rightarrow> 'r sess_config \<Rightarrow> peer list \<Rightarrow> 'r client_machine \<Rightarrow> fault + 'r client_machine" where
  "cl_OnStart rec cf cons m =
     bindS (foldS (cl_HandleConnection rec cf) cons m) (msm_StateComplete rec (client_class cf))"

definition cl_HandleRoundFinishedSlot ::
    "('r client_state, session_msg) runner \<Rightarrow> 'r sess_config \<Rightarrow> 'r client_machine \<Rightarrow> fault + 'r client_machine" where
  "cl_HandleRoundFinishedSlot rec cf m =
     (case m_round (msm_data m) of None \<Rightarrow> Inl NullPointer
      | Some r \<Rightarrow>
          let (d, pr) = HandleRoundFinished cf r (msm_data m)
          in ResultProcessor rec (client_class cf) pr (m\<lparr>msm_data := d\<rparr>))"

end
