(* ===== verification/MachineTermination.thy ===== *)
theory MachineTermination
  imports MessageStateMachine
begin

text \<open>
  Every event of a session ends.  The states of a machine have a rank; an \<^verbatim>\<open>Init\<close> method, or a message
  it sends to its own node, may only lead to states of a lower rank, and a message that a handler sends
  to its own node has no effect.  All other transitions are caused by a message that is then gone.  With
  \<open>n\<close> stored messages and ranks up to \<open>R\<close>, \<open>(n + 1) * (2 * R + 3)\<close> nested calls are enough.
\<close>

section \<open>Ranked machines\<close>

definition calm :: "('d, 'm) machine_class \<Rightarrow> ('d, 'm) state_class \<Rightarrow> 'd \<Rightarrow> sender \<times> 'm \<Rightarrow> bool" where
  "calm C st d = (\<lambda>(from, msg). Process C st from msg d \<in> {Raise d, Ret d NoChange} \<union> Abort ` (- {Loops}))"

fun mild :: "('d, 'm) machine_class \<Rightarrow> (int \<Rightarrow> nat) \<Rightarrow> int \<Rightarrow> ('d, 'm) outcome \<Rightarrow> bool" where
  "mild C rank s (Ret d pr) = (pr = NoChange \<or> pr = NextState \<and> rank (next_state C s) < rank s)"
| "mild C rank s (Raise d) = True"
| "mild C rank s (Abort f) = (f \<noteq> Loops)"
| "mild C rank s (Loopback d msgs res) = False"

fun init_ranked ::
    "('d, 'm) machine_class \<Rightarrow> (int \<Rightarrow> nat) \<Rightarrow> ('d, 'm) state_class \<Rightarrow> int \<Rightarrow> ('d, 'm) outcome \<Rightarrow> bool" where
  "init_ranked C rank st s (Ret d pr) =
     ((pr = NextState \<longrightarrow> rank (next_state C s) < rank s) \<and> (pr = Restart \<longrightarrow> rank (mc_restart C) < rank s))"
| "init_ranked C rank st s (Raise d) = True"
| "init_ranked C rank st s (Abort f) = (f \<noteq> Loops)"
| "init_ranked C rank st s (Loopback d msgs res) =
     (res = Some NoChange \<and> length msgs \<le> 1 \<and> (\<forall>(from, msg) \<in> set msgs. mild C rank s (Process C st from msg d)))"

fun handler_ranked :: "('d, 'm) machine_class \<Rightarrow> ('d, 'm) state_class \<Rightarrow> ('d, 'm) outcome \<Rightarrow> bool" where
  "handler_ranked C st (Abort f) = (f \<noteq> Loops)"
| "handler_ranked C st (Loopback d msgs res) = (res \<noteq> Some StoreMessage \<and> (\<forall>x \<in> set msgs. calm C st d x))"
| "handler_ranked C st out = True"

fun event_ranked :: "(int \<Rightarrow> 'd \<Rightarrow> bool) \<Rightarrow> int \<Rightarrow> ('d, 'm) outcome \<Rightarrow> bool" where
  "event_ranked I s (Abort f) = (f \<noteq> Loops)"
| "event_ranked I s (Loopback d msgs res) = (I s d \<and> res = Some NoChange \<and> length msgs \<le> 1)"
| "event_ranked I s out = True"

definition ranked ::
    "('d, 'm) machine_class \<Rightarrow> (int \<Rightarrow> 'd \<Rightarrow> bool) \<Rightarrow> (int \<Rightarrow> 'd \<Rightarrow> bool) \<Rightarrow> (int \<Rightarrow> nat) \<Rightarrow> nat \<Rightarrow> bool" where
  "ranked C I N rank R \<longleftrightarrow> (\<forall>s. rank s \<le> R) \<and>
     (\<forall>s st d. mc_states C s = Some st \<longrightarrow>
        (N s d \<longrightarrow> init_ranked C rank st s (sc_init st (sc_new st d)))
        \<and> (I s d \<longrightarrow> (\<forall>from msg. handler_ranked C st (Process C st from msg d))))"

abbreviation stored :: "('d, 'm) state_machine \<Rightarrow> nat" where
  "stored m \<equiv> length (msm_storage m)"

definition ends :: "nat \<Rightarrow> fault + ('d, 'm) state_machine \<Rightarrow> bool" where
  "ends n res \<longleftrightarrow> res \<noteq> Inl Loops \<and> (\<forall>m. res = Inr m \<longrightarrow> stored m \<le> n)"

lemma ends_bindS: "ends n a \<Longrightarrow> (\<And>m. a = Inr m \<Longrightarrow> stored m \<le> n \<Longrightarrow> ends n' (f m)) \<Longrightarrow> ends n' (bindS a f)"
  by (cases a) (auto simp: ends_def)

lemma ends_mono: "ends n a \<Longrightarrow> n \<le> n' \<Longrightarrow> ends n' a"
  by (auto simp: ends_def)

lemma ends_Inr: "stored m \<le> n \<Longrightarrow> ends n (Inr m)"
  by (simp add: ends_def)

lemma ends_Inl: "f \<noteq> Loops \<Longrightarrow> ends n (Inl f)"
  by (simp add: ends_def)

lemmas ends_intros = ends_Inr ends_Inl

context state_contract
begin

definition good :: "nat \<Rightarrow> ('d, 'm) runner \<Rightarrow> bool" where
  "good n rec \<longleftrightarrow> keeps rec \<and> (\<forall>t m. N t (msm_data m) \<longrightarrow> stored m \<le> n \<longrightarrow> ends (stored m) (rec (Enter t) m))
     \<and> (\<forall>from msg m st. GetCurrentState C m = Inr st \<longrightarrow> calm C st (msm_data m) (from, msg)
          \<longrightarrow> ends (stored m) (rec (Receive from msg) m))"

lemma calm_quiet: "calm C st d x \<Longrightarrow> quiet C st d x"
  by (auto simp: calm_def quiet_def)

text \<open>A result that the state of the machine allows.\<close>

lemma ends_result:
  assumes "good n rec" and "settled (m, Some pr)" and "stored m \<le> n" and "pr \<noteq> StoreMessage"
  shows "ends (stored m) (ResultProcessor rec C pr m)"
proof -
  from assms(2) obtain s st where "msm_cstate m = Some s" "mc_states C s = Some st"
    "result_ok C I N s (msm_data m) (Some pr)" by (auto simp: settled_def)
  with assms id_ok show ?thesis
    by (cases pr) (auto simp: ResultProcessor_def msm_StateComplete_def GetCurrentState_def good_def intro: ends_intros)
qed

lemma ends_calm:
  assumes "good n rec" and "GetCurrentState C m = Inr st" and "\<forall>x \<in> set msgs. calm C st (msm_data m) x"
  shows "ends (stored m) (deliver rec msgs m)"
  using assms(3)
proof (induction msgs)
  case (Cons x msgs)
  obtain "from" msg where x: "x = (from, msg)" by (cases x)
  have "ends (stored m) (rec (Receive from msg) m)" using assms(1,2) Cons.prems by (auto simp: good_def x)
  moreover have "m' = m" if "rec (Receive from msg) m = Inr m'" for m'
    using keepsD(3) [of rec m st "from" msg m'] assms(1,2) Cons.prems that calm_quiet by (auto simp: good_def x)
  ultimately show ?case using Cons by (auto simp: deliver_def x intro!: ends_bindS)
qed (simp add: deliver_def ends_Inr)

lemma ends_settle:
  assumes "good n rec" and "msm_cstate m = Some s" and "mc_states C s = Some st"
    and "handler_ranked C st out"
  shows "settle rec out m \<noteq> Inl Loops \<and> (\<forall>m' res. settle rec out m = Inr (m', res) \<longrightarrow> stored m' \<le> stored m)"
proof (cases out)
  case (Loopback d msgs res)
  have "GetCurrentState C (m\<lparr>msm_data := d\<rparr>) = Inr st" using assms(2,3) by (simp add: GetCurrentState_def)
  from ends_calm [OF assms(1) this, of msgs] assms(4) show ?thesis
    by (auto simp: Loopback ends_def fault_simps)
qed (use assms(4) in auto)

lemma ends_process:
  assumes "good n rec" and "in_state m" and "stored m \<le> n" and "ranked C I N rank R"
  shows "ends (Suc (stored m)) (msm_ProcessData rec C from msg m)"
proof -
  from assms(2) obtain s st where s: "msm_cstate m = Some s" "mc_states C s = Some st" "I s (msm_data m)"
    "GetCurrentState C m = Inr st" by (rule in_stateE)
  let ?out = "Process C st from msg (msm_data m)"
  have "handler_ranked C st ?out" using assms(4) s(2,3) by (simp add: ranked_def)
  note settle = ends_settle [OF assms(1) s(1,2) this]
  have keeps: "keeps rec" using assms(1) by (simp add: good_def)
  show ?thesis
  proof (cases "settle rec ?out m")
    case (Inl f)
    with settle show ?thesis by (auto simp: msm_ProcessData_def s(4) intro: ends_Inl)
  next
    case (Inr x)
    obtain m' res where x: "x = (m', res)" by (cases x)
    have st': "stored m' \<le> stored m" using settle Inr x by auto
    have "settled (m', res)" using settle_keeps [OF keeps s(1,2) process_ok [OF s(2,3)]] Inr x by (auto dest: postD)
    then have "ends (Suc (stored m)) (ResultProcessor rec C pr m')"
      if "res = Some pr" "pr \<noteq> StoreMessage" for pr
      using ends_mono [OF ends_result [OF assms(1), of m' pr]] st' assms(3) that by auto
    with st' Inr x show ?thesis
      by (auto simp: msm_ProcessData_def s(4) split: option.split intro!: ends_intros)
  qed
qed

lemma ends_again_aux:
  assumes "good n rec" and "ranked C I N rank R" and "in_state m" and "length msgs + stored m \<le> Suc n"
  shows "ends (length msgs + stored m) (foldS (\<lambda>(from, msg). msm_ProcessData rec C from msg) msgs m)"
  using assms(3,4)
proof (induction msgs arbitrary: m)
  case (Cons x msgs)
  obtain "from" msg where x: "x = (from, msg)" by (cases x)
  have "ends (Suc (stored m)) (msm_ProcessData rec C from msg m)"
    using Cons.prems assms(1,2) by (intro ends_process) auto
  moreover have "ends (length (x # msgs) + stored m) (foldS (\<lambda>(from, msg). msm_ProcessData rec C from msg) msgs m')"
    if "stored m' \<le> Suc (stored m)" "msm_ProcessData rec C from msg m = Inr m'" for m'
  proof -
    have "in_state m'"
      using process_keeps [of rec m "from" msg] assms(1) Cons.prems(1) that(2) by (auto simp: good_def dest: postD)
    with Cons.IH [of m'] Cons.prems that(1) show ?thesis by (auto intro: ends_mono)
  qed
  ultimately show ?case unfolding x by (simp del: add_Suc) (rule ends_bindS)
qed (simp add: ends_Inr)

lemma ends_again:
  assumes "ranked C I N rank R" and "in_state m" and "msm_storage m \<noteq> [] \<Longrightarrow> good (stored m - 1) rec"
  shows "ends (stored m) (process_again rec C m)"
proof (cases "msm_storage m = []")
  case False
  have "in_state (m\<lparr>msm_storage := []\<rparr>)" using assms(2) by (simp add: in_state_def)
  from ends_again_aux [OF assms(3) [OF False] assms(1) this, of "msm_storage m"] False show ?thesis
    by (cases "msm_storage m") (simp_all add: process_again_def)
qed (simp add: process_again_def ends_Inr)

text \<open>The message an \<^verbatim>\<open>Init\<close> sends to its own node: at most one transition to a lower state.\<close>

lemma ends_mild:
  assumes "msm_cstate m = Some s" and "mc_states C s = Some st" and "I s (msm_data m)"
    and "mild C rank s (Process C st from msg (msm_data m))"
    and "\<And>t m'. rank t < rank s \<Longrightarrow> N t (msm_data m') \<Longrightarrow> stored m' = stored m \<Longrightarrow> ends (stored m) (rec (Enter t) m')"
  shows "ends (stored m) (msm_ProcessData rec C from msg m)"
proof (cases "Process C st from msg (msm_data m)")
  case (Ret d pr)
  have "N (next_state C s) d" if "pr = NextState"
    using process_ok [OF assms(2,3), of "from" msg] Ret that by simp
  with assms Ret id_ok [OF assms(2)] show ?thesis
    by (auto simp: msm_ProcessData_def GetCurrentState_def ResultProcessor_def msm_StateComplete_def intro!: ends_Inr)
qed (use assms in \<open>auto simp: msm_ProcessData_def GetCurrentState_def intro: ends_intros\<close>)

lemma good_run:
  assumes "\<And>t m. N t (msm_data m) \<Longrightarrow> stored m \<le> n \<Longrightarrow> ends (stored m) (run (Suc k) C (Enter t) m)"
  shows "good n (run (Suc k) C)"
proof -
  have "ends (stored m) (run (Suc k) C (Receive from msg) m)"
    if "GetCurrentState C m = Inr st" "calm C st (msm_data m) (from, msg)" for m st "from" msg
    using that by (auto simp: calm_def msm_ProcessData_def ResultProcessor_def intro: ends_intros)
  with assms run_keeps [of "Suc k"] show ?thesis unfolding good_def by blast
qed

lemma run_ends:
  assumes "ranked C I N rank R" and "N t (msm_data m)"
    and "stored m * (2 * R + 3) + 2 * rank t + 1 < k"
  shows "ends (stored m) (run k C (Enter t) m)"
  using assms(2,3)
proof (induction k arbitrary: t m rule: less_induct)
  case (less k)
  let ?n = "stored m" and ?W = "2 * R + 3"
  from less.prems(2) have "Suc 0 < k" by simp
  then obtain j where k: "k = Suc (Suc j)" by (cases k; cases "k - 1") auto
  have rank_le: "rank u \<le> R" for u using assms(1) by (simp add: ranked_def)
  have lower: "ends ?n (run i C (Enter u) m')"
    if "rank u < rank t" "N u (msm_data m')" "stored m' = ?n" "i = j \<or> i = Suc j" for u m' i
    using less.IH [of i u m'] less.prems(2) that k by auto
  have good: "good (n - 1) (run (Suc j) C)" if "0 < n" "n \<le> ?n" for n
  proof (rule good_run)
    fix u and m' :: "('d, 'm) state_machine" assume N: "N u (msm_data m')" and le: "stored m' \<le> n - 1"
    have "Suc (stored m') * ?W \<le> ?n * ?W" using le that by (intro mult_le_mono1) simp
    then have "stored m' * ?W + ?W \<le> ?n * ?W" by simp
    with less.prems(2) rank_le [of u] k have "stored m' * ?W + 2 * rank u + 1 < Suc j" by linarith
    with N k show "ends (stored m') (run (Suc j) C (Enter u) m')" by (intro less.IH) auto
  qed
  show ?case
  proof (cases "mc_states C t")
    case None
    then show ?thesis by (simp add: k SetNewState_def ends_Inl)
  next
    case (Some st)
    define d where "d = sc_new st (msm_data m)"
    let ?m = "m\<lparr>msm_cstate := Some t, msm_data := d\<rparr>"
    have init: "init_ranked C rank st t (sc_init st d)" "outcome_ok C I N st t (sc_init st d)"
      using assms(1) Some less.prems(1) enter_ok [OF Some less.prems(1)] by (simp_all add: ranked_def d_def)
    have first: "ends ?n (process_outcome (run (Suc j) C) C (sc_init st d) ?m)"
    proof (cases "sc_init st d")
      case (Ret d' pr)
      with init id_ok [OF Some] Some show ?thesis
        by (cases pr) (auto simp: process_outcome_def ResultProcessor_def msm_StateComplete_def
            GetCurrentState_def simp del: run.simps intro!: ends_intros lower)
    next
      case (Loopback d' msgs res)
      have self: "ends ?n (run (Suc j) C (Receive from msg) (?m\<lparr>msm_data := d'\<rparr>))" if "(from, msg) \<in> set msgs" for "from" msg
      proof -
        have "I t d'" using init(2) Loopback init(1) by auto
        with that init(1) Loopback Some show ?thesis
          by (auto intro!: lower ends_mild [where s = t and rank = rank and m = "?m\<lparr>msm_data := d'\<rparr>", simplified])
      qed
      have "ends ?n (deliver (run (Suc j) C) msgs (?m\<lparr>msm_data := d'\<rparr>))"
        using self init(1) Loopback
        by (cases msgs) (auto simp: deliver_def intro!: ends_intros ends_bindS)
      then show ?thesis
        using init(1) Loopback
        by (cases "deliver (run (Suc j) C) msgs (?m\<lparr>msm_data := d'\<rparr>)")
          (auto simp: process_outcome_def ResultProcessor_def ends_def)
    qed (use init(1) in \<open>auto simp: process_outcome_def intro: ends_intros\<close>)
    have "in_state m'" if "process_outcome (run (Suc j) C) C (sc_init st d) ?m = Inr m'" for m'
      by (rule postD [OF outcome_keeps [OF run_keeps _ Some init(2)] that]) simp
    then have "ends ?n (process_again (run (Suc j) C) C m')"
      if "stored m' \<le> ?n" "process_outcome (run (Suc j) C) C (sc_init st d) ?m = Inr m'" for m'
      using ends_mono [OF ends_again [OF assms(1), of m' "run (Suc j) C"] that(1)] good [of "stored m'"] that
      by auto
    with first show ?thesis
      unfolding k run.simps(2) [of "Suc j"] call.case SetNewState_def Some option.case Let_def d_def [symmetric]
      by (rule ends_bindS)
  qed
qed

lemma run_good:
  assumes "ranked C I N rank R" and "Suc n * (2 * R + 3) \<le> k"
  shows "good n (run k C)"
proof -
  from assms(2) obtain j where k: "k = Suc j" by (cases k) auto
  have "ends (stored m) (run (Suc j) C (Enter t) m)" if "N t (msm_data m)" "stored m \<le> n" for t m
  proof -
    have "Suc (stored m) * (2 * R + 3) \<le> Suc n * (2 * R + 3)" using that(2) by (intro mult_le_mono1) simp
    with assms(2) have "Suc (stored m) * (2 * R + 3) \<le> k" by (rule order.trans [rotated])
    then have "stored m * (2 * R + 3) + (2 * R + 3) \<le> k" by simp
    moreover have "rank t \<le> R" using assms(1) by (simp add: ranked_def)
    ultimately have "stored m * (2 * R + 3) + 2 * rank t + 1 < Suc j" using k by linarith
    with assms(1) that(1) show ?thesis by (intro run_ends)
  qed
  then show ?thesis unfolding k by (rule good_run)
qed

lemma events_end:
  assumes "ranked C I N rank R" and "in_state m" and "Suc (stored m) * (2 * R + 3) < k"
  shows "msm_ProcessData (run k C) C from msg m \<noteq> Inl Loops"
    and "(\<And>s st. mc_states C s = Some st \<Longrightarrow> I s (msm_data m) \<Longrightarrow> event_ranked I s (sc_connection st i (msm_data m))) \<Longrightarrow>
      msm_HandleConnection (run k C) C i m \<noteq> Inl Loops"
    and "(\<And>s st. mc_states C s = Some st \<Longrightarrow> I s (msm_data m) \<Longrightarrow> event_ranked I s (sc_disconnection st i (msm_data m))) \<Longrightarrow>
      msm_HandleDisconnection (run k C) C i m \<noteq> Inl Loops"
    and "settled (m, Some pr) \<Longrightarrow> pr \<noteq> StoreMessage \<Longrightarrow> ResultProcessor (run k C) C pr m \<noteq> Inl Loops"
proof -
  from assms(3) obtain j where k: "k = Suc j" by (cases k) auto
  note g = run_good [OF assms(1), of "stored m" k] and g' = run_good [OF assms(1), of "stored m" j]
  show "msm_ProcessData (run k C) C from msg m \<noteq> Inl Loops"
    using ends_process [OF g assms(2) _ assms(1)] assms(3) by (simp add: ends_def)
  show "ResultProcessor (run k C) C pr m \<noteq> Inl Loops" if "settled (m, Some pr)" "pr \<noteq> StoreMessage"
    using ends_result [OF g that(1) _ that(2)] assms(3) by (simp add: ends_def)
  from assms(2) obtain s st where s: "msm_cstate m = Some s" "mc_states C s = Some st" "I s (msm_data m)"
    "GetCurrentState C m = Inr st" by (rule in_stateE)
  have out: "process_outcome (run k C) C out m \<noteq> Inl Loops"
    if ok: "outcome_ok C I N st s out" and rk: "event_ranked I s out" for out
  proof (cases out)
    case (Ret d pr)
    with ok s have "settled (m\<lparr>msm_data := d\<rparr>, Some pr)" by (auto simp: settled_def)
    with ends_result [OF g this] assms(3) Ret show ?thesis
      by (cases "pr = StoreMessage") (auto simp: process_outcome_def ends_def ResultProcessor_def [of _ _ StoreMessage])
  next
    case (Loopback d msgs res)
    with rk s have "in_state (m\<lparr>msm_data := d\<rparr>)" by (auto simp: in_state_def)
    then have "run k C (Receive from msg) (m\<lparr>msm_data := d\<rparr>) \<noteq> Inl Loops" for "from" msg
      using ends_process [OF g' _ _ assms(1), of "m\<lparr>msm_data := d\<rparr>"] assms(3) k by (simp add: ends_def)
    with rk Loopback show ?thesis
      by (cases msgs) (auto simp: process_outcome_def deliver_def ResultProcessor_def fault_simps split: prod.splits)
  qed (use rk in \<open>auto simp: process_outcome_def\<close>)
  show "msm_HandleConnection (run k C) C i m \<noteq> Inl Loops"
    if "\<And>s st. mc_states C s = Some st \<Longrightarrow> I s (msm_data m) \<Longrightarrow> event_ranked I s (sc_connection st i (msm_data m))"
    using out [OF connection_ok [OF s(2,3)] that [OF s(2,3)]] s(1,4) by (simp add: msm_HandleConnection_def)
  show "msm_HandleDisconnection (run k C) C i m \<noteq> Inl Loops"
    if "\<And>s st. mc_states C s = Some st \<Longrightarrow> I s (msm_data m) \<Longrightarrow> event_ranked I s (sc_disconnection st i (msm_data m))"
    using out [OF disconnection_ok [OF s(2,3)] that [OF s(2,3)]] s(1,4) by (simp add: msm_HandleDisconnection_def)
qed

end

end
