(* ===== verification/ServerSession_Inv.thy ===== *)
theory ServerSession_Inv
  imports ServerSession MachineTermination
begin

text \<open>
  The invariant of a server session: what a server has collected and checked when it is in a given
  state.  \<open>srv_I\<close> holds in a state, \<open>srv_N\<close> when it is entered; the methods of every state keep them,
  so that \<open>server_class\<close> satisfies \<open>state_contract\<close>.
\<close>

section \<open>What has been collected\<close>

definition enlist_ok :: "'r sess_config \<Rightarrow> server_init \<Rightarrow> peer \<Rightarrow> server_enlist \<Rightarrow> bool" where
  "enlist_ok cf init i e \<longleftrightarrow> IsServer cf i \<and> se_peer e = i \<and> msg_packet (se_init e) = msg_packet init
     \<and> signed_by cf i (msg_payload e) (msg_signature e) \<and> (\<exists>k. se_key e = Some k \<and> ak_valid k)"

definition enlists_ok :: "'r sess_config \<Rightarrow> 'r server_state \<Rightarrow> (peer, server_enlist) qmap \<Rightarrow> bool" where
  "enlists_ok cf d M \<longleftrightarrow> qmap_wf M \<and> (\<exists>init. m_init d = Some init \<and> (\<forall>(i, e) \<in> set M. enlist_ok cf init i e))"

definition member_ok :: "'r sess_config \<Rightarrow> bytes \<Rightarrow> peer \<Rightarrow> member_msg \<Rightarrow> bool" where
  "member_ok cf round_id i a \<longleftrightarrow> mm_peer a = i \<and> mm_round_id a = round_id
     \<and> signed_by cf i (msg_payload a) (msg_signature a) \<and> (\<exists>k. mm_key a = Some k \<and> ak_valid k)"

text \<open>An agree message repeats the key and the public Diffie-Hellman value of the enlistment.\<close>

definition repeats :: "server_enlist \<Rightarrow> server_agree \<Rightarrow> bool" where
  "repeats e a \<longleftrightarrow> se_peer e = mm_peer a \<and> se_optional e = mm_optional a
     \<and> (\<exists>k l. se_key e = Some k \<and> mm_key a = Some l \<and> ak_bytes k = ak_bytes l)"

definition agrees_ok :: "'r sess_config \<Rightarrow> 'r server_state \<Rightarrow> (peer, server_agree) qmap \<Rightarrow> bool" where
  "agrees_ok cf d M \<longleftrightarrow> qmap_wf M \<and> (\<forall>(i, a) \<in> set M. IsServer cf i \<and> member_ok cf (m_round_id d) i a
     \<and> (\<exists>e. map_of (m_enlist_msgs d) i = Some e \<and> repeats e a))"

definition members_ok :: "'r sess_config \<Rightarrow> 'r server_state \<Rightarrow> (peer, client_register) qmap \<Rightarrow> bool" where
  "members_ok cf d M \<longleftrightarrow> qmap_wf M \<and> (\<forall>(i, c) \<in> set M. member_ok cf (m_round_id d) i c)"

definition servers_only :: "'r sess_config \<Rightarrow> (peer, 'v) qmap \<Rightarrow> bool" where
  "servers_only cf M \<longleftrightarrow> qmap_wf M \<and> qmap_dom M \<subseteq> set (cf_servers cf)"

definition list_hash :: "'r sess_config \<Rightarrow> client_register list \<Rightarrow> bytes" where
  "list_hash cf cs = cf_hash cf (SerializeList (cf_qds cf) cs)"

definition verifies_ok :: "'r sess_config \<Rightarrow> 'r server_state \<Rightarrow> (peer, bytes) qmap \<Rightarrow> bool" where
  "verifies_ok cf d M \<longleftrightarrow> servers_only cf M \<and> (\<forall>(i, s) \<in> set M. signed_by cf i (list_hash cf (m_client_list d)) s)"

definition full :: "'r sess_config \<Rightarrow> (peer, 'v) qmap \<Rightarrow> bool" where
  "full cf M \<longleftrightarrow> length M = length (cf_servers cf)"

section \<open>Stages\<close>

definition has_init :: "'r server_state \<Rightarrow> bool" where
  "has_init d \<longleftrightarrow> m_init d \<noteq> None"

definition enlisted :: "'r sess_config \<Rightarrow> 'r server_state \<Rightarrow> bool" where
  "enlisted cf d \<longleftrightarrow> enlists_ok cf d (m_enlist_msgs d) \<and> full cf (m_enlist_msgs d) \<and> m_ephemeral_key d \<noteq> None"

definition has_round_id :: "'r sess_config \<Rightarrow> 'r server_state \<Rightarrow> bool" where
  "has_round_id cf d \<longleftrightarrow> enlisted cf d
     \<and> m_round_id d = cf_hash cf (concat (map msg_payload (qmap_vals (m_enlist_msgs d))))"

definition agreed :: "'r sess_config \<Rightarrow> 'r server_state \<Rightarrow> bool" where
  "agreed cf d \<longleftrightarrow> has_round_id cf d \<and> agrees_ok cf d (m_agree_msgs d) \<and> full cf (m_agree_msgs d)
     \<and> m_server_list d = qmap_vals (m_agree_msgs d) \<and> m_server_bytes d = SerializeList (cf_qds cf) (m_server_list d)"

definition registered :: "'r sess_config \<Rightarrow> 'r server_state \<Rightarrow> bool" where
  "registered cf d \<longleftrightarrow> agreed cf d \<and> members_ok cf d (m_registered_msgs d)"

definition listed :: "'r sess_config \<Rightarrow> 'r server_state \<Rightarrow> bool" where
  "listed cf d \<longleftrightarrow> registered cf d \<and> m_client_list d = qmap_vals (m_registered_msgs d)"

definition verified :: "'r sess_config \<Rightarrow> 'r server_state \<Rightarrow> bool" where
  "verified cf d \<longleftrightarrow> listed cf d \<and> verifies_ok cf d (m_verify d) \<and> full cf (m_verify d)"

definition srv_N :: "'r sess_config \<Rightarrow> int \<Rightarrow> 'r server_state \<Rightarrow> bool" where
  "srv_N cf t d =
     (if t = st_Enlist then has_init d
      else if t = st_Agree then enlisted cf d
      else if t = st_Registering then agreed cf d
      else if t = st_ListExchange then registered cf d
      else if t = st_VerifyList then listed cf d
      else if t = st_Communicating then verified cf d
      else True)"

definition srv_I :: "'r sess_config \<Rightarrow> int \<Rightarrow> 'r server_state \<Rightarrow> bool" where
  "srv_I cf s d =
     (if s = st_Enlist then enlists_ok cf d (l_enlist_msgs d) \<and> m_ephemeral_key d \<noteq> None
      else if s = st_Agree then has_round_id cf d \<and> agrees_ok cf d (l_agree_msgs d)
      else if s = st_Registering then agreed cf d \<and> members_ok cf d (l_registered_msgs d)
      else if s = st_ListExchange then registered cf d \<and> members_ok cf d (l_registered_msgs d)
        \<and> servers_only cf (l_list_received d)
      else if s = st_VerifyList then listed cf d \<and> l_registered d = list_hash cf (m_client_list d)
        \<and> verifies_ok cf d (l_verify d)
      else if s = st_Communicating then verified cf d \<and> m_round d \<noteq> None
      else True)"

lemma srv_N_simps [simp]:
  "srv_N cf st_Offline d" "srv_N cf st_WaitingForServers d" "srv_N cf st_Init d"
  "srv_N cf st_Enlist d = has_init d" "srv_N cf st_Agree d = enlisted cf d"
  "srv_N cf st_Registering d = agreed cf d" "srv_N cf st_ListExchange d = registered cf d"
  "srv_N cf st_VerifyList d = listed cf d" "srv_N cf st_Communicating d = verified cf d"
  by (simp_all add: srv_N_def st_defs)

lemma srv_I_simps [simp]:
  "srv_I cf st_Offline d" "srv_I cf st_WaitingForServers d" "srv_I cf st_Init d"
  "srv_I cf st_Enlist d = (enlists_ok cf d (l_enlist_msgs d) \<and> m_ephemeral_key d \<noteq> None)"
  "srv_I cf st_Agree d = (has_round_id cf d \<and> agrees_ok cf d (l_agree_msgs d))"
  "srv_I cf st_Registering d = (agreed cf d \<and> members_ok cf d (l_registered_msgs d))"
  "srv_I cf st_ListExchange d = (registered cf d \<and> members_ok cf d (l_registered_msgs d)
     \<and> servers_only cf (l_list_received d))"
  "srv_I cf st_VerifyList d = (listed cf d \<and> l_registered d = list_hash cf (m_client_list d)
     \<and> verifies_ok cf d (l_verify d))"
  "srv_I cf st_Communicating d = (verified cf d \<and> m_round d \<noteq> None)"
  by (simp_all add: srv_I_def st_defs)

lemma server_next [simp]:
  "next_state (server_class cf reason) st_Offline = st_WaitingForServers"
  "next_state (server_class cf reason) st_WaitingForServers = st_Init"
  "next_state (server_class cf reason) st_Init = st_Enlist"
  "next_state (server_class cf reason) st_Enlist = st_Agree"
  "next_state (server_class cf reason) st_Agree = st_Registering"
  "next_state (server_class cf reason) st_Registering = st_ListExchange"
  "next_state (server_class cf reason) st_ListExchange = st_VerifyList"
  "next_state (server_class cf reason) st_VerifyList = st_Communicating"
  "next_state (server_class cf reason) st_Communicating = st_WaitingForServers"
  "mc_restart (server_class cf reason) = st_WaitingForServers"
  by (simp_all add: next_state_def server_class_def server_transitions_def st_defs)

text \<open>Each stage depends on its own fields only: updates of all other fields leave it as it is.\<close>

lemmas stage_defs = has_init_def enlisted_def has_round_id_def agreed_def registered_def listed_def verified_def
  enlists_ok_def agrees_ok_def members_ok_def verifies_ok_def

lemma stage_ss_sent [simp]:
  "has_init (d\<lparr>ss_sent := x\<rparr>) = has_init d" "enlists_ok cf (d\<lparr>ss_sent := x\<rparr>) = enlists_ok cf d"
  "enlisted cf (d\<lparr>ss_sent := x\<rparr>) = enlisted cf d" "has_round_id cf (d\<lparr>ss_sent := x\<rparr>) = has_round_id cf d"
  "agrees_ok cf (d\<lparr>ss_sent := x\<rparr>) = agrees_ok cf d" "agreed cf (d\<lparr>ss_sent := x\<rparr>) = agreed cf d"
  "members_ok cf (d\<lparr>ss_sent := x\<rparr>) = members_ok cf d" "registered cf (d\<lparr>ss_sent := x\<rparr>) = registered cf d"
  "listed cf (d\<lparr>ss_sent := x\<rparr>) = listed cf d" "verifies_ok cf (d\<lparr>ss_sent := x\<rparr>) = verifies_ok cf d"
  "verified cf (d\<lparr>ss_sent := x\<rparr>) = verified cf d"
  by (simp_all add: stage_defs fun_eq_iff)

lemma stage_ss_cons [simp]:
  "has_init (d\<lparr>ss_cons := x\<rparr>) = has_init d" "enlists_ok cf (d\<lparr>ss_cons := x\<rparr>) = enlists_ok cf d"
  "enlisted cf (d\<lparr>ss_cons := x\<rparr>) = enlisted cf d" "has_round_id cf (d\<lparr>ss_cons := x\<rparr>) = has_round_id cf d"
  "agrees_ok cf (d\<lparr>ss_cons := x\<rparr>) = agrees_ok cf d" "agreed cf (d\<lparr>ss_cons := x\<rparr>) = agreed cf d"
  "members_ok cf (d\<lparr>ss_cons := x\<rparr>) = members_ok cf d" "registered cf (d\<lparr>ss_cons := x\<rparr>) = registered cf d"
  "listed cf (d\<lparr>ss_cons := x\<rparr>) = listed cf d" "verifies_ok cf (d\<lparr>ss_cons := x\<rparr>) = verifies_ok cf d"
  "verified cf (d\<lparr>ss_cons := x\<rparr>) = verified cf d"
  by (simp_all add: stage_defs fun_eq_iff)

lemma stage_ss_draws [simp]:
  "has_init (d\<lparr>ss_draws := x\<rparr>) = has_init d" "enlists_ok cf (d\<lparr>ss_draws := x\<rparr>) = enlists_ok cf d"
  "enlisted cf (d\<lparr>ss_draws := x\<rparr>) = enlisted cf d" "has_round_id cf (d\<lparr>ss_draws := x\<rparr>) = has_round_id cf d"
  "agrees_ok cf (d\<lparr>ss_draws := x\<rparr>) = agrees_ok cf d" "agreed cf (d\<lparr>ss_draws := x\<rparr>) = agreed cf d"
  "members_ok cf (d\<lparr>ss_draws := x\<rparr>) = members_ok cf d" "registered cf (d\<lparr>ss_draws := x\<rparr>) = registered cf d"
  "listed cf (d\<lparr>ss_draws := x\<rparr>) = listed cf d" "verifies_ok cf (d\<lparr>ss_draws := x\<rparr>) = verifies_ok cf d"
  "verified cf (d\<lparr>ss_draws := x\<rparr>) = verified cf d"
  by (simp_all add: stage_defs fun_eq_iff)

lemma stage_ss_stopped [simp]:
  "has_init (d\<lparr>ss_stopped := x\<rparr>) = has_init d" "enlists_ok cf (d\<lparr>ss_stopped := x\<rparr>) = enlists_ok cf d"
  "enlisted cf (d\<lparr>ss_stopped := x\<rparr>) = enlisted cf d" "has_round_id cf (d\<lparr>ss_stopped := x\<rparr>) = has_round_id cf d"
  "agrees_ok cf (d\<lparr>ss_stopped := x\<rparr>) = agrees_ok cf d" "agreed cf (d\<lparr>ss_stopped := x\<rparr>) = agreed cf d"
  "members_ok cf (d\<lparr>ss_stopped := x\<rparr>) = members_ok cf d" "registered cf (d\<lparr>ss_stopped := x\<rparr>) = registered cf d"
  "listed cf (d\<lparr>ss_stopped := x\<rparr>) = listed cf d" "verifies_ok cf (d\<lparr>ss_stopped := x\<rparr>) = verifies_ok cf d"
  "verified cf (d\<lparr>ss_stopped := x\<rparr>) = verified cf d"
  by (simp_all add: stage_defs fun_eq_iff)

lemma stage_m_last [simp]:
  "has_init (d\<lparr>m_last := x\<rparr>) = has_init d" "enlists_ok cf (d\<lparr>m_last := x\<rparr>) = enlists_ok cf d"
  "enlisted cf (d\<lparr>m_last := x\<rparr>) = enlisted cf d" "has_round_id cf (d\<lparr>m_last := x\<rparr>) = has_round_id cf d"
  "agrees_ok cf (d\<lparr>m_last := x\<rparr>) = agrees_ok cf d" "agreed cf (d\<lparr>m_last := x\<rparr>) = agreed cf d"
  "members_ok cf (d\<lparr>m_last := x\<rparr>) = members_ok cf d" "registered cf (d\<lparr>m_last := x\<rparr>) = registered cf d"
  "listed cf (d\<lparr>m_last := x\<rparr>) = listed cf d" "verifies_ok cf (d\<lparr>m_last := x\<rparr>) = verifies_ok cf d"
  "verified cf (d\<lparr>m_last := x\<rparr>) = verified cf d"
  by (simp_all add: stage_defs fun_eq_iff)

lemma stage_m_round [simp]:
  "has_init (d\<lparr>m_round := x\<rparr>) = has_init d" "enlists_ok cf (d\<lparr>m_round := x\<rparr>) = enlists_ok cf d"
  "enlisted cf (d\<lparr>m_round := x\<rparr>) = enlisted cf d" "has_round_id cf (d\<lparr>m_round := x\<rparr>) = has_round_id cf d"
  "agrees_ok cf (d\<lparr>m_round := x\<rparr>) = agrees_ok cf d" "agreed cf (d\<lparr>m_round := x\<rparr>) = agreed cf d"
  "members_ok cf (d\<lparr>m_round := x\<rparr>) = members_ok cf d" "registered cf (d\<lparr>m_round := x\<rparr>) = registered cf d"
  "listed cf (d\<lparr>m_round := x\<rparr>) = listed cf d" "verifies_ok cf (d\<lparr>m_round := x\<rparr>) = verifies_ok cf d"
  "verified cf (d\<lparr>m_round := x\<rparr>) = verified cf d"
  by (simp_all add: stage_defs fun_eq_iff)

lemma stage_m_send_queue [simp]:
  "has_init (d\<lparr>m_send_queue := x\<rparr>) = has_init d" "enlists_ok cf (d\<lparr>m_send_queue := x\<rparr>) = enlists_ok cf d"
  "enlisted cf (d\<lparr>m_send_queue := x\<rparr>) = enlisted cf d" "has_round_id cf (d\<lparr>m_send_queue := x\<rparr>) = has_round_id cf d"
  "agrees_ok cf (d\<lparr>m_send_queue := x\<rparr>) = agrees_ok cf d" "agreed cf (d\<lparr>m_send_queue := x\<rparr>) = agreed cf d"
  "members_ok cf (d\<lparr>m_send_queue := x\<rparr>) = members_ok cf d" "registered cf (d\<lparr>m_send_queue := x\<rparr>) = registered cf d"
  "listed cf (d\<lparr>m_send_queue := x\<rparr>) = listed cf d" "verifies_ok cf (d\<lparr>m_send_queue := x\<rparr>) = verifies_ok cf d"
  "verified cf (d\<lparr>m_send_queue := x\<rparr>) = verified cf d"
  by (simp_all add: stage_defs fun_eq_iff)

lemma stage_m_ephemeral_key [simp]:
  "has_init (d\<lparr>m_ephemeral_key := x\<rparr>) = has_init d" "enlists_ok cf (d\<lparr>m_ephemeral_key := x\<rparr>) = enlists_ok cf d"
  "agrees_ok cf (d\<lparr>m_ephemeral_key := x\<rparr>) = agrees_ok cf d" "members_ok cf (d\<lparr>m_ephemeral_key := x\<rparr>) = members_ok cf d"
  "verifies_ok cf (d\<lparr>m_ephemeral_key := x\<rparr>) = verifies_ok cf d"
  by (simp_all add: stage_defs fun_eq_iff)

lemma stage_m_optional_public [simp]:
  "has_init (d\<lparr>m_optional_public := x\<rparr>) = has_init d" "enlists_ok cf (d\<lparr>m_optional_public := x\<rparr>) = enlists_ok cf d"
  "enlisted cf (d\<lparr>m_optional_public := x\<rparr>) = enlisted cf d" "has_round_id cf (d\<lparr>m_optional_public := x\<rparr>) = has_round_id cf d"
  "agrees_ok cf (d\<lparr>m_optional_public := x\<rparr>) = agrees_ok cf d" "agreed cf (d\<lparr>m_optional_public := x\<rparr>) = agreed cf d"
  "members_ok cf (d\<lparr>m_optional_public := x\<rparr>) = members_ok cf d" "registered cf (d\<lparr>m_optional_public := x\<rparr>) = registered cf d"
  "listed cf (d\<lparr>m_optional_public := x\<rparr>) = listed cf d" "verifies_ok cf (d\<lparr>m_optional_public := x\<rparr>) = verifies_ok cf d"
  "verified cf (d\<lparr>m_optional_public := x\<rparr>) = verified cf d"
  by (simp_all add: stage_defs fun_eq_iff)

lemma stage_m_optional_private [simp]:
  "has_init (d\<lparr>m_optional_private := x\<rparr>) = has_init d" "enlists_ok cf (d\<lparr>m_optional_private := x\<rparr>) = enlists_ok cf d"
  "enlisted cf (d\<lparr>m_optional_private := x\<rparr>) = enlisted cf d" "has_round_id cf (d\<lparr>m_optional_private := x\<rparr>) = has_round_id cf d"
  "agrees_ok cf (d\<lparr>m_optional_private := x\<rparr>) = agrees_ok cf d" "agreed cf (d\<lparr>m_optional_private := x\<rparr>) = agreed cf d"
  "members_ok cf (d\<lparr>m_optional_private := x\<rparr>) = members_ok cf d" "registered cf (d\<lparr>m_optional_private := x\<rparr>) = registered cf d"
  "listed cf (d\<lparr>m_optional_private := x\<rparr>) = listed cf d" "verifies_ok cf (d\<lparr>m_optional_private := x\<rparr>) = verifies_ok cf d"
  "verified cf (d\<lparr>m_optional_private := x\<rparr>) = verified cf d"
  by (simp_all add: stage_defs fun_eq_iff)

lemma stage_m_round_id [simp]:
  "has_init (d\<lparr>m_round_id := x\<rparr>) = has_init d" "enlists_ok cf (d\<lparr>m_round_id := x\<rparr>) = enlists_ok cf d"
  "enlisted cf (d\<lparr>m_round_id := x\<rparr>) = enlisted cf d" "verifies_ok cf (d\<lparr>m_round_id := x\<rparr>) = verifies_ok cf d"
  by (simp_all add: stage_defs fun_eq_iff)

lemma stage_m_server_list [simp]:
  "has_init (d\<lparr>m_server_list := x\<rparr>) = has_init d" "enlists_ok cf (d\<lparr>m_server_list := x\<rparr>) = enlists_ok cf d"
  "enlisted cf (d\<lparr>m_server_list := x\<rparr>) = enlisted cf d" "has_round_id cf (d\<lparr>m_server_list := x\<rparr>) = has_round_id cf d"
  "agrees_ok cf (d\<lparr>m_server_list := x\<rparr>) = agrees_ok cf d" "members_ok cf (d\<lparr>m_server_list := x\<rparr>) = members_ok cf d"
  "verifies_ok cf (d\<lparr>m_server_list := x\<rparr>) = verifies_ok cf d"
  by (simp_all add: stage_defs fun_eq_iff)

lemma stage_m_server_bytes [simp]:
  "has_init (d\<lparr>m_server_bytes := x\<rparr>) = has_init d" "enlists_ok cf (d\<lparr>m_server_bytes := x\<rparr>) = enlists_ok cf d"
  "enlisted cf (d\<lparr>m_server_bytes := x\<rparr>) = enlisted cf d" "has_round_id cf (d\<lparr>m_server_bytes := x\<rparr>) = has_round_id cf d"
  "agrees_ok cf (d\<lparr>m_server_bytes := x\<rparr>) = agrees_ok cf d" "members_ok cf (d\<lparr>m_server_bytes := x\<rparr>) = members_ok cf d"
  "verifies_ok cf (d\<lparr>m_server_bytes := x\<rparr>) = verifies_ok cf d"
  by (simp_all add: stage_defs fun_eq_iff)

lemma stage_m_client_list [simp]:
  "has_init (d\<lparr>m_client_list := x\<rparr>) = has_init d" "enlists_ok cf (d\<lparr>m_client_list := x\<rparr>) = enlists_ok cf d"
  "enlisted cf (d\<lparr>m_client_list := x\<rparr>) = enlisted cf d" "has_round_id cf (d\<lparr>m_client_list := x\<rparr>) = has_round_id cf d"
  "agrees_ok cf (d\<lparr>m_client_list := x\<rparr>) = agrees_ok cf d" "agreed cf (d\<lparr>m_client_list := x\<rparr>) = agreed cf d"
  "members_ok cf (d\<lparr>m_client_list := x\<rparr>) = members_ok cf d" "registered cf (d\<lparr>m_client_list := x\<rparr>) = registered cf d"
  by (simp_all add: stage_defs fun_eq_iff)

lemma stage_m_enlist_msgs [simp]:
  "has_init (d\<lparr>m_enlist_msgs := x\<rparr>) = has_init d" "enlists_ok cf (d\<lparr>m_enlist_msgs := x\<rparr>) = enlists_ok cf d"
  "members_ok cf (d\<lparr>m_enlist_msgs := x\<rparr>) = members_ok cf d" "verifies_ok cf (d\<lparr>m_enlist_msgs := x\<rparr>) = verifies_ok cf d"
  by (simp_all add: stage_defs fun_eq_iff)

lemma stage_m_agree_msgs [simp]:
  "has_init (d\<lparr>m_agree_msgs := x\<rparr>) = has_init d" "enlists_ok cf (d\<lparr>m_agree_msgs := x\<rparr>) = enlists_ok cf d"
  "enlisted cf (d\<lparr>m_agree_msgs := x\<rparr>) = enlisted cf d" "has_round_id cf (d\<lparr>m_agree_msgs := x\<rparr>) = has_round_id cf d"
  "agrees_ok cf (d\<lparr>m_agree_msgs := x\<rparr>) = agrees_ok cf d" "members_ok cf (d\<lparr>m_agree_msgs := x\<rparr>) = members_ok cf d"
  "verifies_ok cf (d\<lparr>m_agree_msgs := x\<rparr>) = verifies_ok cf d"
  by (simp_all add: stage_defs fun_eq_iff)

lemma stage_m_registered_msgs [simp]:
  "has_init (d\<lparr>m_registered_msgs := x\<rparr>) = has_init d" "enlists_ok cf (d\<lparr>m_registered_msgs := x\<rparr>) = enlists_ok cf d"
  "enlisted cf (d\<lparr>m_registered_msgs := x\<rparr>) = enlisted cf d" "has_round_id cf (d\<lparr>m_registered_msgs := x\<rparr>) = has_round_id cf d"
  "agrees_ok cf (d\<lparr>m_registered_msgs := x\<rparr>) = agrees_ok cf d" "agreed cf (d\<lparr>m_registered_msgs := x\<rparr>) = agreed cf d"
  "members_ok cf (d\<lparr>m_registered_msgs := x\<rparr>) = members_ok cf d" "verifies_ok cf (d\<lparr>m_registered_msgs := x\<rparr>) = verifies_ok cf d"
  by (simp_all add: stage_defs fun_eq_iff)

lemma stage_m_verify [simp]:
  "has_init (d\<lparr>m_verify := x\<rparr>) = has_init d" "enlists_ok cf (d\<lparr>m_verify := x\<rparr>) = enlists_ok cf d"
  "enlisted cf (d\<lparr>m_verify := x\<rparr>) = enlisted cf d" "has_round_id cf (d\<lparr>m_verify := x\<rparr>) = has_round_id cf d"
  "agrees_ok cf (d\<lparr>m_verify := x\<rparr>) = agrees_ok cf d" "agreed cf (d\<lparr>m_verify := x\<rparr>) = agreed cf d"
  "members_ok cf (d\<lparr>m_verify := x\<rparr>) = members_ok cf d" "registered cf (d\<lparr>m_verify := x\<rparr>) = registered cf d"
  "listed cf (d\<lparr>m_verify := x\<rparr>) = listed cf d" "verifies_ok cf (d\<lparr>m_verify := x\<rparr>) = verifies_ok cf d"
  by (simp_all add: stage_defs fun_eq_iff)

lemma stage_l_enlist_msgs [simp]:
  "has_init (d\<lparr>l_enlist_msgs := x\<rparr>) = has_init d" "enlists_ok cf (d\<lparr>l_enlist_msgs := x\<rparr>) = enlists_ok cf d"
  "enlisted cf (d\<lparr>l_enlist_msgs := x\<rparr>) = enlisted cf d" "has_round_id cf (d\<lparr>l_enlist_msgs := x\<rparr>) = has_round_id cf d"
  "agrees_ok cf (d\<lparr>l_enlist_msgs := x\<rparr>) = agrees_ok cf d" "agreed cf (d\<lparr>l_enlist_msgs := x\<rparr>) = agreed cf d"
  "members_ok cf (d\<lparr>l_enlist_msgs := x\<rparr>) = members_ok cf d" "registered cf (d\<lparr>l_enlist_msgs := x\<rparr>) = registered cf d"
  "listed cf (d\<lparr>l_enlist_msgs := x\<rparr>) = listed cf d" "verifies_ok cf (d\<lparr>l_enlist_msgs := x\<rparr>) = verifies_ok cf d"
  "verified cf (d\<lparr>l_enlist_msgs := x\<rparr>) = verified cf d"
  by (simp_all add: stage_defs fun_eq_iff)

lemma stage_l_agree_msgs [simp]:
  "has_init (d\<lparr>l_agree_msgs := x\<rparr>) = has_init d" "enlists_ok cf (d\<lparr>l_agree_msgs := x\<rparr>) = enlists_ok cf d"
  "enlisted cf (d\<lparr>l_agree_msgs := x\<rparr>) = enlisted cf d" "has_round_id cf (d\<lparr>l_agree_msgs := x\<rparr>) = has_round_id cf d"
  "agrees_ok cf (d\<lparr>l_agree_msgs := x\<rparr>) = agrees_ok cf d" "agreed cf (d\<lparr>l_agree_msgs := x\<rparr>) = agreed cf d"
  "members_ok cf (d\<lparr>l_agree_msgs := x\<rparr>) = members_ok cf d" "registered cf (d\<lparr>l_agree_msgs := x\<rparr>) = registered cf d"
  "listed cf (d\<lparr>l_agree_msgs := x\<rparr>) = listed cf d" "verifies_ok cf (d\<lparr>l_agree_msgs := x\<rparr>) = verifies_ok cf d"
  "verified cf (d\<lparr>l_agree_msgs := x\<rparr>) = verified cf d"
  by (simp_all add: stage_defs fun_eq_iff)

lemma stage_l_registered_msgs [simp]:
  "has_init (d\<lparr>l_registered_msgs := x\<rparr>) = has_init d" "enlists_ok cf (d\<lparr>l_registered_msgs := x\<rparr>) = enlists_ok cf d"
  "enlisted cf (d\<lparr>l_registered_msgs := x\<rparr>) = enlisted cf d" "has_round_id cf (d\<lparr>l_registered_msgs := x\<rparr>) = has_round_id cf d"
  "agrees_ok cf (d\<lparr>l_registered_msgs := x\<rparr>) = agrees_ok cf d" "agreed cf (d\<lparr>l_registered_msgs := x\<rparr>) = agreed cf d"
  "members_ok cf (d\<lparr>l_registered_msgs := x\<rparr>) = members_ok cf d" "registered cf (d\<lparr>l_registered_msgs := x\<rparr>) = registered cf d"
  "listed cf (d\<lparr>l_registered_msgs := x\<rparr>) = listed cf d" "verifies_ok cf (d\<lparr>l_registered_msgs := x\<rparr>) = verifies_ok cf d"
  "verified cf (d\<lparr>l_registered_msgs := x\<rparr>) = verified cf d"
  by (simp_all add: stage_defs fun_eq_iff)

lemma stage_l_list_received [simp]:
  "has_init (d\<lparr>l_list_received := x\<rparr>) = has_init d" "enlists_ok cf (d\<lparr>l_list_received := x\<rparr>) = enlists_ok cf d"
  "enlisted cf (d\<lparr>l_list_received := x\<rparr>) = enlisted cf d" "has_round_id cf (d\<lparr>l_list_received := x\<rparr>) = has_round_id cf d"
  "agrees_ok cf (d\<lparr>l_list_received := x\<rparr>) = agrees_ok cf d" "agreed cf (d\<lparr>l_list_received := x\<rparr>) = agreed cf d"
  "members_ok cf (d\<lparr>l_list_received := x\<rparr>) = members_ok cf d" "registered cf (d\<lparr>l_list_received := x\<rparr>) = registered cf d"
  "listed cf (d\<lparr>l_list_received := x\<rparr>) = listed cf d" "verifies_ok cf (d\<lparr>l_list_received := x\<rparr>) = verifies_ok cf d"
  "verified cf (d\<lparr>l_list_received := x\<rparr>) = verified cf d"
  by (simp_all add: stage_defs fun_eq_iff)

lemma stage_l_verify [simp]:
  "has_init (d\<lparr>l_verify := x\<rparr>) = has_init d" "enlists_ok cf (d\<lparr>l_verify := x\<rparr>) = enlists_ok cf d"
  "enlisted cf (d\<lparr>l_verify := x\<rparr>) = enlisted cf d" "has_round_id cf (d\<lparr>l_verify := x\<rparr>) = has_round_id cf d"
  "agrees_ok cf (d\<lparr>l_verify := x\<rparr>) = agrees_ok cf d" "agreed cf (d\<lparr>l_verify := x\<rparr>) = agreed cf d"
  "members_ok cf (d\<lparr>l_verify := x\<rparr>) = members_ok cf d" "registered cf (d\<lparr>l_verify := x\<rparr>) = registered cf d"
  "listed cf (d\<lparr>l_verify := x\<rparr>) = listed cf d" "verifies_ok cf (d\<lparr>l_verify := x\<rparr>) = verifies_ok cf d"
  "verified cf (d\<lparr>l_verify := x\<rparr>) = verified cf d"
  by (simp_all add: stage_defs fun_eq_iff)

lemma stage_l_registered [simp]:
  "has_init (d\<lparr>l_registered := x\<rparr>) = has_init d" "enlists_ok cf (d\<lparr>l_registered := x\<rparr>) = enlists_ok cf d"
  "enlisted cf (d\<lparr>l_registered := x\<rparr>) = enlisted cf d" "has_round_id cf (d\<lparr>l_registered := x\<rparr>) = has_round_id cf d"
  "agrees_ok cf (d\<lparr>l_registered := x\<rparr>) = agrees_ok cf d" "agreed cf (d\<lparr>l_registered := x\<rparr>) = agreed cf d"
  "members_ok cf (d\<lparr>l_registered := x\<rparr>) = members_ok cf d" "registered cf (d\<lparr>l_registered := x\<rparr>) = registered cf d"
  "listed cf (d\<lparr>l_registered := x\<rparr>) = listed cf d" "verifies_ok cf (d\<lparr>l_registered := x\<rparr>) = verifies_ok cf d"
  "verified cf (d\<lparr>l_registered := x\<rparr>) = verified cf d"
  by (simp_all add: stage_defs fun_eq_iff)

lemma srv_I_sent [simp]: "srv_I cf s (d\<lparr>ss_sent := x\<rparr>) = srv_I cf s d"
  by (simp add: srv_I_def)

lemma srv_I_last [simp]: "srv_I cf s (d\<lparr>m_last := x\<rparr>) = srv_I cf s d"
  by (simp add: srv_I_def)

lemma srv_I_cons [simp]: "srv_I cf s (d\<lparr>ss_cons := x\<rparr>) = srv_I cf s d"
  by (simp add: srv_I_def)

section \<open>Dictionaries\<close>

lemma qmap_set_insert: "x \<in> set (qmap_insert k v m) \<Longrightarrow> x = (k, v) \<or> x \<in> set m"
  by (induction k v m rule: qmap_insert.induct) (auto split: if_splits)

lemma qmap_length_insert: "k \<notin> qmap_dom m \<Longrightarrow> length (qmap_insert k v m) = Suc (length m)"
  by (induction k v m rule: qmap_insert.induct) auto

lemma qmap_card: "qmap_wf m \<Longrightarrow> card (qmap_dom m) = length m"
  unfolding qmap_dom_def using strict_sorted_iff [of "map fst m"] by (metis distinct_card length_map)

text \<open>A dictionary over the servers with as many entries as servers has one for each of them.\<close>

lemma full_dom:
  assumes "qmap_wf M" and "qmap_dom M \<subseteq> set (cf_servers cf)" and "full cf M"
  shows "qmap_dom M = set (cf_servers cf)"
  using assms card_length [of "cf_servers cf"] card_mono [of "set (cf_servers cf)" "qmap_dom M"]
  by (intro card_subset_eq) (simp_all add: full_def qmap_card)

lemma le_full:
  assumes "qmap_wf M" and "qmap_dom M \<subseteq> set (cf_servers cf)"
  shows "length M \<le> length (cf_servers cf)"
  using assms card_length [of "cf_servers cf"] card_mono [of "set (cf_servers cf)" "qmap_dom M"]
  by (simp add: qmap_card)

lemma enlists_dom: "enlists_ok cf d M \<Longrightarrow> qmap_dom M \<subseteq> set (cf_servers cf)"
  by (auto simp: enlists_ok_def enlist_ok_def IsServer_def qmap_dom_def)

lemma enlists_wf: "enlists_ok cf d M \<Longrightarrow> qmap_wf M"
  by (simp add: enlists_ok_def)

lemma all_insert:
  "(\<forall>(i, v) \<in> set M. P i v) \<Longrightarrow> P k x \<Longrightarrow> (\<forall>(i, v) \<in> set (qmap_insert k x M). P i v)"
  by (auto dest!: qmap_set_insert)

section \<open>Every method keeps the invariant\<close>

abbreviation srv_ok ::
    "'r sess_config \<Rightarrow> (peer \<Rightarrow> string) \<Rightarrow> ('r server_state, session_msg) state_class \<Rightarrow> int \<Rightarrow> 'r srv_outcome \<Rightarrow> bool" where
  "srv_ok cf reason \<equiv> outcome_ok (server_class cf reason) (srv_I cf) (srv_N cf)"

lemma ok_store: "srv_I cf s d \<Longrightarrow> srv_ok cf reason st s (store from msg d)"
  by (simp add: store_def)

lemma ok_disconnection: "srv_I cf s d \<Longrightarrow> srv_ok cf reason st s (DefaultHandleDisconnection cf reason' i d)"
  unfolding DefaultHandleDisconnection_def Let_def
  by (auto simp: sends intro!: ok_checked ok_mk_stay)

text \<open>The proposer gets its own copy of the stop, which it recognises as the last one.\<close>

lemma stop_again:
  "m_last d = cf_hash cf (msg_packet stop) \<Longrightarrow> srv_stop cf from (MServerStop stop) d = Ret d NoChange"
  by (simp add: srv_stop_def DefaultHandleServerStop_def)

lemma ok_stop:
  assumes "srv_I cf s d" and "sc_handlers st 9 = Some (srv_stop cf)" and "sc_msg_type st \<noteq> 9"
  shows "srv_ok cf reason st s (srv_stop cf from msg d)"
proof (cases msg)
  case (MServerStop stop)
  let ?d = "d\<lparr>m_last := cf_hash cf (msg_packet stop)\<rparr>"
  have quiet: "quiet (server_class cf reason) st d' (Some i, msg)"
    if "m_last d' = cf_hash cf (msg_packet stop)" for d' i
    using that assms(2,3) by (simp add: quiet_def Process_def server_class_def MServerStop stop_again)
  show ?thesis
    using assms(1)
    by (auto simp: srv_stop_def DefaultHandleServerStop_def MServerStop Let_def
        intro!: ok_checked ok_mk_quiet dest!: to_self_in)
      (auto simp: MServerStop [symmetric] sends intro!: quiet)
qed (simp_all add: srv_stop_def DefaultHandleServerStop_def)

lemma ok_round:
  "verified cf d \<Longrightarrow> srv_ok cf reason st st_Communicating (call_round cf f d)"
  by (auto simp: call_round_def HandleRoundFinished_def RoundFinished_def Let_def
      split: option.split sum.split prod.split)

lemma ok_Comm_Init: "verified cf d \<Longrightarrow> srv_ok cf reason st st_Communicating (Comm_Init cf d)"
  unfolding Comm_Init_def Let_def by (intro ok_round) (simp add: sends NextRound_def)

lemma ok_Comm_ProcessPacket:
  "srv_I cf st_Communicating d \<Longrightarrow> srv_ok cf reason st st_Communicating (Comm_ProcessPacket cf from msg d)"
  by (auto simp: Comm_ProcessPacket_def split: session_msg.split option.split intro!: ok_round)

lemma ok_Waiting_Init: "srv_ok cf reason st st_WaitingForServers (Waiting_Init cf d)"
  by (simp add: Waiting_Init_def Let_def)

lemma ok_Init_Init: "srv_ok cf reason st st_Init (Init_Init cf d)"
  unfolding Init_Init_def Let_def by (rule ok_checked) (simp_all add: sends has_init_def)

lemma ok_Init_ProcessPacket: "srv_ok cf reason st st_Init (Init_ProcessPacket cf from msg d)"
  unfolding Init_ProcessPacket_def Let_def
  by (auto split: session_msg.split option.split intro!: ok_checked simp: has_init_def)

lemma ok_Enlist_Init:
  assumes "has_init d"
  shows "srv_ok cf reason st st_Enlist (Enlist_Init cf (d\<lparr>l_enlist_msgs := []\<rparr>))"
proof -
  let ?d = "GenerateRoundData cf (d\<lparr>l_enlist_msgs := []\<rparr>)"
  from assms have "srv_I cf st_Enlist ?d"
    by (auto simp: GenerateRoundData_def has_init_def enlists_ok_def Let_def split: prod.split)
  then show ?thesis
    unfolding Enlist_Init_def Let_def
    by (cases "m_init ?d"; cases "m_ephemeral_key ?d") (auto simp: SendNotification_more intro!: ok_checked ok_mk_stay)
qed

lemma ok_Agree_Init:
  assumes "enlisted cf d"
  shows "srv_ok cf reason st st_Agree (Agree_Init cf (d\<lparr>l_agree_msgs := []\<rparr>))"
proof -
  have "srv_I cf st_Agree (d\<lparr>l_agree_msgs := [], m_round_id := cf_hash cf (concat (map msg_payload (qmap_vals (m_enlist_msgs d))))\<rparr>)"
    using assms by (simp add: has_round_id_def agrees_ok_def)
  then show ?thesis
    unfolding Agree_Init_def Let_def by (auto simp: notify_all_sent split: option.split intro!: ok_mk_stay)
qed

lemma ok_Registering_Init:
  "agreed cf d \<Longrightarrow> srv_ok cf reason st st_Registering (Registering_Init cf (d\<lparr>l_registered_msgs := []\<rparr>))"
  by (simp add: Registering_Init_def notify_all_sent members_ok_def)

lemma ok_ListExchange_Init:
  "registered cf d \<Longrightarrow> srv_ok cf reason st st_ListExchange (ListExchange_Init cf (d\<lparr>l_list_received := [], l_registered_msgs := []\<rparr>))"
  unfolding ListExchange_Init_def Let_def
  by (intro ok_mk_stay) (simp add: notify_all_sent servers_only_def registered_def)

lemma ok_VerifyList_Init:
  "listed cf d \<Longrightarrow> srv_ok cf reason st st_VerifyList (VerifyList_Init cf (d\<lparr>l_verify := [], l_registered := []\<rparr>))"
  unfolding VerifyList_Init_def Let_def
  by (intro ok_mk_stay) (simp add: notify_all_sent servers_only_def list_hash_def verifies_ok_def)

lemma ok_Agree_ProcessPacket:
  assumes "srv_I cf st_Agree d"
  shows "srv_ok cf reason st st_Agree (Agree_ProcessPacket cf from msg d)"
proof (cases msg)
  case (MServerAgree agree)
  let ?M = "qmap_insert (mm_peer agree) agree (l_agree_msgs d)"
  have "agrees_ok cf d ?M" if "IsServer cf (mm_peer agree)" "CheckServerAgree cf agree (m_round_id d) = Passes ()"
      "matches_enlist d agree = Passes ()"
  proof -
    from that(3) have "\<exists>e. map_of (m_enlist_msgs d) (mm_peer agree) = Some e \<and> repeats e agree"
      by (auto simp: matches_enlist_def repeats_def same_keys_def split: option.splits)
    with that assms show ?thesis
      unfolding agrees_ok_def
      by (intro conjI all_insert) (auto simp: agrees_ok_def member_ok_def CheckServerAgree_Passes)
  qed
  with assms show ?thesis
    unfolding Agree_ProcessPacket_def MServerAgree session_msg.case Let_def
    by (intro ok_checked) (auto simp: SetServers_def full_def agreed_def)
qed (simp_all add: Agree_ProcessPacket_def)

lemma CheckClientRegister_Passes:
  "CheckClientRegister cf d clr = Passes u \<longleftrightarrow> member_ok cf (m_round_id d) (mm_peer clr) clr"
  by (auto simp: CheckClientRegister_def member_ok_def)

lemma members_insert:
  "members_ok cf d M \<Longrightarrow> member_ok cf (m_round_id d) (mm_peer c) c \<Longrightarrow> members_ok cf d (qmap_insert (mm_peer c) c M)"
  unfolding members_ok_def by (intro conjI all_insert) auto

lemma members_fold:
  "members_ok cf d M \<Longrightarrow> (\<And>c. c \<in> set cs \<Longrightarrow> member_ok cf (m_round_id d) (mm_peer c) c) \<Longrightarrow>
     members_ok cf d (fold (\<lambda>c. qmap_insert (mm_peer c) c) cs M)"
  by (induction cs arbitrary: M) (auto simp: members_insert)

lemma ok_Registering_ProcessPacket:
  "srv_I cf st_Registering d \<Longrightarrow> srv_ok cf reason st st_Registering (Registering_ProcessPacket cf from msg d)"
  unfolding Registering_ProcessPacket_def
  by (auto split: session_msg.split simp: CheckClientRegister_Passes intro!: ok_checked members_insert)

lemma check_sender_Passes:
  "check_sender cf seen from = Passes remote \<longleftrightarrow> from = Some remote \<and> IsServer cf remote \<and> remote \<notin> qmap_dom seen"
  by (auto simp: check_sender_def split: option.split)

lemma servers_insert: "servers_only cf M \<Longrightarrow> IsServer cf i \<Longrightarrow> servers_only cf (qmap_insert i v M)"
  by (simp add: servers_only_def IsServer_def)

lemma ok_ListExchange_ProcessPacket:
  assumes "srv_I cf st_ListExchange d"
  shows "srv_ok cf reason st st_ListExchange (ListExchange_ProcessPacket cf from msg d)"
proof (cases msg)
  case (MServerList slist)
  have "members_ok cf d (fold (\<lambda>c. qmap_insert (mm_peer c) c) (sl_register_list slist) (l_registered_msgs d))"
    if "check_all (CheckClientRegister cf d) (sl_register_list slist) = Passes ()"
    using assms that by (intro members_fold) (auto simp: CheckClientRegister_Passes)
  moreover from assms have "agreed cf d" by (simp add: registered_def)
  ultimately show ?thesis
    using assms unfolding ListExchange_ProcessPacket_def MServerList session_msg.case Let_def
    by (intro ok_checked) (auto simp: check_sender_Passes listed_def registered_def servers_insert)
qed (simp_all add: ListExchange_ProcessPacket_def)

lemma verifies_insert:
  "verifies_ok cf d M \<Longrightarrow> IsServer cf i \<Longrightarrow> signed_by cf i (list_hash cf (m_client_list d)) x \<Longrightarrow>
     verifies_ok cf d (qmap_insert i x M)"
  unfolding verifies_ok_def by (intro conjI all_insert) (auto simp: servers_insert)

lemma ok_VerifyList_ProcessPacket:
  assumes "srv_I cf st_VerifyList d"
  shows "srv_ok cf reason st st_VerifyList (VerifyList_ProcessPacket cf from msg d)"
  unfolding VerifyList_ProcessPacket_def Let_def
proof (rule ok_checked, rule assms)
  fix remote assume "check_sender cf (l_verify d) from = Passes remote"
  with assms show "srv_ok cf reason st st_VerifyList (case msg of
         MServerVerifyList vlist \<Rightarrow>
           checked (bindC (verify_by cf remote (l_registered d) (sv_signature vlist)) demand) d (\<lambda>_.
           if length (l_verify (d\<lparr>l_verify := qmap_insert remote (sv_signature vlist) (l_verify d)\<rparr>)) \<noteq> length (cf_servers cf)
           then Ret (d\<lparr>l_verify := qmap_insert remote (sv_signature vlist) (l_verify d)\<rparr>) NoChange
           else Ret (d\<lparr>l_verify := qmap_insert remote (sv_signature vlist) (l_verify d),
               m_verify := l_verify (d\<lparr>l_verify := qmap_insert remote (sv_signature vlist) (l_verify d)\<rparr>)\<rparr>) NextState)
       | _ \<Rightarrow> Abort NullPointer)"
    by (auto simp: check_sender_Passes verify_by_Passes verified_def full_def verifies_insert
        split: session_msg.split intro!: ok_checked)
qed

text \<open>Enlisting: the enlistment that completes the set is also the one that is announced.\<close>

lemma check_enlist_Passes:
  "check_enlist cf e d = Passes u \<longleftrightarrow>
     (\<exists>init. m_init d = Some init \<and> enlist_ok cf init (se_peer e) e) \<and> se_peer e \<notin> qmap_dom (l_enlist_msgs d)"
  by (auto simp: check_enlist_def enlist_ok_def split: option.splits)

definition enlisting :: "'r sess_config \<Rightarrow> 'r server_state \<Rightarrow> (sender \<times> session_msg) list \<Rightarrow> bool" where
  "enlisting cf d msgs \<longleftrightarrow> enlists_ok cf d (l_enlist_msgs d) \<and> m_ephemeral_key d \<noteq> None
     \<and> (\<forall>x \<in> set msgs. \<exists>i m. x = (Some i, MServerEnlisted m)) \<and> (msgs \<noteq> [] \<longrightarrow> full cf (l_enlist_msgs d))"

text \<open>When everyone has enlisted, no further enlistment passes.\<close>

lemma check_enlist_full:
  assumes "enlists_ok cf d (l_enlist_msgs d)" and "full cf (l_enlist_msgs d)"
  shows "check_enlist cf e d \<noteq> Passes u" and "\<not> (\<exists>f. check_enlist cf e d = Faults f)"
proof -
  have dom: "qmap_dom (l_enlist_msgs d) = set (cf_servers cf)"
    using assms enlists_dom [OF assms(1)] enlists_wf [OF assms(1)] by (intro full_dom)
  then show "check_enlist cf e d \<noteq> Passes u"
    by (auto simp: check_enlist_Passes enlist_ok_def IsServer_def)
  show "\<not> (\<exists>f. check_enlist cf e d = Faults f)"
    using assms(1) dom by (auto simp: check_enlist_def enlists_ok_def demand_def IsServer_def split: if_splits)
qed

lemma VerifyEnlist_step:
  assumes "enlisting cf d msgs" and "VerifyEnlist cf e d = Passes (d', ms, pr)"
  shows "enlisting cf d' (msgs @ ms)" and "length (l_enlist_msgs d') = Suc (length (l_enlist_msgs d))"
    and "full cf (l_enlist_msgs d') \<Longrightarrow> m_enlist_msgs d' = l_enlist_msgs d'"
    and "pr = (if full cf (l_enlist_msgs d') then NextState else NoChange)"
proof -
  let ?M = "qmap_insert (se_peer e) e (l_enlist_msgs d)"
  from assms(2) have chk: "check_enlist cf e d = Passes ()" by (auto simp: VerifyEnlist_def)
  then have new: "enlists_ok cf d ?M" and len: "length ?M = Suc (length (l_enlist_msgs d))"
    using assms(1)
    by (auto simp: check_enlist_Passes enlisting_def enlists_ok_def qmap_length_insert dest!: qmap_set_insert)
  show "length (l_enlist_msgs d') = Suc (length (l_enlist_msgs d))"
    "full cf (l_enlist_msgs d') \<Longrightarrow> m_enlist_msgs d' = l_enlist_msgs d'"
    "pr = (if full cf (l_enlist_msgs d') then NextState else NoChange)"
    using assms(2) len by (auto simp: VerifyEnlist_def full_def notify_all_sent Let_def split: if_splits)
  from check_enlist_full(1) [of cf d e] chk assms(1) have "msgs = []" by (auto simp: enlisting_def)
  then show "enlisting cf d' (msgs @ ms)"
    using assms(1,2) new
    by (auto simp: enlisting_def VerifyEnlist_def full_def notify_all_sent Let_def split: if_splits dest: to_self_in)
qed

lemma checked_quiet:
  "(\<And>x. c = Passes x \<Longrightarrow> f x \<in> {Raise d} \<union> range Abort) \<Longrightarrow> checked c d f \<in> {Raise d} \<union> range Abort"
  by (cases c) auto

lemma enlisted_again:
  assumes "enlists_ok cf d (l_enlist_msgs d)" and "full cf (l_enlist_msgs d)"
  shows "Enlist_ProcessPacket cf from (MServerEnlisted m) d \<in> {Raise d} \<union> range Abort"
proof -
  have "verify_enlists cf (sed_enlists m) d [] \<in> {Raise d} \<union> range Abort" if "sed_enlists m \<noteq> []"
  proof -
    from that obtain e es where es: "sed_enlists m = e # es" by (cases "sed_enlists m") auto
    show ?thesis
      using check_enlist_full [OF assms, of e]
      by (cases "check_enlist cf e d") (auto simp: es VerifyEnlist_def mk_outcome_def)
  qed
  then show ?thesis
    unfolding Enlist_ProcessPacket_def session_msg.case
    by (intro checked_quiet) (cases "sed_enlists m"; force simp: GetProposer_def split: list.splits)+
qed

lemma quiet_enlisted:
  assumes "enlisting cf d msgs" and "x \<in> set msgs"
    and "sc_msg_type st = 2" and "sc_packet st = Enlist_ProcessPacket cf"
  shows "quiet (server_class cf reason) st d x"
proof -
  from assms(1,2) obtain i m where x: "x = (Some i, MServerEnlisted m)" and "full cf (l_enlist_msgs d)"
    "enlists_ok cf d (l_enlist_msgs d)" by (auto simp: enlisting_def)
  with enlisted_again [of cf d "Some i" m] show ?thesis
    by (auto simp: x quiet_def Process_def server_class_def assms(3,4))
qed

lemma ok_verify_enlists:
  assumes "enlisting cf d msgs"
    and "length (cf_servers cf) \<le> length (l_enlist_msgs d) + length es"
    and "es = [] \<longrightarrow> m_enlist_msgs d = l_enlist_msgs d"
    and "sc_msg_type st = 2" and "sc_packet st = Enlist_ProcessPacket cf"
  shows "srv_ok cf reason st st_Enlist (verify_enlists cf es d msgs)"
  using assms(1-3)
proof (induction es arbitrary: d msgs)
  case Nil
  then have ok: "enlists_ok cf d (l_enlist_msgs d)" by (simp add: enlisting_def)
  have full: "full cf (l_enlist_msgs d)"
    using le_full [OF enlists_wf [OF ok] enlists_dom [OF ok]] Nil.prems by (simp add: full_def)
  with Nil ok quiet_enlisted [OF Nil.prems(1) _ assms(4,5)] show ?case
    by (auto simp: enlisting_def enlisted_def intro!: ok_mk_quiet)
next
  case (Cons e es)
  then have ok: "enlists_ok cf d (l_enlist_msgs d)" by (simp add: enlisting_def)
  have thrown: "srv_ok cf reason st st_Enlist (mk_outcome d msgs None)"
    using Cons.prems(1) quiet_enlisted [OF Cons.prems(1) _ assms(4,5)]
    by (intro ok_mk_quiet) (auto simp: enlisting_def)
  show ?case
  proof (cases "VerifyEnlist cf e d")
    case (Passes x)
    obtain d' ms pr where x: "x = (d', ms, pr)" by (cases x)
    note step = VerifyEnlist_step [OF Cons.prems(1) Passes [unfolded x]]
    have "m_enlist_msgs d' = l_enlist_msgs d'" if "es = []"
    proof -
      from step(1) have ok': "enlists_ok cf d' (l_enlist_msgs d')" by (simp add: enlisting_def)
      have "full cf (l_enlist_msgs d')"
        using le_full [OF enlists_wf [OF ok'] enlists_dom [OF ok']] Cons.prems(2) step(2) that
        by (simp add: full_def)
      then show ?thesis by (rule step(3))
    qed
    then have "srv_ok cf reason st st_Enlist (verify_enlists cf es d' (msgs @ ms))"
      using Cons.prems(2) step(1,2) by (intro Cons.IH) auto
    then show ?thesis by (simp add: Passes x)
  qed (use thrown in auto)
qed

lemma ok_Enlist_ProcessPacket:
  assumes "srv_I cf st_Enlist d"
    and "sc_msg_type st = 2" and "sc_packet st = Enlist_ProcessPacket cf"
  shows "srv_ok cf reason st st_Enlist (Enlist_ProcessPacket cf from msg d)"
proof (cases msg)
  case (MServerEnlisted m)
  show ?thesis
    unfolding Enlist_ProcessPacket_def MServerEnlisted session_msg.case
  proof (intro ok_checked assms(1))
    fix u v assume "bindC (GetProposer cf) (\<lambda>proposer. demand_signature cf proposer m) = Passes u"
      and "demand (length (cf_servers cf) = length (sed_enlists m)) = Passes v"
    then have "length (cf_servers cf) = length (sed_enlists m)" "sed_enlists m \<noteq> []"
      by (auto simp: GetProposer_def split: list.splits)
    with assms show "srv_ok cf reason st st_Enlist (verify_enlists cf (sed_enlists m) d [])"
      by (intro ok_verify_enlists) (auto simp: enlisting_def)
  qed
qed (simp_all add: Enlist_ProcessPacket_def)

lemma ok_Enlist_HandleServerEnlist:
  assumes "srv_I cf st_Enlist d"
    and "sc_msg_type st = 2" and "sc_packet st = Enlist_ProcessPacket cf"
  shows "srv_ok cf reason st st_Enlist (Enlist_HandleServerEnlist cf from msg d)"
proof -
  have "srv_ok cf reason st st_Enlist (mk_outcome d' ms (Some pr))"
    if "VerifyEnlist cf e d = Passes (d', ms, pr)" for e d' ms pr
  proof -
    from assms(1) have "enlisting cf d []" by (simp add: enlisting_def)
    note step = VerifyEnlist_step [OF this that]
    from step(1) have ok: "enlists_ok cf d' (l_enlist_msgs d')" by (simp add: enlisting_def)
    from step ok quiet_enlisted [OF step(1) _ assms(2,3)] show ?thesis
      by (intro ok_mk_quiet) (auto simp: enlisting_def enlisted_def)
  qed
  with assms(1) show ?thesis
    unfolding Enlist_HandleServerEnlist_def by (auto split: session_msg.split intro!: ok_checked)
qed

section \<open>The contract\<close>

lemma server_statesE:
  assumes "mc_states (server_class cf reason) s = Some st"
  obtains "s = st_Offline" | "s = st_WaitingForServers" | "s = st_Init" | "s = st_Enlist" | "s = st_Agree"
    | "s = st_Registering" | "s = st_ListExchange" | "s = st_VerifyList" | "s = st_Communicating"
  using assms by (auto simp: server_class_def server_states_def split: if_splits)

lemma server_state_eqs:
  "mc_states (server_class cf reason) st_Offline = Some ((session_state st_Offline (-1))\<lparr>sc_handlers := [0 \<mapsto> store, 9 \<mapsto> store]\<rparr>)"
  "mc_states (server_class cf reason) st_WaitingForServers = Some ((session_state st_WaitingForServers (-1))
      \<lparr>sc_init := Waiting_Init cf, sc_handlers := [0 \<mapsto> store, 9 \<mapsto> store],
       sc_connection := Waiting_HandleConnection cf\<rparr>)"
  "mc_states (server_class cf reason) st_Init = Some ((session_state st_Init 0)
      \<lparr>sc_init := Init_Init cf, sc_packet := Init_ProcessPacket cf, sc_handlers := [9 \<mapsto> store],
       sc_disconnection := Init_HandleDisconnection cf\<rparr>)"
  "mc_states (server_class cf reason) st_Enlist = Some ((session_state st_Enlist 2)
      \<lparr>sc_new := (\<lambda>d. d\<lparr>l_enlist_msgs := []\<rparr>), sc_init := Enlist_Init cf,
       sc_packet := Enlist_ProcessPacket cf,
       sc_handlers := [3 \<mapsto> store, 1 \<mapsto> Enlist_HandleServerEnlist cf, 9 \<mapsto> srv_stop cf],
       sc_disconnection := DefaultHandleDisconnection cf reason\<rparr>)"
  "mc_states (server_class cf reason) st_Agree = Some ((session_state st_Agree 3)
      \<lparr>sc_new := (\<lambda>d. d\<lparr>l_agree_msgs := []\<rparr>), sc_init := Agree_Init cf,
       sc_packet := Agree_ProcessPacket cf,
       sc_handlers := [5 \<mapsto> store, 6 \<mapsto> store, 9 \<mapsto> srv_stop cf],
       sc_disconnection := DefaultHandleDisconnection cf reason\<rparr>)"
  "mc_states (server_class cf reason) st_Registering = Some ((session_state st_Registering 5)
      \<lparr>sc_new := (\<lambda>d. d\<lparr>l_registered_msgs := []\<rparr>), sc_init := Registering_Init cf,
       sc_packet := Registering_ProcessPacket cf, sc_handlers := [6 \<mapsto> store, 9 \<mapsto> srv_stop cf],
       sc_connection := Registering_HandleConnection cf,
       sc_disconnection := DefaultHandleDisconnection cf reason\<rparr>)"
  "mc_states (server_class cf reason) st_ListExchange = Some ((session_state st_ListExchange 6)
      \<lparr>sc_new := (\<lambda>d. d\<lparr>l_list_received := [], l_registered_msgs := []\<rparr>), sc_init := ListExchange_Init cf,
       sc_packet := ListExchange_ProcessPacket cf, sc_handlers := [7 \<mapsto> store, 9 \<mapsto> srv_stop cf],
       sc_disconnection := DefaultHandleDisconnection cf reason\<rparr>)"
  "mc_states (server_class cf reason) st_VerifyList = Some ((session_state st_VerifyList 7)
      \<lparr>sc_new := (\<lambda>d. d\<lparr>l_verify := [], l_registered := []\<rparr>), sc_init := VerifyList_Init cf,
       sc_packet := VerifyList_ProcessPacket cf, sc_handlers := [127 \<mapsto> store, 9 \<mapsto> srv_stop cf],
       sc_disconnection := DefaultHandleDisconnection cf reason\<rparr>)"
  "mc_states (server_class cf reason) st_Communicating = Some ((session_state st_Communicating 127)
      \<lparr>sc_init := Comm_Init cf, sc_packet := Comm_ProcessPacket cf,
       sc_handlers := [0 \<mapsto> store, 9 \<mapsto> srv_stop cf],
       sc_disconnection := Comm_HandleDisconnection cf\<rparr>)"
  by (simp_all add: server_class_def server_states_def st_defs)

text \<open>Every method of every state.\<close>

lemmas ok_methods = ok_store ok_stop ok_disconnection ok_Waiting_Init ok_Init_Init ok_Init_ProcessPacket
  ok_Enlist_Init ok_Enlist_ProcessPacket ok_Enlist_HandleServerEnlist ok_Agree_Init ok_Agree_ProcessPacket
  ok_Registering_Init ok_Registering_ProcessPacket ok_ListExchange_Init ok_ListExchange_ProcessPacket
  ok_VerifyList_Init ok_VerifyList_ProcessPacket ok_Comm_Init ok_Comm_ProcessPacket

lemmas ok_cases = server_state_eqs session_state_def default_init_def default_packet_def default_connection_def
  Waiting_HandleConnection_def Init_HandleDisconnection_def Registering_HandleConnection_def SendNotification_more
  Comm_HandleDisconnection_def

interpretation server: state_contract "server_class cf reason" "srv_I cf" "srv_N cf" for cf reason
proof
  fix s st d i "from" msg
  assume st: "mc_states (server_class cf reason) s = Some st"
  show "sc_state st = s"
    using st by (cases rule: server_statesE [OF st]) (auto simp: ok_cases)
  show "outcome_ok (server_class cf reason) (srv_I cf) (srv_N cf) st s (sc_init st (sc_new st d))"
    if "srv_N cf s d"
    using st that by (cases rule: server_statesE [OF st]) (auto simp: ok_cases intro!: ok_methods)
  show "outcome_ok (server_class cf reason) (srv_I cf) (srv_N cf) st s (sc_connection st i d)" if "srv_I cf s d"
    using st that by (cases rule: server_statesE [OF st]) (auto simp: ok_cases)
  show "outcome_ok (server_class cf reason) (srv_I cf) (srv_N cf) st s (sc_disconnection st i d)" if "srv_I cf s d"
    using st that
    by (cases rule: server_statesE [OF st]) (auto simp: ok_cases intro!: ok_methods ok_round)
  show "outcome_ok (server_class cf reason) (srv_I cf) (srv_N cf) st s (Process (server_class cf reason) st from msg d)"
    if "srv_I cf s d"
    using st that
    by (cases rule: server_statesE [OF st])
      (auto simp: ok_cases Process_def split: if_splits option.split simp del: srv_I_simps intro!: ok_methods)
qed

end
