(* ===== verification/ServerSession_Runs.thy ===== *)
theory ServerSession_Runs
  imports ServerSession_Inv
begin

text \<open>
  Runs of a server session as a step relation over the events that reach it, and what holds in every
  reachable state; every event ends, because the states have a rank that falls with every transition made
  inside one event.
\<close>

section \<open>Runs\<close>

text \<open>
  The events: the start, a packet from a peer, a change of the connection table, the registration
  timer, the end of the round while communicating, data to send, the stop of the session.
\<close>

inductive server_step ::
    "'r sess_config \<Rightarrow> (peer \<Rightarrow> string) \<Rightarrow> 'r server_machine \<Rightarrow> 'r server_machine \<Rightarrow> bool" for cf reason where
  start: "msm_cstate m = Some st_Offline \<Longrightarrow>
     OnStart (run k (server_class cf reason)) (server_class cf reason) cons
       (m\<lparr>msm_data := (msm_data m)\<lparr>ss_cons := cons\<rparr>\<rparr>) = Inr m' \<Longrightarrow> server_step cf reason m m'"
| packet: "HandleData (run k (server_class cf reason)) (server_class cf reason) (server_parsers (cf_qds cf)) from p m
     = Inr m' \<Longrightarrow> server_step cf reason m m'"
| connect: "msm_HandleConnection (run k (server_class cf reason)) (server_class cf reason) i
     (m\<lparr>msm_data := (msm_data m)\<lparr>ss_cons := cons\<rparr>\<rparr>) = Inr m' \<Longrightarrow> server_step cf reason m m'"
| disconnect: "msm_HandleDisconnection (run k (server_class cf reason)) (server_class cf reason) i
     (m\<lparr>msm_data := (msm_data m)\<lparr>ss_cons := cons\<rparr>\<rparr>) = Inr m' \<Longrightarrow> server_step cf reason m m'"
| timeout: "register_timeout (run k (server_class cf reason)) cf reason m = Inr m' \<Longrightarrow> server_step cf reason m m'"
| round_end: "msm_cstate m = Some st_Communicating \<Longrightarrow>
     HandleRoundFinishedSlot (run k (server_class cf reason)) cf reason m = Inr m' \<Longrightarrow> server_step cf reason m m'"
| send: "server_step cf reason m (m\<lparr>msm_data := Send data (msm_data m)\<rparr>)"
| stop: "server_step cf reason m (m\<lparr>msm_data := (msm_data m)\<lparr>ss_stopped := True\<rparr>\<rparr>)"

abbreviation server_reachable :: "'r sess_config \<Rightarrow> (peer \<Rightarrow> string) \<Rightarrow> 'r server_machine \<Rightarrow> bool" where
  "server_reachable cf reason \<equiv> (server_step cf reason)\<^sup>*\<^sup>* ServerSession"

section \<open>The invariant of every run\<close>

lemma srv_I_frame [simp]:
  "srv_I cf s (d\<lparr>ss_stopped := b\<rparr>) = srv_I cf s d" "srv_I cf s (d\<lparr>m_send_queue := q\<rparr>) = srv_I cf s d"
  by (simp_all add: srv_I_def)

lemma in_state_frame:
  "server.in_state cf reason m \<Longrightarrow> server.in_state cf reason (m\<lparr>msm_data := (msm_data m)\<lparr>ss_cons := c\<rparr>\<rparr>)"
  "server.in_state cf reason m \<Longrightarrow> server.in_state cf reason (m\<lparr>msm_data := (msm_data m)\<lparr>ss_stopped := b\<rparr>\<rparr>)"
  "server.in_state cf reason m \<Longrightarrow> server.in_state cf reason (m\<lparr>msm_data := Send data (msm_data m)\<rparr>)"
  by (simp_all add: server.in_state_def Send_def)

lemma complete_keeps:
  assumes "msm_cstate m = Some s" and "mc_states (server_class cf reason) s = Some st"
    and "srv_N cf (next_state (server_class cf reason) s) (msm_data m)"
    and "ResultProcessor (run k (server_class cf reason)) (server_class cf reason) NextState m = Inr m'"
  shows "server.in_state cf reason m'"
  by (rule postD [OF server.result_keeps [OF server.run_keeps assms(1,2)] assms(4)]) (use assms(3) in simp)

lemmas Offline_complete = complete_keeps [where s = st_Offline, OF _ server_state_eqs(1)]
lemmas Registering_complete = complete_keeps [where s = st_Registering, OF _ server_state_eqs(6)]
lemmas Communicating_complete = complete_keeps [where s = st_Communicating, OF _ server_state_eqs(9)]

text \<open>In \<^verbatim>\<open>Offline\<close> a connection does nothing.\<close>

lemma Offline_connections:
  "msm_cstate m = Some st_Offline \<Longrightarrow> foldS (msm_HandleConnection rec (server_class cf reason)) cons m = Inr m"
  by (induction cons) (simp_all add: msm_HandleConnection_def GetCurrentState_def server_state_eqs session_state_def
      default_connection_def process_outcome_def ResultProcessor_def)

lemma server_step_invariant:
  assumes "server_step cf reason m m'" and inv: "server.in_state cf reason m"
  shows "server.in_state cf reason m'"
  using assms(1)
proof cases
  case (start k cons)
  let ?m = "m\<lparr>msm_data := (msm_data m)\<lparr>ss_cons := cons\<rparr>\<rparr>"
  from start(2) have "msm_StateComplete (run k (server_class cf reason)) (server_class cf reason) ?m = Inr m'"
    by (simp add: OnStart_def Offline_connections start(1))
  then show ?thesis
    by (intro Offline_complete [where m = ?m]) (simp_all add: start(1) ResultProcessor_def)
next
  case (packet k "from" p)
  then show ?thesis
    using postD [OF server.events_keep(1) [OF inv]] inv
    by (auto simp: HandleData_def fault_simps split: if_splits)
next
  case (connect k i cons)
  then show ?thesis by (rule postD [OF server.events_keep(2) [OF in_state_frame(1) [OF inv]]])
next
  case (disconnect k i cons)
  then show ?thesis by (rule postD [OF server.events_keep(3) [OF in_state_frame(1) [OF inv]]])
next
  case (timeout k)
  show ?thesis
  proof (cases "msm_cstate m = Some st_Registering")
    case True
    have "registered cf (FinishClientRegister (msm_data m))"
      using inv True by (simp add: server.in_state_def FinishClientRegister_def registered_def)
    with timeout True show ?thesis
      by (intro Registering_complete [where m = "m\<lparr>msm_data := FinishClientRegister (msm_data m)\<rparr>"])
        (auto simp: register_timeout_def)
  qed (use timeout inv in \<open>simp add: register_timeout_def\<close>)
next
  case (round_end k)
  then obtain r where r: "m_round (msm_data m) = Some r" by (auto simp: HandleRoundFinishedSlot_def split: option.splits)
  let ?m = "m\<lparr>msm_data := RoundFinished cf r (msm_data m)\<rparr>"
  from inv have in': "server.in_state cf reason ?m"
    by (simp add: server.in_state_def RoundFinished_def)
  from round_end r have "ResultProcessor (run k (server_class cf reason)) (server_class cf reason)
      (if ss_stopped (msm_data m) then NoChange else NextState) ?m = Inr m'"
    by (simp add: HandleRoundFinishedSlot_def HandleRoundFinished_def Let_def)
  with in' round_end(1) show ?thesis
    by (cases "ss_stopped (msm_data m)")
      (auto simp: ResultProcessor_def [of _ _ NoChange] intro!: Communicating_complete [where m = ?m])
qed (use inv in_state_frame in auto)

lemma server_reachable_invariant: "server_reachable cf reason m \<Longrightarrow> server.in_state cf reason m"
proof (induction rule: rtranclp_induct)
  case base
  show ?case by (simp add: server.in_state_def ServerSession_def server_state_eqs)
next
  case (step y z)
  then show ?case using server_step_invariant by blast
qed

lemma reachable_I: "server_reachable cf reason m \<Longrightarrow> msm_cstate m = Some s \<Longrightarrow> srv_I cf s (msm_data m)"
  using server_reachable_invariant [of cf reason m] by (auto simp: server.in_state_def)

section \<open>Every event ends\<close>

definition server_rank :: "int \<Rightarrow> nat" where
  "server_rank s =
     (if s = st_ListExchange then 7 else if s = st_VerifyList then 6 else if s = st_Communicating then 5
      else if s = st_WaitingForServers then 4 else if s = st_Init then 3 else if s = st_Enlist then 2
      else if s = st_Agree then 1 else 0)"

lemma server_rank_simps [simp]:
  "server_rank st_Offline = 0" "server_rank st_WaitingForServers = 4" "server_rank st_Init = 3"
  "server_rank st_Enlist = 2" "server_rank st_Agree = 1" "server_rank st_Registering = 0"
  "server_rank st_ListExchange = 7" "server_rank st_VerifyList = 6" "server_rank st_Communicating = 5"
  by (simp_all add: server_rank_def st_defs)

text \<open>What the session needs of the round: its calls end.\<close>

definition round_ends :: "'r sess_config \<Rightarrow> bool" where
  "round_ends cf \<longleftrightarrow> (\<forall>r q. ro_start (cf_round cf) r q \<noteq> Inl Loops) \<and> (\<forall>i p r q. ro_packet (cf_round cf) i p r q \<noteq> Inl Loops)
     \<and> (\<forall>i r q. ro_disconnect (cf_round cf) i r q \<noteq> Inl Loops) \<and> (\<forall>r q. ro_stop (cf_round cf) r q \<noteq> Inl Loops)"

lemma bindC_Faults: "bindC c f = Faults e \<longleftrightarrow> c = Faults e \<or> (\<exists>x. c = Passes x \<and> f x = Faults e)"
  by (cases c) auto

text \<open>The checks never loop.\<close>

lemma checks_end [simp]:
  "demand b \<noteq> Faults e" "GetProposer cf \<noteq> Faults Loops" "verify_by cf i p s \<noteq> Faults Loops"
  "demand_signature cf i m \<noteq> Faults Loops" "demand_valid key \<noteq> Faults Loops" "stop_id d \<noteq> Faults Loops"
  "same_keys k l \<noteq> Faults Loops" "check_sender cf seen from \<noteq> Faults e"
  by (auto simp: demand_def GetProposer_def verify_by_def demand_signature_def demand_valid_def stop_id_def
      same_keys_def check_sender_def bindC_Faults split: list.split option.split)

lemma checks_end_more [simp]:
  "CheckServerAgree cf a r \<noteq> Faults Loops" "CheckClientRegister cf d c \<noteq> Faults Loops"
  "srv_CheckServerStop cf d stop \<noteq> Faults Loops" "check_enlist cf e d \<noteq> Faults Loops"
  "matches_enlist d a \<noteq> Faults Loops" "check_all (CheckClientRegister cf d) cs \<noteq> Faults Loops"
  "VerifyEnlist cf e d \<noteq> Faults Loops"
proof -
  show "check_all (CheckClientRegister cf d) cs \<noteq> Faults Loops"
    by (induction cs) (auto simp: bindC_Faults CheckClientRegister_def)
  have "check_enlist cf e d \<noteq> Faults Loops"
    by (auto simp: check_enlist_def bindC_Faults split: option.splits)
  then show "check_enlist cf e d \<noteq> Faults Loops" "VerifyEnlist cf e d \<noteq> Faults Loops"
    by (auto simp: VerifyEnlist_def bindC_Faults Let_def split: if_splits)
qed (auto simp: CheckServerAgree_def CheckClientRegister_def srv_CheckServerStop_def matches_enlist_def
    bindC_Faults split: option.splits)

definition halts :: "('d, 'm) outcome \<Rightarrow> bool" where
  "halts out \<longleftrightarrow> out \<noteq> Abort Loops"

lemma halts_simps [simp]:
  "halts (Ret d pr)" "halts (Raise d)" "halts (mk_outcome d msgs res)" "halts (Abort NullPointer)"
  by (auto simp: halts_def mk_outcome_def split: option.split)

lemma halts_checked: "c \<noteq> Faults Loops \<Longrightarrow> (\<And>x. c = Passes x \<Longrightarrow> halts (f x)) \<Longrightarrow> halts (checked c d f)"
  by (cases c) (auto simp: halts_def)

lemma halts_round: "(\<And>r q. f r q \<noteq> Inl Loops) \<Longrightarrow> halts (call_round cf f d)"
  by (auto simp: call_round_def Let_def halts_def split: option.split sum.splits prod.split)

lemma halts_enlists [simp]: "halts (verify_enlists cf es d msgs)"
proof (induction es arbitrary: d msgs)
  case (Cons e es)
  then show ?case using checks_end_more(7) [of cf e d] by (cases "VerifyEnlist cf e d") (auto simp: halts_def mk_outcome_def)
qed simp

lemma halts_stop [simp]: "halts (srv_stop cf from msg d)"
  by (auto simp: srv_stop_def DefaultHandleServerStop_def Let_def split: session_msg.split intro!: halts_checked)

lemma halts_packets [simp]:
  "halts (Init_ProcessPacket cf from msg d)" "halts (Enlist_ProcessPacket cf from msg d)"
  "halts (Enlist_HandleServerEnlist cf from msg d)" "halts (Agree_ProcessPacket cf from msg d)"
  "halts (Registering_ProcessPacket cf from msg d)" "halts (ListExchange_ProcessPacket cf from msg d)"
  "halts (VerifyList_ProcessPacket cf from msg d)"
  unfolding Init_ProcessPacket_def Enlist_ProcessPacket_def Enlist_HandleServerEnlist_def Agree_ProcessPacket_def
    Registering_ProcessPacket_def ListExchange_ProcessPacket_def VerifyList_ProcessPacket_def
  by (auto split: session_msg.split option.split prod.split simp: Let_def bindC_Faults intro!: halts_checked)

lemma halts_Comm:
  assumes "round_ends cf"
  shows "halts (Comm_Init cf d)" and "halts (Comm_ProcessPacket cf from msg d)"
    and "halts (Comm_HandleDisconnection cf i d)"
  using assms
  by (auto simp: Comm_Init_def Comm_ProcessPacket_def Comm_HandleDisconnection_def round_ends_def Let_def
      split: session_msg.split option.split intro!: halts_round)

lemma halts_Process:
  assumes "round_ends cf" and "mc_states (server_class cf reason) s = Some st"
  shows "halts (Process (server_class cf reason) st from msg d)"
  using assms(2)
  by (cases rule: server_statesE [OF assms(2)])
    (auto simp: ok_cases Process_def store_def halts_Comm [OF assms(1)] split: if_splits option.split)

text \<open>Messages a handler sends to its own node are dropped.\<close>

definition drops :: "('d, 'm) machine_class \<Rightarrow> ('d, 'm) state_class \<Rightarrow> ('d, 'm) outcome \<Rightarrow> bool" where
  "drops C st out \<longleftrightarrow> (\<forall>d msgs res. out = Loopback d msgs res \<longrightarrow> res \<noteq> Some StoreMessage \<and> list_all (quiet C st d) msgs)"

lemma drops_mk:
  "(\<And>x. x \<in> set msgs \<Longrightarrow> quiet C st d x) \<Longrightarrow> res \<noteq> Some StoreMessage \<Longrightarrow> drops C st (mk_outcome d msgs res)"
  by (auto simp: drops_def mk_outcome_def list_all_iff split: option.splits if_splits)

lemma drops_simps [simp]: "drops C st (Ret d pr)" "drops C st (Raise d)" "drops C st (Abort f)"
  by (simp_all add: drops_def)

lemma drops_checked: "(\<And>x. c = Passes x \<Longrightarrow> drops C st (f x)) \<Longrightarrow> drops C st (checked c d f)"
  by (cases c) auto

lemma drops_verify_enlists:
  assumes "enlisting cf d msgs" and "sc_msg_type st = 2" and "sc_packet st = Enlist_ProcessPacket cf"
  shows "drops (server_class cf reason) st (verify_enlists cf es d msgs)"
  using assms(1)
proof (induction es arbitrary: d msgs)
  case Nil
  then show ?case using quiet_enlisted [OF Nil _ assms(2,3)] by (auto intro!: drops_mk)
next
  case (Cons e es)
  show ?case
  proof (cases "VerifyEnlist cf e d")
    case (Passes x)
    obtain d' ms pr where x: "x = (d', ms, pr)" by (cases x)
    from Cons.IH [OF VerifyEnlist_step(1) [OF Cons.prems Passes [unfolded x]]] show ?thesis by (simp add: Passes x)
  qed (use quiet_enlisted [OF Cons.prems _ assms(2,3)] in \<open>auto intro!: drops_mk\<close>)
qed

lemma drops_stop:
  assumes "sc_handlers st 9 = Some (srv_stop cf)" and "sc_msg_type st \<noteq> 9"
  shows "drops (server_class cf reason) st (srv_stop cf from msg d)"
proof (cases msg)
  case (MServerStop stop)
  have "quiet (server_class cf reason) st d' (Some i, msg)"
    if "m_last d' = cf_hash cf (msg_packet stop)" for d' i
    using that assms by (simp add: quiet_def Process_def server_class_def MServerStop stop_again)
  then show ?thesis
    by (auto simp: srv_stop_def DefaultHandleServerStop_def MServerStop Let_def sends
        intro!: drops_checked drops_mk dest!: to_self_in)
qed (simp_all add: srv_stop_def DefaultHandleServerStop_def)

lemma drops_round [simp]: "drops C st (call_round cf f d)"
  by (auto simp: call_round_def Let_def split: option.split sum.split prod.split)

lemma drops_packets [simp]:
  "drops C st (Init_ProcessPacket cf from msg d)" "drops C st (Agree_ProcessPacket cf from msg d)"
  "drops C st (Registering_ProcessPacket cf from msg d)" "drops C st (ListExchange_ProcessPacket cf from msg d)"
  "drops C st (VerifyList_ProcessPacket cf from msg d)"
  unfolding Init_ProcessPacket_def Agree_ProcessPacket_def Registering_ProcessPacket_def
    ListExchange_ProcessPacket_def VerifyList_ProcessPacket_def
  by (auto split: session_msg.split option.split simp: Let_def intro!: drops_checked)

lemma drops_Comm [simp]: "drops C st (Comm_ProcessPacket cf from msg d)"
  by (auto simp: Comm_ProcessPacket_def split: session_msg.split option.split)

lemma drops_enlist:
  assumes "srv_I cf st_Enlist d" and "sc_msg_type st = 2" and "sc_packet st = Enlist_ProcessPacket cf"
  shows "drops (server_class cf reason) st (Enlist_ProcessPacket cf from msg d)"
    and "drops (server_class cf reason) st (Enlist_HandleServerEnlist cf from msg d)"
proof -
  have en: "enlisting cf d []" using assms(1) by (simp add: enlisting_def)
  show "drops (server_class cf reason) st (Enlist_ProcessPacket cf from msg d)"
    unfolding Enlist_ProcessPacket_def
    by (auto split: session_msg.split intro!: drops_checked drops_verify_enlists [OF en assms(2,3)])
  have "drops (server_class cf reason) st (mk_outcome d' ms (Some pr))"
    if "VerifyEnlist cf e d = Passes (d', ms, pr)" for e d' ms pr
    using VerifyEnlist_step(1,4) [OF en that] quiet_enlisted [OF _ _ assms(2,3), of d' ms]
    by (intro drops_mk) auto
  then show "drops (server_class cf reason) st (Enlist_HandleServerEnlist cf from msg d)"
    unfolding Enlist_HandleServerEnlist_def by (auto split: session_msg.split intro!: drops_checked)
qed

lemma drops_Process:
  assumes "mc_states (server_class cf reason) s = Some st" and "srv_I cf s d"
  shows "drops (server_class cf reason) st (Process (server_class cf reason) st from msg d)"
  using assms
  by (cases rule: server_statesE [OF assms(1)])
    (auto simp: ok_cases Process_def store_def simp del: srv_I_simps split: if_splits option.split
      intro!: drops_stop drops_enlist)

lemma handler_rankedI:
  assumes "\<And>from msg d. halts (Process C st from msg d)" and "drops C st (Process C st from msg d)"
  shows "handler_ranked C st (Process C st from msg d)"
proof (cases "Process C st from msg d")
  case (Loopback d' msgs res)
  have "calm C st d' x" if "quiet C st d' x" for x
    using that assms(1) by (cases x) (auto simp: quiet_def calm_def halts_def)
  with assms(2) Loopback show ?thesis by (auto simp: drops_def list_all_iff)
qed (use assms(1) [of "from" msg d] in \<open>auto simp: halts_def\<close>)

lemma handler_ranked_server:
  assumes "round_ends cf" and "mc_states (server_class cf reason) s = Some st" and "srv_I cf s d"
  shows "handler_ranked (server_class cf reason) st (Process (server_class cf reason) st from msg d)"
  by (intro handler_rankedI halts_Process [OF assms(1,2)] drops_Process [OF assms(2,3)])

text \<open>The messages that the \<^verbatim>\<open>Init\<close> methods send to their own node.\<close>

lemma server_type [simp]: "mc_type (server_class cf reason) = GetMessageType"
  by (simp add: server_class_def)

lemma length_to_self: "distinct ids \<Longrightarrow> length (to_self cf ids msg) \<le> Suc 0"
  by (induction ids) (auto simp: to_self_def filter_empty_conv)

lemma mild_checked:
  "c \<noteq> Faults Loops \<Longrightarrow> (\<And>x. c = Passes x \<Longrightarrow> mild C rank s (f x)) \<Longrightarrow> mild C rank s (checked c d f)"
  by (cases c) auto

lemma init_ranked_mk:
  assumes "length msgs \<le> 1" and "\<And>from msg. (from, msg) \<in> set msgs \<Longrightarrow> mild C rank s (Process C st from msg d)"
  shows "init_ranked C rank st s (mk_outcome d msgs (Some NoChange))"
  using assms by (auto simp: mk_outcome_def)

lemma mild_packets:
  "mild (server_class cf reason) server_rank st_Agree (Agree_ProcessPacket cf from msg d)"
  "mild (server_class cf reason) server_rank st_ListExchange (ListExchange_ProcessPacket cf from msg d)"
  "mild (server_class cf reason) server_rank st_VerifyList (VerifyList_ProcessPacket cf from msg d)"
  unfolding Agree_ProcessPacket_def ListExchange_ProcessPacket_def VerifyList_ProcessPacket_def
  by (auto split: session_msg.split simp: Let_def bindC_Faults intro!: mild_checked)

text \<open>The proposer does not announce the enlistments to itself.\<close>

lemma VerifyEnlist_proposer:
  assumes "VerifyEnlist cf e d = Passes (d', ms, pr)" and "GetProposer cf = Passes (cf_id cf)"
  shows "ms = []" and "pr = NoChange \<or> pr = NextState"
  using assms by (auto simp: VerifyEnlist_def Let_def to_self_def filter_empty_conv split: if_splits)

lemma mild_enlist:
  "GetProposer cf = Passes (cf_id cf) \<Longrightarrow>
     mild (server_class cf reason) server_rank st_Enlist (Enlist_HandleServerEnlist cf from (MServerEnlist e) d)"
  unfolding Enlist_HandleServerEnlist_def
  by (auto simp: mk_outcome_def intro!: mild_checked dest: VerifyEnlist_proposer)

lemma init_ranked_server:
  assumes "round_ends cf" and "distinct (cf_servers cf)" and st: "mc_states (server_class cf reason) s = Some st"
  shows "init_ranked (server_class cf reason) server_rank st s (sc_init st (sc_new st d))"
proof (cases rule: server_statesE [OF st])
  case 3
  then show ?thesis
    using st checks_end(2) [of cf] by (cases "GetProposer cf") (auto simp: ok_cases Init_Init_def Let_def)
next
  case 4
  then have st': "Some st = mc_states (server_class cf reason) st_Enlist" using st by simp
  have "init_ranked (server_class cf reason) server_rank st st_Enlist (Enlist_Init cf d)" for d
  proof -
    have "mild (server_class cf reason) server_rank st_Enlist (Process (server_class cf reason) st from msg d')"
      if "GetProposer cf = Passes x" "(from, msg) \<in> set (to_self cf [x] (MServerEnlist e))" for x e "from" msg d'
      using st' that by (auto simp: ok_cases Process_def to_self_def split: if_splits intro!: mild_enlist)
    then show ?thesis
      by (cases "GetProposer cf"; auto simp: Enlist_Init_def Let_def length_to_self split: option.split intro!: init_ranked_mk)
  qed
  with st' 4 show ?thesis by (simp add: ok_cases)
next
  case 5
  then show ?thesis
    using st assms(2)
    by (auto simp: ok_cases Agree_Init_def Let_def Process_def mild_packets length_to_self
        split: option.split intro!: init_ranked_mk dest!: to_self_in)
next
  case 7
  then show ?thesis
    using st assms(2)
    by (auto simp: ok_cases ListExchange_Init_def Let_def Process_def mild_packets length_to_self
        intro!: init_ranked_mk dest!: to_self_in)
next
  case 8
  then show ?thesis
    using st assms(2)
    by (auto simp: ok_cases VerifyList_Init_def Let_def Process_def mild_packets length_to_self
        intro!: init_ranked_mk dest!: to_self_in)
next
  case 9
  have "init_ranked (server_class cf reason) server_rank st st_Communicating (call_round cf f d)"
    if "\<And>r q. f r q \<noteq> Inl Loops" for f d
    using that by (auto simp: call_round_def HandleRoundFinished_def Let_def split: option.split sum.splits prod.split)
  with 9 st assms(1) show ?thesis by (auto simp: ok_cases Comm_Init_def Let_def round_ends_def)
qed (use st in \<open>auto simp: ok_cases Waiting_Init_def Registering_Init_def Let_def\<close>)

lemma event_ranked_server:
  assumes "round_ends cf" and "distinct (ss_cons d)" and st: "mc_states (server_class cf reason) s = Some st"
    and I: "srv_I cf s d"
  shows "event_ranked (srv_I cf) s (sc_connection st i d)" and "event_ranked (srv_I cf) s (sc_disconnection st i d)"
proof -
  show "event_ranked (srv_I cf) s (sc_connection st i d)"
    using st by (cases rule: server_statesE [OF st]) (auto simp: ok_cases)
  have "event_ranked (srv_I cf) s (DefaultHandleDisconnection cf reason i d)"
    using I length_to_self [OF assms(2)] checks_end(6) [of d]
    by (cases "stop_id d") (auto simp: DefaultHandleDisconnection_def Let_def mk_outcome_def sends)
  moreover have "event_ranked (srv_I cf) st_Communicating (Comm_HandleDisconnection cf i d)"
    using halts_Comm(3) [OF assms(1), of i d]
    by (auto simp: Comm_HandleDisconnection_def halts_def call_round_def Let_def split: option.splits sum.splits prod.splits)
  ultimately show "event_ranked (srv_I cf) s (sc_disconnection st i d)"
    using st by (cases rule: server_statesE [OF st]) (auto simp: ok_cases)
qed

lemma server_ranked:
  assumes "round_ends cf" and "distinct (cf_servers cf)"
  shows "ranked (server_class cf reason) (srv_I cf) (srv_N cf) server_rank 7"
  using init_ranked_server [OF assms] handler_ranked_server [OF assms(1)]
  by (auto simp: ranked_def server_rank_def)

end
