(* ===== verification/ClientSession_Inv.thy ===== *)
theory ClientSession_Inv
  imports ClientSession ServerSession_Runs
begin

text \<open>
  The invariant of a client session, the runs of a client, and that its events end: the same locale
  \<open>state_contract\<close> as for servers, with the stages of a client.
\<close>

section \<open>Stages\<close>

definition has_server :: "'r sess_config \<Rightarrow> 'r client_state \<Rightarrow> bool" where
  "has_server cf d \<longleftrightarrow> IsServer cf (m_server d)"

text \<open>As many agree messages as there are servers, all for the round of the client.\<close>

definition queued :: "'r sess_config \<Rightarrow> 'r client_state \<Rightarrow> bool" where
  "queued cf d \<longleftrightarrow> has_server cf d \<and> length (m_server_list d) = length (cf_servers cf)
     \<and> m_server_bytes d = SerializeList (cf_qds cf) (m_server_list d)
     \<and> list_all (\<lambda>a. member_ok cf (m_round_id d) (mm_peer a) a) (m_server_list d)"

text \<open>A start message whose client list every server has signed.\<close>

definition all_signed :: "'r sess_config \<Rightarrow> bytes \<Rightarrow> bytes list \<Rightarrow> bool" where
  "all_signed cf register signatures \<longleftrightarrow> list_all2 (\<lambda>i. signed_by cf i (cf_hash cf register)) (cf_servers cf) signatures"

definition started :: "'r sess_config \<Rightarrow> 'r client_state \<Rightarrow> bool" where
  "started cf d \<longleftrightarrow> queued cf d \<and> m_ephemeral_key d \<noteq> None \<and> m_round d \<noteq> None
     \<and> (\<exists>start :: server_start. m_client_list d = sr_register_list start \<and> all_signed cf (sr_register start) (sr_signatures start))"

definition cl_N :: "'r sess_config \<Rightarrow> int \<Rightarrow> 'r client_state \<Rightarrow> bool" where
  "cl_N cf t d =
     (if t = st_Queuing then has_server cf d else if t = st_Registering then queued cf d
      else if t = st_Communicating then started cf d else True)"

definition cl_I :: "'r sess_config \<Rightarrow> int \<Rightarrow> 'r client_state \<Rightarrow> bool" where
  "cl_I cf s d =
     (if s = st_Queuing then has_server cf d else if s = st_Registering then queued cf d \<and> m_ephemeral_key d \<noteq> None
      else if s = st_Communicating then started cf d else True)"

lemma cl_simps [simp]:
  "cl_N cf st_Offline d" "cl_N cf st_WaitingForServer d" "cl_N cf st_Queuing d = has_server cf d"
  "cl_N cf st_Registering d = queued cf d" "cl_N cf st_Communicating d = started cf d"
  "cl_I cf st_Offline d" "cl_I cf st_WaitingForServer d" "cl_I cf st_Queuing d = has_server cf d"
  "cl_I cf st_Registering d = (queued cf d \<and> m_ephemeral_key d \<noteq> None)" "cl_I cf st_Communicating d = started cf d"
  by (simp_all add: cl_N_def cl_I_def st_defs)

lemmas cl_stage_defs = has_server_def queued_def started_def

lemma client_next [simp]:
  "next_state (client_class cf) st_Offline = st_WaitingForServer"
  "next_state (client_class cf) st_WaitingForServer = st_Queuing"
  "next_state (client_class cf) st_Queuing = st_Registering"
  "next_state (client_class cf) st_Registering = st_Communicating"
  "next_state (client_class cf) st_Communicating = st_WaitingForServer"
  "mc_restart (client_class cf) = st_WaitingForServer" "mc_type (client_class cf) = GetMessageType"
  by (simp_all add: next_state_def client_class_def client_transitions_def st_defs)

lemma client_statesE:
  assumes "mc_states (client_class cf) s = Some st"
  obtains "s = st_Offline" | "s = st_WaitingForServer" | "s = st_Queuing" | "s = st_Registering" | "s = st_Communicating"
  using assms by (auto simp: client_class_def client_states_def split: if_splits)

lemma client_state_eqs:
  "mc_states (client_class cf) st_Offline = Some ((session_state st_Offline (-1))\<lparr>sc_handlers := [4 \<mapsto> store]\<rparr>)"
  "mc_states (client_class cf) st_WaitingForServer = Some ((session_state st_WaitingForServer (-1))
        \<lparr>sc_init := cl_Waiting_Init cf, sc_handlers := [4 \<mapsto> store],
         sc_connection := cl_Waiting_HandleConnection cf\<rparr>)"
  "mc_states (client_class cf) st_Queuing = Some ((session_state st_Queuing 4)
        \<lparr>sc_packet := Queuing_ProcessPacket cf, sc_disconnection := cl_HandleDisconnection\<rparr>)"
  "mc_states (client_class cf) st_Registering = Some ((session_state st_Registering 8)
        \<lparr>sc_init := cl_Registering_Init cf, sc_packet := cl_Registering_ProcessPacket cf,
         sc_handlers := [127 \<mapsto> store, 9 \<mapsto> cl_stop cf], sc_disconnection := cl_HandleDisconnection\<rparr>)"
  "mc_states (client_class cf) st_Communicating = Some ((session_state st_Communicating 127)
        \<lparr>sc_init := cl_Comm_Init cf, sc_packet := Comm_ProcessPacket cf,
         sc_handlers := [4 \<mapsto> store, 9 \<mapsto> cl_Comm_HandleServerStop cf],
         sc_disconnection := cl_HandleDisconnection\<rparr>)"
  by (simp_all add: client_class_def client_states_def st_defs)

section \<open>The methods keep the stages\<close>

abbreviation cl_ok where "cl_ok cf \<equiv> outcome_ok (client_class cf) (cl_I cf) (cl_N cf)"

lemma CheckServer_found: "CheckServer cf d = (d', True) \<Longrightarrow> has_server cf d'"
  by (auto simp: CheckServer_def has_server_def filter_eq_Cons_iff split: list.splits)

lemma check_signatures_Passes:
  "length ids = length signatures \<Longrightarrow>
     check_signatures cf h ids signatures = Passes u \<longleftrightarrow> list_all2 (\<lambda>i. signed_by cf i h) ids signatures"
proof (induction ids signatures rule: list_induct2)
  case (Cons i ids s signatures)
  then show ?case by (auto simp: verify_by_Passes) (auto simp: signed_by_def)
qed simp

lemma cl_ok_Queuing: "has_server cf d \<Longrightarrow> cl_ok cf st st_Queuing (Queuing_ProcessPacket cf from msg d)"
  by (auto simp: Queuing_ProcessPacket_def Let_def SetServers_def queued_def has_server_def list_all_iff
      CheckServerAgree_Passes member_ok_def split: session_msg.split list.split intro!: ok_checked)

lemma cl_ok_Registering:
  "queued cf d \<Longrightarrow> cl_ok cf st st_Registering (cl_Registering_Init cf d)"
  "cl_I cf st_Registering d \<Longrightarrow> cl_ok cf st st_Registering (cl_Registering_ProcessPacket cf from msg d)"
proof -
  show "queued cf d \<Longrightarrow> cl_ok cf st st_Registering (cl_Registering_Init cf d)"
    by (auto simp: cl_Registering_Init_def GenerateRoundData_def SendNotification_more Let_def split_beta cl_stage_defs)
  have "started cf (NextRound cf (d\<lparr>m_client_list := sr_register_list start\<rparr>))"
    if "queued cf d" "m_ephemeral_key d \<noteq> None" "length (sr_signatures start) = length (cf_servers cf)"
      "check_signatures cf (cf_hash cf (sr_register start)) (cf_servers cf) (sr_signatures start) = Passes u" for start :: server_start and u
    using that by (auto simp: started_def queued_def has_server_def NextRound_def all_signed_def check_signatures_Passes)
  then show "cl_I cf st_Registering d \<Longrightarrow> cl_ok cf st st_Registering (cl_Registering_ProcessPacket cf from msg d)"
    by (auto simp: cl_Registering_ProcessPacket_def split: session_msg.split intro!: ok_checked)
qed

lemma cl_ok_round: "started cf d \<Longrightarrow> cl_ok cf st st_Communicating (call_round cf f d)"
  by (auto simp: call_round_def HandleRoundFinished_def RoundFinished_def Let_def cl_stage_defs
      split: option.split sum.split prod.split)

lemma cl_ok_Comm:
  assumes "started cf d"
  shows "cl_ok cf st st_Communicating (cl_Comm_Init cf d)"
    and "cl_ok cf st st_Communicating (Comm_ProcessPacket cf from msg d)"
    and "cl_ok cf st st_Communicating (cl_Comm_HandleServerStop cf from msg d)"
  using assms cl_ok_round [OF assms]
  by (auto simp: cl_Comm_Init_def Comm_ProcessPacket_def cl_Comm_HandleServerStop_def
      split: session_msg.split option.split intro!: ok_checked) (auto simp: cl_stage_defs)

lemma cl_stop_again:
  "m_last d = cf_hash cf (msg_packet stop) \<Longrightarrow> cl_stop cf from (MServerStop stop) d = Ret d NoChange"
  by (simp add: cl_stop_def DefaultHandleServerStop_def)

lemma cl_ok_stop:
  assumes "cl_I cf st_Registering d" and "sc_handlers st 9 = Some (cl_stop cf)" and "sc_msg_type st \<noteq> 9"
  shows "cl_ok cf st st_Registering (cl_stop cf from msg d)"
proof (cases msg)
  case (MServerStop stop)
  have quiet: "quiet (client_class cf) st d' (Some i, msg)"
    if "m_last d' = cf_hash cf (msg_packet stop)" for d' i
    using that assms(2,3) by (simp add: quiet_def Process_def MServerStop cl_stop_again)
  show ?thesis
    using assms(1)
    by (auto simp: cl_stop_def DefaultHandleServerStop_def MServerStop Let_def cl_stage_defs
        intro!: ok_checked ok_mk_quiet dest!: to_self_in)
      (auto simp: MServerStop [symmetric] sends intro!: quiet)
qed (simp_all add: cl_stop_def DefaultHandleServerStop_def)

lemmas cl_methods = cl_ok_Queuing cl_ok_Registering cl_ok_Comm cl_ok_stop

lemmas cl_cases = client_state_eqs session_state_def default_init_def default_packet_def default_connection_def
  cl_HandleDisconnection_def cl_Waiting_Init_def cl_Waiting_HandleConnection_def

interpretation client: state_contract "client_class cf" "cl_I cf" "cl_N cf" for cf
proof
  fix s st d i "from" msg
  assume st: "mc_states (client_class cf) s = Some st"
  show "sc_state st = s"
    using st by (cases rule: client_statesE [OF st]) (auto simp: cl_cases)
  show "cl_ok cf st s (sc_init st (sc_new st d))" if "cl_N cf s d"
    using st that
    by (cases rule: client_statesE [OF st])
      (auto simp: cl_cases CheckServer_found split: prod.split intro!: cl_methods)
  show "cl_ok cf st s (sc_connection st i d)" if "cl_I cf s d"
    using st that
    by (cases rule: client_statesE [OF st]) (auto simp: cl_cases CheckServer_found split: prod.split)
  show "cl_ok cf st s (sc_disconnection st i d)" if "cl_I cf s d"
    using st that by (cases rule: client_statesE [OF st]) (auto simp: cl_cases)
  show "cl_ok cf st s (Process (client_class cf) st from msg d)" if "cl_I cf s d"
    using st that
    by (cases rule: client_statesE [OF st])
      (auto simp: cl_cases Process_def store_def split: if_splits option.split simp del: cl_simps(9) intro!: cl_methods)
qed

end
