(* ===== verification/ClientSession_Runs.thy ===== *)
theory ClientSession_Runs
  imports ClientSession_Inv
begin

text \<open>
  Runs of a client session, the invariant in every reachable state, and the ranking of its states that
  makes every event end.
\<close>

section \<open>Runs\<close>

inductive client_step :: "'r sess_config \<Rightarrow> 'r client_machine \<Rightarrow> 'r client_machine \<Rightarrow> bool" for cf where
  cl_start: "msm_cstate m = Some st_Offline \<Longrightarrow>
     cl_OnStart (run k (client_class cf)) cf cons (m\<lparr>msm_data := (msm_data m)\<lparr>ss_cons := cons\<rparr>\<rparr>) = Inr m' \<Longrightarrow> client_step cf m m'"
| cl_packet: "HandleData (run k (client_class cf)) (client_class cf) (client_parsers (cf_qds cf)) from p m = Inr m'
     \<Longrightarrow> client_step cf m m'"
| cl_connect: "cl_HandleConnection (run k (client_class cf)) cf i
     (m\<lparr>msm_data := (msm_data m)\<lparr>ss_cons := cons\<rparr>\<rparr>) = Inr m' \<Longrightarrow> client_step cf m m'"
| cl_disconnect: "msm_HandleDisconnection (run k (client_class cf)) (client_class cf) i
     (m\<lparr>msm_data := (msm_data m)\<lparr>ss_cons := cons\<rparr>\<rparr>) = Inr m' \<Longrightarrow> client_step cf m m'"
| cl_round_end: "msm_cstate m = Some st_Communicating \<Longrightarrow>
     cl_HandleRoundFinishedSlot (run k (client_class cf)) cf m = Inr m' \<Longrightarrow> client_step cf m m'"
| cl_send: "client_step cf m (m\<lparr>msm_data := Send data (msm_data m)\<rparr>)"
| cl_finish: "client_step cf m (m\<lparr>msm_data := (msm_data m)\<lparr>ss_stopped := True\<rparr>\<rparr>)"

abbreviation client_reachable :: "'r sess_config \<Rightarrow> peer \<Rightarrow> 'r client_machine \<Rightarrow> bool" where
  "client_reachable cf random_id \<equiv> (client_step cf)\<^sup>*\<^sup>* (ClientSession random_id)"

lemma cl_I_frame [simp]:
  "cl_I cf s (d\<lparr>ss_cons := c\<rparr>) = cl_I cf s d" "cl_I cf s (d\<lparr>ss_stopped := b\<rparr>) = cl_I cf s d"
  "cl_I cf s (d\<lparr>m_send_queue := q\<rparr>) = cl_I cf s d"
  by (simp_all add: cl_I_def cl_stage_defs)

lemma cl_in_state_frame:
  "client.in_state cf m \<Longrightarrow> client.in_state cf (m\<lparr>msm_data := (msm_data m)\<lparr>ss_cons := c\<rparr>\<rparr>)"
  "client.in_state cf m \<Longrightarrow> client.in_state cf (m\<lparr>msm_data := (msm_data m)\<lparr>ss_stopped := b\<rparr>\<rparr>)"
  "client.in_state cf m \<Longrightarrow> client.in_state cf (m\<lparr>msm_data := Send data (msm_data m)\<rparr>)"
  by (simp_all add: client.in_state_def Send_def)

lemma cl_complete_keeps:
  assumes "msm_cstate m = Some s" and "mc_states (client_class cf) s = Some st"
    and "cl_N cf (next_state (client_class cf) s) (msm_data m)"
    and "ResultProcessor (run k (client_class cf)) (client_class cf) NextState m = Inr m'"
  shows "client.in_state cf m'"
  by (rule postD [OF client.result_keeps [OF client.run_keeps assms(1,2)] assms(4)]) (use assms(3) in simp)

lemma cl_Offline_connections:
  "msm_cstate m = Some st_Offline \<Longrightarrow> foldS (cl_HandleConnection rec cf) cons m = Inr m"
  by (induction cons) (auto simp: cl_HandleConnection_def msm_HandleConnection_def GetCurrentState_def client_state_eqs
      session_state_def default_connection_def process_outcome_def ResultProcessor_def)

lemma client_step_invariant:
  assumes "client_step cf m m'" and inv: "client.in_state cf m"
  shows "client.in_state cf m'"
  using assms(1)
proof cases
  case (cl_start k cons)
  let ?m = "m\<lparr>msm_data := (msm_data m)\<lparr>ss_cons := cons\<rparr>\<rparr>"
  from cl_start(2) have "msm_StateComplete (run k (client_class cf)) (client_class cf) ?m = Inr m'"
    by (simp add: cl_OnStart_def cl_Offline_connections cl_start(1))
  then show ?thesis
    by (intro cl_complete_keeps [where m = ?m, OF _ client_state_eqs(1)]) (simp_all add: cl_start(1) ResultProcessor_def)
next
  case (cl_packet k "from" p)
  then show ?thesis
    using postD [OF client.events_keep(1) [OF inv]] inv
    by (auto simp: HandleData_def fault_simps split: if_splits)
next
  case (cl_connect k i cons)
  then show ?thesis
    using postD [OF client.events_keep(2) [OF cl_in_state_frame(1) [OF inv]]] cl_in_state_frame(1) [OF inv]
    by (auto simp: cl_HandleConnection_def split: if_splits)
next
  case (cl_disconnect k i cons)
  then show ?thesis by (rule postD [OF client.events_keep(3) [OF cl_in_state_frame(1) [OF inv]]])
next
  case (cl_round_end k)
  then obtain r where r: "m_round (msm_data m) = Some r" by (auto simp: cl_HandleRoundFinishedSlot_def split: option.splits)
  let ?m = "m\<lparr>msm_data := RoundFinished cf r (msm_data m)\<rparr>"
  have in': "client.in_state cf ?m"
    using inv cl_round_end(1) by (auto simp: client.in_state_def RoundFinished_def cl_stage_defs)
  from cl_round_end r have "ResultProcessor (run k (client_class cf)) (client_class cf)
      (if ss_stopped (msm_data m) then NoChange else NextState) ?m = Inr m'"
    by (simp add: cl_HandleRoundFinishedSlot_def HandleRoundFinished_def Let_def)
  with in' cl_round_end(1) show ?thesis
    by (cases "ss_stopped (msm_data m)")
      (auto simp: ResultProcessor_def [of _ _ NoChange] intro!: cl_complete_keeps [where m = ?m, OF _ client_state_eqs(5)])
qed (use inv cl_in_state_frame in auto)

lemma client_reachable_invariant: "client_reachable cf random_id m \<Longrightarrow> client.in_state cf m"
proof (induction rule: rtranclp_induct)
  case base
  show ?case by (simp add: client.in_state_def ClientSession_def client_state_eqs)
next
  case (step y z)
  then show ?case using client_step_invariant by blast
qed

lemma client_reachable_I: "client_reachable cf random_id m \<Longrightarrow> msm_cstate m = Some s \<Longrightarrow> cl_I cf s (msm_data m)"
  using client_reachable_invariant [of cf random_id m] by (auto simp: client.in_state_def)

section \<open>Every event ends\<close>

definition client_rank :: "int \<Rightarrow> nat" where
  "client_rank s = (if s = st_Communicating then 2 else if s = st_WaitingForServer then 1 else 0)"

lemma client_rank_simps [simp]:
  "client_rank st_Offline = 0" "client_rank st_WaitingForServer = 1" "client_rank st_Queuing = 0"
  "client_rank st_Registering = 0" "client_rank st_Communicating = 2"
  by (simp_all add: client_rank_def st_defs)

lemma cl_checks_end [simp]:
  "CheckServerStop cf d stop \<noteq> Faults Loops" "check_signatures cf h ids sigs \<noteq> Faults Loops"
  "check_all (\<lambda>a. CheckServerAgree cf a r) as \<noteq> Faults Loops"
proof -
  show "check_signatures cf h ids sigs \<noteq> Faults Loops"
    by (induction cf h ids sigs rule: check_signatures.induct) (auto simp: bindC_Faults)
  show "check_all (\<lambda>a. CheckServerAgree cf a r) as \<noteq> Faults Loops"
    by (induction as) (auto simp: bindC_Faults)
qed (auto simp: CheckServerStop_def bindC_Faults)

lemma client_halts:
  assumes "round_ends cf"
  shows "halts (Queuing_ProcessPacket cf from msg d)" and "halts (cl_Registering_ProcessPacket cf from msg d)"
    and "halts (cl_stop cf from msg d)" and "halts (cl_Comm_HandleServerStop cf from msg d)"
    and "halts (Comm_ProcessPacket cf from msg d)" 
  using assms
  unfolding Queuing_ProcessPacket_def cl_Registering_ProcessPacket_def cl_stop_def DefaultHandleServerStop_def
    cl_Comm_HandleServerStop_def Comm_ProcessPacket_def
  by (auto split: session_msg.split option.split list.split simp: Let_def round_ends_def halts_def [of "Abort OutOfBounds"] bindC_Faults
      intro!: halts_checked halts_round)

lemma client_calm:
  assumes "sc_handlers st 9 = Some (cl_stop cf)" and "sc_msg_type st \<noteq> 9"
  shows "drops (client_class cf) st (cl_stop cf from msg d)"
proof (cases msg)
  case (MServerStop stop)
  have "quiet (client_class cf) st d' (Some i, msg)" if "m_last d' = cf_hash cf (msg_packet stop)" for d' i
    using that assms by (simp add: quiet_def Process_def MServerStop cl_stop_again)
  then show ?thesis
    by (auto simp: cl_stop_def DefaultHandleServerStop_def MServerStop Let_def sends
        intro!: drops_checked drops_mk dest!: to_self_in)
qed (simp_all add: cl_stop_def DefaultHandleServerStop_def)

lemma client_drops [simp]:
  "drops C st (Queuing_ProcessPacket cf from msg d)" "drops C st (cl_Registering_ProcessPacket cf from msg d)"
  "drops C st (cl_Comm_HandleServerStop cf from msg d)"
  unfolding Queuing_ProcessPacket_def cl_Registering_ProcessPacket_def cl_Comm_HandleServerStop_def
  by (auto split: session_msg.split option.split list.split simp: Let_def intro!: drops_checked)

lemma client_Process_ends:
  assumes "round_ends cf" and "mc_states (client_class cf) s = Some st"
  shows "halts (Process (client_class cf) st from msg d)" and "drops (client_class cf) st (Process (client_class cf) st from msg d)"
proof -
  show "halts (Process (client_class cf) st from msg d)"
    using assms(2) client_halts [OF assms(1), of "from" msg d]
    by (cases rule: client_statesE [OF assms(2)]) (auto simp: cl_cases Process_def store_def split: if_splits option.split)
  show "drops (client_class cf) st (Process (client_class cf) st from msg d)"
    using assms(2)
    by (cases rule: client_statesE [OF assms(2)])
      (auto simp: cl_cases Process_def store_def split: if_splits option.split intro!: client_calm)
qed

lemma client_ranked:
  assumes "round_ends cf"
  shows "ranked (client_class cf) (cl_I cf) (cl_N cf) client_rank 2"
proof -
  have "handler_ranked (client_class cf) st (Process (client_class cf) st from msg d)"
    if "mc_states (client_class cf) s = Some st" for s st "from" msg d
    by (rule handler_rankedI) (use client_Process_ends [OF assms that] in auto)
  moreover have "init_ranked (client_class cf) client_rank st s (sc_init st (sc_new st d))"
    if st: "mc_states (client_class cf) s = Some st" for s st d
  proof -
    have "init_ranked (client_class cf) client_rank st st_Communicating (cl_Comm_Init cf d)" for d
      using assms
      by (auto simp: cl_Comm_Init_def call_round_def HandleRoundFinished_def round_ends_def Let_def
          split: option.split sum.splits prod.split)
    then show ?thesis
      using st
      by (cases rule: client_statesE [OF st])
        (auto simp: cl_cases cl_Registering_Init_def Let_def split: option.split prod.split)
  qed
  ultimately show ?thesis by (simp add: ranked_def client_rank_def)
qed
lemma client_event_ranked:
  assumes "mc_states (client_class cf) s = Some st"
  shows "event_ranked (cl_I cf) s (sc_connection st i d)" and "event_ranked (cl_I cf) s (sc_disconnection st i d)"
  using assms by (cases rule: client_statesE [OF assms]; auto simp: cl_cases split: prod.split)+

end
