(* ===== verification/ServerSession_Solo.thy ===== *)
theory ServerSession_Solo
  imports ServerSession_Runs
begin

text \<open>
  A session whose only server is the node itself: it goes through all states by the messages it sends to
  itself.  The rules \<open>gives_Enter\<close>, \<open>gives_outcome\<close> and \<open>gives_Receive\<close> follow the nested calls of the state
  machine; a concrete session ends the theory.
\<close>

section \<open>A session with one server\<close>

text \<open>How a call that ends in \<open>Q\<close> is put together, as long as nothing is stored.\<close>

definition gives :: "('a \<Rightarrow> bool) \<Rightarrow> fault + 'a \<Rightarrow> bool" where
  "gives Q r \<longleftrightarrow> (\<exists>x. r = Inr x \<and> Q x)"

lemma stored_nothing: "msm_storage m = [] \<Longrightarrow> m\<lparr>msm_storage := []\<rparr> = m"
  by simp

lemma gives_Enter:
  assumes "mc_states C s = Some st" and "sc_init st (sc_new st (msm_data m)) = out"
    and "gives Q (process_outcome (run k C) C out (m\<lparr>msm_cstate := Some s, msm_data := sc_new st (msm_data m)\<rparr>))"
    and "\<And>x. Q x \<Longrightarrow> msm_storage x = []"
  shows "gives Q (run (Suc k) C (Enter s) m)"
  using assms by (auto simp: gives_def SetNewState_def process_again_def stored_nothing)

lemma gives_outcome:
  "Q (m\<lparr>msm_data := d\<rparr>) \<Longrightarrow> gives Q (process_outcome rec C (Ret d NoChange) m)"
  "msm_cstate m = Some s \<Longrightarrow> mc_states C s = Some st \<Longrightarrow> sc_state st = s \<Longrightarrow>
     gives Q (rec (Enter (next_state C s)) (m\<lparr>msm_data := d\<rparr>)) \<Longrightarrow> gives Q (process_outcome rec C (Ret d NextState) m)"
  "gives Q (rec (Receive from msg) (m\<lparr>msm_data := d\<rparr>)) \<Longrightarrow>
     gives Q (process_outcome rec C (Loopback d [(from, msg)] (Some NoChange)) m)"
  by (auto simp: gives_def process_outcome_def ResultProcessor_def msm_StateComplete_def GetCurrentState_def deliver_def)

lemma gives_Receive:
  assumes "msm_cstate m = Some s" and "mc_states C s = Some st" and "sc_state st = s"
    and "Process C st from msg (msm_data m) = Ret d NextState"
    and "gives Q (run k C (Enter (next_state C s)) (m\<lparr>msm_data := d\<rparr>))"
  shows "gives Q (run (Suc k) C (Receive from msg) m)"
  using assms by (auto simp: gives_def msm_ProcessData_def ResultProcessor_def msm_StateComplete_def GetCurrentState_def)

definition solo :: "'r sess_config \<Rightarrow> bool" where
  "solo cf \<longleftrightarrow> cf_servers cf = [cf_id cf] \<and> (\<forall>n. ak_valid (cf_public cf (cf_new_key cf n)))
     \<and> (\<forall>p. signed_by cf (cf_id cf) p (cf_sign cf p))"

definition waiting_clients :: "'r server_machine \<Rightarrow> bool" where
  "waiting_clients m \<longleftrightarrow> msm_cstate m = Some st_Registering \<and> msm_storage m = [] \<and> l_registered_msgs (msm_data m) = []"

lemma solo_simps:
  assumes "solo cf"
  shows "cf_servers cf = [cf_id cf]" "IsServer cf i = (i = cf_id cf)" "GetProposer cf = Passes (cf_id cf)"
    "to_self cf [cf_id cf] msg = [(Some (cf_id cf), msg)]" "notify_all cf [cf_id cf] p d = d"
    "ak_valid (cf_public cf (cf_new_key cf n))" "verify_by cf (cf_id cf) p (cf_sign cf p) = Passes True"
    "SendNotification cf (cf_id cf) p d = d"
  using assms
  by (auto simp: solo_def IsServer_def GetProposer_def to_self_def notify_all_def SendNotification_def verify_by_Passes)
    (auto simp: signed_by_def)

lemmas made = SetSignature_def mk_ServerInit_def mk_ServerEnlist_def mk_ServerAgree_def mk_member_def mk_ServerList_def
  mk_ServerVerifyList_def

lemma solo_Registering:
  assumes "solo cf" and "msm_storage m = []"
  shows "gives waiting_clients (run (Suc k) (server_class cf reason) (Enter st_Registering) m)"
  by (rule gives_Enter [OF server_state_eqs(6)])
    (auto simp: session_state_def Registering_Init_def waiting_clients_def assms(2) notify_all_sent intro!: gives_outcome(1))


lemmas solo_checks = CheckServerAgree_def demand_def demand_signature_def demand_valid_def matches_enlist_def
  same_keys_def check_enlist_def VerifyEnlist_def check_sender_def

lemma solo_Agree:
  assumes "solo cf" and "msm_storage m = []" and "m_ephemeral_key (msm_data m) = Some (cf_new_key cf n)"
    and "map_of (m_enlist_msgs (msm_data m)) (cf_id cf) = Some e" and "se_peer e = cf_id cf"
    and "se_key e = Some (cf_public cf (cf_new_key cf n))" and "se_optional e = m_optional_public (msm_data m)"
  shows "gives waiting_clients (run (Suc (Suc (Suc k))) (server_class cf reason) (Enter st_Agree) m)"
  apply (rule gives_Enter [OF server_state_eqs(5)])
    apply (simp add: session_state_def Agree_Init_def Let_def assms solo_simps [OF assms(1)] mk_outcome_def)
   apply (rule gives_outcome(3))
   apply (rule gives_Receive [OF _ server_state_eqs(5)])
      apply simp
     apply (simp add: session_state_def)
    apply (simp add: session_state_def Process_def Agree_ProcessPacket_def assms solo_simps [OF assms(1)] made
      solo_checks Let_def)
   apply (auto simp: waiting_clients_def assms(2) intro!: solo_Registering [OF assms(1)] simp del: run.simps)
  done

lemma solo_Enlist:
  assumes "solo cf" and "msm_storage m = []" and "m_init (msm_data m) = Some init"
  shows "gives waiting_clients (run (Suc (Suc (Suc (Suc (Suc k))))) (server_class cf reason) (Enter st_Enlist) m)"
  apply (rule gives_Enter [OF server_state_eqs(4)])
    apply (simp add: session_state_def Enlist_Init_def GenerateRoundData_def Let_def assms solo_simps [OF assms(1)]
      mk_outcome_def split_beta)
   apply (rule gives_outcome(3))
   apply (rule gives_Receive [OF _ server_state_eqs(4)])
      apply simp
     apply (simp add: session_state_def)
    apply (simp add: session_state_def Process_def Enlist_HandleServerEnlist_def assms solo_simps [OF assms(1)] made
      solo_checks Let_def mk_outcome_def to_self_def notify_all_def)
   apply (auto simp: waiting_clients_def assms(2) made intro!: solo_Agree [OF assms(1)] simp del: run.simps)
  done

lemma solo_start:
  fixes cf :: "'r sess_config" and reason :: "peer \<Rightarrow> string"
  assumes "solo cf" and "cons = [cf_id cf]"
  defines "C \<equiv> server_class cf reason"
  shows "gives waiting_clients (OnStart (run (Suc (Suc (Suc (Suc (Suc (Suc (Suc k))))))) C) C
    cons (ServerSession\<lparr>msm_data := (msm_data ServerSession)\<lparr>ss_cons := cons\<rparr>\<rparr>))"
proof -
  have "gives waiting_clients (run (Suc (Suc (Suc (Suc (Suc (Suc k)))))) C (Enter st_Init) m)"
    if "msm_storage m = []" for m k
    unfolding C_def
    apply (rule gives_Enter [OF server_state_eqs(3)])
      apply (simp add: session_state_def Init_Init_def Let_def solo_simps [OF assms(1)] notify_all_def)
     apply (rule gives_outcome(2) [OF _ server_state_eqs(3)])
     apply (auto simp: waiting_clients_def that session_state_def intro!: solo_Enlist [OF assms(1)] simp del: run.simps)
    done
  then have "gives waiting_clients (run (Suc (Suc (Suc (Suc (Suc (Suc (Suc k))))))) C (Enter st_WaitingForServers) m)"
    if "msm_storage m = []" "ss_cons (msm_data m) = cons" for m
    unfolding C_def
    apply -
    apply (rule gives_Enter [OF server_state_eqs(2)])
      apply (simp add: session_state_def Waiting_Init_def Let_def CheckServers_def Reset_def solo_simps [OF assms(1)] that assms(2))
     apply (rule gives_outcome(2) [OF _ server_state_eqs(2)])
     apply (auto simp: waiting_clients_def that session_state_def simp del: run.simps)
    done
  then show ?thesis
    by (simp add: OnStart_def C_def Offline_connections ServerSession_def msm_StateComplete_def GetCurrentState_def
      server_state_eqs(1) session_state_def del: run.simps)
qed

definition solo_running :: "(peer, client_register) qmap \<Rightarrow> 'r server_machine \<Rightarrow> bool" where
  "solo_running regs m \<longleftrightarrow> msm_cstate m = Some st_Communicating \<and> msm_storage m = [] \<and> m_registered_msgs (msm_data m) = regs"

definition round_starts :: "'r sess_config \<Rightarrow> bool" where
  "round_starts cf \<longleftrightarrow> (\<forall>r q. \<exists>r' q'. ro_start (cf_round cf) r q = Inr (r', q', False))"

lemma qmap_insert_present: "qmap_wf M \<Longrightarrow> (k, v) \<in> set M \<Longrightarrow> qmap_insert k v M = M"
  by (induction k v M rule: qmap_insert.induct) (auto simp: rev_image_eqI less_imp_not_less dest: less_asym)

lemma fold_present:
  assumes "qmap_wf M" and "\<forall>c \<in> set cs. (mm_peer c, c) \<in> set M"
  shows "fold (\<lambda>clr. qmap_insert (mm_peer clr) clr) cs M = M"
  using assms(2) by (induction cs) (auto simp: qmap_insert_present [OF assms(1)])

lemma own_registrations:
  assumes "registered cf d"
  shows "fold (\<lambda>clr. qmap_insert (mm_peer clr) clr) (qmap_vals (m_registered_msgs d)) (m_registered_msgs d) = m_registered_msgs d"
    and "m_round_id d' = m_round_id d \<Longrightarrow> check_all (CheckClientRegister cf d') (qmap_vals (m_registered_msgs d)) = Passes ()"
proof -
  have M: "qmap_wf (m_registered_msgs d)" "\<forall>(i, c) \<in> set (m_registered_msgs d). member_ok cf (m_round_id d) i c"
    using assms by (auto simp: registered_def members_ok_def)
  then show "fold (\<lambda>clr. qmap_insert (mm_peer clr) clr) (qmap_vals (m_registered_msgs d)) (m_registered_msgs d) = m_registered_msgs d"
    by (intro fold_present) (auto simp: qmap_vals_def member_ok_def)
  show "check_all (CheckClientRegister cf d') (qmap_vals (m_registered_msgs d)) = Passes ()" if "m_round_id d' = m_round_id d"
    using M(2) that by (auto simp: qmap_vals_def CheckClientRegister_def member_ok_def)
qed

lemma solo_Communicating:
  assumes "round_starts cf" and "msm_storage m = []" and "m_registered_msgs (msm_data m) = regs"
  shows "gives (solo_running regs)
     (run (Suc k) (server_class cf reason) (Enter st_Communicating) m)"
proof -
  obtain r q where rq: "ro_start (cf_round cf) (the (m_round (NextRound cf (msm_data m)))) (m_send_queue (msm_data m)) = Inr (r, q, False)"
    using assms(1) unfolding round_starts_def by metis
  show ?thesis
    apply (rule gives_Enter [OF server_state_eqs(9)])
      apply (simp add: session_state_def Comm_Init_def Let_def call_round_def notify_all_sent rq [unfolded NextRound_def, simplified] NextRound_def)
      apply (rule gives_outcome(1))
    apply (auto simp: solo_running_def assms)
    done
qed

lemma solo_VerifyList:
  assumes "solo cf" and "round_starts cf" and "msm_storage m = []" and "m_registered_msgs (msm_data m) = regs"
  shows "gives (solo_running regs)
     (run (Suc (Suc (Suc k))) (server_class cf reason) (Enter st_VerifyList) m)"
    apply (rule gives_Enter [OF server_state_eqs(8)])
      apply (simp add: session_state_def VerifyList_Init_def Let_def solo_simps [OF assms(1)] mk_outcome_def)
     apply (rule gives_outcome(3))
     apply (rule gives_Receive [OF _ server_state_eqs(8)])
      apply simp
     apply (simp add: session_state_def)
    apply (simp add: session_state_def Process_def VerifyList_ProcessPacket_def solo_simps [OF assms(1)] made
      solo_checks Let_def)
   apply (auto simp: solo_running_def assms intro!: solo_Communicating [OF assms(2)] simp del: run.simps)
  done

lemma solo_ListExchange:
  assumes "solo cf" and "round_starts cf" and "msm_storage m = []" and "registered cf (msm_data m)"
  shows "gives (solo_running (m_registered_msgs (msm_data m)))
     (run (Suc (Suc (Suc (Suc (Suc k))))) (server_class cf reason) (Enter st_ListExchange) m)"
    apply (rule gives_Enter [OF server_state_eqs(7)])
      apply (simp add: session_state_def ListExchange_Init_def Let_def solo_simps [OF assms(1)] mk_outcome_def)
     apply (rule gives_outcome(3))
     apply (rule gives_Receive [OF _ server_state_eqs(7)])
      apply simp
     apply (simp add: session_state_def)
    apply (simp add: session_state_def Process_def ListExchange_ProcessPacket_def solo_simps [OF assms(1)] made
      solo_checks Let_def own_registrations [OF assms(4)])
   apply (auto simp: solo_running_def assms(3) intro!: solo_VerifyList [OF assms(1,2)] simp del: run.simps)
  done

lemma solo_timeout:
  assumes "solo cf" and "round_starts cf" and "server_reachable cf reason m" and "msm_cstate m = Some st_Registering"
    and "msm_storage m = []"
  shows "gives (solo_running (l_registered_msgs (msm_data m)))
    (register_timeout (run (Suc (Suc (Suc (Suc (Suc k))))) (server_class cf reason)) cf reason m)"
proof -
  let ?m = "m\<lparr>msm_data := FinishClientRegister (msm_data m)\<rparr>"
  have "registered cf (msm_data ?m)"
    using reachable_I [OF assms(3,4)] by (simp add: FinishClientRegister_def registered_def)
  then have "gives (solo_running (m_registered_msgs (msm_data ?m)))
      (run (Suc (Suc (Suc (Suc (Suc k))))) (server_class cf reason) (Enter st_ListExchange) ?m)"
    by (intro solo_ListExchange [OF assms(1,2)]) (simp_all add: assms(5))
  then show ?thesis
    using assms(4)
    by (simp add: register_timeout_def ResultProcessor_def msm_StateComplete_def GetCurrentState_def server_state_eqs(6)
        session_state_def FinishClientRegister_def del: run.simps)
qed

section \<open>A concrete session\<close>

definition demo_round :: "nat round_ops" where
  "demo_round =
     \<lparr>ro_create = (\<lambda>clients servers i key dh round_id. 0),
      ro_start = (\<lambda>r q. Inr (r, q, False)),
      ro_packet = (\<lambda>i p r q. Inr (Suc r, q, False)),
      ro_disconnect = (\<lambda>i r q. Inr (r, q, True)),
      ro_stop = (\<lambda>r q. Inr (r, q, True)),
      ro_interrupt = (\<lambda>r. r),
      ro_successful = (\<lambda>r. True)\<rparr>"

text \<open>Server 1 with the client 2 of \<open>demo_register\<close>; a signature is the byte 9.\<close>

definition demo_server :: "nat sess_config" where
  "demo_server =
     \<lparr>cf_qds = demo_sqds, cf_id = 1, cf_servers = [1],
      cf_key = (\<lambda>i. if i = 1 \<or> i = 2 then Some demo_key else None),
      cf_verify = (\<lambda>key p s. s = [9]), cf_sign = (\<lambda>p. [9]), cf_hash = (\<lambda>p. [1]),
      cf_new_key = (\<lambda>n. demo_key), cf_public = (\<lambda>k. k), cf_new_dh = (\<lambda>n. ([1], [2])),
      cf_nonce = (\<lambda>n. [3]), cf_time = of_nat, cf_variant = (\<lambda>b. b), cf_round = demo_round\<rparr>"

abbreviation demo_reason :: "peer \<Rightarrow> string" where
  "demo_reason \<equiv> (\<lambda>i. [])"

lemma demo_solo: "solo demo_server" "round_starts demo_server" "round_ends demo_server"
  by (auto simp: solo_def round_starts_def round_ends_def signed_by_def demo_server_def demo_round_def demo_key_def)

lemma demo_waiting: "\<exists>m. server_reachable demo_server demo_reason m \<and> waiting_clients m"
proof -
  from solo_start [OF demo_solo(1) refl, of 0 demo_reason] obtain m where
    m: "OnStart (run (Suc (Suc (Suc (Suc (Suc (Suc (Suc 0))))))) (server_class demo_server demo_reason)) (server_class demo_server demo_reason)
      [cf_id demo_server] (ServerSession\<lparr>msm_data := (msm_data ServerSession)\<lparr>ss_cons := [cf_id demo_server]\<rparr>\<rparr>) = Inr m" "waiting_clients m"
    by (auto simp: gives_def)
  have "server_step demo_server demo_reason ServerSession m"
    by (rule server_step.start [OF _ m(1)]) (simp add: ServerSession_def)
  with m(2) show ?thesis by blast
qed


lemma demo_registers:
  assumes "server_reachable demo_server demo_reason m" and "waiting_clients m"
  defines "m' \<equiv> m\<lparr>msm_data := (msm_data m)\<lparr>l_registered_msgs := [(2, demo_register)]\<rparr>\<rparr>"
  shows "server_step demo_server demo_reason m m'"
proof -
  let ?C = "server_class demo_server demo_reason"
  have m: "msm_cstate m = Some st_Registering" "l_registered_msgs (msm_data m) = []"
    using assms(2) by (simp_all add: waiting_clients_def)
  have "m_round_id (msm_data m) = [1]"
    using reachable_I [OF assms(1) m(1)] by (simp add: agreed_def has_round_id_def demo_server_def)
  then have "Registering_ProcessPacket demo_server (Some 2) (MClientRegister demo_register) (msm_data m) =
      Ret (msm_data m') NoChange"
    by (simp add: Registering_ProcessPacket_def CheckClientRegister_def m'_def m demo_registration_def mk_ClientRegister_def mk_member_def
       SetSignature_def demand_def demand_signature_def verify_by_def demand_valid_def demo_server_def IsServer_def demo_key_def)
  then have "msm_ProcessData (run 1 ?C) ?C (Some 2) (MClientRegister demo_register) m = Inr m'"
    by (simp add: msm_ProcessData_def GetCurrentState_def server_state_eqs(6) session_state_def Process_def m
        ResultProcessor_def m'_def)
  moreover have "ParseMessage (server_parsers (cf_qds demo_server)) (msg_packet demo_register) = Inr (MClientRegister demo_register)"
    using demo_registration_parses [of 2] by (simp add: demo_server_def)
  ultimately have "HandleData (run 1 ?C) ?C (server_parsers (cf_qds demo_server)) (Some 2) (msg_packet demo_register) m = Inr m'"
    by (simp add: HandleData_def BadMessageType_def del: run.simps)
  then show ?thesis by (rule server_step.packet)
qed

lemma demo_running: "\<exists>m. server_reachable demo_server demo_reason m \<and> solo_running [(2, demo_register)] m"
proof -
  from demo_waiting obtain m where m: "server_reachable demo_server demo_reason m" "waiting_clients m" by blast
  let ?m = "m\<lparr>msm_data := (msm_data m)\<lparr>l_registered_msgs := [(2, demo_register)]\<rparr>\<rparr>"
  have reach: "server_reachable demo_server demo_reason ?m"
    using m(1) demo_registers [OF m] by (rule rtranclp.rtrancl_into_rtrancl)
  have "msm_cstate ?m = Some st_Registering" "msm_storage ?m = []" using m(2) by (simp_all add: waiting_clients_def)
  from solo_timeout [OF demo_solo(1,2) reach this, of 0] obtain m' where
    "register_timeout (run (Suc (Suc (Suc (Suc (Suc 0))))) (server_class demo_server demo_reason)) demo_server demo_reason ?m = Inr m'"
    and m': "solo_running [(2, demo_register)] m'"
    by (auto simp: gives_def)
  then have "server_step demo_server demo_reason ?m m'" by (intro server_step.timeout)
  with reach m' show ?thesis by (blast intro: rtranclp.rtrancl_into_rtrancl)
qed

end
