(* ===== verification/ServerSession_Props.thy ===== *)
theory ServerSession_Props
  imports ServerSession_Solo
begin

text \<open>
  What a server session guarantees when it hands over to the round, that its events end, and what it
  does with registrations it should not accept.
\<close>

section \<open>The communicating state\<close>

lemma full_order:
  assumes "full cf M" and "qmap_wf M" and "qmap_dom M \<subseteq> set (cf_servers cf)" and "distinct (cf_servers cf)"
  shows "map fst M = sorted_list_of_set (set (cf_servers cf))"
proof -
  have M: "distinct (map fst M)" "sorted (map fst M)" "set (map fst M) \<subseteq> set (cf_servers cf)"
    using assms(2,3) by (auto simp: strict_sorted_iff qmap_dom_def)
  then have "card (set (map fst M)) = card (set (cf_servers cf))"
    using assms(1,4) by (simp add: full_def distinct_card del: set_map)
  then have "set (map fst M) = set (cf_servers cf)" using M(3) by (intro card_subset_eq) auto
  with M show ?thesis by (metis sorted_list_of_set.idem_if_sorted_distinct)
qed

lemma peers_of:
  assumes "\<And>i c. (i, c) \<in> set M \<Longrightarrow> mm_peer c = i"
  shows "map mm_peer (qmap_vals M) = map fst M"
  using assms by (auto simp: qmap_vals_def)

text \<open>
  C3.  A server that communicates has heard every server and only them: the server list is in the
  order of the ids, one signed agree message per server for this round id, which is the hash of the
  enlistments; the clients are distinct and every registration is signed by its client for this round;
  and it holds a valid signature of every server on the hash of exactly this client list.
\<close>

theorem communicating_quorum:
  assumes "server_reachable cf reason m" and "msm_cstate m = Some st_Communicating" and "distinct (cf_servers cf)"
  defines "d \<equiv> msm_data m"
  shows "map mm_peer (m_server_list d) = sorted_list_of_set (set (cf_servers cf))
    \<and> list_all (\<lambda>a. member_ok cf (m_round_id d) (mm_peer a) a) (m_server_list d @ m_client_list d)
    \<and> m_round_id d = cf_hash cf (concat (map msg_payload (qmap_vals (m_enlist_msgs d))))
    \<and> sorted_wrt (<) (map mm_peer (m_client_list d))
    \<and> map fst (m_verify d) = sorted_list_of_set (set (cf_servers cf))
    \<and> list_all (\<lambda>(i, s). signed_by cf i (list_hash cf (m_client_list d)) s) (m_verify d)"
proof -
  from reachable_I [OF assms(1,2)] have d: "verified cf d" by (simp add: d_def)
  then have agrees: "agrees_ok cf d (m_agree_msgs d)" "full cf (m_agree_msgs d)" "m_server_list d = qmap_vals (m_agree_msgs d)"
    and round_id: "m_round_id d = cf_hash cf (concat (map msg_payload (qmap_vals (m_enlist_msgs d))))"
    and clients: "members_ok cf d (m_registered_msgs d)" "m_client_list d = qmap_vals (m_registered_msgs d)"
    and verify: "verifies_ok cf d (m_verify d)" "full cf (m_verify d)"
    by (auto simp: verified_def listed_def registered_def agreed_def has_round_id_def)
  have "map mm_peer (m_server_list d) = map fst (m_agree_msgs d)"
    using agrees(1) by (auto simp: agrees(3) agrees_ok_def member_ok_def intro!: peers_of)
  also have "\<dots> = sorted_list_of_set (set (cf_servers cf))"
    using agrees(1) by (intro full_order [OF agrees(2) _ _ assms(3)]) (auto simp: agrees_ok_def qmap_dom_def IsServer_def)
  finally have servers: "map mm_peer (m_server_list d) = sorted_list_of_set (set (cf_servers cf))" .
  have "map mm_peer (m_client_list d) = map fst (m_registered_msgs d)"
    using clients(1) by (auto simp: clients(2) members_ok_def member_ok_def intro!: peers_of)
  then have "sorted_wrt (<) (map mm_peer (m_client_list d))" using clients(1) by (simp add: members_ok_def)
  moreover have "list_all (\<lambda>a. member_ok cf (m_round_id d) (mm_peer a) a) (m_server_list d @ m_client_list d)"
    using agrees(1) clients(1)
    by (fastforce simp: list_all_iff agrees(3) clients(2) qmap_vals_def agrees_ok_def members_ok_def member_ok_def)
  moreover have "map fst (m_verify d) = sorted_list_of_set (set (cf_servers cf))"
    using verify(1) by (intro full_order [OF verify(2) _ _ assms(3)]) (auto simp: verifies_ok_def servers_only_def)
  moreover have "list_all (\<lambda>(i, s). signed_by cf i (list_hash cf (m_client_list d)) s) (m_verify d)"
    using verify(1) by (auto simp: verifies_ok_def list_all_iff)
  ultimately show ?thesis using servers round_id by blast
qed

theorem communicating_quorum_witness:
  "\<exists>m. server_reachable demo_server demo_reason m \<and> msm_cstate m = Some st_Communicating
     \<and> m_registered_msgs (msm_data m) = [(2, demo_register)]
     \<and> map mm_peer (m_server_list (msm_data m)) = [1]"
proof -
  from demo_running obtain m where m: "server_reachable demo_server demo_reason m" "solo_running [(2, demo_register)] m" by blast
  then have "msm_cstate m = Some st_Communicating" "distinct (cf_servers demo_server)"
    by (simp_all add: solo_running_def demo_server_def)
  from communicating_quorum [OF m(1) this] m show ?thesis by (auto simp: solo_running_def demo_server_def)
qed

section \<open>Termination\<close>

text \<open>
  C24.  Every event of a server session ends: whatever the state, the stored messages and the packet,
  a bounded number of nested calls of the state machine is enough to handle a packet, a connection, a
  disconnection or the registration timer.
\<close>

theorem server_events_end:
  assumes "server_reachable cf reason m" and "round_ends cf" and "distinct (cf_servers cf)" and "distinct cons"
    and "(length (msm_storage m) + 1) * 17 < k"
  defines "C \<equiv> server_class cf reason" and "m' \<equiv> m\<lparr>msm_data := (msm_data m)\<lparr>ss_cons := cons\<rparr>\<rparr>"
  shows "msm_ProcessData (run k C) C from msg m \<noteq> Inl Loops
    \<and> msm_HandleConnection (run k C) C i m' \<noteq> Inl Loops
    \<and> msm_HandleDisconnection (run k C) C i m' \<noteq> Inl Loops
    \<and> register_timeout (run k C) cf reason m \<noteq> Inl Loops"
proof -
  note inv = server_reachable_invariant [OF assms(1)] and ranked = server_ranked [OF assms(2,3), of reason]
  have k: "Suc (stored m) * (2 * 7 + 3) < k" "Suc (stored m') * (2 * 7 + 3) < k"
    using assms(5) by (simp_all add: m'_def)
  have inv': "server.in_state cf reason m'" using in_state_frame(1) [OF inv] by (simp add: m'_def)
  have d': "distinct (ss_cons (msm_data m'))" using assms(4) by (simp add: m'_def)
  let ?f = "m\<lparr>msm_data := FinishClientRegister (msm_data m)\<rparr>"
  have "server.settled cf reason (?f, Some NextState) \<and> server.in_state cf reason ?f" if "msm_cstate m = Some st_Registering"
    using inv that server_state_eqs(6) [of cf reason]
    by (auto simp: server.settled_def server.in_state_def FinishClientRegister_def registered_def)
  then have "register_timeout (run k C) cf reason m \<noteq> Inl Loops"
    using server.events_end(4) [OF ranked, of ?f k NextState] k(1) by (auto simp: register_timeout_def C_def)
  then show ?thesis
    using server.events_end(1) [OF ranked inv k(1), of "from" msg] server.events_end(2) [OF ranked inv' k(2), of i]
      server.events_end(3) [OF ranked inv' k(2), of i] event_ranked_server [OF assms(2) d']
    by (simp add: C_def)
qed

theorem server_events_end_witness:
  "\<exists>m. server_reachable demo_server demo_reason m \<and> msm_cstate m = Some st_Registering
     \<and> register_timeout (run 18 (server_class demo_server demo_reason)) demo_server demo_reason m \<noteq> Inl Loops"
proof -
  from demo_waiting obtain m where m: "server_reachable demo_server demo_reason m" "waiting_clients m" by blast
  have "distinct (cf_servers demo_server)" "distinct [1 :: peer]" "(length (msm_storage m) + 1) * 17 < 18"
    using m(2) by (simp_all add: demo_server_def waiting_clients_def)
  from server_events_end [OF m(1) demo_solo(3) this] m show ?thesis by (auto simp: waiting_clients_def)
qed

section \<open>Registration\<close>

text \<open>
  C39.  A registration that passes the first checks but names an id without a key in the key share, or
  carries an ephemeral key of an unknown type, makes the server use a null pointer.
\<close>

theorem register_crashes:
  assumes "msm_cstate m = Some st_Registering" and "ParseMessage (server_parsers (cf_qds cf)) p = Inr (MClientRegister clr)"
    and "\<not> IsServer cf (mm_peer clr)" and "mm_peer clr \<notin> qmap_dom (l_registered_msgs (msm_data m))"
    and "mm_round_id clr = m_round_id (msm_data m)"
    and "cf_key cf (mm_peer clr) = None \<or> signed_by cf (mm_peer clr) (msg_payload clr) (msg_signature clr) \<and> mm_key clr = None"
  shows "HandleData rec (server_class cf reason) (server_parsers (cf_qds cf)) from p m = Inl NullPointer"
proof -
  have "CheckClientRegister cf (msm_data m) clr = Faults NullPointer"
    using assms(5,6)
    by (auto simp: CheckClientRegister_def demand_def demand_signature_def verify_by_def demand_valid_def signed_by_def)
  then have "Registering_ProcessPacket cf from (MClientRegister clr) (msm_data m) = Abort NullPointer"
    using assms(3,4) by (simp add: Registering_ProcessPacket_def demand_def)
  then show ?thesis
    using assms(1,2)
    by (simp add: HandleData_def BadMessageType_def msm_ProcessData_def GetCurrentState_def server_state_eqs(6)
        session_state_def Process_def)
qed

text \<open>Id 3 has no key.\<close>

theorem register_crashes_witness:
  "\<exists>m. server_reachable demo_server demo_reason m \<and>
     HandleData (run 9 (server_class demo_server demo_reason)) (server_class demo_server demo_reason)
       (server_parsers demo_sqds) (Some 3) (msg_packet (demo_registration 3)) m = Inl NullPointer"
proof -
  from demo_waiting obtain m where m: "server_reachable demo_server demo_reason m" "waiting_clients m" by blast
  then have st: "msm_cstate m = Some st_Registering" "l_registered_msgs (msm_data m) = []" by (simp_all add: waiting_clients_def)
  have "m_round_id (msm_data m) = [1]"
    using reachable_I [OF m(1) st(1)] by (simp add: agreed_def has_round_id_def demo_server_def)
  then have "HandleData (run 9 (server_class demo_server demo_reason)) (server_class demo_server demo_reason)
       (server_parsers (cf_qds demo_server)) (Some 3) (msg_packet (demo_registration 3)) m = Inl NullPointer"
    using demo_registration_parses [of 3] st
    by (intro register_crashes [where clr = "demo_registration 3"]) (simp_all add: demo_server_def IsServer_def)
  with m(1) show ?thesis by (auto simp: demo_server_def)
qed

lemma registrations_last:
  assumes "qmap_wf M"
  shows "map_of (fold (\<lambda>clr. qmap_insert (mm_peer clr) clr) cs M) j =
    (case filter (\<lambda>c. mm_peer c = j) cs of [] \<Rightarrow> map_of M j | c # cs \<Rightarrow> Some (last (c # cs)))"
proof (induction cs rule: rev_induct)
  case (snoc c cs)
  have "qmap_wf (fold (\<lambda>clr. qmap_insert (mm_peer clr) clr) cs M)"
    using assms by (induction cs arbitrary: M) auto
  with snoc show ?case
    by (cases "filter (\<lambda>c. mm_peer c = j) cs") (auto simp: qmap_insert_map_of)
qed simp

text \<open>
  Of two registrations of one client the list exchange keeps the one that arrives last, whichever
  server it comes from: an accepted list overwrites what earlier lists and the server's own clients
  registered.
\<close>

theorem list_exchange_overwrites:
  assumes "ListExchange_ProcessPacket cf from (MServerList slist) d = Ret d' pr" and "qmap_wf (l_registered_msgs d)"
  shows "map_of (l_registered_msgs d') j =
    (case filter (\<lambda>c. mm_peer c = j) (sl_register_list slist) of [] \<Rightarrow> map_of (l_registered_msgs d) j
     | c # cs \<Rightarrow> Some (last (c # cs)))"
  using assms(1) registrations_last [OF assms(2), of "sl_register_list slist" j]
  by (cases "check_sender cf (l_list_received d) from"; cases "check_all (CheckClientRegister cf d) (sl_register_list slist)")
    (auto simp: ListExchange_ProcessPacket_def Let_def split: if_splits)

theorem list_exchange_overwrites_witness:
  "\<exists>d'. ListExchange_ProcessPacket demo_server (Some 1) (MServerList (mk_ServerList demo_sqds [demo_register]))
       (new_server\<lparr>m_round_id := [1], l_registered_msgs := [(2, demo_register\<lparr>mm_optional := VBytes [4]\<rparr>)]\<rparr>) = Ret d' NextState
     \<and> map_of (l_registered_msgs d') 2 = Some demo_register"
proof -
  let ?d = "new_server\<lparr>m_round_id := [1], l_registered_msgs := [(2, demo_register\<lparr>mm_optional := VBytes [4]\<rparr>)]\<rparr> :: nat server_state"
  let ?slist = "mk_ServerList demo_sqds [demo_register]"
  obtain d' where d': "ListExchange_ProcessPacket demo_server (Some 1) (MServerList ?slist) ?d = Ret d' NextState"
    by (simp add: ListExchange_ProcessPacket_def mk_ServerList_def check_sender_def demand_def IsServer_def demo_server_def
        new_server_def new_shared_def CheckClientRegister_def demand_signature_def verify_by_def demand_valid_def demo_key_def Let_def)
  have "map_of (l_registered_msgs d') 2 = Some demo_register"
    using list_exchange_overwrites [OF d', of 2]
    by (simp add: mk_ServerList_def)
  with d' show ?thesis by blast
qed

section \<open>A session with one server\<close>


end
