(* ===== verification/ClientSession_Props.thy ===== *)
theory ClientSession_Props
  imports ClientSession_Runs ServerSession_Props
begin

text \<open>
  What a client session guarantees, how servers and clients of one session fit together, and a concrete
  client that goes through all its states.
\<close>

section \<open>What a client accepts\<close>

lemma Queuing_accepts:
  assumes "signed_by cf (m_server d) (msg_payload q) (msg_signature q)" and "length (sq_agree_list q) = length (cf_servers cf)"
    and "sq_agree_list q \<noteq> []" and "\<forall>a \<in> set (sq_agree_list q). member_ok cf (mm_round_id (hd (sq_agree_list q))) (mm_peer a) a"
  shows "Queuing_ProcessPacket cf from (MServerQueued q) d =
    Ret (SetServers cf (sq_agree_list q) (d\<lparr>m_round_id := mm_round_id (hd (sq_agree_list q))\<rparr>)) NextState"
proof -
  obtain a as where as: "sq_agree_list q = a # as" using assms(3) by (cases "sq_agree_list q") auto
  have c: "check_all (\<lambda>agree. CheckServerAgree cf agree (mm_round_id a)) (a # as) = Passes ()"
    using assms(4) by (simp only: check_all_Passes) (auto simp: as CheckServerAgree_Passes member_ok_def)
  have s: "demand_signature cf (m_server d) q = Passes ()" using assms(1) by simp
  show ?thesis
    using assms(2) by (simp add: Queuing_ProcessPacket_def as c s demand_def Let_def del: check_all.simps)
qed

lemma Registering_accepts:
  assumes "all_signed cf (sr_register start) (sr_signatures start)"
  shows "cl_Registering_ProcessPacket cf from (MServerStart start) d =
    Ret (NextRound cf (d\<lparr>m_client_list := sr_register_list start\<rparr>)) NextState"
proof -
  have "length (cf_servers cf) = length (sr_signatures start)"
    using assms by (auto simp: all_signed_def dest: list_all2_lengthD)
  with assms check_signatures_Passes [OF this, of cf "cf_hash cf (sr_register start)" "()"] show ?thesis
    by (simp add: cl_Registering_ProcessPacket_def demand_def all_signed_def)
qed

section \<open>A concrete client\<close>

definition demo_client :: "nat sess_config" where
  "demo_client = demo_server\<lparr>cf_id := 2\<rparr>"

definition demo_agree :: server_agree where
  "demo_agree = SetSignature demo_sqds mt_ServerAgree [9] (mk_ServerAgree demo_sqds 1 [1] demo_key (VBytes [3]))"

definition demo_queued :: server_queued where
  "demo_queued = SetSignature demo_sqds mt_ServerQueued [9]
     (mk_ServerQueued demo_sqds [demo_agree] (replicate 16 0) (SerializeList demo_sqds [demo_agree]))"

definition demo_start :: server_start where
  "demo_start = mk_ServerStart demo_sqds [demo_register] [[9]]"

lemmas demo_lengths = SetSignature_def demo_sqds_def qds.extend_def demo_qds_def put_key_def put_un_bytes_def put_un_def
  demo_key_def SerializeList_def

lemma demo_agree_made: "member_made demo_sqds mt_ServerAgree demo_agree"
proof -
  have "signed_ok demo_agree"
    by (simp add: signed_ok_def demo_agree_def mk_ServerAgree_def mk_member_def demo_lengths)
  then show ?thesis
    using demo_id_ok [of 1] demo_key_ok
    by (simp add: member_made_def mk_ServerAgree_def demo_agree_def)
      (rule exI [of _ 1], rule exI [of _ "[1]"], rule exI [of _ demo_key], auto)
qed

lemma demo_packets: "length (msg_packet demo_agree) < 100" "length (msg_packet (demo_registration i)) < 100"
  by (simp_all add: demo_agree_def demo_registration_def mk_ServerAgree_def mk_ClientRegister_def mk_member_def demo_lengths)

lemma demo_queued_made: "msg_made demo_sqds (MServerQueued demo_queued)"
proof -
  have "signed_ok demo_queued" "small (SerializeList demo_sqds [demo_agree])"
    using demo_packets(1)
    by (simp_all add: signed_ok_def demo_queued_def mk_ServerQueued_def Let_def demo_lengths)
  then show ?thesis
    using demo_agree_made
    by (simp) (rule exI [of _ "[demo_agree]"], auto simp: demo_queued_def)
qed

lemma demo_start_made: "msg_made demo_sqds (MServerStart demo_start)"
proof -
  have "small (SerializeList demo_sqds [demo_register])"
    using demo_packets(2) [of 2] by (simp add: demo_lengths)
  then show ?thesis
    using demo_registration_made [of 2]
    by simp (rule exI [of _ "[demo_register]"], rule exI [of _ "[[9]]"], simp add: demo_start_def)
qed

lemma demo_client_parses:
  "ParseMessage (client_parsers demo_sqds) (msg_packet demo_queued) = Inr (MServerQueued demo_queued)"
  "ParseMessage (client_parsers demo_sqds) (sr_packet demo_start) = Inr (MServerStart demo_start)"
proof -
  have "ParseMessage (client_parsers demo_sqds) (msg_packet demo_queued)
      = as_msg MServerQueued (parse_ServerQueued demo_sqds (msg_packet demo_queued))"
    by (rule ParseMessage_Cons [of _ mt_ServerQueued])
      (simp_all add: client_parsers_def mt_defs demo_queued_def signed_packet [OF demo_sqds_ok])
  then show "ParseMessage (client_parsers demo_sqds) (msg_packet demo_queued) = Inr (MServerQueued demo_queued)"
    by (simp add: as_msg_Inr parse_queued_made [OF demo_sqds_ok demo_queued_made])
  have "ParseMessage (client_parsers demo_sqds) (sr_packet demo_start)
      = as_msg MServerStart (parse_ServerStart demo_sqds (sr_packet demo_start))"
    by (rule ParseMessage_Cons [of _ mt_ServerStart])
      (simp_all add: client_parsers_def mt_defs demo_start_def mk_ServerStart_def Let_def sqds_okD(5) [OF demo_sqds_ok])
  then show "ParseMessage (client_parsers demo_sqds) (sr_packet demo_start) = Inr (MServerStart demo_start)"
    by (simp add: as_msg_Inr parse_start_made [OF demo_sqds_ok demo_start_made])
qed

lemma demo_client_simps [simp]:
  "cf_qds demo_client = demo_sqds" "cf_servers demo_client = [1]" "cf_id demo_client = 2"
  "IsServer demo_client i = (i = 1)" "signed_by demo_client i p s = ((i = 1 \<or> i = 2) \<and> s = [9])"
  "cf_round demo_client = demo_round"
  by (auto simp: demo_client_def demo_server_def IsServer_def signed_by_def)

definition cl_at :: "int \<Rightarrow> nat client_machine \<Rightarrow> bool" where
  "cl_at s m \<longleftrightarrow> msm_cstate m = Some s \<and> msm_storage m = [] \<and> m_server (msm_data m) = 1"

lemma demo_client_queuing: "\<exists>m. client_reachable demo_client 0 m \<and> cl_at st_Queuing m"
proof -
  let ?C = "client_class demo_client" and ?m = "(ClientSession 0)\<lparr>msm_data := (msm_data (ClientSession 0))\<lparr>ss_cons := [1]\<rparr>\<rparr> :: nat client_machine"
  have "gives (cl_at st_Queuing) (run (Suc (Suc 0)) ?C (Enter st_WaitingForServer) ?m)"
    apply (rule gives_Enter [OF client_state_eqs(2)])
      apply (simp add: cl_cases CheckServer_def)
     apply (rule gives_outcome(2) [OF _ client_state_eqs(2)])
       apply (simp_all add: session_state_def del: run.simps)
     apply (rule gives_Enter [OF client_state_eqs(3)])
       apply (auto simp add: cl_cases cl_at_def ClientSession_def intro!: gives_outcome(1))
    done
  then obtain m where m: "run (Suc (Suc 0)) ?C (Enter st_WaitingForServer) ?m = Inr m" "cl_at st_Queuing m"
    by (auto simp: gives_def)
  have "cl_OnStart (run (Suc (Suc 0)) ?C) demo_client [1] ?m = Inr m"
    using m(1)
    by (simp add: cl_OnStart_def cl_Offline_connections ClientSession_def msm_StateComplete_def GetCurrentState_def
        client_state_eqs(1) session_state_def del: run.simps foldS.simps)
  then have "client_step demo_client (ClientSession 0) m" by (rule client_step.cl_start [rotated]) (simp add: ClientSession_def)
  with m(2) show ?thesis by blast
qed

lemma client_packet:
  assumes "ParseMessage (client_parsers (cf_qds cf)) p = Inr msg" and "GetMessageType msg \<noteq> BadMessageType"
    and "gives Q (run (Suc k) (client_class cf) (Receive from msg) m)" and "client_reachable cf i m"
  shows "\<exists>m'. client_reachable cf i m' \<and> Q m'"
proof -
  from assms(3) obtain m' where "run (Suc k) (client_class cf) (Receive from msg) m = Inr m'" and Q: "Q m'"
    by (auto simp: gives_def)
  then have "HandleData (run k (client_class cf)) (client_class cf) (client_parsers (cf_qds cf)) from p m = Inr m'"
    using assms(1,2) by (simp add: HandleData_def)
  from client_step.cl_packet [OF this] assms(4) Q show ?thesis by (meson rtranclp.rtrancl_into_rtrancl)
qed

lemma demo_client_registering: "\<exists>m. client_reachable demo_client 0 m \<and> cl_at st_Registering m"
proof -
  from demo_client_queuing obtain m where m: "client_reachable demo_client 0 m" "cl_at st_Queuing m" by blast
  have "Queuing_ProcessPacket demo_client (Some 1) (MServerQueued demo_queued) (msm_data m) =
      Ret (SetServers demo_client [demo_agree] ((msm_data m)\<lparr>m_round_id := [1]\<rparr>)) NextState"
    using m(2) Queuing_accepts [of demo_client "msm_data m" demo_queued "Some 1"]
    by (simp add: cl_at_def demo_queued_def mk_ServerQueued_def Let_def SetSignature_def member_ok_def
        demo_agree_def mk_ServerAgree_def mk_member_def demo_key_def)
  then have "gives (cl_at st_Registering) (run (Suc (Suc 0)) (client_class demo_client) (Receive (Some 1) (MServerQueued demo_queued)) m)"
    using m(2)
    apply (intro gives_Receive [OF _ client_state_eqs(3)])
       apply (auto simp: cl_at_def cl_cases Process_def simp del: run.simps)
    apply (rule gives_Enter [OF client_state_eqs(4)])
       apply (auto simp: cl_cases cl_Registering_Init_def GenerateRoundData_def Let_def split_beta SendNotification_more SetServers_def cl_at_def
        intro!: gives_outcome(1))
    done
  from client_packet [OF _ _ this m(1)] demo_client_parses(1) show ?thesis by (auto simp: BadMessageType_def)
qed

lemma demo_client_communicating:
  "\<exists>m. client_reachable demo_client 0 m \<and> cl_at st_Communicating m"
proof -
  from demo_client_registering obtain m where m: "client_reachable demo_client 0 m" "cl_at st_Registering m" by blast
  have "cl_Registering_ProcessPacket demo_client (Some 1) (MServerStart demo_start) (msm_data m) =
      Ret (NextRound demo_client ((msm_data m)\<lparr>m_client_list := [demo_register]\<rparr>)) NextState"
    using Registering_accepts [of demo_client demo_start "Some 1"]
    by (simp add: demo_start_def mk_ServerStart_def Let_def all_signed_def)
  then have "gives (cl_at st_Communicating) (run (Suc (Suc 0)) (client_class demo_client) (Receive (Some 1) (MServerStart demo_start)) m)"
    using m(2)
    apply (intro gives_Receive [OF _ client_state_eqs(4)])
       apply (auto simp: cl_at_def cl_cases Process_def simp del: run.simps)
    apply (rule gives_Enter [OF client_state_eqs(5)])
       apply (auto simp: cl_cases cl_Comm_Init_def call_round_def NextRound_def demo_round_def Let_def cl_at_def
        intro!: gives_outcome(1))
    done
  from client_packet [OF _ _ this m(1)] demo_client_parses(2) show ?thesis by (auto simp: BadMessageType_def)
qed

text \<open>
  The nodes of one group: the same servers, keys, hash and message format.
\<close>

definition same_group :: "'r sess_config \<Rightarrow> 'q sess_config \<Rightarrow> bool" where
  "same_group cf cf' \<longleftrightarrow> cf_qds cf' = cf_qds cf \<and> cf_servers cf' = cf_servers cf \<and> cf_key cf' = cf_key cf
     \<and> cf_verify cf' = cf_verify cf \<and> cf_hash cf' = cf_hash cf"

definition demo_pair :: "nat sess_config" where
  "demo_pair = demo_client\<lparr>cf_servers := [4, 3], cf_verify := (\<lambda>key p s. s = ak_bytes key),
     cf_key := (\<lambda>i. if i = 3 then Some (demo_key\<lparr>ak_bytes := [3]\<rparr>) else if i = 4 then Some (demo_key\<lparr>ak_bytes := [4]\<rparr>) else None)\<rparr>"

section \<open>Properties\<close>

lemma signed_by_group: "same_group cf cf' \<Longrightarrow> signed_by cf' = signed_by cf"
  by (simp add: same_group_def signed_by_def fun_eq_iff)





text \<open>
  C9.  Servers and clients fit together: the start message that a communicating server sends is
  accepted by every registering client of the group, which then has the same list of clients as the
  server, provided that the configuration lists the server ids in ascending order.
\<close>

theorem start_accepted:
  assumes "server_reachable cf reason m" and "msm_cstate m = Some st_Communicating"
    and "sorted (cf_servers cf)" and "distinct (cf_servers cf)" and "same_group cf cf'"
  defines "d \<equiv> msm_data m"
  shows "cl_Registering_ProcessPacket cf' from
      (MServerStart (mk_ServerStart (cf_qds cf) (m_client_list d) (qmap_vals (m_verify d)))) d'
    = Ret (NextRound cf' (d'\<lparr>m_client_list := m_client_list d\<rparr>)) NextState"
proof -
  have V: "verifies_ok cf d (m_verify d)" "full cf (m_verify d)"
    using reachable_I [OF assms(1,2)] by (simp_all add: d_def verified_def)
  have ids: "map fst (m_verify d) = cf_servers cf"
    using full_order [OF V(2) _ _ assms(4)] V(1) assms(3,4)
    by (simp add: verifies_ok_def servers_only_def sorted_list_of_set.idem_if_sorted_distinct)
  have "list_all2 (\<lambda>i. signed_by cf i (list_hash cf (m_client_list d))) (map fst (m_verify d)) (map snd (m_verify d))"
    using V(1) by (auto simp: verifies_ok_def list_all2_conv_all_nth split_beta)
  then have "all_signed cf' (SerializeList (cf_qds cf) (m_client_list d)) (qmap_vals (m_verify d))"
    using assms(5) signed_by_group [OF assms(5)] by (simp add: all_signed_def ids same_group_def list_hash_def qmap_vals_def)
  then show ?thesis
    using Registering_accepts [of cf' "mk_ServerStart (cf_qds cf) (m_client_list d) (qmap_vals (m_verify d))" "from" d']
    by (simp add: mk_ServerStart_def Let_def)
qed

theorem start_accepted_witness:
  "\<exists>m d'. server_reachable demo_server demo_reason m \<and> msm_cstate m = Some st_Communicating
     \<and> cl_Registering_ProcessPacket demo_client (Some 1)
         (MServerStart (mk_ServerStart demo_sqds (m_client_list (msm_data m)) (qmap_vals (m_verify (msm_data m)))))
         (msm_data (ClientSession 0)) = Ret d' NextState"
proof -
  from demo_running obtain m where m: "server_reachable demo_server demo_reason m" "solo_running [(2, demo_register)] m" by blast
  have "msm_cstate m = Some st_Communicating" "sorted (cf_servers demo_server)" "distinct (cf_servers demo_server)"
    "same_group demo_server demo_client"
    using m(2) by (simp_all add: solo_running_def demo_server_def demo_client_def same_group_def)
  from start_accepted [OF m(1) this, of "Some 1" "msm_data (ClientSession 0)"] m show ?thesis
    by (auto simp: solo_running_def demo_server_def)
qed

text \<open>
  The order matters: signatures arrive in the order of the ids, but the client pairs them with the
  server ids in the order of its configuration.  When that order is not ascending and no signature is
  valid for two servers, the client rejects the correctly signed start message of every server.
\<close>

theorem start_rejected_unsorted:
  assumes "map fst V = sorted_list_of_set (set (cf_servers cf))" and "distinct (cf_servers cf)"
    and "list_all (\<lambda>(i, s). signed_by cf i (list_hash cf cs) s) V" and "\<not> sorted (cf_servers cf)"
    and "\<And>i j p s. signed_by cf i p s \<Longrightarrow> signed_by cf j p s \<Longrightarrow> i = j"
  shows "cl_Registering_ProcessPacket cf from (MServerStart (mk_ServerStart (cf_qds cf) cs (qmap_vals V))) d = Raise d"
proof -
  let ?h = "list_hash cf cs"
  have len: "length (cf_servers cf) = length (qmap_vals V)"
    using assms(1,2) by (metis distinct_card length_map length_sorted_list_of_set qmap_vals_def)
  have V: "list_all2 (\<lambda>i. signed_by cf i ?h) (map fst V) (qmap_vals V)"
    using assms(3) by (auto simp: qmap_vals_def list_all2_conv_all_nth list_all_length split_beta)
  have "\<not> list_all2 (\<lambda>i. signed_by cf i ?h) (cf_servers cf) (qmap_vals V)"
  proof
    assume "list_all2 (\<lambda>i. signed_by cf i ?h) (cf_servers cf) (qmap_vals V)"
    with V have "cf_servers cf = map fst V"
      by (intro nth_equalityI) (auto simp: list_all2_conv_all_nth, metis assms(5))
    with assms(1,4) show False by (metis sorted_list_of_set.sorted_sorted_key_list_of_set)
  qed
  then have no: "check_signatures cf ?h (cf_servers cf) (qmap_vals V) \<noteq> Passes ()"
    using check_signatures_Passes [OF len] by auto
  have "check_signatures cf ?h ids ss \<noteq> Faults e" if "length ids = length ss" "\<forall>i \<in> set ids. cf_key cf i \<noteq> None" for ids ss e
    using that by (induction ids ss rule: list_induct2) (auto simp: bindC_Faults verify_by_def split: option.splits)
  moreover have "\<forall>i \<in> set (cf_servers cf). cf_key cf i \<noteq> None"
  proof -
    have "\<forall>i \<in> set (map fst V). cf_key cf i \<noteq> None"
      using assms(3) by (fastforce simp: list_all_iff signed_by_def)
    then show ?thesis unfolding assms(1) by simp
  qed
  ultimately have "check_signatures cf ?h (cf_servers cf) (qmap_vals V) = Throws"
    using no len by (cases "check_signatures cf ?h (cf_servers cf) (qmap_vals V)") auto
  then show ?thesis
    using len by (simp add: cl_Registering_ProcessPacket_def mk_ServerStart_def Let_def demand_def list_hash_def)
qed

theorem start_rejected_unsorted_witness:
  "cl_Registering_ProcessPacket demo_pair (Some 3)
     (MServerStart (mk_ServerStart demo_sqds [] (qmap_vals [(3 :: peer, [3]), (4, [4])]))) (msm_data (ClientSession 0))
   = Raise (msm_data (ClientSession 0))"
proof -
  have pair: "cf_qds demo_pair = demo_sqds" "cf_servers demo_pair = [4, 3]"
    "signed_by demo_pair i p s \<longleftrightarrow> i = 3 \<and> s = [3] \<or> i = 4 \<and> s = [4]" for i p s
    by (auto simp: demo_pair_def signed_by_def)
  have "cl_Registering_ProcessPacket demo_pair (Some 3)
      (MServerStart (mk_ServerStart (cf_qds demo_pair) [] (qmap_vals [(3 :: peer, [3]), (4, [4])]))) (msm_data (ClientSession 0))
      = Raise (msm_data (ClientSession 0))"
  proof (rule start_rejected_unsorted)
    show "map fst [(3 :: peer, [3 :: byte]), (4, [4])] = sorted_list_of_set (set (cf_servers demo_pair))"
      by (simp add: pair(2) insert_commute)
  qed (simp_all add: pair(2,3), auto)
  then show ?thesis by (simp only: pair(1))
qed

text \<open>
  A client trusts the server it is attached to with the membership of the round: a queued message
  that repeats one agree message as often as there are servers is accepted, whether its sender is a
  server or not, and becomes the list of servers of the client's round.
\<close>

theorem queued_repeats_accepted:
  assumes "signed_by cf (m_server d) (msg_payload q) (msg_signature q)" and "cf_servers cf \<noteq> []"
    and "sq_agree_list q = replicate (length (cf_servers cf)) a" and "member_ok cf (mm_round_id a) (mm_peer a) a"
  shows "\<exists>d'. Queuing_ProcessPacket cf from (MServerQueued q) d = Ret d' NextState
    \<and> m_server_list d' = replicate (length (cf_servers cf)) a \<and> m_round_id d' = mm_round_id a"
proof -
  have "hd (sq_agree_list q) = a" "sq_agree_list q \<noteq> []" using assms(2,3) by (auto simp: hd_replicate)
  with Queuing_accepts [OF assms(1), of "from"] assms(3,4) show ?thesis
    by (simp add: SetServers_def)
qed

text \<open>The agree message of node 2, which is not a server.\<close>

theorem queued_repeats_accepted_witness:
  "\<exists>d'. Queuing_ProcessPacket demo_client (Some 1)
     (MServerQueued (mk_ServerQueued demo_sqds [demo_register] [] []\<lparr>msg_signature := [9]\<rparr>))
     ((msm_data (ClientSession 1)) :: nat client_state) = Ret d' NextState \<and> map mm_peer (m_server_list d') = [2]"
  using queued_repeats_accepted [of demo_client "msm_data (ClientSession 1)"
      "mk_ServerQueued demo_sqds [demo_register] [] []\<lparr>msg_signature := [9]\<rparr>" demo_register "Some 1"]
  by (auto simp: mk_ServerQueued_def Let_def ClientSession_def new_shared_def member_ok_def demo_key_def)

end
