(* ===== verification/Rpc.thy ===== *)
theory Rpc
  imports Prelude
begin

text \<open>
  Remote procedure calls: \<^verbatim>\<open>src/src/Messaging/RpcHandler.cpp\<close> and \<^verbatim>\<open>.hpp\<close>, \<^verbatim>\<open>Request.hpp\<close>, \<^verbatim>\<open>Response.hpp\<close>.

  A message is a list of Qt variants; \<open>qvariant\<close> has the kinds of variants the program sends.  Its
  bytes and Qt's conversions between the kinds are the parameter \<open>qvs\<close>.  Handlers are names: a call of a
  request handler or of a response handler is an output, and so is a packet handed to a sender.  Every
  method of the handler makes such a call last, so what the callee does in turn is a later event.

  \<open>callbacks\<close> and \<open>requests\<close> keep null pointers apart from missing keys, because \<^verbatim>\<open>operator[]\<close> of Qt's
  dictionaries inserts a null pointer when it is asked for a key that is missing.
\<close>

section \<open>Variants\<close>

datatype qvariant =
  QInvalid | QBool bool | QInt int32 | QStr string | QBytes bytes
| QList "qvariant list" | QHash "(string \<times> qvariant) list"

record qvs =
  put_vlist :: "qvariant list \<Rightarrow> bytes"
  get_vlist :: "bytes \<Rightarrow> qvariant list"
  to_int :: "qvariant \<Rightarrow> int32"
  to_bool :: "qvariant \<Rightarrow> bool"
  to_str :: "qvariant \<Rightarrow> string"
  to_bytes :: "qvariant \<Rightarrow> bytes"
  to_list :: "qvariant \<Rightarrow> qvariant list"
  to_hash :: "qvariant \<Rightarrow> (string \<times> qvariant) list"
  id_bytes :: "peer \<Rightarrow> bytes"
  bytes_id :: "bytes \<Rightarrow> peer"
  id_str :: "peer \<Rightarrow> string"
  str_id :: "string \<Rightarrow> peer"

text \<open>
  Documented behaviour: a stream returns what was written, a conversion to the kind a variant has
  returns its value, an id survives its conversion to bytes or text, whose text is not empty.
\<close>

definition qvs_ok :: "qvs \<Rightarrow> bool" where
  "qvs_ok V \<longleftrightarrow>
     (\<forall>l. get_vlist V (put_vlist V l) = l)
     \<and> (\<forall>i. to_int V (QInt i) = i) \<and> (\<forall>b. to_bool V (QBool b) = b) \<and> (\<forall>s. to_str V (QStr s) = s)
     \<and> (\<forall>b. to_bytes V (QBytes b) = b) \<and> (\<forall>l. to_list V (QList l) = l) \<and> (\<forall>h. to_hash V (QHash h) = h)
     \<and> (\<forall>i. bytes_id V (id_bytes V i) = i) \<and> (\<forall>i. str_id V (id_str V i) = i) \<and> (\<forall>i. id_str V i \<noteq> [])"

lemma qvs_okD:
  assumes "qvs_ok V"
  shows "get_vlist V (put_vlist V l) = l" and "to_int V (QInt i) = i" and "to_bool V (QBool b) = b"
    and "to_str V (QStr s) = s" and "to_bytes V (QBytes d) = d" and "to_list V (QList l) = l"
    and "to_hash V (QHash h) = h" and "bytes_id V (id_bytes V p) = p" and "str_id V (id_str V p) = p"
    and "id_str V p \<noteq> []"
  using assms by (auto simp: qvs_ok_def)

section \<open>Requests and responses\<close>

text \<open>The other end of a packet: an edge, a connection, or a node reached by forwarding.\<close>

datatype isender = ViaEdge nat | ViaConnection peer | ViaForwarder peer

record packet =
  pk_from :: isender
  pk_container :: "qvariant list"

definition NotificationType :: string where "NotificationType = ''n''"
definition RequestType :: string where "RequestType = ''r''"
definition ResponseType :: string where "ResponseType = ''p''"

lemmas type_defs = NotificationType_def RequestType_def ResponseType_def

datatype error_type =
  CorruptResponse | InvalidSender | InvalidInput | InvalidMessage | InvalidMethod
| InvalidPermissions | NoError | Other | Timeout_error | WrongDestination

fun error_code :: "error_type \<Rightarrow> int32" where
  "error_code CorruptResponse = 0"
| "error_code InvalidSender = 1"
| "error_code InvalidInput = 2"
| "error_code InvalidMessage = 3"
| "error_code InvalidMethod = 4"
| "error_code InvalidPermissions = 5"
| "error_code NoError = 6"
| "error_code Other = 7"
| "error_code Timeout_error = 8"
| "error_code WrongDestination = 9"

definition padded :: "qvariant list \<Rightarrow> qvariant list" where
  "padded container = container @ replicate (4 - length container) QInvalid"

text \<open>The constructor of a request asserts that it has four parts.\<close>

definition mk_request :: "isender \<Rightarrow> qvariant list \<Rightarrow> fault + packet" where
  "mk_request from container =
     (if length (padded container) = 4 then Inr \<lparr>pk_from = from, pk_container = padded container\<rparr>
      else Inl Fatal)"

definition mk_response :: "isender \<Rightarrow> qvariant list \<Rightarrow> packet" where
  "mk_response from container = \<lparr>pk_from = from, pk_container = padded container\<rparr>"

definition BuildNotification :: "int32 \<Rightarrow> string \<Rightarrow> qvariant \<Rightarrow> qvariant list" where
  "BuildNotification i method data = [QStr NotificationType, QInt i, QStr method, data]"

definition BuildRequest :: "int32 \<Rightarrow> string \<Rightarrow> qvariant \<Rightarrow> qvariant list" where
  "BuildRequest i method data = [QStr RequestType, QInt i, QStr method, data]"

definition BuildResponse :: "int32 \<Rightarrow> qvariant \<Rightarrow> qvariant list" where
  "BuildResponse i data = [QStr ResponseType, QInt i, QBool True, data]"

definition FailedResponse :: "int32 \<Rightarrow> error_type \<Rightarrow> string \<Rightarrow> qvariant \<Rightarrow> qvariant list" where
  "FailedResponse i err reason data =
     [QStr ResponseType, QInt i, QBool False, QInt (error_code err), QStr reason, data]"

definition GetType :: "qvs \<Rightarrow> packet \<Rightarrow> string" where
  "GetType V p = to_str V (pk_container p ! 0)"

definition GetId_packet :: "qvs \<Rightarrow> packet \<Rightarrow> int32" where
  "GetId_packet V p = to_int V (pk_container p ! 1)"

definition GetMethod :: "qvs \<Rightarrow> packet \<Rightarrow> string" where
  "GetMethod V p = to_str V (pk_container p ! 2)"

definition GetRequestData :: "packet \<Rightarrow> qvariant" where
  "GetRequestData p = pk_container p ! 3"

definition Successful :: "qvs \<Rightarrow> packet \<Rightarrow> bool" where
  "Successful V p = to_bool V (pk_container p ! 2)"

definition GetResponseData :: "qvs \<Rightarrow> packet \<Rightarrow> qvariant" where
  "GetResponseData V p = (if Successful V p then pk_container p ! 3 else QInvalid)"

definition GetErrorType :: "qvs \<Rightarrow> packet \<Rightarrow> int32" where
  "GetErrorType V p =
     (if Successful V p then error_code NoError
      else if length (pk_container p) < 6 then error_code CorruptResponse
      else to_int V (pk_container p ! 3))"

definition GetError :: "qvs \<Rightarrow> packet \<Rightarrow> string" where
  "GetError V p =
     (if Successful V p \<or> length (pk_container p) < 6 then [] else to_str V (pk_container p ! 4))"

text \<open>The condition of the source is a conjunction: a short error response is read behind its end.\<close>

definition GetErrorData :: "qvs \<Rightarrow> packet \<Rightarrow> fault + qvariant" where
  "GetErrorData V p =
     (if Successful V p \<and> length (pk_container p) < 6 then Inr QInvalid
      else if 5 < length (pk_container p) then Inr (pk_container p ! 5) else Inl OutOfBounds)"

section \<open>The handler\<close>

text \<open>\<open>rs_timer\<close>: the timer event of the request is still due.\<close>

record 'c request_state =
  rs_sender :: isender
  rs_handler :: 'c
  rs_start :: int
  rs_timer :: bool
  rs_timeout :: bool

record ('h, 'c) rpc =
  callbacks :: "string \<rightharpoonup> 'h option"
  requests :: "int32 \<rightharpoonup> 'c request_state option"
  current_id :: int32

datatype ('h, 'c) rpc_out = Sends isender bytes | Calls 'h packet | Completes 'c packet

type_synonym ('h, 'c) rpc_step = "('h, 'c) rpc_out list \<times> ('h, 'c) rpc"

definition RpcHandler :: "('h, 'c) rpc" where
  "RpcHandler = \<lparr>callbacks = Map.empty, requests = Map.empty, current_id = 1\<rparr>"

definition IncrementId :: "('h, 'c) rpc \<Rightarrow> fault + (int32 \<times> ('h, 'c) rpc)" where
  "IncrementId r =
     (if sint (current_id r) = 2 ^ 31 - 1 then Inl Overflow
      else Inr (current_id r, r\<lparr>current_id := current_id r + 1\<rparr>))"

definition SendResponse :: "qvs \<Rightarrow> packet \<Rightarrow> qvariant \<Rightarrow> ('h, 'c) rpc_out list" where
  "SendResponse V request data =
     [Sends (pk_from request) (put_vlist V (BuildResponse (GetId_packet V request) data))]"

definition SendFailedResponse :: "qvs \<Rightarrow> packet \<Rightarrow> error_type \<Rightarrow> string \<Rightarrow> qvariant \<Rightarrow> ('h, 'c) rpc_out list" where
  "SendFailedResponse V request err reason data =
     [Sends (pk_from request) (put_vlist V (FailedResponse (GetId_packet V request) err reason data))]"

definition RpcSendNotification ::
    "qvs \<Rightarrow> isender \<Rightarrow> string \<Rightarrow> qvariant \<Rightarrow> ('h, 'c) rpc \<Rightarrow> fault + ('h, 'c) rpc_step" where
  "RpcSendNotification V to method data r =
     bindS (IncrementId r) (\<lambda>(i, r). Inr ([Sends to (put_vlist V (BuildNotification i method data))], r))"

definition SendRequest ::
    "qvs \<Rightarrow> isender \<Rightarrow> string \<Rightarrow> qvariant \<Rightarrow> 'c \<Rightarrow> bool \<Rightarrow> int \<Rightarrow> ('h, 'c) rpc \<Rightarrow> fault + ('h, 'c) rpc_step" where
  "SendRequest V to method data cb timeout ctime r =
     bindS (IncrementId r) (\<lambda>(i, r).
       let st = \<lparr>rs_sender = to, rs_handler = cb, rs_start = ctime, rs_timer = True, rs_timeout = timeout\<rparr>
       in Inr ([Sends to (put_vlist V (BuildRequest i method data))], r\<lparr>requests := (requests r)(i \<mapsto> Some st)\<rparr>))"

definition HandleRequest :: "qvs \<Rightarrow> packet \<Rightarrow> ('h, 'c) rpc \<Rightarrow> ('h, 'c) rpc_step" where
  "HandleRequest V request r =
     (if sint (GetId_packet V request) \<le> 0 then ([], r)
      else let method = GetMethod V request
           in case callbacks r method of
                Some (Some cb) \<Rightarrow> ([Calls cb request], r)
              | _ \<Rightarrow> (SendFailedResponse V request InvalidMethod (''No such method: '' @ method) QInvalid,
                      r\<lparr>callbacks := (callbacks r)(method \<mapsto> None)\<rparr>))"

definition HandleResponse :: "qvs \<Rightarrow> packet \<Rightarrow> ('h, 'c) rpc \<Rightarrow> ('h, 'c) rpc_step" where
  "HandleResponse V response r =
     (let i = GetId_packet V response
      in if i = 0 then ([], r)
         else case requests r i of
                Some (Some st) \<Rightarrow> ([Completes (rs_handler st) response], r\<lparr>requests := (requests r)(i := None)\<rparr>)
              | _ \<Rightarrow> ([], r\<lparr>requests := (requests r)(i \<mapsto> None)\<rparr>))"

definition HandleData_list :: "qvs \<Rightarrow> isender \<Rightarrow> qvariant list \<Rightarrow> ('h, 'c) rpc \<Rightarrow> fault + ('h, 'c) rpc_step" where
  "HandleData_list V from container r =
     (if length container < 2 then Inr ([], r)
      else let type = to_str V (container ! 0)
           in if type = RequestType \<or> type = NotificationType
              then bindS (mk_request from container) (\<lambda>request. Inr (HandleRequest V request r))
              else if type = ResponseType then Inr (HandleResponse V (mk_response from container) r)
              else Inr ([], r))"

definition HandleData :: "qvs \<Rightarrow> isender \<Rightarrow> bytes \<Rightarrow> ('h, 'c) rpc \<Rightarrow> fault + ('h, 'c) rpc_step" where
  "HandleData V from data = HandleData_list V from (get_vlist V data)"

definition Timeout :: "int32 \<Rightarrow> ('h, 'c) rpc \<Rightarrow> fault + ('h, 'c) rpc_step" where
  "Timeout i r =
     (case requests r i of
        None \<Rightarrow> Inr ([], r)
      | Some None \<Rightarrow> Inl NullPointer
      | Some (Some st) \<Rightarrow>
          if \<not> rs_timeout st then Inr ([], r)
          else Inr ([Completes (rs_handler st)
                      (mk_response (rs_sender st) (FailedResponse i Timeout_error ''Local timeout'' QInvalid))],
                    r\<lparr>requests := (requests r)(i := None)\<rparr>))"

text \<open>
  The timer event of a request comes due: it runs unless it was stopped, which the response, the
  cancellation and the destruction of the request do.
\<close>

definition FireTimer :: "int32 \<Rightarrow> ('h, 'c) rpc \<Rightarrow> fault + ('h, 'c) rpc_step" where
  "FireTimer i r =
     (case requests r i of
        Some (Some st) \<Rightarrow>
          if rs_timer st then Timeout i (r\<lparr>requests := (requests r)(i \<mapsto> Some (st\<lparr>rs_timer := False\<rparr>))\<rparr>)
          else Inr ([], r)
      | _ \<Rightarrow> Inr ([], r))"

definition Register :: "string \<Rightarrow> 'h \<Rightarrow> ('h, 'c) rpc \<Rightarrow> bool \<times> ('h, 'c) rpc" where
  "Register name cb r =
     (if callbacks r name \<noteq> None then (False, r)
      else (True, r\<lparr>callbacks := (callbacks r)(name \<mapsto> Some cb)\<rparr>))"

definition Unregister :: "string \<Rightarrow> ('h, 'c) rpc \<Rightarrow> bool \<times> ('h, 'c) rpc" where
  "Unregister name r =
     (case callbacks r name of
        Some (Some cb) \<Rightarrow> (True, r\<lparr>callbacks := (callbacks r)(name := None)\<rparr>)
      | _ \<Rightarrow> (False, r))"

definition CancelRequest :: "int32 \<Rightarrow> ('h, 'c) rpc \<Rightarrow> bool \<times> ('h, 'c) rpc" where
  "CancelRequest i r = (requests r i \<noteq> None, r\<lparr>requests := (requests r)(i := None)\<rparr>)"

section \<open>Runs\<close>

datatype ('h, 'c) rpc_event =
  EvRequest isender string qvariant 'c bool int
| EvNotify isender string qvariant
| EvData isender bytes
| EvTimer int32
| EvCancel int32
| EvRegister string 'h
| EvUnregister string
| EvRespond packet qvariant
| EvFail packet error_type string qvariant

fun rpc_event_step :: "qvs \<Rightarrow> ('h, 'c) rpc_event \<Rightarrow> ('h, 'c) rpc \<Rightarrow> fault + ('h, 'c) rpc_step" where
  "rpc_event_step V (EvRequest to method data cb timeout ctime) r = SendRequest V to method data cb timeout ctime r"
| "rpc_event_step V (EvNotify to method data) r = RpcSendNotification V to method data r"
| "rpc_event_step V (EvData from data) r = HandleData V from data r"
| "rpc_event_step V (EvTimer i) r = FireTimer i r"
| "rpc_event_step V (EvCancel i) r = Inr ([], snd (CancelRequest i r))"
| "rpc_event_step V (EvRegister name cb) r = Inr ([], snd (Register name cb r))"
| "rpc_event_step V (EvUnregister name) r = Inr ([], snd (Unregister name r))"
| "rpc_event_step V (EvRespond request data) r = Inr (SendResponse V request data, r)"
| "rpc_event_step V (EvFail request err reason data) r = Inr (SendFailedResponse V request err reason data, r)"

text \<open>A step that adds what it puts out to what was put out before.\<close>

definition rpc_extend :: "qvs \<Rightarrow> ('h, 'c) rpc_event \<Rightarrow> ('h, 'c) rpc_step \<Rightarrow> fault + ('h, 'c) rpc_step" where
  "rpc_extend V e = (\<lambda>(outs, r). bindS (rpc_event_step V e r) (\<lambda>(new, r). Inr (outs @ new, r)))"

definition rpc_run :: "qvs \<Rightarrow> ('h, 'c) rpc_event list \<Rightarrow> ('h, 'c) rpc \<Rightarrow> fault + ('h, 'c) rpc_step" where
  "rpc_run V evs r = foldS (rpc_extend V) evs ([], r)"

end
