(* ===== verification/Variant_Demo.thy ===== *)
theory Variant_Demo
  imports Rpc Serialization
begin

text \<open>
  An encoding of variants that satisfies \<open>qvs_ok\<close>, used to exhibit concrete runs.  A variant is a tag
  and its contents; a length or an id is a run of ones that a zero ends.
\<close>

section \<open>Encoding\<close>

definition enc_nat :: "nat \<Rightarrow> bytes" where
  "enc_nat n = replicate n 1 @ [0]"

fun dec_nat :: "bytes \<Rightarrow> nat \<times> bytes" where
  "dec_nat [] = (0, [])"
| "dec_nat (b # bs) = (if b = 0 then (0, bs) else apfst Suc (dec_nat bs))"

lemma dec_enc_nat [simp]: "dec_nat (enc_nat n @ r) = (n, r)"
  by (induction n) (simp_all add: enc_nat_def)

definition enc_bytes :: "bytes \<Rightarrow> bytes" where
  "enc_bytes d = enc_nat (length d) @ d"

definition dec_bytes :: "bytes \<Rightarrow> bytes \<times> bytes" where
  "dec_bytes s = (let (n, s) = dec_nat s in (take n s, drop n s))"

lemma dec_enc_bytes [simp]: "dec_bytes (enc_bytes d @ r) = (d, r)"
  by (simp add: enc_bytes_def dec_bytes_def)

definition enc_str :: "string \<Rightarrow> bytes" where
  "enc_str s = enc_bytes (map (\<lambda>c. of_nat (of_char c)) s)"

definition dec_str :: "bytes \<Rightarrow> string \<times> bytes" where
  "dec_str s = (let (d, s) = dec_bytes s in (map (\<lambda>b. char_of (unat b)) d, s))"

lemma char_byte [simp]: "char_of (unat (of_nat (of_char c) :: byte)) = c"
proof -
  have "(of_char c :: nat) < 2 ^ 8" using of_char_mod_256 [of c, where 'a = nat] mod_less_divisor [of 256 "of_char c :: nat"] by simp
  then have "unat (of_nat (of_char c) :: byte) = of_char c" by (simp add: unsigned_of_nat take_bit_nat_eq_self)
  then show ?thesis by simp
qed

lemma dec_enc_str [simp]: "dec_str (enc_str d @ r) = (d, r)"
  by (simp add: enc_str_def dec_str_def comp_def)

fun enc :: "qvariant \<Rightarrow> bytes" where
  "enc QInvalid = [0]"
| "enc (QBool b) = [1, if b then 1 else 0]"
| "enc (QInt i) = 2 # int_bytes i"
| "enc (QStr s) = 3 # enc_str s"
| "enc (QBytes d) = 4 # enc_bytes d"
| "enc (QList l) = 5 # enc_nat (length l) @ concat (map enc l)"
| "enc (QHash h) = 6 # enc_nat (length h) @ concat (map (\<lambda>p. enc_str (fst p) @ enc (snd p)) h)"

section \<open>Decoding\<close>

primrec dec_times :: "nat \<Rightarrow> (bytes \<Rightarrow> 'a \<times> bytes) \<Rightarrow> bytes \<Rightarrow> 'a list \<times> bytes" where
  "dec_times 0 f s = ([], s)"
| "dec_times (Suc n) f s = (let (x, s) = f s; (xs, s) = dec_times n f s in (x # xs, s))"

lemma dec_times_enc:
  "(\<And>x r. x \<in> set xs \<Longrightarrow> f (e x @ r) = (x, r)) \<Longrightarrow> dec_times (length xs) f (concat (map e xs) @ r) = (xs, r)"
  by (induction xs) (simp_all add: Let_def)

definition dec_int :: "bytes \<Rightarrow> int32 \<times> bytes" where
  "dec_int s = (case ReadInt s 0 of Inl _ \<Rightarrow> 0 | Inr x \<Rightarrow> x, drop 4 s)"

lemma dec_int_bytes [simp]: "dec_int (int_bytes x @ r) = (x, r)"
  using ReadInt_int_bytes [of 0 "[]" x r] by (simp add: dec_int_def)

primrec dec :: "nat \<Rightarrow> bytes \<Rightarrow> qvariant \<times> bytes" where
  "dec 0 s = (QInvalid, s)"
| "dec (Suc n) s =
     (case s of [] \<Rightarrow> (QInvalid, [])
      | t # s \<Rightarrow>
          if t = 1 then (QBool (s \<noteq> [] \<and> hd s = 1), tl s)
          else if t = 2 then apfst QInt (dec_int s)
          else if t = 3 then apfst QStr (dec_str s)
          else if t = 4 then apfst QBytes (dec_bytes s)
          else if t = 5 then (let (k, s) = dec_nat s in apfst QList (dec_times k (dec n) s))
          else if t = 6 then (let (k, s) = dec_nat s
            in apfst QHash (dec_times k (\<lambda>s. let (x, s) = dec_str s in apfst (Pair x) (dec n s)) s))
          else (QInvalid, s))"

lemma length_concat_ge: "x \<in> set xs \<Longrightarrow> length (e x) \<le> length (concat (map e xs))"
  by (induction xs) auto

lemma dec_enc: "length (enc v) \<le> n \<Longrightarrow> dec n (enc v @ r) = (v, r)"
proof (induction n arbitrary: v r)
  case 0
  then show ?case by (cases v) auto
next
  case (Suc n)
  show ?case
  proof (cases v)
    case (QList l)
    have "dec n (enc x @ r) = (x, r)" if "x \<in> set l" for x r
      using Suc.prems Suc.IH [of x r] length_concat_ge [OF that, of enc] QList by auto
    then show ?thesis using QList by (simp add: dec_times_enc)
  next
    case (QHash h)
    let ?e = "\<lambda>p. enc_str (fst p) @ enc (snd p)"
    have "dec n (enc (snd p) @ r) = (snd p, r)" if "p \<in> set h" for p r
      using Suc.prems Suc.IH [of "snd p" r] length_concat_ge [OF that, of ?e] QHash by auto
    then show ?thesis using QHash by (simp add: dec_times_enc)
  qed auto
qed

section \<open>The instance\<close>

definition demo_qvs :: qvs where
  "demo_qvs = \<lparr>
     put_vlist = (\<lambda>l. enc (QList l)),
     get_vlist = (\<lambda>s. case dec (length s) s of (QList l, r) \<Rightarrow> l | _ \<Rightarrow> []),
     to_int = (\<lambda>v. case v of QInt i \<Rightarrow> i | _ \<Rightarrow> 0),
     to_bool = (\<lambda>v. v = QBool True),
     to_str = (\<lambda>v. case v of QStr s \<Rightarrow> s | _ \<Rightarrow> []),
     to_bytes = (\<lambda>v. case v of QBytes d \<Rightarrow> d | _ \<Rightarrow> []),
     to_list = (\<lambda>v. case v of QList l \<Rightarrow> l | _ \<Rightarrow> []),
     to_hash = (\<lambda>v. case v of QHash h \<Rightarrow> h | _ \<Rightarrow> []),
     id_bytes = (\<lambda>i. replicate i 1), bytes_id = length,
     id_str = (\<lambda>i. replicate (Suc i) CHR ''i''), str_id = (\<lambda>s. length s - 1)\<rparr>"

lemma demo_qvs_ok: "qvs_ok demo_qvs"
proof -
  have "dec (length (enc (QList l))) (enc (QList l)) = (QList l, [])" for l
    using dec_enc [of "QList l" "length (enc (QList l))" "[]"] by (simp del: enc.simps)
  then show ?thesis by (simp add: qvs_ok_def demo_qvs_def del: enc.simps)
qed

end
