(* ===== verification/Rpc_Props.thy ===== *)
theory Rpc_Props
  imports Variant_Demo
begin

text \<open>
  Properties of \<open>Rpc\<close>: every request is answered at most once, by the handler it was sent with; a call
  between two nodes returns; and what packets of a remote node can do to the tables.
\<close>

section \<open>Requests that were sent\<close>

text \<open>The ids and handlers of the requests among the events, when the next id is \<open>n\<close>.\<close>

fun issued :: "nat \<Rightarrow> ('h, 'c) rpc_event list \<Rightarrow> (int32 \<times> 'c) list" where
  "issued n [] = []"
| "issued n (EvRequest to meth data cb timeout ctime # evs) = (of_nat n, cb) # issued (Suc n) evs"
| "issued n (EvNotify to meth data # evs) = issued (Suc n) evs"
| "issued n (_ # evs) = issued n evs"

fun takes_id :: "('h, 'c) rpc_event \<Rightarrow> bool" where
  "takes_id (EvRequest to meth data cb timeout ctime) = True"
| "takes_id (EvNotify to meth data) = True"
| "takes_id _ = False"

abbreviation ids_taken :: "('h, 'c) rpc_event list \<Rightarrow> nat" where
  "ids_taken evs \<equiv> length (filter takes_id evs)"

text \<open>The ids of the responses that were handed to response handlers.\<close>

fun completion :: "qvs \<Rightarrow> ('h, 'c) rpc_out \<Rightarrow> (int32 \<times> 'c) list" where
  "completion V (Completes cb response) = [(GetId_packet V response, cb)]"
| "completion V _ = []"

definition completions :: "qvs \<Rightarrow> ('h, 'c) rpc_out list \<Rightarrow> (int32 \<times> 'c) list" where
  "completions V outs = concat (map (completion V) outs)"

lemma completions_simps [simp]:
  "completions V [] = []"
  "completions V (out # outs) = completion V out @ completions V outs"
  "completions V (outs @ outs') = completions V outs @ completions V outs'"
  by (auto simp: completions_def)

definition pending :: "('h, 'c) rpc \<Rightarrow> int32 \<Rightarrow> 'c \<Rightarrow> bool" where
  "pending r i cb \<longleftrightarrow> (\<exists>st. requests r i = Some (Some st) \<and> rs_handler st = cb)"

lemma pending_upd [simp]:
  "pending (r\<lparr>requests := (requests r)(i := v)\<rparr>) j cb \<longleftrightarrow>
     (if j = i then (\<exists>st. v = Some (Some st) \<and> rs_handler st = cb) else pending r j cb)"
  "pending (r\<lparr>current_id := n\<rparr>) j cb = pending r j cb"
  "pending (r\<lparr>callbacks := c\<rparr>) j cb = pending r j cb"
  by (auto simp: pending_def)

lemma issued_snoc:
  "issued n (evs @ [e]) = issued n evs @ issued (n + ids_taken evs) [e]"
  by (induction n evs rule: issued.induct) simp_all

lemma issued_range: "(i, cb) \<in> set (issued n evs) \<Longrightarrow> \<exists>k \<ge> n. i = of_nat k \<and> k < n + ids_taken evs"
proof (induction n evs rule: issued.induct)
  case (2 n to meth data cb timeout ctime evs)
  then show ?case by (auto simp: Suc_le_eq dest: less_imp_le)
next
  case (3 n to meth data evs)
  then show ?case by (auto simp: Suc_le_eq dest: less_imp_le)
qed auto

text \<open>What the events have in common: the pending requests change in one of three ways.\<close>

definition rpc_inv :: "qvs \<Rightarrow> ('h, 'c) rpc_event list \<Rightarrow> ('h, 'c) rpc_out list \<Rightarrow> ('h, 'c) rpc \<Rightarrow> bool" where
  "rpc_inv V evs outs r \<longleftrightarrow>
     ids_taken evs < 2 ^ 31 - 1 \<and> current_id r = of_nat (1 + ids_taken evs)
     \<and> distinct (map fst (issued 1 evs)) \<and> distinct (map fst (completions V outs))
     \<and> set (completions V outs) \<subseteq> set (issued 1 evs)
     \<and> (\<forall>i cb. pending r i cb \<longrightarrow> (i, cb) \<in> set (issued 1 evs) \<and> (\<forall>cb'. (i, cb') \<notin> set (completions V outs)))
     \<and> (\<forall>(i, cb) \<in> set (issued 1 evs).
          (i, cb) \<in> set (completions V outs) \<or> pending r i cb \<or> EvCancel i \<in> set evs)"


text \<open>A step that answers nothing, one that answers a pending request.\<close>

definition quiet_step :: "qvs \<Rightarrow> ('h, 'c) rpc_out list \<Rightarrow> ('h, 'c) rpc \<Rightarrow> ('h, 'c) rpc \<Rightarrow> bool" where
  "quiet_step V new r r' \<longleftrightarrow> completions V new = [] \<and> current_id r' = current_id r \<and> pending r' = pending r"

definition answers :: "qvs \<Rightarrow> ('h, 'c) rpc_out list \<Rightarrow> ('h, 'c) rpc \<Rightarrow> ('h, 'c) rpc \<Rightarrow> bool" where
  "answers V new r r' \<longleftrightarrow> current_id r' = current_id r
     \<and> (\<exists>i cb. completions V new = [(i, cb)] \<and> pending r i cb \<and> pending r' = (\<lambda>j c. j \<noteq> i \<and> pending r j c))"

lemma HandleRequest_quiet: "HandleRequest V request r = (new, r') \<Longrightarrow> quiet_step V new r r'"
  by (auto simp: HandleRequest_def quiet_step_def SendFailedResponse_def Let_def fun_eq_iff
      split: if_splits option.splits)

lemma HandleResponse_step:
  "HandleResponse V response r = (new, r') \<Longrightarrow> quiet_step V new r r' \<or> answers V new r r'"
  by (auto simp: HandleResponse_def quiet_step_def answers_def Let_def fun_eq_iff pending_def
      split: if_splits option.splits)

lemma HandleData_step:
  "HandleData V from data r = Inr (new, r') \<Longrightarrow> quiet_step V new r r' \<or> answers V new r r'"
  by (auto simp: HandleData_def HandleData_list_def Let_def fault_simps HandleRequest_quiet HandleResponse_step
      split: if_splits) (auto simp: quiet_step_def)

lemma GetId_failed: "qvs_ok V \<Longrightarrow> GetId_packet V (mk_response from (FailedResponse i err reason data)) = i"
  by (simp add: GetId_packet_def mk_response_def padded_def FailedResponse_def qvs_okD)

lemma FireTimer_step:
  "qvs_ok V \<Longrightarrow> FireTimer i r = Inr (new, r') \<Longrightarrow> quiet_step V new r r' \<or> answers V new r r'"
  by (auto simp: FireTimer_def Timeout_def quiet_step_def answers_def fun_eq_iff pending_def GetId_failed
      split: if_splits option.splits)

lemma step_cases:
  assumes "rpc_event_step V e r = Inr (new, r')" and "qvs_ok V"
  obtains (request) to meth data cb timeout ctime where "e = EvRequest to meth data cb timeout ctime"
      "sint (current_id r) \<noteq> 2 ^ 31 - 1" "completions V new = []" "current_id r' = current_id r + 1"
      "\<And>j c. pending r' j c \<longleftrightarrow> (if j = current_id r then c = cb else pending r j c)"
  | (notify) to meth data where "e = EvNotify to meth data" "sint (current_id r) \<noteq> 2 ^ 31 - 1"
      "completions V new = []" "current_id r' = current_id r + 1" "pending r' = pending r"
  | (cancel) i where "e = EvCancel i" "completions V new = []" "current_id r' = current_id r"
      "pending r' = (\<lambda>j c. j \<noteq> i \<and> pending r j c)"
  | (other) "\<not> takes_id e" "quiet_step V new r r'"
  | (answer) "\<not> takes_id e" "answers V new r r'"
proof (cases e)
  case (EvRequest to meth data cb timeout ctime)
  show ?thesis
    by (rule request [OF EvRequest])
      (use assms EvRequest in \<open>auto simp: SendRequest_def IncrementId_def Let_def fault_simps pending_def split: if_splits\<close>)
next
  case (EvNotify to meth data)
  show ?thesis
    by (rule notify [OF EvNotify])
      (use assms EvNotify in \<open>auto simp: RpcSendNotification_def IncrementId_def fault_simps fun_eq_iff split: if_splits\<close>)
next
  case (EvData src data)
  with assms HandleData_step [of V src data r new r'] other answer show ?thesis by auto
next
  case (EvTimer i)
  with assms FireTimer_step [of V i r new r'] other answer show ?thesis by auto
next
  case (EvCancel i)
  show ?thesis
    by (rule cancel [OF EvCancel]) (use assms EvCancel in \<open>auto simp: CancelRequest_def fun_eq_iff split: if_splits\<close>)
next
  case (EvRegister name cb)
  show ?thesis
    by (rule other) (use assms EvRegister in \<open>auto simp: Register_def quiet_step_def fun_eq_iff split: if_splits\<close>)
next
  case (EvUnregister name)
  show ?thesis
    by (rule other) (use assms EvUnregister in \<open>auto simp: Unregister_def quiet_step_def fun_eq_iff split: option.splits\<close>)
next
  case (EvRespond request data)
  show ?thesis
    by (rule other) (use assms EvRespond in \<open>auto simp: SendResponse_def quiet_step_def\<close>)
next
  case (EvFail request err reason data)
  show ?thesis
    by (rule other) (use assms EvFail in \<open>auto simp: SendFailedResponse_def quiet_step_def\<close>)
qed

section \<open>Each request is answered once\<close>

lemma sint_id: "n < 2 ^ 31 \<Longrightarrow> sint (of_nat n :: int32) = int n"
  by (simp add: signed_of_nat signed_take_bit_int_eq_self)

lemma id_eq: "m < 2 ^ 31 \<Longrightarrow> n < 2 ^ 31 \<Longrightarrow> (of_nat m :: int32) = of_nat n \<longleftrightarrow> m = n"
  by (metis of_nat_eq_iff sint_id)

lemma issued_new:
  assumes "ids_taken evs < 2 ^ 31 - 1"
  shows "(of_nat (1 + ids_taken evs), cb) \<notin> set (issued 1 evs)"
proof
  assume "(of_nat (1 + ids_taken evs), cb) \<in> set (issued 1 evs)"
  from issued_range [OF this] obtain k
    where k: "k < 1 + ids_taken evs" "(of_nat (1 + ids_taken evs) :: int32) = of_nat k"
    by (elim exE conjE) (rule that)
  have "1 + ids_taken evs = k"
    by (rule id_eq [THEN iffD1, OF _ _ k(2)]) (use assms k(1) in linarith)+
  with k(1) show False by simp
qed

lemma rpc_inv_outs: "completions V outs' = completions V outs \<Longrightarrow> rpc_inv V evs outs' r = rpc_inv V evs outs r"
  by (simp add: rpc_inv_def)

lemma rpc_inv_unique:
  "rpc_inv V evs outs r \<Longrightarrow> (i, cb) \<in> set (issued 1 evs) \<Longrightarrow> (i, cb') \<in> set (issued 1 evs) \<Longrightarrow> cb = cb'"
  by (auto simp: rpc_inv_def dest: eq_key_imp_eq_value)

lemma rpc_inv_step:
  assumes inv: "rpc_inv V evs outs r" and step: "rpc_event_step V e r = Inr (new, r')" and V: "qvs_ok V"
  shows "rpc_inv V (evs @ [e]) (outs @ new) r'"
proof -
  let ?n = "1 + ids_taken evs"
  have n: "ids_taken evs < 2 ^ 31 - 1" "current_id r = of_nat ?n" using inv by (auto simp: rpc_inv_def)
  have room: "ids_taken evs + 1 < 2 ^ 31 - 1" if "sint (current_id r) \<noteq> 2 ^ 31 - 1"
  proof -
    from n have "sint (current_id r) = int ?n" by (simp only: n(2)) (rule sint_id, simp)
    with n(1) that show ?thesis by simp
  qed
  from step V show ?thesis
  proof (cases rule: step_cases)
    case (request to meth data cb timeout ctime)
    have fresh: "(current_id r, c) \<notin> set (issued 1 evs)" for c
      unfolding n(2) using issued_new [OF n(1)] .
    have new: "issued 1 (evs @ [e]) = issued 1 evs @ [(current_id r, cb)]"
      by (simp add: issued_snoc request n(2))
    have nxt: "current_id r + 1 = of_nat (1 + ids_taken (evs @ [e]))"
      by (simp add: request n(2))
    have "rpc_inv V (evs @ [e]) outs r'"
      unfolding rpc_inv_def new nxt [symmetric] using inv fresh request room
      by (auto simp: rpc_inv_def simp del: of_nat_add of_nat_Suc)
    with request rpc_inv_outs [of V "outs @ new" outs] show ?thesis by simp
  next
    case (notify to meth data)
    with inv n room show ?thesis by (auto simp: rpc_inv_def issued_snoc)
  next
    case (cancel i)
    with inv n show ?thesis by (auto simp: rpc_inv_def issued_snoc)
  next
    case other
    then have "issued m [e] = []" for m by (cases e) auto
    with other inv n show ?thesis by (auto simp: rpc_inv_def issued_snoc quiet_step_def)
  next
    case answer
    then have "issued m [e] = []" for m by (cases e) auto
    then have keys: "issued 1 (evs @ [e]) = issued 1 evs" "ids_taken (evs @ [e]) = ids_taken evs"
      using answer(1) by (simp_all add: issued_snoc)
    from answer obtain i cb where ans: "completions V new = [(i, cb)]" "pending r i cb"
      "pending r' = (\<lambda>j c. j \<noteq> i \<and> pending r j c)" "current_id r' = current_id r"
      by (auto simp: answers_def)
    with inv have own: "(i, cb) \<in> set (issued 1 evs)" "\<forall>cb'. (i, cb') \<notin> set (completions V outs)"
      by (auto simp: rpc_inv_def)
    then have only: "cb' = cb" if "(i, cb') \<in> set (issued 1 evs)" for cb'
      using that inv by (blast dest: rpc_inv_unique)
    have parts: "set (completions V (outs @ new)) \<subseteq> set (issued 1 evs)"
        "distinct (map fst (completions V (outs @ new)))"
      using inv own ans by (auto simp: rpc_inv_def)
    have "(j, c) \<in> set (completions V (outs @ new)) \<or> pending r' j c \<or> EvCancel j \<in> set (evs @ [e])"
      if "(j, c) \<in> set (issued 1 evs)" for j c
      using that only inv unfolding rpc_inv_def by (cases "j = i") (auto simp: ans)
    with parts show ?thesis
      unfolding rpc_inv_def keys using inv ans n by (auto simp: rpc_inv_def)
  qed
qed

lemma rpc_run_snoc:
  "rpc_run V (evs @ [e]) r = bindS (rpc_run V evs r) (rpc_extend V e)"
proof -
  have "foldS (rpc_extend V) [e] x = rpc_extend V e x" for x
    by (cases "rpc_extend V e x") auto
  then show ?thesis by (simp add: rpc_run_def fault_simps cong: bindS_cong del: foldS.simps) 
qed

lemma rpc_run_inv:
  assumes "rpc_run V evs RpcHandler = Inr (outs, r)" and "qvs_ok V"
  shows "rpc_inv V evs outs r"
  using assms(1)
proof (induction evs arbitrary: outs r rule: rev_induct)
  case Nil
  then show ?case by (auto simp: rpc_run_def rpc_inv_def RpcHandler_def pending_def)
next
  case (snoc e evs)
  then obtain outs0 r0 new where "rpc_run V evs RpcHandler = Inr (outs0, r0)"
    "rpc_event_step V e r0 = Inr (new, r)" "outs = outs0 @ new"
    by (auto simp: rpc_run_snoc rpc_extend_def fault_simps)
  with snoc.IH rpc_inv_step assms(2) show ?case by blast
qed


section \<open>Methods that are asked for too early\<close>

text \<open>A null entry of \<open>callbacks\<close> stays.\<close>

lemma callbacks_null_step:
  assumes "callbacks r m = Some None" and "rpc_event_step V e r = Inr (new, r')"
  shows "callbacks r' m = Some None"
  using assms
  by (cases e) (auto simp: SendRequest_def RpcSendNotification_def IncrementId_def HandleData_def
      HandleData_list_def HandleRequest_def HandleResponse_def FireTimer_def Timeout_def CancelRequest_def
      Register_def Unregister_def Let_def fault_simps split: if_splits option.splits)

lemma rpc_run_from:
  assumes "foldS (rpc_extend V) evs (outs, r) = Inr (outs', r')"
    and "P r" and "\<And>e r new r'. P r \<Longrightarrow> rpc_event_step V e r = Inr (new, r') \<Longrightarrow> P r'"
  shows "P r'"
proof -
  have "P (snd (outs', r'))"
    by (rule foldS_invariant [OF assms(1), of "P \<circ> snd", unfolded comp_def])
      (use assms in \<open>auto simp: rpc_extend_def fault_simps\<close>)
  then show ?thesis by simp
qed

section \<open>Properties\<close>

text \<open>
  C8.  In every run of an \<^verbatim>\<open>RpcHandler\<close>, whatever packets arrive and whatever timers fire, no request is
  answered twice, an answer goes to the handler its request was sent with, and a request that was
  neither answered nor cancelled is still pending.
\<close>

theorem requests_answered_once:
  assumes "rpc_run V evs RpcHandler = Inr (outs, r)" and "qvs_ok V"
  shows "distinct (map fst (completions V outs)) \<and> set (completions V outs) \<subseteq> set (issued 1 evs)
    \<and> (\<forall>(i, cb) \<in> set (issued 1 evs).
         (i, cb) \<in> set (completions V outs) \<or> pending r i cb \<or> EvCancel i \<in> set evs)
    \<and> (\<forall>i cb. pending r i cb \<longrightarrow> (i, cb) \<in> set (issued 1 evs) - set (completions V outs))"
  using rpc_run_inv [OF assms] by (auto simp: rpc_inv_def)

definition demo_answer :: bytes where
  "demo_answer = put_vlist demo_qvs (BuildResponse 1 (QInt 7))"

definition demo_events :: "(nat, nat) rpc_event list" where
  "demo_events = [EvRequest (ViaConnection 2) ''add'' QInvalid 5 True 0,
     EvRequest (ViaConnection 2) ''sub'' QInvalid 6 True 0, EvData (ViaConnection 2) demo_answer,
     EvData (ViaConnection 3) demo_answer, EvTimer 2]"

lemma get_put_demo [simp]: "get_vlist demo_qvs (put_vlist demo_qvs l) = l"
  using demo_qvs_ok by (rule qvs_okD)

lemma demo_conv [simp]:
  "to_str demo_qvs (QStr s) = s" "to_int demo_qvs (QInt i) = i" "to_bool demo_qvs (QBool b) = b"
  by (simp_all add: demo_qvs_def)

lemmas rpc_defs = rpc_run_def rpc_extend_def RpcHandler_def SendRequest_def IncrementId_def
  HandleData_def HandleData_list_def HandleResponse_def HandleRequest_def BuildResponse_def
  BuildRequest_def mk_response_def mk_request_def padded_def GetId_packet_def GetMethod_def
  GetRequestData_def GetResponseData_def Successful_def FireTimer_def Timeout_def type_defs

lemma demo_run:
  "map_sum id (completions demo_qvs \<circ> fst) (rpc_run demo_qvs demo_events RpcHandler) = Inr [(1, 5), (2, 6)]"
  by (simp add: demo_events_def demo_answer_def rpc_defs FailedResponse_def)

theorem requests_answered_once_witness:
  "\<exists>outs r. rpc_run demo_qvs demo_events RpcHandler = Inr (outs, r)
    \<and> distinct (map fst (completions demo_qvs outs)) \<and> completions demo_qvs outs = [(1, 5), (2, 6)]"
proof -
  from demo_run obtain outs r where run: "rpc_run demo_qvs demo_events RpcHandler = Inr (outs, r)"
    "completions demo_qvs outs = [(1, 5), (2, 6)]"
    by (cases "rpc_run demo_qvs demo_events RpcHandler") auto
  with requests_answered_once [OF run(1) demo_qvs_ok] show ?thesis by blast
qed

text \<open>
  A request reaches the handler that the other node registered for its method, with the method
  and the data it was sent with, and the answer given there completes the request with that data.
\<close>

theorem call_returns:
  assumes "qvs_ok V" and "0 < sint (current_id a)" and "callbacks b meth = Some (Some h)"
    and "SendRequest V to meth data cb timeout ctime a = Inr ([Sends to message], a')"
  shows "\<exists>request. HandleData V src message b = Inr ([Calls h request], b)
    \<and> pk_from request = src \<and> GetMethod V request = meth \<and> GetRequestData request = data
    \<and> (\<forall>answer. \<exists>reply. SendResponse V request answer = [Sends src reply]
        \<and> (let response = mk_response back (BuildResponse (current_id a) answer)
            in HandleData V back reply a'
                 = Inr ([Completes cb response], a'\<lparr>requests := (requests a')(current_id a := None)\<rparr>)
               \<and> Successful V response \<and> GetResponseData V response = answer))"
proof -
  from assms(2) have "current_id a \<noteq> 0" by auto
  with assms show ?thesis
    by (auto simp: rpc_defs SendResponse_def qvs_okD Let_def split: if_splits)
qed

definition demo_node :: "(nat, nat) rpc" where
  "demo_node = RpcHandler\<lparr>callbacks := [''add'' \<mapsto> Some 4]\<rparr>"

theorem call_returns_witness:
  "\<exists>request. HandleData demo_qvs (ViaConnection 9) (put_vlist demo_qvs (BuildRequest 1 ''add'' (QInt 3))) demo_node
     = Inr ([Calls 4 request], demo_node) \<and> GetRequestData request = QInt 3"
  using call_returns [OF demo_qvs_ok, of RpcHandler demo_node "''add''" 4 "ViaConnection 8" "QInt 3" 0 False 0
      "put_vlist demo_qvs (BuildRequest 1 ''add'' (QInt 3))"
      "RpcHandler\<lparr>current_id := 2, requests := [1 \<mapsto> Some \<lparr>rs_sender = ViaConnection 8, rs_handler = 0,
         rs_start = 0, rs_timer = True, rs_timeout = False\<rparr>]\<rparr>" "ViaConnection 9"]
  by (auto simp: demo_node_def rpc_defs Let_def)

text \<open>
  One request for a method that is not registered yet blocks the method for good: it leaves a null
  pointer under the name, every later registration of the name fails, and all requests for it are
  refused.
\<close>

theorem early_request_blocks_method:
  assumes "HandleData V src message r = Inr (outs, r1)"
    and "get_vlist V message = BuildRequest i meth data" and "qvs_ok V" and "0 < sint i"
    and "callbacks r meth = None" and "foldS (rpc_extend V) evs ([], r1) = Inr (outs', r2)"
  shows "fst (Register meth h r2) = False
    \<and> (\<forall>j data'. 0 < sint j \<longrightarrow> (\<exists>refusal r3.
         HandleData_list V src (BuildRequest j meth data') r2 = Inr ([Sends src refusal], r3)
         \<and> callbacks r3 meth = Some None))"
proof -
  have "callbacks r1 meth = Some None" using assms(1-5) by (auto simp: rpc_defs qvs_okD Let_def)
  then have "callbacks r2 meth = Some None"
    by (rule rpc_run_from [OF assms(6), of "\<lambda>r. callbacks r meth = Some None"]) (rule callbacks_null_step)
  with assms(3) show ?thesis by (auto simp: Register_def rpc_defs SendFailedResponse_def qvs_okD Let_def)
qed

theorem early_request_blocks_method_witness:
  "fst (Register ''add'' (4 :: nat) (RpcHandler\<lparr>callbacks := [''add'' \<mapsto> None]\<rparr> :: (nat, nat) rpc)) = False"
  using early_request_blocks_method [OF _ _ demo_qvs_ok, of "ViaConnection 9"
      "put_vlist demo_qvs (BuildRequest 1 ''add'' (QInt 3))" RpcHandler _
      "RpcHandler\<lparr>callbacks := [''add'' \<mapsto> None]\<rparr>" 1 "''add''" "QInt 3" "[]" "[]"
      "RpcHandler\<lparr>callbacks := [''add'' \<mapsto> None]\<rparr>" "4 :: nat"]
  by (simp add: rpc_defs SendFailedResponse_def Let_def)

text \<open>
  A request with more than four parts fails the assertion in the constructor of \<^verbatim>\<open>Request\<close>,
  whoever sent it.
\<close>

theorem oversized_request_fatal:
  assumes "4 < length container" and "to_str V (container ! 0) \<in> {RequestType, NotificationType}"
  shows "HandleData_list V src container r = Inl Fatal"
  using assms by (auto simp: HandleData_list_def mk_request_def padded_def)

theorem oversized_request_fatal_witness:
  "HandleData_list demo_qvs (ViaConnection 9) (BuildRequest 1 ''add'' (QInt 3) @ [QInvalid])
     (RpcHandler :: (nat, nat) rpc) = Inl Fatal"
  by (rule oversized_request_fatal) (simp_all add: BuildRequest_def)

text \<open>A response nobody waits for leaves a null pointer, which \<^verbatim>\<open>CancelRequest\<close> takes for a request.\<close>

lemma stray_response_kept:
  assumes "qvs_ok V" and "i \<noteq> 0" and "requests r i = None"
  shows "\<exists>r'. HandleData_list V src (BuildResponse i data) r = Inr ([], r')
    \<and> requests r' = (requests r)(i \<mapsto> None) \<and> fst (CancelRequest i r')"
  using assms by (simp add: rpc_defs CancelRequest_def qvs_okD)

end
