(* ===== verification/Overlay.thy ===== *)
theory Overlay
  imports Rpc
begin

text \<open>
  The overlay of a node, \<^verbatim>\<open>src/src/ClientServer/Overlay.cpp\<close> and \<^verbatim>\<open>.hpp\<close>: notifications to a node, broadcasts
  that servers pass on, and packets that travel over a node in between.

  The connection table is the list of the remote ids of its connections, in the order in which the loops
  of the source visit them; the connection of a node to itself is one of them.  A method puts out the
  packets it sends over connections and the calls of handlers outside the overlay.  A packet can contain
  another one (a broadcast, a forwarded packet), which is handled inside the call: \<open>ov_packet\<close> counts
  the nested calls with fuel.
\<close>

section \<open>State\<close>

datatype 'a ov_slot = SlotBroadcast | SlotForwarded | SlotOther 'a

record ('a, 'c) overlay =
  ov_id :: peer
  ov_server_ids :: "peer list"
  ov_cons :: "peer list"
  ov_rpc :: "('a ov_slot, 'c) rpc"

datatype ('a, 'c) ov_out = OvSend peer bytes | OvEdge nat bytes | OvCall 'a packet | OvComplete 'c packet

type_synonym ('a, 'c) ov_step = "('a, 'c) overlay \<Rightarrow> fault + (('a, 'c) ov_out list \<times> ('a, 'c) overlay)"

text \<open>One method after the other; the same method for each element of a list.\<close>

definition ov_skip :: "('a, 'c) ov_step" where
  "ov_skip ov = Inr ([], ov)"

definition ov_then :: "('a, 'c) ov_step \<Rightarrow> ('a, 'c) ov_step \<Rightarrow> ('a, 'c) ov_step" where
  "ov_then f g ov = bindS (f ov) (\<lambda>(o1, ov). bindS (g ov) (\<lambda>(o2, ov). Inr (o1 @ o2, ov)))"

fun ov_each :: "('x \<Rightarrow> ('a, 'c) ov_step) \<Rightarrow> 'x list \<Rightarrow> ('a, 'c) ov_step" where
  "ov_each f [] = ov_skip"
| "ov_each f (x # xs) = ov_then (f x) (ov_each f xs)"

definition ov_IsServer :: "('a, 'c) overlay \<Rightarrow> peer \<Rightarrow> bool" where
  "ov_IsServer ov i \<longleftrightarrow> i \<in> set (ov_server_ids ov)"

definition AmServer :: "('a, 'c) overlay \<Rightarrow> bool" where
  "AmServer ov \<longleftrightarrow> ov_id ov \<in> set (ov_server_ids ov)"

definition mk_overlay :: "peer \<Rightarrow> peer list \<Rightarrow> ('a, 'c) overlay" where
  "mk_overlay local_id server_ids =
     \<lparr>ov_id = local_id, ov_server_ids = server_ids, ov_cons = [local_id],
      ov_rpc = snd (Register ''RF::Data'' SlotForwarded (snd (Register ''CS::Broadcast'' SlotBroadcast RpcHandler)))\<rparr>"

definition GetSender :: "('a, 'c) overlay \<Rightarrow> peer \<Rightarrow> isender" where
  "GetSender ov to = (if to \<in> set (ov_cons ov) then ViaConnection to else ViaForwarder to)"

text \<open>The id an overlay sender stands for; an edge has none.\<close>

fun sender_id :: "isender \<Rightarrow> peer option" where
  "sender_id (ViaConnection i) = Some i"
| "sender_id (ViaForwarder i) = Some i"
| "sender_id (ViaEdge e) = None"

section \<open>Sending\<close>

text \<open>A notification over the connection to \<open>con\<close>.\<close>

definition send_con :: "qvs \<Rightarrow> string \<Rightarrow> qvariant \<Rightarrow> peer \<Rightarrow> ('a, 'c) ov_step" where
  "send_con V method data con ov =
     bindS (IncrementId (ov_rpc ov)) (\<lambda>(i, r).
       Inr ([OvSend con (put_vlist V (BuildNotification i method data))], ov\<lparr>ov_rpc := r\<rparr>))"

definition ForwardingSend :: "qvs \<Rightarrow> string \<Rightarrow> peer \<Rightarrow> peer \<Rightarrow> bytes \<Rightarrow> ('a, 'c) ov_step" where
  "ForwardingSend V from con to data =
     send_con V ''RF::Data''
       (QHash [(''from'', QStr from), (''to'', QStr (id_str V to)), (''data'', QBytes data)]) con"

definition Forward :: "qvs \<Rightarrow> peer \<Rightarrow> bytes \<Rightarrow> ('a, 'c) ov_step" where
  "Forward V to data ov =
     (case (if to \<in> set (ov_cons ov) then Some to else find (\<lambda>con. con \<noteq> ov_id ov) (ov_cons ov)) of
        None \<Rightarrow> Inr ([], ov)
      | Some con \<Rightarrow> ForwardingSend V (id_str V (ov_id ov)) con to data ov)"

definition transmit :: "qvs \<Rightarrow> isender \<Rightarrow> bytes \<Rightarrow> ('a, 'c) ov_step" where
  "transmit V to data ov =
     (case to of
        ViaConnection con \<Rightarrow> Inr ([OvSend con data], ov)
      | ViaEdge e \<Rightarrow> Inr ([OvEdge e data], ov)
      | ViaForwarder p \<Rightarrow> Forward V p data ov)"

text \<open>\<^verbatim>\<open>SendNotification\<close> and \<^verbatim>\<open>SendRequest\<close> of the overlay: the RPC handler sends to \<^verbatim>\<open>GetSender(to)\<close>.\<close>

definition ov_sent :: "qvs \<Rightarrow> ('a ov_slot, 'c) rpc_out \<Rightarrow> ('a, 'c) ov_step" where
  "ov_sent V out = (case out of Sends to data \<Rightarrow> transmit V to data | _ \<Rightarrow> ov_skip)"

definition ov_SendNotification :: "qvs \<Rightarrow> peer \<Rightarrow> string \<Rightarrow> qvariant \<Rightarrow> ('a, 'c) ov_step" where
  "ov_SendNotification V to method data ov =
     bindS (RpcSendNotification V (GetSender ov to) method data (ov_rpc ov))
       (\<lambda>(outs, r). ov_each (ov_sent V) outs (ov\<lparr>ov_rpc := r\<rparr>))"

definition ov_SendRequest :: "qvs \<Rightarrow> peer \<Rightarrow> string \<Rightarrow> qvariant \<Rightarrow> 'c \<Rightarrow> bool \<Rightarrow> int \<Rightarrow> ('a, 'c) ov_step" where
  "ov_SendRequest V to method data cb timeout ctime ov =
     bindS (SendRequest V (GetSender ov to) method data cb timeout ctime (ov_rpc ov))
       (\<lambda>(outs, r). ov_each (ov_sent V) outs (ov\<lparr>ov_rpc := r\<rparr>))"

definition ov_BroadcastToServers :: "qvs \<Rightarrow> string \<Rightarrow> qvariant \<Rightarrow> ('a, 'c) ov_step" where
  "ov_BroadcastToServers V method data ov =
     ov_each (\<lambda>i. ov_SendNotification V i method data) (ov_server_ids ov) ov"

definition broadcast_data :: "qvs \<Rightarrow> peer \<Rightarrow> string \<Rightarrow> qvariant \<Rightarrow> qvariant" where
  "broadcast_data V source method data = QList [QBytes (id_bytes V source), QStr method, data]"

definition ov_Broadcast :: "qvs \<Rightarrow> string \<Rightarrow> qvariant \<Rightarrow> ('a, 'c) ov_step" where
  "ov_Broadcast V method data ov =
     ov_each (send_con V ''CS::Broadcast'' (broadcast_data V (ov_id ov) method data)) (ov_cons ov) ov"

section \<open>Receiving\<close>

text \<open>The connections a broadcast of \<open>source\<close> that came from \<open>forwarder\<close> goes on to.\<close>

definition forward_to :: "('a, 'c) overlay \<Rightarrow> peer \<Rightarrow> peer \<Rightarrow> peer list" where
  "forward_to ov source forwarder =
     (if ov_id ov = source \<or> \<not> AmServer ov then []
      else if ov_IsServer ov forwarder
      then filter (\<lambda>con. \<not> (ov_IsServer ov con \<or> ov_id ov = con)) (ov_cons ov)
      else filter (\<lambda>con. \<not> (source = con \<or> forwarder = con \<or> ov_id ov = con)) (ov_cons ov))"

text \<open>\<open>handle\<close> is \<^verbatim>\<open>RpcHandler::HandleData\<close> of the node itself, which the two handlers call.\<close>

definition BroadcastHelper ::
    "qvs \<Rightarrow> (isender \<Rightarrow> qvariant list \<Rightarrow> ('a, 'c) ov_step) \<Rightarrow> packet \<Rightarrow> ('a, 'c) ov_step" where
  "BroadcastHelper V handle notification ov =
     (let msg = to_list V (GetRequestData notification)
      in if length msg \<noteq> 3 then Inr ([], ov)
         else let source = bytes_id V (to_bytes V (msg ! 0)); method = to_str V (msg ! 1); data = msg ! 2
           in if method = [] then Inr ([], ov)
              else case sender_id (pk_from notification) of
                None \<Rightarrow> Inr ([], ov)
              | Some forwarder \<Rightarrow>
                  ov_then (handle (GetSender ov source) (BuildNotification (GetId_packet V notification) method data))
                    (\<lambda>ov. ov_each (send_con V ''CS::Broadcast'' (QList msg)) (forward_to ov source forwarder) ov) ov)"

definition hash_value :: "(string \<times> qvariant) list \<Rightarrow> string \<Rightarrow> qvariant" where
  "hash_value h key = (case map_of h key of None \<Rightarrow> QInvalid | Some v \<Rightarrow> v)"

definition ForwardedData ::
    "qvs \<Rightarrow> (isender \<Rightarrow> qvariant list \<Rightarrow> ('a, 'c) ov_step) \<Rightarrow> packet \<Rightarrow> ('a, 'c) ov_step" where
  "ForwardedData V handle notification ov =
     (let msg = to_hash V (GetRequestData notification); from = to_str V (hash_value msg ''from'')
      in if from = [] then Inr ([], ov)
         else let destination = str_id V (to_str V (hash_value msg ''to''))
           in if destination = 0 then Inr ([], ov)
              else let data = to_bytes V (hash_value msg ''data'')
                in if destination = ov_id ov then handle (GetSender ov (str_id V from)) (get_vlist V data) ov
                   else if destination \<in> set (ov_cons ov) then ForwardingSend V from destination destination data ov
                   else Inr ([], ov))"

text \<open>What the RPC handler of the node puts out: packets to send, and calls of handlers.\<close>

definition ov_output ::
    "qvs \<Rightarrow> (isender \<Rightarrow> qvariant list \<Rightarrow> ('a, 'c) ov_step) \<Rightarrow> ('a ov_slot, 'c) rpc_out \<Rightarrow> ('a, 'c) ov_step" where
  "ov_output V handle out =
     (case out of
        Sends to data \<Rightarrow> transmit V to data
      | Calls SlotBroadcast request \<Rightarrow> BroadcastHelper V handle request
      | Calls SlotForwarded request \<Rightarrow> ForwardedData V handle request
      | Calls (SlotOther a) request \<Rightarrow> (\<lambda>ov. Inr ([OvCall a request], ov))
      | Completes cb response \<Rightarrow> (\<lambda>ov. Inr ([OvComplete cb response], ov)))"

primrec ov_packet :: "nat \<Rightarrow> qvs \<Rightarrow> isender \<Rightarrow> qvariant list \<Rightarrow> ('a, 'c) ov_step" where
  "ov_packet 0 V from container ov = Inl Loops"
| "ov_packet (Suc n) V from container ov =
     bindS (HandleData_list V from container (ov_rpc ov))
       (\<lambda>(outs, r). ov_each (ov_output V (ov_packet n V)) outs (ov\<lparr>ov_rpc := r\<rparr>))"

text \<open>A packet that arrives over the connection to \<open>from\<close>.\<close>

definition ov_receive :: "nat \<Rightarrow> qvs \<Rightarrow> peer \<Rightarrow> bytes \<Rightarrow> ('a, 'c) ov_step" where
  "ov_receive n V from data = ov_packet n V (ViaConnection from) (get_vlist V data)"

end
