(* ===== verification/Network.thy ===== *)
theory Network
  imports Overlay "HOL-Library.Multiset"
begin

text \<open>
  Broadcasts in a network of nodes: every node runs the overlay of \<open>Overlay\<close>, a packet in flight is
  delivered at any time and in any order.  \<open>spread\<close> is what a packet of a broadcast sets off, as a
  function of the servers and the connections alone; the sum of what was delivered and what the packets
  in flight still set off does not change.
\<close>

section \<open>Nodes and packets in flight\<close>

type_synonym flight = "peer \<times> peer \<times> bytes"

record ('a, 'c) network =
  net_node :: "peer \<Rightarrow> ('a, 'c) overlay"
  net_flights :: "flight list"
  net_calls :: "(peer \<times> 'a \<times> packet) list"

fun sent_by :: "peer \<Rightarrow> ('a, 'c) ov_out list \<Rightarrow> flight list" where
  "sent_by i [] = []"
| "sent_by i (OvSend con data # outs) = (i, con, data) # sent_by i outs"
| "sent_by i (_ # outs) = sent_by i outs"

fun called_at :: "peer \<Rightarrow> ('a, 'c) ov_out list \<Rightarrow> (peer \<times> 'a \<times> packet) list" where
  "called_at i [] = []"
| "called_at i (OvCall a request # outs) = (i, a, request) # called_at i outs"
| "called_at i (_ # outs) = called_at i outs"

definition net_put :: "peer \<Rightarrow> ('a, 'c) ov_out list \<Rightarrow> ('a, 'c) overlay \<Rightarrow> ('a, 'c) network \<Rightarrow> ('a, 'c) network" where
  "net_put i outs ov net =
     net\<lparr>net_node := (net_node net)(i := ov), net_flights := net_flights net @ sent_by i outs,
         net_calls := net_calls net @ called_at i outs\<rparr>"

inductive net_step :: "nat \<Rightarrow> qvs \<Rightarrow> ('a, 'c) network \<Rightarrow> ('a, 'c) network \<Rightarrow> bool" for n V where
  deliver: "net_flights net = xs @ (src, i, data) # ys \<Longrightarrow> ov_receive n V src data (net_node net i) = Inr (outs, ov) \<Longrightarrow>
     net_step n V net (net_put i outs ov (net\<lparr>net_flights := xs @ ys\<rparr>))"

inductive_cases net_stepE: "net_step n V net net'"

section \<open>What a broadcast sets off\<close>

text \<open>\<open>S\<close>: the servers, \<open>C\<close>: the connections of each node.\<close>

definition onward :: "peer list \<Rightarrow> (peer \<Rightarrow> peer list) \<Rightarrow> peer \<Rightarrow> peer \<Rightarrow> peer \<Rightarrow> peer list" where
  "onward S C source forwarder i =
     (if i = source \<or> i \<notin> set S then []
      else if forwarder \<in> set S then filter (\<lambda>con. con \<notin> set S \<and> con \<noteq> i) (C i)
      else filter (\<lambda>con. con \<noteq> source \<and> con \<noteq> forwarder \<and> con \<noteq> i) (C i))"

text \<open>A packet comes to a server from a client, then to a server from a server, then to a client.\<close>

definition hops_left :: "peer list \<Rightarrow> peer \<Rightarrow> peer \<Rightarrow> nat" where
  "hops_left S forwarder i = (if i \<notin> set S then 0 else if forwarder \<in> set S then 1 else 2)"

lemma onward_hops: "con \<in> set (onward S C source forwarder i) \<Longrightarrow> hops_left S i con < hops_left S forwarder i"
  by (auto simp: onward_def hops_left_def split: if_splits)

function spread :: "peer list \<Rightarrow> (peer \<Rightarrow> peer list) \<Rightarrow> peer \<Rightarrow> peer \<Rightarrow> peer \<Rightarrow> peer list" where
  "spread S C source forwarder i = i # concat (map (spread S C source i) (onward S C source forwarder i))"
  by pat_completeness auto
termination
  by (relation "measure (\<lambda>(S, C, source, forwarder, i). hops_left S forwarder i)") (auto dest: onward_hops)

declare spread.simps [simp del]

definition flood :: "peer list \<Rightarrow> (peer \<Rightarrow> peer list) \<Rightarrow> peer \<Rightarrow> peer list" where
  "flood S C source = concat (map (spread S C source source) (C source))"

section \<open>One node\<close>

definition is_broadcast :: "qvs \<Rightarrow> peer \<Rightarrow> string \<Rightarrow> qvariant \<Rightarrow> bytes \<Rightarrow> bool" where
  "is_broadcast V source method data message \<longleftrightarrow>
     (\<exists>i. 0 < sint i \<and> get_vlist V message = BuildNotification i ''CS::Broadcast'' (broadcast_data V source method data))"

definition counted :: "('a, 'c) overlay \<Rightarrow> ('a, 'c) overlay \<Rightarrow> bool" where
  "counted ov ov' \<longleftrightarrow> (\<exists>i. 0 < sint i \<and> ov' = ov\<lparr>ov_rpc := ov_rpc ov\<lparr>current_id := i\<rparr>\<rparr>)"

lemma countedI: "0 < sint i \<Longrightarrow> counted ov (ov\<lparr>ov_rpc := ov_rpc ov\<lparr>current_id := i\<rparr>\<rparr>)"
  by (auto simp: counted_def)

lemma counted_trans: "counted ov ov1 \<Longrightarrow> counted ov1 ov2 \<Longrightarrow> counted ov ov2"
  by (auto simp: counted_def)

lemma next_id: "0 < sint (i :: int32) \<Longrightarrow> sint i \<noteq> 2147483647 \<Longrightarrow> 0 < sint (i + 1)"
proof -
  assume i: "0 < sint i" "sint i \<noteq> 2147483647"
  have "sint i < 2 ^ 31" using sint_lt [of i] by simp
  with i have "sint (i + 1) = sint i + 1"
    by (simp add: sint_word_ariths signed_take_bit_int_eq_self)
  with i show ?thesis by simp
qed

lemma send_con_broadcast:
  assumes "qvs_ok V" and "0 < sint (current_id (ov_rpc ov))"
    and "send_con V ''CS::Broadcast'' (broadcast_data V source method data) con ov = Inr (outs, ov')"
  shows "(\<exists>message. outs = [OvSend con message] \<and> is_broadcast V source method data message) \<and> counted ov ov'"
  using assms by (auto simp: send_con_def IncrementId_def fault_simps is_broadcast_def qvs_okD
      split: if_splits intro!: countedI next_id)

lemma each_broadcast:
  assumes "qvs_ok V" and "0 < sint (current_id (ov_rpc ov))"
    and "ov_each (send_con V ''CS::Broadcast'' (broadcast_data V source method data)) cons ov = Inr (outs, ov')"
  shows "map (fst \<circ> snd) (sent_by i outs) = cons \<and> called_at i outs = []
    \<and> list_all (\<lambda>(f, con, m). f = i \<and> is_broadcast V source method data m) (sent_by i outs) \<and> counted ov ov'"
  using assms(2,3)
proof (induction cons arbitrary: ov outs)
  case Nil
  then show ?case by (auto simp: ov_skip_def counted_def)
next
  case (Cons con cons)
  from Cons.prems(2) obtain o1 ov1 o2 where
    first: "send_con V ''CS::Broadcast'' (broadcast_data V source method data) con ov = Inr (o1, ov1)" and
    rest: "ov_each (send_con V ''CS::Broadcast'' (broadcast_data V source method data)) cons ov1 = Inr (o2, ov')" and
    outs: "outs = o1 @ o2"
    by (auto simp: ov_then_def fault_simps)
  note sent = send_con_broadcast [OF assms(1) Cons.prems(1) first]
  then have "0 < sint (current_id (ov_rpc ov1))" by (auto simp: counted_def)
  from Cons.IH [OF this rest] sent show ?case by (auto simp: outs intro: counted_trans)
qed


text \<open>A node of the network: its id, the servers, its connections, the handler \<open>a\<close> of \<open>method\<close>.\<close>

definition node_ok ::
    "peer list \<Rightarrow> (peer \<Rightarrow> peer list) \<Rightarrow> string \<Rightarrow> 'a \<Rightarrow> peer \<Rightarrow> ('a, 'c) overlay \<Rightarrow> bool" where
  "node_ok S C method a i ov \<longleftrightarrow>
     ov_id ov = i \<and> ov_server_ids ov = S \<and> ov_cons ov = C i \<and> 0 < sint (current_id (ov_rpc ov))
     \<and> callbacks (ov_rpc ov) ''CS::Broadcast'' = Some (Some SlotBroadcast)
     \<and> callbacks (ov_rpc ov) method = Some (Some (SlotOther a))"

lemma node_ok_counted: "node_ok S C method a i ov \<Longrightarrow> counted ov ov' \<Longrightarrow> node_ok S C method a i ov'"
  by (auto simp: node_ok_def counted_def)

lemma forward_to_onward: "node_ok S C method a i ov \<Longrightarrow> forward_to ov source forwarder = onward S C source forwarder i"
  by (auto simp: forward_to_def onward_def node_ok_def AmServer_def ov_IsServer_def intro!: filter_cong)

lemma receive_broadcast:
  assumes "qvs_ok V" and ok: "node_ok S C method a i ov" and "is_broadcast V source method data message" and "method \<noteq> []"
  shows "\<exists>request. sender_id (pk_from request) = Some source \<and> GetRequestData request = data
    \<and> ov_receive (Suc (Suc n)) V src message ov
      = ov_then (\<lambda>ov. Inr ([OvCall a request], ov))
          (ov_each (send_con V ''CS::Broadcast'' (broadcast_data V source method data)) (onward S C source src i)) ov"
proof -
  obtain k where k: "0 < sint k"
    "get_vlist V message = BuildNotification k ''CS::Broadcast'' (broadcast_data V source method data)"
    using assms(3) by (auto simp: is_broadcast_def)
  let ?request = "\<lparr>pk_from = GetSender ov source, pk_container = BuildNotification k method data\<rparr>"
  have inner: "ov_packet (Suc n) V (GetSender ov source) (BuildNotification k method data) ov = Inr ([OvCall a ?request], ov)"
    using ok k(1) assms(1)
    by (simp add: node_ok_def HandleData_list_def mk_request_def padded_def HandleRequest_def GetId_packet_def
        GetMethod_def BuildNotification_def qvs_okD Let_def ov_output_def ov_then_def ov_skip_def)
  have outer: "HandleData_list V (ViaConnection src) (BuildNotification k ''CS::Broadcast'' (broadcast_data V source method data)) (ov_rpc ov)
      = Inr ([Calls SlotBroadcast \<lparr>pk_from = ViaConnection src,
          pk_container = BuildNotification k ''CS::Broadcast'' (broadcast_data V source method data)\<rparr>], ov_rpc ov)"
    using ok k(1) assms(1)
    by (simp add: node_ok_def HandleData_list_def mk_request_def padded_def HandleRequest_def GetId_packet_def
        GetMethod_def BuildNotification_def qvs_okD Let_def)
  have "ov_receive (Suc (Suc n)) V src message ov
      = BroadcastHelper V (ov_packet (Suc n) V) \<lparr>pk_from = ViaConnection src,
          pk_container = BuildNotification k ''CS::Broadcast'' (broadcast_data V source method data)\<rparr> ov"
    unfolding ov_receive_def k(2) ov_packet.simps(2) [of "Suc n"] outer
    by (simp add: ov_output_def ov_then_def ov_skip_def del: ov_packet.simps)
      (cases "BroadcastHelper V (ov_packet (Suc n) V) \<lparr>pk_from = ViaConnection src,
          pk_container = BuildNotification k ''CS::Broadcast'' (broadcast_data V source method data)\<rparr> ov", auto)
  also have "\<dots> = ov_then (\<lambda>ov. Inr ([OvCall a ?request], ov))
      (ov_each (send_con V ''CS::Broadcast'' (broadcast_data V source method data)) (onward S C source src i)) ov"
    using assms(1,4) inner
    by (simp add: BroadcastHelper_def GetRequestData_def BuildNotification_def broadcast_data_def qvs_okD GetId_packet_def
        Let_def ov_then_def forward_to_onward [OF ok] del: ov_packet.simps)
  finally show ?thesis
    by (intro exI [of _ ?request]) (simp add: GetRequestData_def BuildNotification_def GetSender_def)
qed


section \<open>The network\<close>

definition in_flight :: "peer list \<Rightarrow> (peer \<Rightarrow> peer list) \<Rightarrow> peer \<Rightarrow> flight list \<Rightarrow> peer multiset" where
  "in_flight S C source fs = sum_list (map (\<lambda>(f, con, m). mset (spread S C source f con)) fs)"

definition broadcast_inv ::
    "peer list \<Rightarrow> (peer \<Rightarrow> peer list) \<Rightarrow> qvs \<Rightarrow> peer \<Rightarrow> string \<Rightarrow> 'a \<Rightarrow> qvariant \<Rightarrow> ('a, 'c) network \<Rightarrow> bool" where
  "broadcast_inv S C V source method a data net \<longleftrightarrow>
     (\<forall>i. node_ok S C method a i (net_node net i))
     \<and> list_all (\<lambda>(f, con, m). is_broadcast V source method data m) (net_flights net)
     \<and> list_all (\<lambda>(i, b, request). b = a \<and> sender_id (pk_from request) = Some source
         \<and> GetRequestData request = data) (net_calls net)
     \<and> mset (map fst (net_calls net)) + in_flight S C source (net_flights net) = mset (flood S C source)"

lemma in_flight_simps [simp]:
  "in_flight S C source [] = {#}"
  "in_flight S C source (fl # fs) = mset (spread S C source (fst fl) (fst (snd fl))) + in_flight S C source fs"
  "in_flight S C source (fs @ gs) = in_flight S C source fs + in_flight S C source gs"
  by (auto simp: in_flight_def split: prod.split)

lemma in_flight_sent:
  "map (fst \<circ> snd) fs = cons \<Longrightarrow> list_all (\<lambda>(f, con, m). f = i \<and> P m) fs \<Longrightarrow>
     in_flight S C source fs = mset (concat (map (spread S C source i) cons))"
  by (induction fs arbitrary: cons) auto

lemma broadcast_inv_step:
  assumes inv: "broadcast_inv S C V source method a data net" and step: "net_step (Suc (Suc n)) V net net'"
    and "qvs_ok V" and "method \<noteq> []"
  shows "broadcast_inv S C V source method a data net' \<and> length (net_calls net') = Suc (length (net_calls net))"
proof -
  from step obtain xs f i m ys outs ov where deliver:
    "net' = net_put i outs ov (net\<lparr>net_flights := xs @ ys\<rparr>)" "net_flights net = xs @ (f, i, m) # ys"
    "ov_receive (Suc (Suc n)) V f m (net_node net i) = Inr (outs, ov)"
    by (rule net_stepE)
  from inv deliver(2) have ok: "node_ok S C method a i (net_node net i)" and m: "is_broadcast V source method data m"
    by (auto simp: broadcast_inv_def)
  from receive_broadcast [OF assms(3) ok m assms(4), of n f] obtain request where
    request: "sender_id (pk_from request) = Some source" "GetRequestData request = data" and
    run: "ov_receive (Suc (Suc n)) V f m (net_node net i) = ov_then (\<lambda>ov. Inr ([OvCall a request], ov))
      (ov_each (send_con V ''CS::Broadcast'' (broadcast_data V source method data)) (onward S C source f i)) (net_node net i)"
    by blast
  from deliver(3) [unfolded run] obtain sends where
    sends: "ov_each (send_con V ''CS::Broadcast'' (broadcast_data V source method data)) (onward S C source f i)
      (net_node net i) = Inr (sends, ov)" and outs: "outs = OvCall a request # sends"
    by (auto simp: ov_then_def fault_simps)
  have "0 < sint (current_id (ov_rpc (net_node net i)))" using ok by (simp add: node_ok_def)
  note each = each_broadcast [OF assms(3) this sends, of i]
  have node: "node_ok S C method a i ov" using ok each by (blast intro: node_ok_counted)
  have "in_flight S C source (sent_by i sends) = mset (concat (map (spread S C source i) (onward S C source f i)))"
    using each in_flight_sent by blast
  then have "mset (map fst (net_calls net')) + in_flight S C source (net_flights net') = mset (flood S C source)"
    using inv deliver(1,2) outs each
    by (simp add: broadcast_inv_def net_put_def spread.simps [of S C source f i] ac_simps)
  moreover have "list_all (\<lambda>(f, con, m). is_broadcast V source method data m) (sent_by i sends)"
    using each by (auto simp: list_all_iff)
  ultimately show ?thesis
    using inv deliver(1,2) outs each node request by (auto simp: broadcast_inv_def net_put_def)
qed


lemma broadcast_inv_steps:
  assumes "(net_step (Suc (Suc n)) V)\<^sup>*\<^sup>* net net'" and "broadcast_inv S C V source method a data net"
    and "qvs_ok V" and "method \<noteq> []"
  shows "broadcast_inv S C V source method a data net'"
  using assms(1,2)
proof (induction rule: rtranclp_induct)
  case (step net1 net2)
  then show ?case using broadcast_inv_step [OF _ step.hyps(2) assms(3,4)] by blast
qed simp

text \<open>The start of a broadcast.\<close>

definition broadcast_from :: "qvs \<Rightarrow> peer \<Rightarrow> string \<Rightarrow> qvariant \<Rightarrow> (peer \<Rightarrow> ('a, 'c) overlay) \<Rightarrow> ('a, 'c) network \<Rightarrow> bool" where
  "broadcast_from V source method data nodes net \<longleftrightarrow>
     (\<exists>outs ov. ov_Broadcast V method data (nodes source) = Inr (outs, ov)
       \<and> net = net_put source outs ov \<lparr>net_node = nodes, net_flights = [], net_calls = []\<rparr>)"

lemma broadcast_inv_start:
  assumes "broadcast_from V source method data nodes net" and "\<And>i. node_ok S C method a i (nodes i)" and "qvs_ok V"
  shows "broadcast_inv S C V source method a data net"
proof -
  from assms(1,2) obtain outs ov where
    start: "ov_each (send_con V ''CS::Broadcast'' (broadcast_data V source method data)) (C source) (nodes source) = Inr (outs, ov)"
    and net: "net = net_put source outs ov \<lparr>net_node = nodes, net_flights = [], net_calls = []\<rparr>"
    by (fastforce simp: broadcast_from_def ov_Broadcast_def node_ok_def)
  have "0 < sint (current_id (ov_rpc (nodes source)))" using assms(2) by (simp add: node_ok_def)
  note each = each_broadcast [OF assms(3) this start, of source]
  then have "node_ok S C method a source ov" using assms(2) by (blast intro: node_ok_counted)
  moreover have "in_flight S C source (sent_by source outs) = mset (flood S C source)"
    unfolding flood_def using each in_flight_sent by blast
  moreover have "list_all (\<lambda>(f, con, m). is_broadcast V source method data m) (sent_by source outs)"
    using each by (auto simp: list_all_iff)
  ultimately show ?thesis using each assms(2) by (auto simp: broadcast_inv_def net net_put_def)
qed

section \<open>Topologies\<close>

text \<open>
  The topology the program sets up: the servers are connected with each other, every client with one
  server, every node with itself.
\<close>

definition star_topology :: "peer set \<Rightarrow> peer list \<Rightarrow> (peer \<Rightarrow> peer list) \<Rightarrow> (peer \<Rightarrow> peer) \<Rightarrow> bool" where
  "star_topology N S C home \<longleftrightarrow>
     set S \<subseteq> N \<and> (\<forall>i. distinct (C i))
     \<and> (\<forall>s \<in> set S. set (C s) = set S \<union> {c \<in> N - set S. home c = s})
     \<and> (\<forall>c \<in> N - set S. set (C c) = {c, home c} \<and> home c \<in> set S)"

lemma distinct_concat_map:
  "distinct xs \<Longrightarrow> (\<And>x. x \<in> set xs \<Longrightarrow> distinct (f x)) \<Longrightarrow>
     (\<And>x y. x \<in> set xs \<Longrightarrow> y \<in> set xs \<Longrightarrow> x \<noteq> y \<Longrightarrow> set (f x) \<inter> set (f y) = {}) \<Longrightarrow> distinct (concat (map f xs))"
  by (induction xs) (simp_all, blast)

lemma spread_leaf: "i \<notin> set S \<or> i = source \<Longrightarrow> spread S C source forwarder i = [i]"
  by (subst spread.simps) (auto simp: onward_def)

text \<open>A server passes what a server sent to its clients, which do not pass it on.\<close>

lemma spread_server:
  assumes "i \<in> set S" and "i \<noteq> source" and "forwarder \<in> set S"
  shows "spread S C source forwarder i = i # filter (\<lambda>con. con \<notin> set S \<and> con \<noteq> i) (C i)"
proof -
  let ?cons = "filter (\<lambda>con. con \<notin> set S \<and> con \<noteq> i) (C i)"
  have "map (spread S C source i) ?cons = map (\<lambda>con. [con]) ?cons"
    by (rule map_cong) (auto intro: spread_leaf)
  then have "concat (map (spread S C source i) ?cons) = ?cons" by (simp only: concat_map_singleton map_ident)
  then show ?thesis using assms by (subst spread.simps) (simp only: onward_def, simp)
qed


lemma star_clients:
  "star_topology N S C home \<Longrightarrow> i \<in> set S \<Longrightarrow> set (filter (\<lambda>con. con \<notin> set S \<and> con \<noteq> i) (C i)) = {c \<in> N - set S. home c = i}"
  by (auto simp: star_topology_def)

lemma star_distinct: "star_topology N S C home \<Longrightarrow> distinct (C i)"
  by (simp add: star_topology_def)

lemma star_home: "star_topology N S C home \<Longrightarrow> c \<in> N - set S \<Longrightarrow> home c \<in> set S \<and> home c \<noteq> c"
  unfolding star_topology_def by (metis DiffD2)

text \<open>What a server passes on that it got from its client.\<close>

lemma spread_home:
  assumes top: "star_topology N S C home" and "source \<in> N - set S"
  shows "distinct (spread S C source source (home source)) \<and> set (spread S C source source (home source)) = N - {source}"
proof -
  let ?h = "home source"
  let ?cons = "filter (\<lambda>con. con \<noteq> source \<and> con \<noteq> ?h) (C ?h)"
  have h: "?h \<in> set S" "source \<notin> set S" "?h \<noteq> source" using assms star_home [OF top] by auto
  have onto: "onward S C source source ?h = ?cons" using h by (auto simp: onward_def intro!: filter_cong)
  have cons: "set ?cons = (set S - {?h}) \<union> {c \<in> N - set S. home c = ?h} - {source}"
    using top h by (auto simp: star_topology_def)
  have server: "spread S C source ?h s = s # filter (\<lambda>con. con \<notin> set S \<and> con \<noteq> s) (C s)" if "s \<in> set S" for s
    using that h by (intro spread_server) auto
  have sets: "set (spread S C source ?h c) = (if c \<in> set S then insert c {k \<in> N - set S. home k = c} else {c})" for c
    using server star_clients [OF top] by (simp add: spread_leaf del: set_filter)
  have "distinct (spread S C source ?h c)" if "c \<in> set ?cons" for c
    using server star_distinct [OF top] by (cases "c \<in> set S") (auto simp: spread_leaf)
  then have "distinct (concat (map (spread S C source ?h) ?cons))"
    using star_distinct [OF top] by (intro distinct_concat_map) (auto simp: sets cons simp del: set_filter split: if_splits)
  moreover have "set (concat (map (spread S C source ?h) ?cons)) = N - {source, ?h}"
    using top h by (auto simp: sets cons star_topology_def)
  moreover have "spread S C source source ?h = ?h # concat (map (spread S C source ?h) ?cons)"
    by (subst spread.simps) (simp only: onto)
  ultimately show ?thesis using h top by (auto simp: star_topology_def)
qed

lemma star_flood:
  assumes top: "star_topology N S C home" and "source \<in> N"
  shows "distinct (flood S C source) \<and> set (flood S C source) = N"
proof (cases "source \<in> set S")
  case True
  have sets: "set (spread S C source source c)
      = (if c \<in> set S \<and> c \<noteq> source then insert c {k \<in> N - set S. home k = c} else {c})" for c
    using spread_server [of c S source source C] star_clients [OF top] True
    by (auto simp: spread_leaf simp del: set_filter)
  have "distinct (spread S C source source c)" for c
    using spread_server [of c S source source C] star_distinct [OF top] True
    by (cases "c \<in> set S \<and> c \<noteq> source") (auto simp: spread_leaf)
  then have "distinct (flood S C source)"
    unfolding flood_def using star_distinct [OF top] top True
    by (intro distinct_concat_map) (auto simp: sets star_topology_def split: if_splits)
  moreover have "set (flood S C source) = N"
    using top True by (auto simp: flood_def sets star_topology_def)
  ultimately show ?thesis by blast
next
  case False
  with assms have cons: "distinct (C source)" "set (C source) = {source, home source}" "home source \<noteq> source"
    using star_home [OF top, of source] by (auto simp: star_topology_def)
  have home: "distinct (spread S C source source (home source)) \<and> set (spread S C source source (home source)) = N - {source}"
    using spread_home [OF top] False assms(2) by blast
  have own: "spread S C source source source = [source]" by (simp add: spread_leaf)
  have two: "c = source \<or> c = home source" if "c \<in> set (C source)" for c using that cons(2) by blast
  from two own home have sets: "c \<in> set (C source) \<Longrightarrow> distinct (spread S C source source c)
      \<and> set (spread S C source source c) = (if c = source then {source} else N - {source})" for c
    by (cases "c = source") auto
  have "distinct (flood S C source)"
    unfolding flood_def
  proof (rule distinct_concat_map [OF cons(1)])
    fix x y
    assume "x \<in> set (C source)" "y \<in> set (C source)" "x \<noteq> y"
    with two [of x] two [of y] sets [of x] sets [of y]
    show "set (spread S C source source x) \<inter> set (spread S C source source y) = {}" by (auto split: if_splits)
  qed (use sets in blast)
  moreover have "set (flood S C source) = N"
    using cons(3) own home assms(2) by (auto simp: flood_def cons(2))
  ultimately show ?thesis by blast
qed

end
