(* ===== verification/Network_Props.thy ===== *)
theory Network_Props
  imports Network Variant_Demo
begin

text \<open>
  What a broadcast reaches, that it ends, and what forwarding between two nodes needs.
\<close>

section \<open>Broadcasts make progress\<close>

lemma each_total:
  assumes "0 < sint (current_id (ov_rpc ov))" and "sint (current_id (ov_rpc ov)) + int (length cons) < 2 ^ 31"
  shows "\<exists>outs ov'. ov_each (send_con V meth data) cons ov = Inr (outs, ov')
    \<and> sint (current_id (ov_rpc ov')) = sint (current_id (ov_rpc ov)) + int (length cons)"
  using assms
proof (induction cons arbitrary: ov)
  case Nil
  then show ?case by (simp add: ov_skip_def)
next
  case (Cons con cons)
  let ?i = "current_id (ov_rpc ov)"
  let ?ov = "ov\<lparr>ov_rpc := ov_rpc ov\<lparr>current_id := ?i + 1\<rparr>\<rparr>"
  have "sint (?i + 1) = sint ?i + 1"
    using Cons.prems by (simp add: sint_word_ariths signed_take_bit_int_eq_self)
  with Cons.IH [of ?ov] Cons.prems obtain outs ov' where
    rest: "ov_each (send_con V meth data) cons ?ov = Inr (outs, ov')"
      "sint (current_id (ov_rpc ov')) = sint ?i + int (length (con # cons))"
    by auto
  moreover have "\<exists>o1. send_con V meth data con ov = Inr (o1, ?ov)"
    using Cons.prems by (auto simp: send_con_def IncrementId_def)
  ultimately show ?case by (auto simp: ov_then_def)
qed

text \<open>Ids left at every node for \<open>k\<close> more packets.\<close>

definition room :: "(peer \<Rightarrow> peer list) \<Rightarrow> nat \<Rightarrow> (peer \<Rightarrow> ('a, 'c) overlay) \<Rightarrow> bool" where
  "room C k nodes \<longleftrightarrow> (\<forall>i. sint (current_id (ov_rpc (nodes i))) + int k * int (length (C i)) < 2 ^ 31)"

lemma room_mono: "room C k nodes \<Longrightarrow> j \<le> k \<Longrightarrow> room C j nodes"
  unfolding room_def by (meson add_left_mono le_less_trans mult_right_mono of_nat_0_le_iff of_nat_mono)

lemma onward_length: "length (onward S C source forwarder i) \<le> length (C i)"
  by (simp add: onward_def)

lemma spread_nonempty: "0 < size (mset (spread S C source f i))"
  by (subst spread.simps) simp

lemma in_flight_size: "length fs \<le> size (in_flight S C source fs)"
  using spread_nonempty by (induction fs) (auto simp: Suc_le_eq add_less_le_mono dest: add_less_le_mono [OF spread_nonempty])

lemma broadcast_step_exists:
  assumes inv: "broadcast_inv S C V source meth a data net" and "net_flights net \<noteq> []"
    and room: "room C (Suc k) (net_node net)" and "qvs_ok V" and "meth \<noteq> []"
  shows "\<exists>net'. net_step (Suc (Suc n)) V net net' \<and> room C k (net_node net')"
proof -
  obtain f i m fs where fs: "net_flights net = [] @ (f, i, m) # fs" using assms(2) by (cases "net_flights net") auto
  from inv fs have ok: "node_ok S C meth a i (net_node net i)" and m: "is_broadcast V source meth data m"
    by (auto simp: broadcast_inv_def)
  let ?cur = "\<lambda>ov. sint (current_id (ov_rpc ov))"
  have cur: "0 < ?cur (net_node net i)" "?cur (net_node net i) + int (length (C i)) + int k * int (length (C i)) < 2 ^ 31"
    using ok room by (auto simp: node_ok_def room_def algebra_simps dest: spec [of _ i])
  then have "?cur (net_node net i) + int (length (onward S C source f i)) < 2 ^ 31"
    using onward_length [of S C source f i] by (smt (verit) of_nat_0_le_iff of_nat_mono zero_le_mult_iff)
  from each_total [OF cur(1) this] obtain sends ov where
    sends: "ov_each (send_con V ''CS::Broadcast'' (broadcast_data V source meth data)) (onward S C source f i) (net_node net i) = Inr (sends, ov)"
      "?cur ov = ?cur (net_node net i) + int (length (onward S C source f i))" by blast
  from receive_broadcast [OF assms(4) ok m assms(5), of n f] sends(1) obtain outs
    where "ov_receive (Suc (Suc n)) V f m (net_node net i) = Inr (outs, ov)"
    by (auto simp: ov_then_def)
  from deliver [OF fs this] have "net_step (Suc (Suc n)) V net (net_put i outs ov (net\<lparr>net_flights := fs\<rparr>))" by simp
  moreover have "room C k (net_node (net_put i outs ov (net\<lparr>net_flights := fs\<rparr>)))"
    unfolding room_def
  proof
    fix j
    show "?cur (net_node (net_put i outs ov (net\<lparr>net_flights := fs\<rparr>)) j) + int k * int (length (C j)) < 2 ^ 31"
    proof (cases "j = i")
      case True
      with cur(2) sends(2) onward_length [of S C source f i] show ?thesis by (simp add: net_put_def)
    next
      case False
      have "?cur (net_node net j) + (1 + int k) * int (length (C j)) < 2 ^ 31"
        using room by (simp add: room_def)
      then have "?cur (net_node net j) + int k * int (length (C j)) + int (length (C j)) < 2 ^ 31"
        by (simp add: algebra_simps)
      with False show ?thesis by (simp add: net_put_def)
    qed
  qed
  ultimately show ?thesis by blast
qed


lemma broadcast_left:
  "broadcast_inv S C V source meth a data net \<Longrightarrow>
     length (net_calls net) + size (in_flight S C source (net_flights net)) = length (flood S C source)"
  unfolding broadcast_inv_def by (metis length_map size_mset size_union)

lemma broadcast_completes:
  assumes "broadcast_inv S C V source meth a data net" and "room C k (net_node net)"
    and "k = size (in_flight S C source (net_flights net))" and "qvs_ok V" and "meth \<noteq> []"
  shows "\<exists>net'. (net_step (Suc (Suc n)) V)\<^sup>*\<^sup>* net net' \<and> net_flights net' = []"
  using assms(1-3)
proof (induction k arbitrary: net)
  case 0
  then have "net_flights net = []" using in_flight_size [of "net_flights net" S C source] by simp
  then show ?case by blast
next
  case (Suc k)
  show ?case
  proof (cases "net_flights net = []")
    case False
    from broadcast_step_exists [OF Suc.prems(1) False Suc.prems(2) assms(4,5)] obtain net1 where
      step: "net_step (Suc (Suc n)) V net net1" and room: "room C k (net_node net1)" by blast
    from broadcast_inv_step [OF Suc.prems(1) step assms(4,5)] have
      inv: "broadcast_inv S C V source meth a data net1" "length (net_calls net1) = Suc (length (net_calls net))" by auto
    from broadcast_left [OF inv(1)] broadcast_left [OF Suc.prems(1)] inv(2) Suc.prems(3)
    have "k = size (in_flight S C source (net_flights net1))" by simp
    from Suc.IH [OF inv(1) room this] step show ?thesis by (meson converse_rtranclp_into_rtranclp)
  qed blast
qed

lemma broadcast_starts:
  assumes "\<And>i. node_ok S C meth a i (nodes i)" and "room C (Suc k) nodes"
  shows "\<exists>net. broadcast_from V source meth data nodes net \<and> room C k (net_node net)"
proof -
  let ?cur = "\<lambda>ov. sint (current_id (ov_rpc ov))"
  have cur: "0 < ?cur (nodes source)" "?cur (nodes source) + int (length (C source)) + int k * int (length (C source)) < 2 ^ 31"
    using assms by (auto simp: node_ok_def room_def algebra_simps dest: spec [of _ source])
  have "?cur (nodes source) + int (length (C source)) < 2 ^ 31"
    using cur(2) by (smt (verit) of_nat_0_le_iff zero_le_mult_iff)
  from each_total [OF cur(1) this] obtain outs ov where
    start: "ov_each (send_con V ''CS::Broadcast'' (broadcast_data V source meth data)) (C source) (nodes source) = Inr (outs, ov)"
      "?cur ov = ?cur (nodes source) + int (length (C source))" by blast
  let ?net = "net_put source outs ov \<lparr>net_node = nodes, net_flights = [], net_calls = []\<rparr>"
  have "broadcast_from V source meth data nodes ?net"
    using start(1) assms(1) [of source] by (auto simp: broadcast_from_def ov_Broadcast_def node_ok_def)
  moreover have "room C k (net_node ?net)"
    unfolding room_def
  proof
    fix j
    have "?cur (nodes j) + int k * int (length (C j)) + int (length (C j)) < 2 ^ 31"
      using assms(2) by (simp add: room_def algebra_simps)
    with cur start(2) show "?cur (net_node ?net j) + int k * int (length (C j)) < 2 ^ 31"
      by (auto simp: net_put_def)
  qed
  ultimately show ?thesis by blast
qed

section \<open>Properties of broadcasts\<close>

text \<open>
  C6.  In a network where the servers are connected with each other and every client with one server,
  a broadcast of any node that is over has reached every node exactly once, the sender included, with
  its data and its source, however the packets were ordered on the way.
\<close>

theorem broadcast_reaches_all:
  assumes "star_topology N S C home" and "source \<in> N" and "\<And>i. node_ok S C meth a i (nodes i)"
    and "broadcast_from V source meth data nodes net" and "(net_step (Suc (Suc n)) V)\<^sup>*\<^sup>* net net'"
    and "net_flights net' = []" and "qvs_ok V" and "meth \<noteq> []"
  shows "distinct (map fst (net_calls net')) \<and> set (map fst (net_calls net')) = N
    \<and> list_all (\<lambda>(i, b, request). b = a \<and> sender_id (pk_from request) = Some source \<and> GetRequestData request = data)
        (net_calls net')"
proof -
  have "broadcast_inv S C V source meth a data net'"
    using broadcast_inv_steps [OF assms(5) _ assms(7,8)] broadcast_inv_start [OF assms(4,3,7)] by blast
  then have "mset (map fst (net_calls net')) = mset (flood S C source)"
    and "list_all (\<lambda>(i, b, request). b = a \<and> sender_id (pk_from request) = Some source \<and> GetRequestData request = data)
        (net_calls net')"
    using assms(6) by (simp_all add: broadcast_inv_def)
  with star_flood [OF assms(1,2)] show ?thesis by (metis mset_eq_imp_distinct_iff mset_eq_setD)
qed

text \<open>Two servers with a client each.\<close>

definition demo_cons :: "peer \<Rightarrow> peer list" where
  "demo_cons i = (if i = 1 then [1, 2, 3] else if i = 2 then [4, 1, 2] else if i = 3 then [3, 1]
     else if i = 4 then [2, 4] else [i])"

definition demo_overlay :: "peer \<Rightarrow> (unit, nat) overlay" where
  "demo_overlay i = (mk_overlay i [1, 2])\<lparr>ov_cons := demo_cons i,
     ov_rpc := snd (Register ''SessionData'' (SlotOther ()) (ov_rpc (mk_overlay i [1, 2])))\<rparr>"

lemma demo_overlay_ok: "node_ok [1, 2] demo_cons ''SessionData'' () i (demo_overlay i)"
  by (simp add: node_ok_def demo_overlay_def mk_overlay_def Register_def RpcHandler_def)

lemma demo_star: "star_topology {1, 2, 3, 4} [1, 2] demo_cons (\<lambda>c. if c = 3 then 1 else 2)"
  by (auto simp: star_topology_def demo_cons_def)

lemma demo_flood: "i \<in> {1, 2, 3, 4} \<Longrightarrow> length (flood [1, 2] demo_cons i) = 4"
  using star_flood [OF demo_star] distinct_card [of "flood [1, 2] demo_cons i"] by simp

lemma demo_room: "k < 1000 \<Longrightarrow> room demo_cons k demo_overlay"
  by (simp add: room_def demo_overlay_def mk_overlay_def Register_def RpcHandler_def demo_cons_def)

theorem broadcast_reaches_all_witness:
  "\<exists>net net'. broadcast_from demo_qvs 3 ''SessionData'' (QInt 5) demo_overlay net
    \<and> (net_step (Suc (Suc 0)) demo_qvs)\<^sup>*\<^sup>* net net' \<and> net_flights net' = []
    \<and> distinct (map fst (net_calls net')) \<and> set (map fst (net_calls net')) = {1, 2, 3, 4}"
proof -
  from broadcast_starts [OF demo_overlay_ok demo_room [of "Suc 4"]] obtain net
    where net: "broadcast_from demo_qvs 3 ''SessionData'' (QInt 5) demo_overlay net" "room demo_cons 4 (net_node net)" by force
  note inv = broadcast_inv_start [OF net(1) demo_overlay_ok demo_qvs_ok]
  let ?k = "size (in_flight [1, 2] demo_cons 3 (net_flights net))"
  have "?k \<le> 4" using broadcast_left [OF inv] demo_flood [of 3] by simp
  with net(2) have "room demo_cons ?k (net_node net)" by (rule room_mono)
  from broadcast_completes [OF inv this refl demo_qvs_ok] obtain net'
    where "(net_step (Suc (Suc 0)) demo_qvs)\<^sup>*\<^sup>* net net'" "net_flights net' = []" by auto
  with broadcast_reaches_all [OF demo_star _ demo_overlay_ok net(1) this demo_qvs_ok] net(1) show ?thesis by blast
qed



section \<open>Forwarding\<close>

lemma forward_packet:
  assumes "qvs_ok V" and "0 < sint (current_id (ov_rpc ov))" and "sint (current_id (ov_rpc ov)) < 2 ^ 31 - 1"
  shows "\<exists>p ov' k. ForwardingSend V from con to data ov = Inr ([OvSend con p], ov') \<and> 0 < sint k
    \<and> get_vlist V p = BuildNotification k ''RF::Data''
        (QHash [(''from'', QStr from), (''to'', QStr (id_str V to)), (''data'', QBytes data)])"
  using assms by (auto simp: ForwardingSend_def send_con_def IncrementId_def qvs_okD)

lemma receive_forwarded:
  assumes "qvs_ok V" and "0 < sint k" and "get_vlist V p = BuildNotification k ''RF::Data''
        (QHash [(''from'', QStr (id_str V i)), (''to'', QStr (id_str V to)), (''data'', QBytes data)])"
    and "callbacks (ov_rpc ov) ''RF::Data'' = Some (Some SlotForwarded)" and "to \<noteq> 0"
  shows "ov_receive (Suc n) V src p ov =
    (if to = ov_id ov then ov_packet n V (GetSender ov i) (get_vlist V data) ov
     else if to \<in> set (ov_cons ov) then ForwardingSend V (id_str V i) to to data ov else Inr ([], ov))"
proof -
  let ?request = "\<lparr>pk_from = ViaConnection src, pk_container = BuildNotification k ''RF::Data''
        (QHash [(''from'', QStr (id_str V i)), (''to'', QStr (id_str V to)), (''data'', QBytes data)])\<rparr>"
  have "HandleData_list V (ViaConnection src) (get_vlist V p) (ov_rpc ov) = Inr ([Calls SlotForwarded ?request], ov_rpc ov)"
    using assms
    by (simp add: HandleData_list_def mk_request_def padded_def HandleRequest_def GetId_packet_def
        GetMethod_def BuildNotification_def qvs_okD Let_def)
  then have "ov_receive (Suc n) V src p ov = ForwardedData V (ov_packet n V) ?request ov"
    by (simp add: ov_receive_def ov_output_def ov_then_def ov_skip_def)
      (cases "ForwardedData V (ov_packet n V) ?request ov", auto)
  then show ?thesis
    using assms by (simp add: ForwardedData_def GetRequestData_def BuildNotification_def hash_value_def qvs_okD Let_def)
qed

lemma notify_forwarded:
  assumes "qvs_ok V" and "0 < sint (current_id (ov_rpc ov))" and "sint (current_id (ov_rpc ov)) < 2 ^ 31 - 2"
    and "to \<notin> set (ov_cons ov)" and "find (\<lambda>con. con \<noteq> ov_id ov) (ov_cons ov) = Some relay"
  shows "\<exists>p ov' k. ov_SendNotification V to meth data ov = Inr ([OvSend relay p], ov') \<and> 0 < sint k
    \<and> get_vlist V p = BuildNotification k ''RF::Data'' (QHash [(''from'', QStr (id_str V (ov_id ov))),
        (''to'', QStr (id_str V to)),
        (''data'', QBytes (put_vlist V (BuildNotification (current_id (ov_rpc ov)) meth data)))])"
proof -
  let ?i = "current_id (ov_rpc ov)"
  let ?ov = "ov\<lparr>ov_rpc := ov_rpc ov\<lparr>current_id := ?i + 1\<rparr>\<rparr>"
  have "sint (?i + 1) = sint ?i + 1"
    using assms(2,3) by (simp add: sint_word_ariths signed_take_bit_int_eq_self)
  with assms(2,3) have next_ok: "0 < sint (current_id (ov_rpc ?ov))" "sint (current_id (ov_rpc ?ov)) < 2 ^ 31 - 1" by auto
  have "ov_SendNotification V to meth data ov
      = Forward V to (put_vlist V (BuildNotification ?i meth data)) ?ov"
    using assms by (simp add: ov_SendNotification_def RpcSendNotification_def IncrementId_def GetSender_def
        ov_sent_def transmit_def ov_then_def ov_skip_def)
      (cases "Forward V to (put_vlist V (BuildNotification ?i meth data)) ?ov", auto)
  also have "\<dots> = ForwardingSend V (id_str V (ov_id ov)) relay to (put_vlist V (BuildNotification ?i meth data)) ?ov"
    using assms(4,5) by (simp add: Forward_def)
  finally show ?thesis using forward_packet [OF assms(1) next_ok] by simp
qed


text \<open>The node \<open>ov\<close> runs an overlay and has ids left; it knows \<open>method\<close> as \<open>h\<close>.\<close>

definition ids_left :: "('a, 'c) overlay \<Rightarrow> bool" where
  "ids_left ov \<longleftrightarrow> 0 < sint (current_id (ov_rpc ov)) \<and> sint (current_id (ov_rpc ov)) < 2 ^ 31 - 2"

definition forwards :: "('a, 'c) overlay \<Rightarrow> bool" where
  "forwards ov \<longleftrightarrow> callbacks (ov_rpc ov) ''RF::Data'' = Some (Some SlotForwarded)"

text \<open>
  A notification to a node without a connection goes to the first other connection.  If the node
  there is connected with the receiver, the receiver's handler gets the method and the data with the id
  of the sender; if not, the packet is dropped there.
\<close>

theorem forwarding_needs_relay:
  assumes "qvs_ok V" and "to \<notin> set (ov_cons x)" and "find (\<lambda>con. con \<noteq> ov_id x) (ov_cons x) = Some (ov_id r)"
    and "ids_left x" and "ids_left r" and "forwards r" and "to \<noteq> 0" and "to \<noteq> ov_id r"
  shows "\<exists>p x'. ov_SendNotification V to meth data x = Inr ([OvSend (ov_id r) p], x')
    \<and> (to \<notin> set (ov_cons r) \<longrightarrow> ov_receive (Suc n) V (ov_id x) p r = Inr ([], r))
    \<and> (to \<in> set (ov_cons r) \<longrightarrow> (\<exists>q r'. ov_receive (Suc n) V (ov_id x) p r = Inr ([OvSend to q], r')
        \<and> (\<forall>y h. ov_id y = to \<longrightarrow> forwards y \<longrightarrow> callbacks (ov_rpc y) meth = Some (Some (SlotOther h)) \<longrightarrow>
            (\<exists>request. ov_receive (Suc (Suc n)) V (ov_id r) q y = Inr ([OvCall h request], y)
              \<and> sender_id (pk_from request) = Some (ov_id x) \<and> GetMethod V request = meth
              \<and> GetRequestData request = data))))"
proof -
  let ?inner = "put_vlist V (BuildNotification (current_id (ov_rpc x)) meth data)"
  from notify_forwarded [OF assms(1) _ _ assms(2,3), of meth data] assms(4) obtain p x' k where
    p: "ov_SendNotification V to meth data x = Inr ([OvSend (ov_id r) p], x')" "0 < sint k"
      "get_vlist V p = BuildNotification k ''RF::Data'' (QHash [(''from'', QStr (id_str V (ov_id x))),
        (''to'', QStr (id_str V to)), (''data'', QBytes ?inner)])"
    by (auto simp: ids_left_def)
  have at_relay: "ov_receive (Suc m) V (ov_id x) p r
      = (if to \<in> set (ov_cons r) then ForwardingSend V (id_str V (ov_id x)) to to ?inner r else Inr ([], r))" for m
    using receive_forwarded [OF assms(1) p(2,3) _ assms(7), of r m] assms(6,8) by (auto simp: forwards_def)
  from forward_packet [OF assms(1), of r "id_str V (ov_id x)" to to ?inner] assms(5) obtain q r' j where
    q: "ForwardingSend V (id_str V (ov_id x)) to to ?inner r = Inr ([OvSend to q], r')" "0 < sint j"
      "get_vlist V q = BuildNotification j ''RF::Data'' (QHash [(''from'', QStr (id_str V (ov_id x))),
        (''to'', QStr (id_str V to)), (''data'', QBytes ?inner)])"
    by (auto simp: ids_left_def)
  have "\<exists>request. ov_receive (Suc (Suc n)) V (ov_id r) q y = Inr ([OvCall h request], y)
      \<and> sender_id (pk_from request) = Some (ov_id x) \<and> GetMethod V request = meth \<and> GetRequestData request = data"
    if y: "ov_id y = to" "forwards y" "callbacks (ov_rpc y) meth = Some (Some (SlotOther h))" for y h
  proof -
    let ?request = "\<lparr>pk_from = GetSender y (ov_id x), pk_container = BuildNotification (current_id (ov_rpc x)) meth data\<rparr>"
    have "ov_receive (Suc (Suc n)) V (ov_id r) q y
        = ov_packet (Suc n) V (GetSender y (ov_id x)) (BuildNotification (current_id (ov_rpc x)) meth data) y"
      using receive_forwarded [OF assms(1) q(2,3) _ assms(7), of y "Suc n" "ov_id r"] y assms(1)
      by (simp add: forwards_def qvs_okD del: ov_packet.simps)
    also have "\<dots> = Inr ([OvCall h ?request], y)"
      using y(3) assms(1,4)
      by (simp add: ids_left_def HandleData_list_def mk_request_def padded_def HandleRequest_def GetId_packet_def
          GetMethod_def BuildNotification_def qvs_okD Let_def ov_output_def ov_then_def ov_skip_def)
    finally show ?thesis
      using assms(1) by (intro exI [of _ ?request])
        (simp add: GetSender_def GetMethod_def GetRequestData_def BuildNotification_def qvs_okD)
  qed
  moreover have "to \<in> set (ov_cons r) \<Longrightarrow> ov_receive (Suc n) V (ov_id x) p r = Inr ([OvSend to q], r')"
    and "to \<notin> set (ov_cons r) \<Longrightarrow> ov_receive (Suc n) V (ov_id x) p r = Inr ([], r)"
    by (simp_all only: at_relay q(1) if_True if_False)
  ultimately show ?thesis using p(1) by blast
qed

theorem forwarding_needs_relay_witness:
  "\<exists>p x'. ov_SendNotification demo_qvs 4 ''SessionData'' (QInt 5) (demo_overlay 3) = Inr ([OvSend 1 p], x')
    \<and> ov_receive (Suc 0) demo_qvs 3 p (demo_overlay 1) = Inr ([], demo_overlay 1)"
  using forwarding_needs_relay [OF demo_qvs_ok, of 4 "demo_overlay 3" "demo_overlay 1" "''SessionData''" "QInt 5" 0]
  by (auto simp: demo_overlay_def mk_overlay_def demo_cons_def ids_left_def forwards_def Register_def RpcHandler_def)

end
