(* ===== verification/TcpEdge.thy ===== *)
theory TcpEdge
  imports Serialization
begin

text \<open>
  Messages over a byte stream: \<^verbatim>\<open>src/src/Transports/TcpEdge.cpp\<close> with its base class in \<^verbatim>\<open>Edge.hpp\<close>.

  The socket is the list of bytes that have arrived and were not read, and the list of bytes written to
  it.  Stopping an edge aborts the socket, which discards what was not read.  The sink of the edge is a
  function from a message to the messages it sends back over the edge, and whether it stops the edge;
  what it is handed is collected in \<open>te_pushed\<close>.  The clock is a function that is read at growing indices
  within one call.
\<close>

section \<open>State\<close>

record tcp_edge =
  te_in :: bytes
  te_out :: bytes
  te_stopped :: bool
  te_connected :: bool
  te_delayed :: bool
  te_last_incoming :: int
  te_last_outgoing :: int
  te_pushed :: "bytes list"

type_synonym edge_sink = "bytes \<Rightarrow> bytes list \<times> bool"
type_synonym clock = "nat \<Rightarrow> int"

text \<open>The constructor does not set the time of the last packet sent: \<open>garbage\<close>.\<close>

definition mk_TcpEdge :: "int \<Rightarrow> int \<Rightarrow> tcp_edge" where
  "mk_TcpEdge now garbage =
     \<lparr>te_in = [], te_out = [], te_stopped = False, te_connected = True, te_delayed = False,
      te_last_incoming = now, te_last_outgoing = garbage, te_pushed = []\<rparr>"

definition PingPacket :: bytes where
  "PingPacket = replicate 16 0"

definition MaximumInterpacketDelay :: int where
  "MaximumInterpacketDelay = 15000"

section \<open>Sending and stopping\<close>

definition te_frame :: "bytes \<Rightarrow> bytes" where
  "te_frame data = WriteInt (of_nat (length data)) (replicate 4 0) 0 @ data @ replicate 4 0"

definition te_Send :: "int \<Rightarrow> bytes \<Rightarrow> tcp_edge \<Rightarrow> tcp_edge" where
  "te_Send now data e =
     (if te_stopped e then e else e\<lparr>te_out := te_out e @ te_frame data, te_last_outgoing := now\<rparr>)"

definition te_Stop :: "tcp_edge \<Rightarrow> tcp_edge" where
  "te_Stop e = (if te_stopped e then e else e\<lparr>te_stopped := True, te_in := []\<rparr>)"

section \<open>Receiving\<close>

definition te_PushData :: "edge_sink \<Rightarrow> clock \<Rightarrow> nat \<Rightarrow> bytes \<Rightarrow> tcp_edge \<Rightarrow> tcp_edge" where
  "te_PushData sink now k data e =
     (let e = e\<lparr>te_last_incoming := now k\<rparr>
      in if data = PingPacket then e
         else let e = (if now k - te_last_outgoing e > MaximumInterpacketDelay then te_Send (now (k + 1)) PingPacket e else e);
                  (replies, stop) = sink data;
                  e = fold (te_Send (now (k + 2))) replies (e\<lparr>te_pushed := te_pushed e @ [data]\<rparr>)
           in if stop then te_Stop e else e)"

datatype read_end = ReadAll | ReadDelayed | ReadAborted

text \<open>The loop of \<^verbatim>\<open>Read\<close>.  The sum of the announced length and 8 is an addition of \<^verbatim>\<open>int\<close>s.\<close>

function te_read_loop :: "edge_sink \<Rightarrow> clock \<Rightarrow> nat \<Rightarrow> tcp_edge \<Rightarrow> fault + (tcp_edge \<times> read_end)" where
  "te_read_loop sink now k e =
     (if length (te_in e) < 8 then Inr (e, ReadAll)
      else bindS (ReadInt (take 4 (te_in e)) 0) (\<lambda>len.
        if 2 ^ 31 \<le> sint len + 8 then Inl Overflow
        else if int (length (te_in e)) < sint len + 8 then Inr (e, ReadAll)
        else if sint len < 0 then Inr (te_Stop e, ReadAborted)
        else let n = nat (sint len); msg = take (n + 8) (te_in e); e' = e\<lparr>te_in := drop (n + 8) (te_in e)\<rparr>
          in bindS (ReadInt msg (n + 4)) (\<lambda>trailer.
               let e' = te_PushData sink now k (take n (drop 4 msg)) e'
               in if now (k + 3) - now 0 > 1000 then Inr (e', ReadDelayed)
                  else te_read_loop sink now (k + 4) e')))"
  by pat_completeness auto

lemma te_in_Send [simp]: "te_in (te_Send now data e) = te_in e"
  by (simp add: te_Send_def)

lemma te_in_fold_Send [simp]: "te_in (fold (te_Send now) ds e) = te_in e"
  by (induction ds arbitrary: e) simp_all

lemma te_in_PushData: "length (te_in (te_PushData sink now k data e)) \<le> length (te_in e)"
  by (auto simp: te_PushData_def Let_def te_Stop_def split: prod.split)

termination te_read_loop
proof (relation "measure (\<lambda>(sink, now, k, e). length (te_in e))", goal_cases)
  case (2 sink now k e len n msg e1 trailer e2)
  then show ?case using te_in_PushData [of sink now k "take n (drop 4 msg)" e1] by auto
qed simp

declare te_read_loop.simps [simp del]

definition te_Read :: "edge_sink \<Rightarrow> clock \<Rightarrow> tcp_edge \<Rightarrow> fault + tcp_edge" where
  "te_Read sink now e =
     bindS (te_read_loop sink now 1 e) (\<lambda>(e, end).
       Inr (case end of
              ReadAborted \<Rightarrow> e
            | ReadDelayed \<Rightarrow> e\<lparr>te_delayed := True, te_connected := False\<rparr>
            | ReadAll \<Rightarrow> e\<lparr>te_connected := True\<rparr>))"

text \<open>Bytes arrive, or the queued signal \<^verbatim>\<open>DelayedRead\<close> comes up.\<close>

datatype te_event = Arrives bytes clock | DelayedRead clock

fun te_step :: "edge_sink \<Rightarrow> te_event \<Rightarrow> tcp_edge \<Rightarrow> fault + tcp_edge" where
  "te_step sink (Arrives data now) e =
     (if te_stopped e then Inr e
      else let e = e\<lparr>te_in := te_in e @ data\<rparr> in if te_connected e then te_Read sink now e else Inr e)"
| "te_step sink (DelayedRead now) e =
     (if te_delayed e then te_Read sink now (e\<lparr>te_delayed := False\<rparr>) else Inr e)"

definition te_run :: "edge_sink \<Rightarrow> te_event list \<Rightarrow> tcp_edge \<Rightarrow> fault + tcp_edge" where
  "te_run sink = foldS (te_step sink)"

section \<open>Frames\<close>

lemma te_frame_conv: "te_frame data = int_bytes (of_nat (length data)) @ data @ replicate 4 0"
  by (simp add: te_frame_def WriteInt_conv)

lemma length_te_frame: "length (te_frame data) = length data + 8"
  by (simp add: te_frame_conv)

text \<open>A message that fits: its length and 8 is an \<^verbatim>\<open>int\<close>.\<close>

abbreviation framable :: "bytes \<Rightarrow> bool" where
  "framable m \<equiv> length m + 8 < 2 ^ 31"

lemma sint_frame_length: "framable m \<Longrightarrow> sint (of_nat (length m) :: int32) = int (length m)"
  by (simp add: signed_of_nat signed_take_bit_int_eq_self)

text \<open>The beginning of a stream of frames, once eight bytes of it are there.\<close>

lemma frame_head:
  assumes "s @ rest = te_frame m @ tail" and "8 \<le> length s"
  shows "ReadInt (take 4 s) 0 = Inr (of_nat (length m))"
proof -
  have "take 4 s = take 4 (s @ rest)" using assms(2) by simp
  also have "\<dots> = int_bytes (of_nat (length m))" by (simp only: assms(1)) (simp add: te_frame_conv)
  finally show ?thesis using ReadInt_int_bytes [of 0 "[]" "of_nat (length m)" "[]"] by simp
qed

lemma frame_whole:
  assumes "s @ rest = te_frame m @ tail" and "length m + 8 \<le> length s"
  shows "take (length m + 8) s = te_frame m \<and> drop (length m + 8) s @ rest = tail"
proof -
  have "take (length m + 8) (s @ rest) = te_frame m" "drop (length m + 8) (s @ rest) = tail"
    unfolding assms(1) by (simp_all add: length_te_frame)
  then show ?thesis using assms(2) by simp
qed

lemma frame_trailer: "ReadInt (te_frame m) (length m + 4) = Inr 0"
proof -
  have "replicate 4 0 = int_bytes 0" by (simp add: int_bytes_unfold numeral_eq_Suc)
  then show ?thesis
    using ReadInt_int_bytes [of "length m + 4" "int_bytes (of_nat (length m)) @ m" 0 "[]"] by (simp add: te_frame_conv)
qed

end
