(* ===== verification/TcpEdge_Props.thy ===== *)
theory TcpEdge_Props
  imports TcpEdge "HOL-Library.Sublist"
begin

text \<open>
  The messages an edge hands to its sink are the messages sent, however the bytes were cut into
  arrivals and whenever the reader had to interrupt itself; what the reader does with lengths that no
  sender writes.
\<close>

section \<open>Where the reader stands\<close>

text \<open>
  \<open>j\<close> of the messages \<open>ms\<close> were read, \<open>rest\<close> is the part of their bytes that has not arrived.
\<close>

abbreviation delivered :: "bytes list \<Rightarrow> bytes list" where
  "delivered ms \<equiv> filter (\<lambda>m. m \<noteq> PingPacket) ms"

definition tcp_at :: "bytes list \<Rightarrow> bytes \<Rightarrow> nat \<Rightarrow> tcp_edge \<Rightarrow> bool" where
  "tcp_at ms rest j e \<longleftrightarrow>
     j \<le> length ms \<and> \<not> te_stopped e \<and> te_in e @ rest = concat (map te_frame (drop j ms))
     \<and> te_pushed e = delivered (take j ms)"

text \<open>The next message has not arrived completely.\<close>

definition waits :: "bytes list \<Rightarrow> nat \<Rightarrow> tcp_edge \<Rightarrow> bool" where
  "waits ms j e \<longleftrightarrow> (j < length ms \<longrightarrow> length (te_in e) < length (ms ! j) + 8)"

definition never_stops :: "edge_sink \<Rightarrow> bool" where
  "never_stops sink \<longleftrightarrow> (\<forall>data. \<not> snd (sink data))"

lemma te_Send_frame [simp]:
  "te_stopped (te_Send now data e) = te_stopped e" "te_pushed (te_Send now data e) = te_pushed e"
  "te_connected (te_Send now data e) = te_connected e" "te_delayed (te_Send now data e) = te_delayed e"
  by (simp_all add: te_Send_def)

lemma te_fold_Send_frame [simp]:
  "te_stopped (fold (te_Send now) ds e) = te_stopped e" "te_pushed (fold (te_Send now) ds e) = te_pushed e"
  "te_connected (fold (te_Send now) ds e) = te_connected e" "te_delayed (fold (te_Send now) ds e) = te_delayed e"
  by (induction ds arbitrary: e) simp_all

lemma PushData_frame:
  assumes "never_stops sink"
  shows "te_in (te_PushData sink now k data e) = te_in e \<and> te_stopped (te_PushData sink now k data e) = te_stopped e
    \<and> te_connected (te_PushData sink now k data e) = te_connected e
    \<and> te_delayed (te_PushData sink now k data e) = te_delayed e
    \<and> te_pushed (te_PushData sink now k data e) = te_pushed e @ delivered [data]"
  using assms by (auto simp: te_PushData_def Let_def never_stops_def split: prod.split dest: spec [of _ data])

lemma read_loop_at:
  assumes "tcp_at ms rest j e" and "list_all framable ms" and "never_stops sink"
  shows "\<exists>e' end j'. te_read_loop sink now k e = Inr (e', end) \<and> tcp_at ms rest j' e'
    \<and> te_connected e' = te_connected e \<and> te_delayed e' = te_delayed e
    \<and> (end = ReadAll \<and> j \<le> j' \<and> waits ms j' e' \<or> end = ReadDelayed \<and> j < j')"
  using assms(1)
proof (induction "length ms - j" arbitrary: j k e)
  case (0 j k e)
  then have "te_in e = []" by (simp add: tcp_at_def)
  then have "te_read_loop sink now k e = Inr (e, ReadAll)" by (subst te_read_loop.simps) simp
  moreover have "waits ms j e" using 0 by (simp add: waits_def)
  ultimately show ?case using "0.prems" by blast
next
  case (Suc l)
  let ?m = "ms ! j"
  from Suc.hyps(2) have j: "j < length ms" by simp
  with assms(2) have m: "framable ?m" by (simp add: list_all_length)
  have whole: "te_in e @ rest = te_frame ?m @ concat (map te_frame (drop (Suc j) ms))"
    using Suc.prems j by (simp add: tcp_at_def Cons_nth_drop_Suc [symmetric])
  show ?case
  proof (cases "length (te_in e) < length ?m + 8")
    case True
    have "te_read_loop sink now k e = Inr (e, ReadAll)"
    proof (cases "length (te_in e) < 8")
      case False
      with frame_head [OF whole] m True show ?thesis
        by (subst te_read_loop.simps) (simp add: sint_frame_length)
    qed (subst te_read_loop.simps, simp)
    with True Suc.prems show ?thesis by (auto simp: waits_def)
  next
    case False
    then have long: "length ?m + 8 \<le> length (te_in e)" by simp
    note parts = frame_whole [OF whole long]
    let ?e = "te_PushData sink now k ?m (e\<lparr>te_in := drop (length ?m + 8) (te_in e)\<rparr>)"
    have "take (length ?m) (drop 4 (te_frame ?m)) = ?m" by (simp add: te_frame_conv)
    with frame_head [OF whole] long parts m frame_trailer [of ?m]
    have loop: "te_read_loop sink now k e
      = (if now (k + 3) - now 0 > 1000 then Inr (?e, ReadDelayed) else te_read_loop sink now (k + 4) ?e)"
      by (subst te_read_loop.simps) (simp add: sint_frame_length Let_def)
    have at: "tcp_at ms rest (Suc j) ?e"
      using Suc.prems j parts PushData_frame [OF assms(3)] by (auto simp: tcp_at_def take_Suc_conv_app_nth)
    have "l = length ms - Suc j" using Suc.hyps(2) by simp
    from Suc.hyps(1) [OF this at, of "k + 4"] at loop PushData_frame [OF assms(3)]
    show ?thesis by (cases "now (k + 3) - now 0 > 1000") (simp_all, force+)
  qed
qed


section \<open>Runs\<close>

definition tcp_inv :: "bytes list \<Rightarrow> bytes \<Rightarrow> nat \<Rightarrow> tcp_edge \<Rightarrow> bool" where
  "tcp_inv ms rest j e \<longleftrightarrow>
     tcp_at ms rest j e \<and> (te_connected e \<longleftrightarrow> \<not> te_delayed e) \<and> (\<not> te_delayed e \<longrightarrow> waits ms j e)"

lemma Read_at:
  assumes "tcp_at ms rest j e" and "\<not> te_delayed e" and "list_all framable ms" and "never_stops sink"
  shows "\<exists>e' j'. te_Read sink now e = Inr e' \<and> tcp_inv ms rest j' e' \<and> (te_delayed e' \<longrightarrow> j < j')"
proof -
  from read_loop_at [OF assms(1,3,4), of now 1] obtain e1 fin j' where
    loop: "te_read_loop sink now 1 e = Inr (e1, fin)" "tcp_at ms rest j' e1" "te_delayed e1 = te_delayed e"
      "fin = ReadAll \<and> j \<le> j' \<and> waits ms j' e1 \<or> fin = ReadDelayed \<and> j < j'" by blast
  from loop(2) have "tcp_at ms rest j' (e1\<lparr>te_connected := True\<rparr>)"
    "tcp_at ms rest j' (e1\<lparr>te_delayed := True, te_connected := False\<rparr>)" by (simp_all add: tcp_at_def)
  with loop assms(2) show ?thesis by (auto simp: te_Read_def tcp_inv_def waits_def)
qed

fun arrived :: "te_event list \<Rightarrow> bytes" where
  "arrived [] = []"
| "arrived (Arrives data now # evs) = data @ arrived evs"
| "arrived (DelayedRead now # evs) = arrived evs"

lemma step_inv:
  assumes "tcp_inv ms (arrived [ev] @ rest) j e" and "list_all framable ms" and "never_stops sink"
  shows "\<exists>e' j'. te_step sink ev e = Inr e' \<and> tcp_inv ms rest j' e'"
proof (cases ev)
  case (Arrives data now)
  let ?e = "e\<lparr>te_in := te_in e @ data\<rparr>"
  have at: "tcp_at ms rest j ?e" using assms(1) Arrives by (simp add: tcp_inv_def tcp_at_def)
  show ?thesis
  proof (cases "te_connected e")
    case True
    then have "\<not> te_delayed ?e" using assms(1) by (simp add: tcp_inv_def)
    from Read_at [OF at this assms(2,3), of now] True Arrives assms(1) show ?thesis
      by (auto simp: tcp_inv_def tcp_at_def)
  next
    case False
    with at assms(1) Arrives show ?thesis
      by (auto simp: tcp_inv_def tcp_at_def)
  qed
next
  case (DelayedRead now)
  show ?thesis
  proof (cases "te_delayed e")
    case True
    have "tcp_at ms rest j (e\<lparr>te_delayed := False\<rparr>)" using assms(1) DelayedRead by (simp add: tcp_inv_def tcp_at_def)
    from Read_at [OF this _ assms(2,3), of now] True DelayedRead show ?thesis by auto
  qed (use assms(1) DelayedRead in auto)
qed

lemma run_inv:
  assumes "tcp_inv ms (arrived evs @ rest) j e" and "list_all framable ms" and "never_stops sink"
  shows "\<exists>e' j'. te_run sink evs e = Inr e' \<and> tcp_inv ms rest j' e'"
  using assms(1)
proof (induction evs arbitrary: j e)
  case (Cons ev evs)
  then have "tcp_inv ms (arrived [ev] @ arrived evs @ rest) j e" by (cases ev) auto
  from step_inv [OF this assms(2,3)] obtain e1 j1
    where "te_step sink ev e = Inr e1" "tcp_inv ms (arrived evs @ rest) j1 e1" by blast
  with Cons.IH [of j1 e1] show ?case by (auto simp: te_run_def)
qed (auto simp: te_run_def)

lemma inv_start: "wire = concat (map te_frame ms) \<Longrightarrow> tcp_inv ms wire 0 (mk_TcpEdge now garbage)"
  by (auto simp: tcp_inv_def tcp_at_def waits_def mk_TcpEdge_def)

text \<open>When everything has arrived and no read is outstanding, everything was read.\<close>

lemma inv_finished:
  assumes "tcp_inv ms [] j e" and "\<not> te_delayed e"
  shows "te_pushed e = delivered ms \<and> te_in e = []"
proof -
  have "j = length ms"
  proof (rule ccontr)
    assume "j \<noteq> length ms"
    with assms(1) have j: "j < length ms" by (simp add: tcp_inv_def tcp_at_def)
    then have "te_in e = te_frame (ms ! j) @ concat (map te_frame (drop (Suc j) ms))"
      using assms(1) by (simp add: tcp_inv_def tcp_at_def Cons_nth_drop_Suc [symmetric])
    then have "length (ms ! j) + 8 \<le> length (te_in e)" by (simp add: length_te_frame)
    with assms j show False by (simp add: tcp_inv_def waits_def)
  qed
  with assms(1) show ?thesis by (simp add: tcp_inv_def tcp_at_def)
qed

text \<open>Every delayed read that is interrupted again has read a message.\<close>

lemma delayed_reads:
  assumes "tcp_inv ms [] j e" and "length ms < j + length clocks" and "list_all framable ms" and "never_stops sink"
  shows "\<exists>e' j'. te_run sink (map DelayedRead clocks) e = Inr e' \<and> tcp_inv ms [] j' e' \<and> \<not> te_delayed e'"
  using assms(1,2)
proof (induction clocks arbitrary: j e)
  case Nil
  then show ?case by (simp add: tcp_inv_def tcp_at_def)
next
  case (Cons now clocks)
  show ?case
  proof (cases "te_delayed e")
    case True
    have "tcp_at ms [] j (e\<lparr>te_delayed := False\<rparr>)" using Cons.prems by (simp add: tcp_inv_def tcp_at_def)
    from Read_at [OF this _ assms(3,4), of now] obtain e1 j1 where
      e1: "te_Read sink now (e\<lparr>te_delayed := False\<rparr>) = Inr e1" "tcp_inv ms [] j1 e1" "te_delayed e1 \<longrightarrow> j < j1" by auto
    show ?thesis
    proof (cases "te_delayed e1")
      case True
      with Cons.IH [OF e1(2)] e1 Cons.prems(2) \<open>te_delayed e\<close> show ?thesis by (auto simp: te_run_def)
    next
      case False
      have "foldS (te_step sink) (map DelayedRead cs) e1 = Inr e1" for cs
        using False by (induction cs) auto
      with e1 False \<open>te_delayed e\<close> show ?thesis by (auto simp: te_run_def)
    qed
  next
    case False
    have "foldS (te_step sink) (map DelayedRead cs) e = Inr e" for cs
      using False by (induction cs) auto
    from this [of "now # clocks"] False Cons.prems show ?thesis by (auto simp: te_run_def)
  qed
qed

section \<open>Properties\<close>

text \<open>
  C18.  However the bytes of a sequence of messages are cut into arrivals and whatever the clock does,
  the reader hands over a prefix of the messages, in order and unchanged; only messages that look like
  a ping are left out.  When all bytes have arrived, as many delayed reads as there are messages, and
  one, bring all of them.
\<close>

theorem tcp_delivers_in_order:
  assumes "list_all framable ms" and "never_stops sink" and "arrived evs @ rest = concat (map te_frame ms)"
  shows "\<exists>e. te_run sink evs (mk_TcpEdge now garbage) = Inr e \<and> prefix (te_pushed e) (delivered ms)
    \<and> (rest = [] \<and> \<not> te_delayed e \<longrightarrow> te_pushed e = delivered ms \<and> te_in e = [])
    \<and> (rest = [] \<and> length ms < length clocks \<longrightarrow> (\<exists>e'.
         te_run sink (evs @ map DelayedRead clocks) (mk_TcpEdge now garbage) = Inr e' \<and> te_pushed e' = delivered ms))"
proof -
  have "tcp_inv ms (arrived evs @ rest) 0 (mk_TcpEdge now garbage)" using assms(3) by (rule inv_start)
  from run_inv [OF this assms(1,2)] obtain e j where
    run: "te_run sink evs (mk_TcpEdge now garbage) = Inr e" and inv: "tcp_inv ms rest j e" by blast
  have "delivered ms = delivered (take j ms) @ delivered (drop j ms)"
    by (simp flip: filter_append)
  then have "prefix (te_pushed e) (delivered ms)"
    using inv by (simp add: tcp_inv_def tcp_at_def)
  moreover have "\<exists>e'. te_run sink (evs @ map DelayedRead clocks) (mk_TcpEdge now garbage) = Inr e' \<and> te_pushed e' = delivered ms"
    if "rest = []" "length ms < length clocks"
  proof -
    have "tcp_inv ms [] j e" "length ms < j + length clocks" using inv that by auto
    from delayed_reads [OF this assms(1,2)] run inv_finished show ?thesis
      by (fastforce simp: te_run_def fault_simps)
  qed
  ultimately show ?thesis using run inv inv_finished by blast
qed


lemma short_no_ping: "length m < 16 \<Longrightarrow> m \<noteq> PingPacket"
  by (auto simp: PingPacket_def)

definition demo_sink :: edge_sink where
  "demo_sink data = ([[9]], False)"

theorem tcp_delivers_in_order_witness:
  "\<exists>e. te_run demo_sink ([Arrives (te_frame [1, 2] @ take 5 (te_frame [])) (\<lambda>k. 2000 * int k),
       Arrives (drop 5 (te_frame []) @ te_frame [3]) (\<lambda>k. 0)] @ map DelayedRead [\<lambda>k. 0, \<lambda>k. 0, \<lambda>k. 0, \<lambda>k. 0])
     (mk_TcpEdge 0 0) = Inr e \<and> te_pushed e = [[1, 2], [], [3]]"
proof -
  let ?evs = "[Arrives (te_frame [1, 2] @ take 5 (te_frame [])) (\<lambda>k. 2000 * int k),
    Arrives (drop 5 (te_frame []) @ te_frame [3]) (\<lambda>k. 0)]"
  have "take 5 (te_frame []) @ drop 5 (te_frame []) @ te_frame [3] = te_frame [] @ te_frame [3]"
    by (simp only: append_assoc [symmetric] append_take_drop_id)
  then have "arrived ?evs @ [] = concat (map te_frame [[1, 2], [], [3]])" by simp
  moreover have "never_stops demo_sink" by (simp add: never_stops_def demo_sink_def)
  moreover have "delivered [[1, 2], [], [3]] = [[1, 2], [], [3]]" by (simp add: short_no_ping)
  ultimately show ?thesis
    using tcp_delivers_in_order [of "[[1, 2], [], [3]]" demo_sink ?evs "[]" 0 0 "[\<lambda>k. 0, \<lambda>k. 0, \<lambda>k. 0, \<lambda>k. 0]"]
    by auto
qed

text \<open>
  C40.  Eight bytes are enough to leave the defined behaviour: a length announced as \<^verbatim>\<open>INT_MAX\<close> or up to
  seven less overflows the addition of the reader; a negative length only stops the edge.
\<close>

theorem announced_length_overflows:
  assumes "8 \<le> length (te_in e)" and "take 4 (te_in e) = int_bytes len" and "sint len < 0 \<or> 2 ^ 31 - 8 \<le> sint len"
  shows "te_read_loop sink now k e = (if sint len < 0 then Inr (te_Stop e, ReadAborted) else Inl Overflow)"
proof -
  have "ReadInt (take 4 (te_in e)) 0 = Inr len"
    using ReadInt_int_bytes [of 0 "[]" len "[]"] assms(2) by simp
  with assms(1,3) show ?thesis by (subst te_read_loop.simps) auto
qed

theorem announced_length_overflows_witness:
  "te_read_loop demo_sink (\<lambda>k. 0) 1 ((mk_TcpEdge 0 0)\<lparr>te_in := int_bytes 0x7FFFFFFF @ [0, 0, 0, 0]\<rparr>) = Inl Overflow"
  using announced_length_overflows [of "(mk_TcpEdge 0 0)\<lparr>te_in := int_bytes 0x7FFFFFFF @ [0, 0, 0, 0]\<rparr>" "0x7FFFFFFF"
      demo_sink "\<lambda>k. 0" 1] by simp

end
