(* ===== verification/Connections.thy ===== *)
theory Connections
  imports Rpc "HOL-Library.AList"
begin

text \<open>
  The connections of a node: \<^verbatim>\<open>src/src/Connections/ConnectionTable.cpp\<close>, \<^verbatim>\<open>ConnectionManager.cpp\<close> and
  \<^verbatim>\<open>Connection.cpp\<close>.

  An edge is a number, with its attributes in \<open>cm_store\<close>; a connection is an edge with the id of the
  other end.  \<open>ct_ids\<close> is an association list, in the order in which the loops visit it.  Stopping an
  edge runs the slots connected to its signal inside the call, in the order in which they were
  connected; these can disconnect connections and stop further edges, so \<open>edge_Stop\<close> counts the nested
  calls with fuel.  What a method sends and the signals it emits to other objects are its outputs.
\<close>

section \<open>State\<close>

record edge =
  ed_outbound :: bool
  ed_stopped :: bool
  ed_remote :: nat
  ed_persistent :: nat

record connection =
  con_edge :: nat
  con_remote :: peer

record con_manager =
  cm_id :: peer
  cm_stopped :: bool
  cm_store :: "nat \<rightharpoonup> edge"
  ct_ids :: "(peer \<times> connection) list"
  ct_cons :: "nat \<rightharpoonup> connection"
  ct_edges :: "nat list"
  cm_active :: "nat set"
  cm_outstanding :: "nat set"

datatype cm_msg =
  MsgInquire bytes nat int | MsgInquired bytes | MsgFailed error_type string
| MsgConnect bytes | MsgClose | MsgDisconnect | MsgPing | MsgPong qvariant

datatype cm_out =
  CmSend nat cm_msg | SigNewConnection connection | SigAttemptFailure nat string
| SigConDisconnected connection | SigDisconnected | CreateEdgeTo nat

type_synonym cm_step = "con_manager \<Rightarrow> fault + (cm_out list \<times> con_manager)"

text \<open>Who a message comes from: an edge without a connection, a connection, or a forwarding sender.\<close>

datatype cm_from = FromEdge nat | FromConnection connection | FromForwarder peer

definition VERSION :: int where
  "VERSION = 3"

definition cm_then :: "cm_step \<Rightarrow> cm_step \<Rightarrow> cm_step" where
  "cm_then f g cm = bindS (f cm) (\<lambda>(o1, cm). bindS (g cm) (\<lambda>(o2, cm). Inr (o1 @ o2, cm)))"

definition cm_emit :: "cm_out list \<Rightarrow> cm_step" where
  "cm_emit outs cm = Inr (outs, cm)"

fun cm_each :: "('x \<Rightarrow> cm_step) \<Rightarrow> 'x list \<Rightarrow> cm_step" where
  "cm_each f [] = cm_emit []"
| "cm_each f (x # xs) = cm_then (f x) (cm_each f xs)"

section \<open>The connection table\<close>

definition AddEdge :: "nat \<Rightarrow> con_manager \<Rightarrow> con_manager" where
  "AddEdge e cm = cm\<lparr>ct_edges := (if e \<in> set (ct_edges cm) then ct_edges cm else ct_edges cm @ [e])\<rparr>"

definition RemoveEdge :: "nat \<Rightarrow> con_manager \<Rightarrow> bool \<times> con_manager" where
  "RemoveEdge e cm = (e \<in> set (ct_edges cm), cm\<lparr>ct_edges := removeAll e (ct_edges cm)\<rparr>)"

definition GetConnection :: "con_manager \<Rightarrow> peer \<Rightarrow> connection option" where
  "GetConnection cm i = map_of (ct_ids cm) i"

definition GetConnectionOf :: "con_manager \<Rightarrow> nat \<Rightarrow> connection option" where
  "GetConnectionOf cm e = ct_cons cm e"

definition AddConnection :: "connection \<Rightarrow> con_manager \<Rightarrow> con_manager" where
  "AddConnection con cm =
     cm\<lparr>ct_ids := AList.update (con_remote con) con (ct_ids cm), ct_cons := (ct_cons cm)(con_edge con \<mapsto> con)\<rparr>"

definition drop_id :: "connection \<Rightarrow> con_manager \<Rightarrow> con_manager" where
  "drop_id con cm = cm\<lparr>ct_ids := AList.delete (con_remote con) (ct_ids cm)\<rparr>"

definition holds_id :: "con_manager \<Rightarrow> connection \<Rightarrow> bool" where
  "holds_id cm con \<longleftrightarrow> (\<exists>con'. map_of (ct_ids cm) (con_remote con) = Some con' \<and> con_edge con' = con_edge con)"

definition ct_Disconnect :: "connection \<Rightarrow> con_manager \<Rightarrow> bool \<times> con_manager" where
  "ct_Disconnect con cm = (if holds_id cm con then (True, drop_id con cm) else (False, cm))"

definition RemoveConnection :: "connection \<Rightarrow> con_manager \<Rightarrow> bool \<times> con_manager" where
  "RemoveConnection con cm =
     (let cm = (if holds_id cm con then drop_id con cm else cm)
      in (ct_cons cm (con_edge con) \<noteq> None, cm\<lparr>ct_cons := (ct_cons cm)(con_edge con := None)\<rparr>))"

section \<open>Stopping edges\<close>

text \<open>\<open>stop\<close> is the stopping of an edge.\<close>

definition HandleDisconnect :: "(nat \<Rightarrow> cm_step) \<Rightarrow> connection \<Rightarrow> cm_step" where
  "HandleDisconnect stop con cm =
     (let cm = snd (ct_Disconnect con cm)
      in case cm_store cm (con_edge con) of
           None \<Rightarrow> Inl NullPointer
         | Some ed \<Rightarrow>
             if ed_stopped ed then Inr ([], cm)
             else cm_then (cm_emit (if cm_id cm \<noteq> con_remote con then [CmSend (con_edge con) MsgDisconnect] else []))
                    (stop (con_edge con)) cm)"

definition HandleEdgeClose :: "(nat \<Rightarrow> cm_step) \<Rightarrow> nat \<Rightarrow> cm_step" where
  "HandleEdgeClose stop e cm =
     (case cm_store cm e of
        None \<Rightarrow> Inl NullPointer
      | Some ed \<Rightarrow>
          let cm = snd (RemoveEdge e (cm\<lparr>cm_active := cm_active cm - {ed_remote ed}\<rparr>))
          in cm_then
               (\<lambda>cm. case GetConnectionOf cm e of
                  None \<Rightarrow> Inr ([], cm)
                | Some con \<Rightarrow>
                    (case GetConnection cm (con_remote con) of
                       None \<Rightarrow> Inr ([], cm)
                     | Some con' \<Rightarrow> HandleDisconnect stop con' cm))
               (\<lambda>cm. Inr (if cm_stopped cm \<and> ct_edges cm = [] then [SigDisconnected] else [], cm)) cm)"

text \<open>
  \<^verbatim>\<open>Connection::HandleEdgeClose\<close> emits \<^verbatim>\<open>Disconnected\<close>, which the manager handles first.
\<close>

definition ConnectionEdgeClose :: "nat \<Rightarrow> cm_step" where
  "ConnectionEdgeClose e cm =
     (case ct_cons cm e of
        None \<Rightarrow> Inr ([], cm)
      | Some con \<Rightarrow> Inr ([SigConDisconnected con], snd (RemoveConnection con cm)))"

text \<open>The loopback edge has the number 0; its connection was there before the manager.\<close>

definition StoppedSignal :: "(nat \<Rightarrow> cm_step) \<Rightarrow> nat \<Rightarrow> cm_step" where
  "StoppedSignal stop e =
     (if e = 0 then cm_then (ConnectionEdgeClose e) (HandleEdgeClose stop e)
      else cm_then (HandleEdgeClose stop e) (ConnectionEdgeClose e))"

primrec edge_Stop :: "nat \<Rightarrow> nat \<Rightarrow> cm_step" where
  "edge_Stop 0 e cm = Inl Loops"
| "edge_Stop (Suc n) e cm =
     (case cm_store cm e of
        None \<Rightarrow> Inl NullPointer
      | Some ed \<Rightarrow>
          if ed_stopped ed then Inr ([], cm)
          else StoppedSignal (edge_Stop n) e (cm\<lparr>cm_store := (cm_store cm)(e \<mapsto> ed\<lparr>ed_stopped := True\<rparr>)\<rparr>))"

definition con_Disconnect :: "nat \<Rightarrow> connection \<Rightarrow> cm_step" where
  "con_Disconnect n = HandleDisconnect (edge_Stop n)"

section \<open>The manager\<close>

definition mk_manager :: "peer \<Rightarrow> con_manager" where
  "mk_manager local_id =
     AddConnection \<lparr>con_edge = 0, con_remote = local_id\<rparr>
       (AddEdge 0 \<lparr>cm_id = local_id, cm_stopped = False,
          cm_store = [0 \<mapsto> \<lparr>ed_outbound = True, ed_stopped = False, ed_remote = 0, ed_persistent = 0\<rparr>],
          ct_ids = [], ct_cons = Map.empty, ct_edges = [], cm_active = {}, cm_outstanding = {}\<rparr>)"

text \<open>\<open>can\<close>: the edge factory has a listener for the kind of the address.\<close>

definition ConnectTo :: "(nat \<Rightarrow> bool) \<Rightarrow> nat \<Rightarrow> cm_step" where
  "ConnectTo can addr cm =
     (if cm_stopped cm then Inr ([], cm)
      else if addr \<in> cm_active cm then Inr ([], cm)
      else let cm = cm\<lparr>cm_active := insert addr (cm_active cm), cm_outstanding := insert addr (cm_outstanding cm)\<rparr>
        in if can addr then Inr ([CreateEdgeTo addr], cm)
           else Inr ([SigAttemptFailure addr ''No EdgeListener to handle request''],
                  cm\<lparr>cm_outstanding := cm_outstanding cm - {addr}, cm_active := cm_active cm - {addr}\<rparr>))"

definition HandleNewEdge :: "qvs \<Rightarrow> nat \<Rightarrow> nat \<Rightarrow> edge \<Rightarrow> cm_step" where
  "HandleNewEdge V listen e ed cm =
     (let cm = AddEdge e (cm\<lparr>cm_store := (cm_store cm)(e \<mapsto> ed)\<rparr>)
      in if \<not> ed_outbound ed then Inr ([], cm)
         else Inr ([CmSend e (MsgInquire (id_bytes V (cm_id cm)) listen VERSION)],
                cm\<lparr>cm_outstanding := cm_outstanding cm - {ed_remote ed}\<rparr>))"

definition HandleEdgeCreationFailure :: "nat \<Rightarrow> string \<Rightarrow> cm_step" where
  "HandleEdgeCreationFailure addr reason cm =
     Inr ([SigAttemptFailure addr reason],
       cm\<lparr>cm_active := cm_active cm - {addr}, cm_outstanding := cm_outstanding cm - {addr}\<rparr>)"

definition CreateConnection :: "nat \<Rightarrow> peer \<Rightarrow> cm_step" where
  "CreateConnection e rem_id cm =
     (let con = \<lparr>con_edge = e, con_remote = rem_id\<rparr> in Inr ([SigNewConnection con], AddConnection con cm))"

definition BindEdge :: "nat \<Rightarrow> qvs \<Rightarrow> nat \<Rightarrow> peer \<Rightarrow> cm_step" where
  "BindEdge n V e rem_id cm =
     (if GetConnection cm rem_id \<noteq> None
      then cm_then (cm_emit [CmSend e MsgClose])
             (cm_then (edge_Stop n e)
               (\<lambda>cm. Inr ([SigAttemptFailure (case cm_store cm e of None \<Rightarrow> 0 | Some ed \<Rightarrow> ed_remote ed) ''Duplicate connection''], cm))) cm
      else cm_then (cm_emit [CmSend e (MsgConnect (id_bytes V (cm_id cm)))]) (CreateConnection e rem_id) cm)"

definition refuse :: "cm_from \<Rightarrow> error_type \<Rightarrow> string \<Rightarrow> cm_step" where
  "refuse from err reason cm =
     Inr (case from of FromEdge e \<Rightarrow> [CmSend e (MsgFailed err reason)]
          | FromConnection con \<Rightarrow> [CmSend (con_edge con) (MsgFailed err reason)] | FromForwarder p \<Rightarrow> [], cm)"

definition Inquire :: "nat \<Rightarrow> qvs \<Rightarrow> cm_from \<Rightarrow> bytes \<Rightarrow> nat \<Rightarrow> int \<Rightarrow> cm_step" where
  "Inquire n V from brem_id persistent version cm =
     (case from of
        FromEdge e \<Rightarrow>
          (case cm_store cm e of
             None \<Rightarrow> Inl NullPointer
           | Some ed \<Rightarrow>
               if ed_outbound ed then refuse from InvalidMessage ''Received on outbound edge'' cm
               else if version \<noteq> VERSION then refuse from InvalidInput ''Invalid version'' cm
               else if brem_id = [] then refuse from InvalidInput ''No remote id'' cm
               else let rem_id = bytes_id V brem_id;
                        cm = cm\<lparr>cm_store := (cm_store cm)(e \<mapsto> ed\<lparr>ed_persistent := persistent\<rparr>)\<rparr>
                 in cm_then (cm_emit [CmSend e (MsgInquired (id_bytes V (cm_id cm)))])
                      (if cm_id cm < rem_id then BindEdge n V e rem_id
                       else if cm_id cm = rem_id then edge_Stop n e else cm_emit []) cm)
      | _ \<Rightarrow> refuse from InvalidMessage ''Received on a non-Edge'' cm)"

text \<open>The response to an inquiry: \<open>bdata\<close> is its data, empty if it was refused.\<close>

definition Inquired :: "nat \<Rightarrow> qvs \<Rightarrow> cm_from \<Rightarrow> bytes \<Rightarrow> cm_step" where
  "Inquired n V from bdata cm =
     (case from of
        FromEdge e \<Rightarrow>
          (case cm_store cm e of
             None \<Rightarrow> Inl NullPointer
           | Some ed \<Rightarrow>
               if \<not> ed_outbound ed then Inr ([], cm)
               else if bdata = [] then Inr ([], cm)
               else let rem_id = bytes_id V bdata
                 in if cm_id cm < rem_id then BindEdge n V e rem_id cm
                    else if rem_id = cm_id cm
                    then cm_then (edge_Stop n e) (cm_emit [SigAttemptFailure (ed_remote ed) ''Attempting to connect to ourself'']) cm
                    else Inr ([], cm))
      | _ \<Rightarrow> Inr ([], cm))"

definition Connect :: "nat \<Rightarrow> qvs \<Rightarrow> cm_from \<Rightarrow> bytes \<Rightarrow> cm_step" where
  "Connect n V from brem_id cm =
     (case from of
        FromEdge e \<Rightarrow>
          if brem_id = [] then Inr ([], cm)
          else let rem_id = bytes_id V brem_id
            in if cm_id cm < rem_id then Inr ([], cm)
               else cm_then
                      (case GetConnection cm rem_id of None \<Rightarrow> cm_emit [] | Some old_con \<Rightarrow> con_Disconnect n old_con)
                      (CreateConnection e rem_id) cm
      | _ \<Rightarrow> Inr ([], cm))"

definition Close :: "nat \<Rightarrow> cm_from \<Rightarrow> cm_step" where
  "Close n from cm = (case from of FromEdge e \<Rightarrow> edge_Stop n e cm | _ \<Rightarrow> Inr ([], cm))"

definition Disconnect :: "nat \<Rightarrow> cm_from \<Rightarrow> cm_step" where
  "Disconnect n from cm =
     (case from of
        FromConnection con \<Rightarrow> edge_Stop n (con_edge con) (snd (ct_Disconnect con cm))
      | _ \<Rightarrow> Inr ([], cm))"

definition HandlePingRequest :: "cm_from \<Rightarrow> qvariant \<Rightarrow> cm_step" where
  "HandlePingRequest from data cm =
     Inr (case from of FromEdge e \<Rightarrow> [CmSend e (MsgPong data)]
          | FromConnection con \<Rightarrow> [CmSend (con_edge con) (MsgPong data)] | FromForwarder p \<Rightarrow> [], cm)"

definition EdgeCheckTimeout :: int where "EdgeCheckTimeout = 30000"
definition EdgeCloseTimeout :: int where "EdgeCloseTimeout = 60000"

text \<open>\<open>heard e\<close>: when the last packet came over the edge.\<close>

definition check_edge :: "nat \<Rightarrow> int \<Rightarrow> (nat \<Rightarrow> int) \<Rightarrow> nat \<Rightarrow> cm_step" where
  "check_edge n now heard e cm =
     (if now - EdgeCheckTimeout < heard e then Inr ([], cm)
      else if heard e < now - EdgeCloseTimeout
      then (case GetConnectionOf cm e of
              Some con \<Rightarrow> if con_remote con = cm_id cm then Inr ([], cm) else edge_Stop n e cm
            | None \<Rightarrow> edge_Stop n e cm)
      else Inr ([CmSend e MsgPing], cm))"

definition EdgeCheck :: "nat \<Rightarrow> int \<Rightarrow> (nat \<Rightarrow> int) \<Rightarrow> cm_step" where
  "EdgeCheck n now heard cm = cm_each (check_edge n now heard) (ct_edges cm) cm"

definition OnStop :: "nat \<Rightarrow> cm_step" where
  "OnStop n cm =
     (let emit_dis = (ct_edges cm = [])
      in cm_then (cm_each (con_Disconnect n) (map snd (ct_ids cm)))
           (\<lambda>cm. cm_then (cm_each (edge_Stop n) (ct_edges cm))
             (cm_emit (if emit_dis then [SigDisconnected] else [])) cm) cm)"

text \<open>\<^verbatim>\<open>StartStop::Stop\<close>.\<close>

definition StopManager :: "nat \<Rightarrow> cm_step" where
  "StopManager n cm = (if cm_stopped cm then Inr ([], cm) else OnStop n (cm\<lparr>cm_stopped := True\<rparr>))"

end
