(* ===== verification/Connections_Inv.thy ===== *)
theory Connections_Inv
  imports Connections
begin

text \<open>
  The invariant of the connection table, and what stopping an edge does to it: \<open>shut e\<close> is the state
  after everything that the signal of the edge sets off.
\<close>

section \<open>The invariant\<close>

text \<open>
  The two dictionaries describe the same connections, each on a live edge; the live edges are exactly
  the edges of the table.
\<close>

definition live :: "con_manager \<Rightarrow> nat \<Rightarrow> bool" where
  "live cm e \<longleftrightarrow> (\<exists>ed. cm_store cm e = Some ed \<and> \<not> ed_stopped ed)"

definition cm_inv :: "con_manager \<Rightarrow> bool" where
  "cm_inv cm \<longleftrightarrow>
     distinct (map fst (ct_ids cm)) \<and> distinct (ct_edges cm)
     \<and> (\<forall>e con. ct_cons cm e = Some con \<longrightarrow> con_edge con = e \<and> map_of (ct_ids cm) (con_remote con) = Some con)
     \<and> (\<forall>i con. map_of (ct_ids cm) i = Some con \<longrightarrow>
          con_remote con = i \<and> ct_cons cm (con_edge con) = Some con \<and> con_edge con \<in> set (ct_edges cm))
     \<and> (\<forall>e. e \<in> set (ct_edges cm) \<longleftrightarrow> live cm e)"

lemma cm_invD:
  assumes "cm_inv cm"
  shows "distinct (map fst (ct_ids cm))" and "distinct (ct_edges cm)"
    and "ct_cons cm e = Some con \<Longrightarrow> con_edge con = e"
    and "ct_cons cm e = Some con \<Longrightarrow> map_of (ct_ids cm) (con_remote con) = Some con"
    and "map_of (ct_ids cm) i = Some con \<Longrightarrow> con_remote con = i"
    and "map_of (ct_ids cm) i = Some con \<Longrightarrow> ct_cons cm (con_edge con) = Some con"
    and "map_of (ct_ids cm) i = Some con \<Longrightarrow> con_edge con \<in> set (ct_edges cm)"
    and "e \<in> set (ct_edges cm) \<longleftrightarrow> live cm e"
  using assms by (auto simp: cm_inv_def)

lemma map_of_delete: "map_of (AList.delete k al) = (map_of al)(k := None)"
  by (rule delete_conv')

lemma distinct_delete [simp]: "distinct (map fst al) \<Longrightarrow> distinct (map fst (AList.delete k al))"
  by (rule distinct_delete)

section \<open>Stopping a live edge\<close>

definition drop_con :: "nat \<Rightarrow> con_manager \<Rightarrow> con_manager" where
  "drop_con e cm =
     (case ct_cons cm e of None \<Rightarrow> cm
      | Some con \<Rightarrow> cm\<lparr>ct_ids := AList.delete (con_remote con) (ct_ids cm), ct_cons := (ct_cons cm)(e := None)\<rparr>)"

definition shut :: "nat \<Rightarrow> con_manager \<Rightarrow> con_manager" where
  "shut e cm =
     (case cm_store cm e of None \<Rightarrow> cm
      | Some ed \<Rightarrow> drop_con e (cm\<lparr>cm_store := (cm_store cm)(e \<mapsto> ed\<lparr>ed_stopped := True\<rparr>),
            ct_edges := removeAll e (ct_edges cm), cm_active := cm_active cm - {ed_remote ed}\<rparr>))"

definition shut_signals :: "nat \<Rightarrow> con_manager \<Rightarrow> cm_out list" where
  "shut_signals e cm =
     (let last_one = (if cm_stopped cm \<and> removeAll e (ct_edges cm) = [] then [SigDisconnected] else []);
          lost = (case ct_cons cm e of None \<Rightarrow> [] | Some con \<Rightarrow> [SigConDisconnected con])
      in if e = 0 then lost @ last_one else last_one @ lost)"

lemma edge_Stop_stopped: "cm_store cm e = Some ed \<Longrightarrow> ed_stopped ed \<Longrightarrow> edge_Stop (Suc n) e cm = Inr ([], cm)"
  by simp

lemmas stop_simps = StoppedSignal_def cm_then_def HandleEdgeClose_def ConnectionEdgeClose_def RemoveEdge_def
  GetConnectionOf_def GetConnection_def HandleDisconnect_def ct_Disconnect_def holds_id_def drop_id_def
  RemoveConnection_def map_of_delete shut_def drop_con_def shut_signals_def Let_def

text \<open>The edge is live, and its connection, if it has one, is the one of its id, or its id is free.\<close>

lemma edge_Stop_shut:
  assumes "cm_store cm e = Some ed" and "\<not> ed_stopped ed"
    and "\<And>con. ct_cons cm e = Some con \<Longrightarrow> con_edge con = e
           \<and> (map_of (ct_ids cm) (con_remote con) = Some con \<or> con_remote con \<notin> set (map fst (ct_ids cm)))"
  shows "edge_Stop (Suc n) e cm = Inr (shut_signals e cm, shut e cm)"
proof (cases "ct_cons cm e")
  case None
  with assms show ?thesis
    by (cases "e = 0") (simp_all add: stop_simps)
next
  case (Some con)
  note con = assms(3) [OF Some]
  show ?thesis
  proof (cases "map_of (ct_ids cm) (con_remote con) = Some con")
    case True
    with assms Some con show ?thesis
      by (cases "e = 0") (simp_all add: stop_simps)
  next
    case False
    with con have "con_remote con \<notin> set (map fst (ct_ids cm))" by blast
    then have "map_of (ct_ids cm) (con_remote con) = None" and "AList.delete (con_remote con) (ct_ids cm) = ct_ids cm"
      by (simp_all add: map_of_eq_None_iff)
    with assms Some con show ?thesis
      by (cases "e = 0") (simp_all add: stop_simps)
  qed
qed


section \<open>What the shutting of an edge keeps\<close>

lemma shut_fields [simp]:
  "cm_id (shut e cm) = cm_id cm" "cm_stopped (shut e cm) = cm_stopped cm"
  "cm_outstanding (shut e cm) = cm_outstanding cm" "dom (cm_store (shut e cm)) = dom (cm_store cm)"
  by (auto simp: shut_def drop_con_def Let_def split: option.split)

lemma shut_edges: "cm_store cm e = Some ed \<Longrightarrow> ct_edges (shut e cm) = removeAll e (ct_edges cm)"
  by (simp add: shut_def drop_con_def split: option.split)

lemma shut_cons: "cm_store cm e = Some ed \<Longrightarrow> ct_cons (shut e cm) = (ct_cons cm)(e := None)"
  by (auto simp: shut_def drop_con_def split: option.split)

lemma shut_ids:
  assumes "cm_inv cm" and "cm_store cm e = Some ed"
  shows "map_of (ct_ids (shut e cm)) i =
    (case map_of (ct_ids cm) i of Some con \<Rightarrow> (if con_edge con = e then None else Some con) | None \<Rightarrow> None)"
proof (cases "ct_cons cm e")
  case None
  then have "map_of (ct_ids cm) i = Some con \<Longrightarrow> con_edge con \<noteq> e" for con
    using cm_invD(6) [OF assms(1), of i con] by auto
  then show ?thesis using None assms(2) by (auto simp: shut_def drop_con_def split: option.split)
next
  case (Some con)
  have "con_edge con' = e \<longleftrightarrow> i = con_remote con" if "map_of (ct_ids cm) i = Some con'" for con'
    using cm_invD(3,4) [OF assms(1) Some] cm_invD(5,6) [OF assms(1) that] that Some by (metis option.inject)
  then show ?thesis using Some assms(2) cm_invD(3,4) [OF assms(1) Some]
    by (auto simp: shut_def drop_con_def map_of_delete split: option.split)
qed

lemma live_shut: "live (shut e cm) e' \<longleftrightarrow> live cm e' \<and> e' \<noteq> e"
  by (auto simp: live_def shut_def drop_con_def split: option.split)

lemma shut_inv:
  assumes "cm_inv cm" and "cm_store cm e = Some ed"
  shows "cm_inv (shut e cm)"
  unfolding cm_inv_def
proof (intro conjI allI impI)
  show "distinct (map fst (ct_ids (shut e cm)))" using cm_invD(1) [OF assms(1)] assms(2)
    by (auto simp: shut_def drop_con_def split: option.split)
  show "distinct (ct_edges (shut e cm))" using cm_invD(2) [OF assms(1)] by (simp add: shut_edges [OF assms(2)] distinct_removeAll)
next
  fix e' con assume *: "ct_cons (shut e cm) e' = Some con"
  then have c: "ct_cons cm e' = Some con" "e' \<noteq> e" by (auto simp: shut_cons [OF assms(2)] split: if_splits)
  then show "con_edge con = e'" using cm_invD(3) [OF assms(1)] by blast
  with c show "map_of (ct_ids (shut e cm)) (con_remote con) = Some con"
    using cm_invD(4) [OF assms(1) c(1)] by (simp add: shut_ids [OF assms])
next
  fix i con assume "map_of (ct_ids (shut e cm)) i = Some con"
  then have c: "map_of (ct_ids cm) i = Some con" "con_edge con \<noteq> e"
    by (auto simp: shut_ids [OF assms] split: option.splits if_splits)
  show "con_remote con = i" "ct_cons (shut e cm) (con_edge con) = Some con" "con_edge con \<in> set (ct_edges (shut e cm))"
    using cm_invD(5-7) [OF assms(1) c(1)] c(2) by (simp_all add: shut_cons [OF assms(2)] shut_edges [OF assms(2)])
next
  fix e' show "(e' \<in> set (ct_edges (shut e cm))) = live (shut e cm) e'"
    using cm_invD(8) [OF assms(1)] by (auto simp: live_shut shut_edges [OF assms(2)])
qed

section \<open>Steps that only close\<close>

text \<open>
  \<open>closes outs cm cm'\<close>: from \<open>cm\<close> to \<open>cm'\<close> edges were only stopped.  The connections that
  remain are those of the edges that remain, each lost one is announced, and \<^verbatim>\<open>Disconnected\<close> is
  emitted once, when the last edge of a stopped manager goes.
\<close>

fun closing_out :: "cm_out \<Rightarrow> bool" where
  "closing_out (CmSend e m) \<longleftrightarrow> True"
| "closing_out (SigConDisconnected con) \<longleftrightarrow> True"
| "closing_out SigDisconnected \<longleftrightarrow> True"
| "closing_out _ \<longleftrightarrow> False"

definition closes :: "cm_out list \<Rightarrow> con_manager \<Rightarrow> con_manager \<Rightarrow> bool" where
  "closes outs cm cm' \<longleftrightarrow>
     cm_inv cm' \<and> cm_id cm' = cm_id cm \<and> cm_stopped cm' = cm_stopped cm \<and> dom (cm_store cm') = dom (cm_store cm)
     \<and> set (ct_edges cm') \<subseteq> set (ct_edges cm)
     \<and> ct_cons cm' = ct_cons cm |` set (ct_edges cm')
     \<and> (\<forall>con. SigConDisconnected con \<in> set outs \<longleftrightarrow> (\<exists>e. ct_cons cm e = Some con \<and> ct_cons cm' e = None))
     \<and> count_list outs SigDisconnected = (if cm_stopped cm \<and> ct_edges cm \<noteq> [] \<and> ct_edges cm' = [] then 1 else 0)
     \<and> (\<forall>out \<in> set outs. closing_out out)"

lemma cons_on_edges:
  assumes "cm_inv cm" shows "ct_cons cm |` set (ct_edges cm) = ct_cons cm"
proof
  fix e show "(ct_cons cm |` set (ct_edges cm)) e = ct_cons cm e"
    using cm_invD(3,4,7) [OF assms] by (cases "ct_cons cm e") (fastforce simp: restrict_map_def)+
qed

lemma closes_refl: "cm_inv cm \<Longrightarrow> \<forall>x \<in> set outs. \<exists>e m. x = CmSend e m \<Longrightarrow> closes outs cm cm"
  by (force simp: closes_def cons_on_edges count_list_0_iff)

lemma closes_trans:
  assumes "closes o1 cm cm1" and "closes o2 cm1 cm2"
  shows "closes (o1 @ o2) cm cm2"
proof -
  note one = assms(1) [unfolded closes_def] and two = assms(2) [unfolded closes_def]
  have cons1: "ct_cons cm1 = ct_cons cm |` set (ct_edges cm1)" and cons2: "ct_cons cm2 = ct_cons cm1 |` set (ct_edges cm2)"
    and sub: "set (ct_edges cm2) \<subseteq> set (ct_edges cm1)" "set (ct_edges cm1) \<subseteq> set (ct_edges cm)"
    using one two by blast+
  have cons: "ct_cons cm2 = ct_cons cm |` set (ct_edges cm2)"
    unfolding cons2 cons1 restrict_restrict using sub by (simp add: Int_absorb1)
  have lost: "SigConDisconnected con \<in> set (o1 @ o2) \<longleftrightarrow> (\<exists>e. ct_cons cm e = Some con \<and> ct_cons cm2 e = None)" for con
  proof -
    have "ct_cons cm2 e = None" if "ct_cons cm1 e = None" for e
      using that cons2 by (simp add: restrict_map_def)
    moreover have "ct_cons cm1 e = Some con \<Longrightarrow> ct_cons cm e = Some con" for e
      using cons1 by (simp add: restrict_map_def split: if_splits)
    moreover have "ct_cons cm e = Some con \<Longrightarrow> ct_cons cm1 e = None \<or> ct_cons cm1 e = Some con" for e
      using cons1 by (simp add: restrict_map_def)
    moreover have "SigConDisconnected con \<in> set o1 \<longleftrightarrow> (\<exists>e. ct_cons cm e = Some con \<and> ct_cons cm1 e = None)"
      and "SigConDisconnected con \<in> set o2 \<longleftrightarrow> (\<exists>e. ct_cons cm1 e = Some con \<and> ct_cons cm2 e = None)"
      using one two by blast+
    ultimately show ?thesis by (simp only: set_append Un_iff) blast
  qed
  have count: "count_list (o1 @ o2) SigDisconnected = (if cm_stopped cm \<and> ct_edges cm \<noteq> [] \<and> ct_edges cm2 = [] then 1 else 0)"
    using one two by auto
  show ?thesis unfolding closes_def
    using one two cons lost count by (intro conjI) (blast | simp)+
qed

lemma edge_Stop_closes:
  assumes "cm_inv cm" and "cm_store cm e = Some ed"
  shows "\<exists>outs cm'. edge_Stop (Suc n) e cm = Inr (outs, cm') \<and> closes outs cm cm' \<and> set (ct_edges cm') = set (ct_edges cm) - {e}"
proof (cases "ed_stopped ed")
  case True
  then have "e \<notin> set (ct_edges cm)" using assms cm_invD(8) by (auto simp: live_def)
  then show ?thesis using assms True by (auto simp: closes_refl)
next
  case False
  have mem: "e \<in> set (ct_edges cm)" using False assms cm_invD(8) by (auto simp: live_def)
  have inv: "cm_inv (shut e cm)" using assms by (rule shut_inv)
  have "edge_Stop (Suc n) e cm = Inr (shut_signals e cm, shut e cm)"
    using assms False cm_invD(3,4) [OF assms(1)] by (intro edge_Stop_shut) auto
  moreover have "closes (shut_signals e cm) cm (shut e cm)"
    unfolding closes_def
    using inv mem cons_on_edges [OF inv]
    by (auto simp: shut_edges [OF assms(2)] shut_cons [OF assms(2)] shut_signals_def Let_def split: option.split if_splits)
  ultimately show ?thesis by (simp add: shut_edges [OF assms(2)])
qed


text \<open>\<^verbatim>\<open>ConnectionTable::Disconnect\<close> before the edge is stopped changes nothing of the outcome.\<close>

lemma holds_idD:
  assumes "cm_inv cm" and "holds_id cm con"
  shows "ct_cons cm (con_edge con) = Some con" and "map_of (ct_ids cm) (con_remote con) = Some con"
    and "live cm (con_edge con)"
proof -
  from assms(2) obtain con' where c: "map_of (ct_ids cm) (con_remote con) = Some con'" "con_edge con' = con_edge con"
    by (auto simp: holds_id_def)
  moreover have "con' = con" using cm_invD(5) [OF assms(1) c(1)] c(2) by simp
  ultimately show "map_of (ct_ids cm) (con_remote con) = Some con" by simp
  then show "ct_cons cm (con_edge con) = Some con" "live cm (con_edge con)"
    using cm_invD(6-8) [OF assms(1)] by blast+
qed

lemma stop_after_ct_Disconnect:
  assumes "cm_inv cm"
  shows "edge_Stop (Suc n) (con_edge con) (snd (ct_Disconnect con cm)) = edge_Stop (Suc n) (con_edge con) cm"
proof (cases "holds_id cm con")
  case True
  note held = holds_idD [OF assms True]
  obtain ed where ed: "cm_store cm (con_edge con) = Some ed" "\<not> ed_stopped ed" using held(3) by (auto simp: live_def)
  have "edge_Stop (Suc n) (con_edge con) (drop_id con cm) =
      Inr (shut_signals (con_edge con) (drop_id con cm), shut (con_edge con) (drop_id con cm))"
    using ed held by (intro edge_Stop_shut) (auto simp: drop_id_def delete_keys)
  moreover have "edge_Stop (Suc n) (con_edge con) cm = Inr (shut_signals (con_edge con) cm, shut (con_edge con) cm)"
    using ed held by (intro edge_Stop_shut) auto
  moreover have "shut_signals (con_edge con) (drop_id con cm) = shut_signals (con_edge con) cm"
    by (simp add: shut_signals_def drop_id_def)
  moreover have "shut (con_edge con) (drop_id con cm) = shut (con_edge con) cm"
    using ed held by (simp add: shut_def drop_con_def drop_id_def delete_idem)
  ultimately show ?thesis using True by (simp add: ct_Disconnect_def)
qed (simp add: ct_Disconnect_def)

lemma edge_Stop_known:
  assumes "cm_inv cm" and "e \<in> dom (cm_store cm)"
  shows "\<exists>outs cm'. edge_Stop (Suc n) e cm = Inr (outs, cm') \<and> closes outs cm cm' \<and> set (ct_edges cm') = set (ct_edges cm) - {e}"
  using assms edge_Stop_closes by blast

lemma con_Disconnect_eq:
  assumes "cm_inv cm" and "cm_store cm (con_edge con) = Some ed"
  shows "con_Disconnect (Suc n) con cm =
    (if ed_stopped ed then Inr ([], cm)
     else cm_then (cm_emit (if cm_id cm \<noteq> con_remote con then [CmSend (con_edge con) MsgDisconnect] else []))
            (edge_Stop (Suc n) (con_edge con)) cm)"
proof -
  have "\<not> holds_id cm con" if "ed_stopped ed"
    using holds_idD(3) [OF assms(1), of con] assms(2) that by (auto simp: live_def)
  moreover have "cm_store (snd (ct_Disconnect con cm)) = cm_store cm" "cm_id (snd (ct_Disconnect con cm)) = cm_id cm"
    by (simp_all add: ct_Disconnect_def drop_id_def)
  ultimately show ?thesis
    using assms stop_after_ct_Disconnect [OF assms(1), of n con]
    by (auto simp: con_Disconnect_def HandleDisconnect_def cm_then_def cm_emit_def Let_def ct_Disconnect_def simp del: edge_Stop.simps)
qed

lemma con_Disconnect_known:
  assumes "cm_inv cm" and "con_edge con \<in> dom (cm_store cm)"
  shows "\<exists>outs cm'. con_Disconnect (Suc n) con cm = Inr (outs, cm') \<and> closes outs cm cm'
    \<and> set (ct_edges cm') = set (ct_edges cm) - {con_edge con}"
proof -
  obtain ed where ed: "cm_store cm (con_edge con) = Some ed" using assms(2) by blast
  obtain outs cm' where stop: "edge_Stop (Suc n) (con_edge con) cm = Inr (outs, cm')" "closes outs cm cm'"
      "set (ct_edges cm') = set (ct_edges cm) - {con_edge con}"
    using edge_Stop_known [OF assms] by blast
  show ?thesis
  proof (cases "ed_stopped ed")
    case True
    then have "con_edge con \<notin> set (ct_edges cm)" using ed cm_invD(8) [OF assms(1)] by (auto simp: live_def)
    then show ?thesis using True assms ed by (simp add: con_Disconnect_eq closes_refl)
  next
    case False
    define sent where "sent = (if cm_id cm \<noteq> con_remote con then [CmSend (con_edge con) MsgDisconnect] else [])"
    have "closes (sent @ outs) cm cm'"
      using stop(2) closes_refl [OF assms(1)] by (intro closes_trans [of sent cm cm]) (auto simp: sent_def)
    then show ?thesis
      using False assms ed stop unfolding sent_def by (auto simp: con_Disconnect_eq cm_then_def cm_emit_def simp del: edge_Stop.simps)
  qed
qed

text \<open>A loop over edges or connections: \<open>gone x\<close> are the edges that the visit of \<open>x\<close> stops.\<close>

lemma cm_each_closes:
  assumes "cm_inv cm" and "edge_of ` set xs \<subseteq> dom (cm_store cm)"
    and step: "\<And>x cm1 o1. x \<in> set xs \<Longrightarrow> closes o1 cm cm1 \<Longrightarrow> edge_of x \<in> dom (cm_store cm1) \<Longrightarrow>
      \<exists>outs cm2. f x cm1 = Inr (outs, cm2) \<and> closes outs cm1 cm2 \<and> set (ct_edges cm2) = set (ct_edges cm1) - gone x"
  shows "\<exists>outs cm'. cm_each f xs cm = Inr (outs, cm') \<and> closes outs cm cm'
    \<and> set (ct_edges cm') = set (ct_edges cm) - (\<Union>x \<in> set xs. gone x)"
  using assms
proof (induction xs arbitrary: cm)
  case Nil
  then show ?case by (simp add: cm_emit_def closes_refl)
next
  case (Cons x xs)
  have "closes [] cm cm" using Cons.prems(1) by (simp add: closes_refl)
  then have "\<exists>outs cm2. f x cm = Inr (outs, cm2) \<and> closes outs cm cm2 \<and> set (ct_edges cm2) = set (ct_edges cm) - gone x"
    using Cons.prems(2) by (intro Cons.prems(3) [of x "[]"]) auto
  then obtain o1 cm1 where 1: "f x cm = Inr (o1, cm1)" "closes o1 cm cm1" "set (ct_edges cm1) = set (ct_edges cm) - gone x"
    by blast
  have keep: "cm_inv cm1" "dom (cm_store cm1) = dom (cm_store cm)" using 1(2) unfolding closes_def by blast+
  have "\<exists>outs cm'. cm_each f xs cm1 = Inr (outs, cm') \<and> closes outs cm1 cm'
    \<and> set (ct_edges cm') = set (ct_edges cm1) - (\<Union>x \<in> set xs. gone x)"
  proof (rule Cons.IH)
    fix y cm2 o2 assume "y \<in> set xs" "closes o2 cm1 cm2" "edge_of y \<in> dom (cm_store cm2)"
    then show "\<exists>outs cm'. f y cm2 = Inr (outs, cm') \<and> closes outs cm2 cm' \<and> set (ct_edges cm') = set (ct_edges cm2) - gone y"
      using closes_trans [OF 1(2)] by (intro Cons.prems(3)) auto
  qed (use keep Cons.prems(2) in auto)
  then obtain o2 cm2 where 2: "cm_each f xs cm1 = Inr (o2, cm2)" "closes o2 cm1 cm2"
      "set (ct_edges cm2) = set (ct_edges cm1) - (\<Union>x \<in> set xs. gone x)" by blast
  then show ?case using 1 closes_trans [OF 1(2) 2(2)] by (auto simp: cm_then_def)
qed

section \<open>Steps that add\<close>

lemma AddConnection_inv:
  assumes "cm_inv cm" and "live cm e" and "ct_cons cm e = None" and "map_of (ct_ids cm) i = None"
  shows "cm_inv (AddConnection \<lparr>con_edge = e, con_remote = i\<rparr> cm)"
proof -
  have "con_edge con \<noteq> e" if "map_of (ct_ids cm) j = Some con" for j con
    using cm_invD(6) [OF assms(1) that] assms(3) by auto
  moreover have "con_remote con \<noteq> i" if "ct_cons cm e' = Some con" for e' con
    using cm_invD(4) [OF assms(1) that] assms(4) by auto
  ultimately show ?thesis using assms(1,2)
    by (auto simp: cm_inv_def AddConnection_def live_def update_conv' distinct_update)
qed

lemma AddEdge_inv:
  assumes "cm_inv cm" and "cm_store cm e = None" and "\<not> ed_stopped ed"
  shows "cm_inv (AddEdge e (cm\<lparr>cm_store := (cm_store cm)(e \<mapsto> ed)\<rparr>))"
proof -
  have "e \<notin> set (ct_edges cm)" using cm_invD(8) [OF assms(1)] assms(2) by (auto simp: live_def)
  then show ?thesis using assms by (auto simp: cm_inv_def AddEdge_def live_def)
qed

lemma mk_manager_inv: "cm_inv (mk_manager i)"
  by (auto simp: cm_inv_def mk_manager_def AddConnection_def AddEdge_def live_def split: if_splits)

end
