(* ===== verification/Connections_Props.thy ===== *)
theory Connections_Props
  imports Connections_Inv Variant_Demo
begin

text \<open>
  The events of a connection manager and the states they lead to: the table stays consistent and no
  handler faults; stopping ends every connection and tells the overlay once; the check of idle edges
  stops exactly those that were silent for too long; and what an unauthenticated \<^verbatim>\<open>CM::Connect\<close> can do.
\<close>

section \<open>Events\<close>

datatype cm_event =
  EvConnectTo nat | EvNewEdge nat nat edge | EvCreationFailure nat string
| EvInquire cm_from bytes nat int | EvInquired cm_from bytes | EvConnect cm_from bytes
| EvClose cm_from | EvDisconnect cm_from | EvPing cm_from qvariant
| EvEdgeCheck int "nat \<Rightarrow> int" | EvStop | EvConDisconnect connection | EvEdgeStopped nat

fun cm_event_step :: "nat \<Rightarrow> qvs \<Rightarrow> (nat \<Rightarrow> bool) \<Rightarrow> cm_event \<Rightarrow> cm_step" where
  "cm_event_step n V can (EvConnectTo addr) = ConnectTo can addr"
| "cm_event_step n V can (EvNewEdge listen e ed) = HandleNewEdge V listen e ed"
| "cm_event_step n V can (EvCreationFailure addr reason) = HandleEdgeCreationFailure addr reason"
| "cm_event_step n V can (EvInquire from b persistent version) = Inquire n V from b persistent version"
| "cm_event_step n V can (EvInquired from b) = Inquired n V from b"
| "cm_event_step n V can (EvConnect from b) = Connect n V from b"
| "cm_event_step n V can (EvClose from) = Close n from"
| "cm_event_step n V can (EvDisconnect from) = Disconnect n from"
| "cm_event_step n V can (EvPing from data) = HandlePingRequest from data"
| "cm_event_step n V can (EvEdgeCheck now heard) = EdgeCheck n now heard"
| "cm_event_step n V can EvStop = StopManager n"
| "cm_event_step n V can (EvConDisconnect con) = con_Disconnect n con"
| "cm_event_step n V can (EvEdgeStopped e) = edge_Stop n e"

text \<open>
  A message comes from an edge that is not stopped and that no connection has taken over, from a connection that was made
  once, or from a forwarding sender.  A new edge is new and open.
\<close>

fun from_ok :: "con_manager \<Rightarrow> cm_from \<Rightarrow> bool" where
  "from_ok cm (FromEdge e) \<longleftrightarrow> live cm e \<and> ct_cons cm e = None"
| "from_ok cm (FromConnection con) \<longleftrightarrow> con_edge con \<in> dom (cm_store cm)"
| "from_ok cm (FromForwarder i) \<longleftrightarrow> True"

fun cm_enabled :: "cm_event \<Rightarrow> con_manager \<Rightarrow> bool" where
  "cm_enabled (EvNewEdge listen e ed) cm \<longleftrightarrow> cm_store cm e = None \<and> \<not> ed_stopped ed"
| "cm_enabled (EvInquire from b persistent version) cm \<longleftrightarrow> from_ok cm from"
| "cm_enabled (EvInquired from b) cm \<longleftrightarrow> from_ok cm from"
| "cm_enabled (EvConnect from b) cm \<longleftrightarrow> from_ok cm from"
| "cm_enabled (EvClose from) cm \<longleftrightarrow> from_ok cm from"
| "cm_enabled (EvDisconnect from) cm \<longleftrightarrow> from_ok cm from"
| "cm_enabled (EvConDisconnect con) cm \<longleftrightarrow> con_edge con \<in> dom (cm_store cm)"
| "cm_enabled (EvEdgeStopped e) cm \<longleftrightarrow> e \<in> dom (cm_store cm)"
| "cm_enabled _ cm \<longleftrightarrow> True"

inductive cm_reachable :: "qvs \<Rightarrow> (nat \<Rightarrow> bool) \<Rightarrow> con_manager \<Rightarrow> bool" for V can where
  start: "cm_reachable V can (mk_manager i)"
| event: "cm_reachable V can cm \<Longrightarrow> cm_enabled ev cm \<Longrightarrow> cm_event_step (Suc n) V can ev cm = Inr (outs, cm') \<Longrightarrow>
    cm_reachable V can cm'"

section \<open>Each event keeps the table consistent\<close>

definition goes_well :: "fault + (cm_out list \<times> con_manager) \<Rightarrow> bool" where
  "goes_well r \<longleftrightarrow> (\<exists>outs cm'. r = Inr (outs, cm') \<and> cm_inv cm')"

named_theorems cm_ok

lemma goes_well_Inr [cm_ok]: "goes_well (Inr (outs, cm)) \<longleftrightarrow> cm_inv cm"
  by (simp add: goes_well_def)

lemma goes_well_emit [cm_ok]: "goes_well (cm_emit outs cm) \<longleftrightarrow> cm_inv cm"
  by (simp add: cm_emit_def cm_ok)

lemma goes_well_emit_then [cm_ok]: "goes_well (cm_then (cm_emit outs) g cm) \<longleftrightarrow> goes_well (g cm)"
  by (cases "g cm") (auto simp: cm_then_def cm_emit_def goes_well_def)

lemma goes_well_then: "f cm = Inr (outs, cm') \<Longrightarrow> goes_well (cm_then f g cm) \<longleftrightarrow> goes_well (g cm')"
  by (cases "g cm'") (auto simp: cm_then_def goes_well_def)

lemma edge_Stop_ok [cm_ok]: "cm_inv cm \<Longrightarrow> e \<in> dom (cm_store cm) \<Longrightarrow> goes_well (edge_Stop (Suc n) e cm)"
  using edge_Stop_known [of cm e n] by (auto simp: goes_well_def closes_def)

lemma edge_Stop_then_ok [cm_ok]:
  assumes "cm_inv cm" and "e \<in> dom (cm_store cm)" and "\<And>cm. goes_well (g cm) = cm_inv cm"
  shows "goes_well (cm_then (edge_Stop (Suc n) e) g cm)"
  using edge_Stop_known [OF assms(1,2), of n] assms(3)
  by (auto simp: goes_well_then closes_def simp del: edge_Stop.simps)

lemma con_Disconnect_ok [cm_ok]:
  "cm_inv cm \<Longrightarrow> con_edge con \<in> dom (cm_store cm) \<Longrightarrow> goes_well (con_Disconnect (Suc n) con cm)"
  using con_Disconnect_known [of cm con n] by (auto simp: goes_well_def closes_def)

lemma cm_inv_other [cm_ok]:
  "cm_inv (cm\<lparr>cm_active := A\<rparr>) \<longleftrightarrow> cm_inv cm" "cm_inv (cm\<lparr>cm_outstanding := A\<rparr>) \<longleftrightarrow> cm_inv cm"
  "cm_inv (cm\<lparr>cm_active := A, cm_outstanding := B\<rparr>) \<longleftrightarrow> cm_inv cm" "cm_inv (cm\<lparr>cm_stopped := b\<rparr>) \<longleftrightarrow> cm_inv cm"
  "cm_inv (cm\<lparr>cm_outstanding := B, cm_active := A\<rparr>) \<longleftrightarrow> cm_inv cm"
  by (simp_all add: cm_inv_def live_def)

lemma cm_inv_persistent:
  "cm_store cm e = Some ed \<Longrightarrow> cm_inv (cm\<lparr>cm_store := (cm_store cm)(e \<mapsto> ed\<lparr>ed_persistent := p\<rparr>)\<rparr>) \<longleftrightarrow> cm_inv cm"
proof -
  assume "cm_store cm e = Some ed"
  then have "live (cm\<lparr>cm_store := (cm_store cm)(e \<mapsto> ed\<lparr>ed_persistent := p\<rparr>)\<rparr>) = live cm" by (simp add: fun_eq_iff live_def)
  then show ?thesis by (simp add: cm_inv_def)
qed

lemma live_dom: "live cm e \<Longrightarrow> e \<in> dom (cm_store cm)"
  by (auto simp: live_def)

lemma table_edge_known: "cm_inv cm \<Longrightarrow> map_of (ct_ids cm) i = Some con \<Longrightarrow> con_edge con \<in> dom (cm_store cm)"
  using cm_invD(7,8) live_dom by blast

lemma CreateConnection_ok:
  "cm_inv cm \<Longrightarrow> live cm e \<Longrightarrow> ct_cons cm e = None \<Longrightarrow> map_of (ct_ids cm) i = None \<Longrightarrow> goes_well (CreateConnection e i cm)"
  by (simp add: CreateConnection_def Let_def cm_ok AddConnection_inv)

lemma BindEdge_ok [cm_ok]:
  assumes "cm_inv cm" and "live cm e" and "ct_cons cm e = None"
  shows "goes_well (BindEdge (Suc n) V e i cm)"
  using assms by (auto simp: BindEdge_def GetConnection_def cm_ok CreateConnection_ok live_dom simp del: edge_Stop.simps)

text \<open>Disconnecting the old connection to an id frees the id and leaves the other edges alone.\<close>

lemma displaced:
  assumes "cm_inv cm" and old: "map_of (ct_ids cm) i = Some old" and e: "live cm e" "ct_cons cm e = None"
  shows "\<exists>outs cm'. con_Disconnect (Suc n) old cm = Inr (outs, cm') \<and> closes outs cm cm' \<and> live cm' e
    \<and> ct_cons cm' e = None \<and> map_of (ct_ids cm') i = None \<and> set (ct_edges cm') = set (ct_edges cm) - {con_edge old}"
proof -
  obtain outs cm' where *: "con_Disconnect (Suc n) old cm = Inr (outs, cm')" "closes outs cm cm'"
      "set (ct_edges cm') = set (ct_edges cm) - {con_edge old}"
    using con_Disconnect_known table_edge_known assms(1) old by blast
  from *(2) have inv: "cm_inv cm'" and cons: "ct_cons cm' = ct_cons cm |` set (ct_edges cm')" unfolding closes_def by blast+
  have "con_edge old \<noteq> e" using cm_invD(6) [OF assms(1) old] e(2) by auto
  then have "live cm' e" using *(3) e(1) cm_invD(8) [OF assms(1)] cm_invD(8) [OF inv] by auto
  moreover have "ct_cons cm' e = None" using cons e(2) by (simp add: restrict_map_def)
  moreover have "map_of (ct_ids cm') i = None"
  proof (rule ccontr)
    assume "map_of (ct_ids cm') i \<noteq> None"
    then obtain con where con: "map_of (ct_ids cm') i = Some con" by auto
    have mem: "con_edge con \<in> set (ct_edges cm')" and "ct_cons cm' (con_edge con) = Some con"
      using cm_invD(6,7) [OF inv con] by blast+
    then have "ct_cons cm (con_edge con) = Some con" using cons by (simp add: restrict_map_def)
    then have "map_of (ct_ids cm) i = Some con"
      using cm_invD(4) [OF assms(1)] cm_invD(5) [OF inv con] by blast
    then show False using old mem *(3) by simp
  qed
  ultimately show ?thesis using * by blast
qed

lemma Connect_ok:
  assumes "cm_inv cm" and "from_ok cm from"
  shows "goes_well (Connect (Suc n) V from b cm)"
proof (cases "from")
  case (FromEdge e)
  then have e: "live cm e" "ct_cons cm e = None" using assms(2) by auto
  show ?thesis
  proof (cases "map_of (ct_ids cm) (bytes_id V b)")
    case None
    then show ?thesis using FromEdge e assms
      by (auto simp: Connect_def GetConnection_def Let_def cm_ok CreateConnection_ok)
  next
    case (Some old)
    show ?thesis using displaced [OF assms(1) Some e, of n] FromEdge Some assms(1)
      by (auto simp: Connect_def GetConnection_def Let_def cm_ok goes_well_then CreateConnection_ok closes_def)
  qed
qed (use assms in \<open>simp_all add: Connect_def cm_ok\<close>)

lemma Disconnect_eq: "cm_inv cm \<Longrightarrow> Disconnect (Suc n) (FromConnection con) cm = edge_Stop (Suc n) (con_edge con) cm"
  using stop_after_ct_Disconnect by (simp add: Disconnect_def del: edge_Stop.simps)

lemma live_persistent:
  "cm_store cm e = Some ed \<Longrightarrow> live (cm\<lparr>cm_store := (cm_store cm)(e \<mapsto> ed\<lparr>ed_persistent := p\<rparr>)\<rparr>) e \<longleftrightarrow> live cm e"
  by (simp add: live_def)

lemma Inquire_ok:
  assumes "cm_inv cm" and "from_ok cm from"
  shows "goes_well (Inquire (Suc n) V from b p version cm)"
proof (cases "from")
  case (FromEdge e)
  then obtain ed where "cm_store cm e = Some ed" "live cm e" "ct_cons cm e = None" using assms(2) by (auto simp: live_def)
  then show ?thesis using FromEdge assms(1)
    by (auto simp: Inquire_def refuse_def Let_def cm_ok cm_inv_persistent live_persistent simp del: edge_Stop.simps)
qed (use assms in \<open>simp_all add: Inquire_def refuse_def cm_ok\<close>)

lemma Inquired_ok:
  assumes "cm_inv cm" and "from_ok cm from"
  shows "goes_well (Inquired (Suc n) V from b cm)"
proof (cases "from")
  case (FromEdge e)
  then obtain ed where "cm_store cm e = Some ed" "live cm e" "ct_cons cm e = None" using assms(2) by (auto simp: live_def)
  then show ?thesis using FromEdge assms(1)
    by (auto simp: Inquired_def Let_def cm_ok domIff simp del: edge_Stop.simps)
qed (use assms in \<open>simp_all add: Inquired_def cm_ok\<close>)

section \<open>The check of idle edges\<close>

definition too_old :: "con_manager \<Rightarrow> int \<Rightarrow> (nat \<Rightarrow> int) \<Rightarrow> nat \<Rightarrow> bool" where
  "too_old cm now heard e \<longleftrightarrow> heard e < now - 60000
     \<and> \<not> (\<exists>con. ct_cons cm e = Some con \<and> con_remote con = cm_id cm)"


lemma check_edge_closes:
  assumes "cm_inv cm" and "closes o1 cm cm1" and "e \<in> dom (cm_store cm1)"
  shows "\<exists>outs cm2. check_edge (Suc n) now heard e cm1 = Inr (outs, cm2) \<and> closes outs cm1 cm2
    \<and> set (ct_edges cm2) = set (ct_edges cm1) - (if too_old cm now heard e then {e} else {})"
proof -
  have inv: "cm_inv cm1" and ident: "cm_id cm1 = cm_id cm" and cons: "ct_cons cm1 = ct_cons cm |` set (ct_edges cm1)"
    using assms(2) unfolding closes_def by blast+
  have stay: "closes [] cm1 cm1" "closes [CmSend e MsgPing] cm1 cm1" using inv by (simp_all add: closes_refl)
  show ?thesis
  proof (cases "heard e < now - 60000")
    case False
    then show ?thesis using stay by (simp add: check_edge_def EdgeCheckTimeout_def EdgeCloseTimeout_def too_old_def)
  next
    case True
    show ?thesis
    proof (cases "\<exists>con. ct_cons cm1 e = Some con \<and> con_remote con = cm_id cm")
      case own: True
      then have "\<not> too_old cm now heard e" using cons by (auto simp: too_old_def restrict_map_def split: if_splits)
      then show ?thesis using own True stay ident
        by (auto simp: check_edge_def EdgeCheckTimeout_def EdgeCloseTimeout_def GetConnectionOf_def)
    next
      case False
      have "check_edge (Suc n) now heard e cm1 = edge_Stop (Suc n) e cm1"
        using True False ident by (auto simp: check_edge_def EdgeCheckTimeout_def EdgeCloseTimeout_def GetConnectionOf_def
            simp del: edge_Stop.simps split: option.split)
      moreover have "set (ct_edges cm1) - (if too_old cm now heard e then {e} else {}) = set (ct_edges cm1) - {e}"
        using True False cons by (auto simp: too_old_def restrict_map_def)
      ultimately show ?thesis using edge_Stop_known [OF inv assms(3), of n] by simp
    qed
  qed
qed

lemma edges_known: "cm_inv cm \<Longrightarrow> set (ct_edges cm) \<subseteq> dom (cm_store cm)"
  using cm_invD(8) live_dom by blast

lemma EdgeCheck_closes:
  assumes "cm_inv cm"
  shows "\<exists>outs cm'. EdgeCheck (Suc n) now heard cm = Inr (outs, cm') \<and> closes outs cm cm'
    \<and> set (ct_edges cm') = {e \<in> set (ct_edges cm). \<not> too_old cm now heard e}"
proof -
  have "\<exists>outs cm'. cm_each (check_edge (Suc n) now heard) (ct_edges cm) cm = Inr (outs, cm') \<and> closes outs cm cm'
    \<and> set (ct_edges cm') = set (ct_edges cm) - (\<Union>e \<in> set (ct_edges cm). if too_old cm now heard e then {e} else {})"
    using assms edges_known [OF assms] check_edge_closes by (intro cm_each_closes [where edge_of = id]) auto
  moreover have "set (ct_edges cm) - (\<Union>e \<in> set (ct_edges cm). if too_old cm now heard e then {e} else {})
    = {e \<in> set (ct_edges cm). \<not> too_old cm now heard e}" by auto
  ultimately show ?thesis by (simp add: EdgeCheck_def)
qed

section \<open>Stopping the manager\<close>

lemma map_of_distinct_set: "distinct (map fst al) \<Longrightarrow> map_of al i = Some v \<longleftrightarrow> (i, v) \<in> set al"
  by simp

text \<open>Every connection is disconnected, then every edge that is left is stopped.\<close>

lemma OnStop_closes:
  assumes "cm_inv cm" and "cm_stopped cm"
  shows "\<exists>outs cm'. OnStop (Suc n) cm = Inr (outs, cm') \<and> cm_inv cm' \<and> ct_edges cm' = [] \<and> cm_stopped cm'
    \<and> (\<forall>con. SigConDisconnected con \<in> set outs \<longleftrightarrow> (\<exists>i. map_of (ct_ids cm) i = Some con))
    \<and> count_list outs SigDisconnected = 1 \<and> (\<forall>out \<in> set outs. closing_out out)"
proof -
  have known: "con_edge ` set (map snd (ct_ids cm)) \<subseteq> dom (cm_store cm)"
    using table_edge_known [OF assms(1)] cm_invD(1) [OF assms(1)] by (auto simp: domIff)
  have "\<exists>o1 cm1. cm_each (con_Disconnect (Suc n)) (map snd (ct_ids cm)) cm = Inr (o1, cm1) \<and> closes o1 cm cm1
    \<and> set (ct_edges cm1) = set (ct_edges cm) - (\<Union>con \<in> set (map snd (ct_ids cm)). {con_edge con})"
    by (rule cm_each_closes [OF assms(1) known], rule con_Disconnect_known) (simp_all add: closes_def)
  then obtain o1 cm1 where 1: "cm_each (con_Disconnect (Suc n)) (map snd (ct_ids cm)) cm = Inr (o1, cm1)" "closes o1 cm cm1"
    by blast
  have inv1: "cm_inv cm1" using 1(2) unfolding closes_def by blast
  have "\<exists>o2 cm2. cm_each (edge_Stop (Suc n)) (ct_edges cm1) cm1 = Inr (o2, cm2) \<and> closes o2 cm1 cm2
    \<and> set (ct_edges cm2) = set (ct_edges cm1) - (\<Union>e \<in> set (ct_edges cm1). {e})"
    by (rule cm_each_closes [where edge_of = id, OF inv1], simp add: edges_known [OF inv1], rule edge_Stop_known)
      (simp_all add: closes_def)
  then obtain o2 cm2 where 2: "cm_each (edge_Stop (Suc n)) (ct_edges cm1) cm1 = Inr (o2, cm2)" "closes o2 cm1 cm2"
      "ct_edges cm2 = []" by auto
  have both: "closes (o1 @ o2) cm cm2" using 1(2) 2(2) by (rule closes_trans)
  then have "cm_inv cm2" "ct_cons cm2 = Map.empty" "cm_stopped cm2" using 2(3) assms(2) by (auto simp: closes_def restrict_map_def)
  moreover have "(\<exists>e. ct_cons cm e = Some con) \<longleftrightarrow> (\<exists>i. map_of (ct_ids cm) i = Some con)" for con
    using cm_invD(4,6) [OF assms(1)] by blast
  ultimately show ?thesis
    using 1 2 both assms(2) by (auto simp: OnStop_def Let_def cm_then_def cm_emit_def closes_def)
qed


section \<open>Reachable states\<close>

lemma event_ok:
  assumes "cm_inv cm" and "cm_enabled ev cm"
  shows "goes_well (cm_event_step (Suc n) V can ev cm)"
proof (cases ev)
  case (EvConnectTo addr)
  then show ?thesis using assms by (auto simp: ConnectTo_def Let_def cm_ok)
next
  case (EvNewEdge listen e ed)
  then have "cm_inv (AddEdge e (cm\<lparr>cm_store := (cm_store cm)(e \<mapsto> ed)\<rparr>))" using assms by (intro AddEdge_inv) auto
  then show ?thesis using EvNewEdge by (auto simp: HandleNewEdge_def Let_def cm_ok)
next
  case (EvCreationFailure addr reason)
  then show ?thesis using assms by (simp add: HandleEdgeCreationFailure_def cm_ok)
next
  case (EvClose src)
  then show ?thesis using assms live_dom by (cases src) (auto simp: Close_def cm_ok simp del: edge_Stop.simps)
next
  case (EvDisconnect src)
  then show ?thesis using assms
    by (cases src) (simp_all add: Disconnect_eq cm_ok del: edge_Stop.simps, simp_all add: Disconnect_def cm_ok)
next
  case (EvEdgeCheck now heard)
  then show ?thesis using EdgeCheck_closes [OF assms(1), of n now heard] by (auto simp: goes_well_def closes_def)
next
  case EvStop
  have "cm_inv (cm\<lparr>cm_stopped := True\<rparr>)" using assms(1) by (simp add: cm_ok)
  from OnStop_closes [OF this, of n] show ?thesis using EvStop assms(1)
    by (auto simp: StopManager_def goes_well_def)
qed (use assms in \<open>simp_all add: Inquire_ok Inquired_ok Connect_ok HandlePingRequest_def cm_ok del: edge_Stop.simps\<close>)

lemma reachable_inv: "cm_reachable V can cm \<Longrightarrow> cm_inv cm"
proof (induction rule: cm_reachable.induct)
  case (start i)
  show ?case by (rule mk_manager_inv)
next
  case (event cm ev n outs cm')
  then show ?case using event_ok [of cm ev n V can] by (simp add: goes_well_Inr)
qed

lemma closes_ids:
  assumes "cm_inv cm" and "closes outs cm cm'"
  shows "map_of (ct_ids cm') i = Some con \<longleftrightarrow> map_of (ct_ids cm) i = Some con \<and> con_edge con \<in> set (ct_edges cm')"
proof -
  have inv: "cm_inv cm'" and cons: "ct_cons cm' = ct_cons cm |` set (ct_edges cm')"
    using assms(2) unfolding closes_def by blast+
  have eq: "map_of (ct_ids c) i = Some con \<longleftrightarrow> con_remote con = i \<and> ct_cons c (con_edge con) = Some con" if "cm_inv c" for c
    using cm_invD(4-6) [OF that] by blast
  show ?thesis unfolding eq [OF inv] eq [OF assms(1)] cons by (auto simp: restrict_map_def)
qed

section \<open>The theorems\<close>

text \<open>
  C7.  In every state the manager can reach, each event it can then meet is handled to the end: no null
  pointer, no endless nesting of edges that stop each other.  It leaves the two dictionaries of the
  connection table in step with each other: one connection per id and per edge, each on an edge that is
  open, and the open edges are the edges of the table.
\<close>

theorem manager_consistent:
  assumes "cm_reachable V can cm" and "cm_enabled ev cm"
  shows "\<exists>outs cm'. cm_event_step (Suc n) V can ev cm = Inr (outs, cm')
    \<and> distinct (map fst (ct_ids cm')) \<and> distinct (ct_edges cm')
    \<and> (\<forall>i con. GetConnection cm' i = Some con \<longleftrightarrow> con_remote con = i \<and> GetConnectionOf cm' (con_edge con) = Some con)
    \<and> (\<forall>e con. GetConnectionOf cm' e = Some con \<longrightarrow> con_edge con = e)
    \<and> (\<forall>e. GetConnectionOf cm' e \<noteq> None \<longrightarrow> e \<in> set (ct_edges cm'))
    \<and> (\<forall>e. e \<in> set (ct_edges cm') \<longleftrightarrow> live cm' e)"
proof -
  obtain outs cm' where step: "cm_event_step (Suc n) V can ev cm = Inr (outs, cm')" and inv: "cm_inv cm'"
    using event_ok [OF reachable_inv [OF assms(1)] assms(2), of n V can] by (auto simp: goes_well_def)
  have "GetConnection cm' i = Some con \<longleftrightarrow> con_remote con = i \<and> GetConnectionOf cm' (con_edge con) = Some con" for i con
    unfolding GetConnection_def GetConnectionOf_def using cm_invD(4-6) [OF inv] by blast
  moreover have "e \<in> set (ct_edges cm')" if "GetConnectionOf cm' e \<noteq> None" for e
    using that cm_invD(3,4,7) [OF inv] unfolding GetConnectionOf_def by blast
  ultimately show ?thesis
    using step cm_invD(1-3,8) [OF inv] by (auto simp: GetConnectionOf_def)
qed

definition ex_manager :: con_manager where
  "ex_manager = snd (projr (HandleNewEdge demo_qvs 0 1 \<lparr>ed_outbound = False, ed_stopped = False, ed_remote = 7, ed_persistent = 7\<rparr>
     (mk_manager 5)))"

lemma ex_manager_reachable: "cm_reachable demo_qvs (\<lambda>_. True) ex_manager"
  by (rule cm_reachable.event [OF cm_reachable.start [of _ _ 5],
        where ev = "EvNewEdge 0 1 \<lparr>ed_outbound = False, ed_stopped = False, ed_remote = 7, ed_persistent = 7\<rparr>" and n = 0 and outs = "[]"])
    (simp_all add: ex_manager_def HandleNewEdge_def Let_def mk_manager_def AddConnection_def AddEdge_def)

lemmas ex_manager_simps = ex_manager_def HandleNewEdge_def Let_def mk_manager_def AddConnection_def AddEdge_def live_def
  GetConnection_def GetConnectionOf_def

theorem manager_consistent_witness:
  "cm_enabled (EvConnect (FromEdge 1) [1, 1]) ex_manager
   \<and> (\<exists>outs cm'. cm_event_step 1 demo_qvs (\<lambda>_. True) (EvConnect (FromEdge 1) [1, 1]) ex_manager = Inr (outs, cm'))"
proof -
  have "cm_enabled (EvConnect (FromEdge 1) [1, 1]) ex_manager" by (simp add: ex_manager_simps)
  with manager_consistent [OF ex_manager_reachable this, of 0] show ?thesis by auto
qed

text \<open>
  C22.  Stopping the manager stops every edge and empties the table; each connection there was is
  announced as disconnected, no new one is made, and \<^verbatim>\<open>Disconnected\<close> is emitted exactly once, whatever
  the order in which edges and connections go.  A second call does nothing.
\<close>

theorem stop_ends_everything:
  assumes "cm_reachable V can cm" and "\<not> cm_stopped cm"
  shows "\<exists>outs cm'. StopManager (Suc n) cm = Inr (outs, cm')
    \<and> ct_edges cm' = [] \<and> ct_ids cm' = [] \<and> ct_cons cm' = Map.empty \<and> (\<forall>e. \<not> live cm' e)
    \<and> (\<forall>con. SigConDisconnected con \<in> set outs \<longleftrightarrow> (\<exists>i. GetConnection cm i = Some con))
    \<and> (\<forall>con. SigNewConnection con \<notin> set outs)
    \<and> count_list outs SigDisconnected = 1 \<and> StopManager (Suc n) cm' = Inr ([], cm')"
proof -
  have "cm_inv (cm\<lparr>cm_stopped := True\<rparr>)" using reachable_inv [OF assms(1)] by (simp add: cm_ok)
  from OnStop_closes [OF this, of n] obtain outs cm' where
    *: "OnStop (Suc n) (cm\<lparr>cm_stopped := True\<rparr>) = Inr (outs, cm')" "cm_inv cm'" "ct_edges cm' = []" "cm_stopped cm'"
      "\<forall>con. SigConDisconnected con \<in> set outs \<longleftrightarrow> (\<exists>i. map_of (ct_ids cm) i = Some con)"
      "count_list outs SigDisconnected = 1" "\<forall>out \<in> set outs. closing_out out"
    by auto
  have no_new: "SigNewConnection con \<notin> set outs" for con using *(7) by fastforce
  have none: "map_of (ct_ids cm') i = None" for i
    using cm_invD(7) [OF *(2), of i] *(3) by (cases "map_of (ct_ids cm') i") auto
  then have "map_of (ct_ids cm') = Map.empty" by (rule ext)
  then have "ct_ids cm' = []" by (simp add: map_of_eq_empty_iff)
  moreover have "ct_cons cm' e = None" for e
    using cm_invD(4) [OF *(2)] none by (cases "ct_cons cm' e") auto
  moreover have "\<not> live cm' e" for e using cm_invD(8) [OF *(2), of e] *(3) by simp
  ultimately show ?thesis using *(1,3-6) no_new assms(2) by (auto simp: StopManager_def GetConnection_def)
qed

theorem stop_ends_everything_witness:
  "\<not> cm_stopped ex_manager \<and> (\<exists>outs cm'. StopManager 1 ex_manager = Inr (outs, cm') \<and> count_list outs SigDisconnected = 1)"
proof -
  have "\<not> cm_stopped ex_manager" by (simp add: ex_manager_simps)
  with stop_ends_everything [OF ex_manager_reachable this, of 0] show ?thesis by auto
qed

text \<open>
  The check of idle edges stops exactly the edges from which nothing came for more than 60 seconds,
  the loopback excepted however long it was idle: they and their connections leave the table, and all
  others stay as they are.
\<close>

theorem idle_edges_closed:
  assumes "cm_reachable V can cm"
  shows "\<exists>outs cm'. EdgeCheck (Suc n) now heard cm = Inr (outs, cm')
    \<and> set (ct_edges cm') = {e \<in> set (ct_edges cm). now - 60000 \<le> heard e
         \<or> (\<exists>con. GetConnectionOf cm e = Some con \<and> con_remote con = cm_id cm)}
    \<and> (\<forall>i con. GetConnection cm' i = Some con \<longleftrightarrow>
         GetConnection cm i = Some con \<and> (now - 60000 \<le> heard (con_edge con) \<or> i = cm_id cm))"
proof -
  note inv = reachable_inv [OF assms]
  obtain outs cm' where *: "EdgeCheck (Suc n) now heard cm = Inr (outs, cm')" "closes outs cm cm'"
      "set (ct_edges cm') = {e \<in> set (ct_edges cm). \<not> too_old cm now heard e}"
    using EdgeCheck_closes [OF inv, of n now heard] by blast
  have "GetConnection cm' i = Some con \<longleftrightarrow>
         GetConnection cm i = Some con \<and> (now - 60000 \<le> heard (con_edge con) \<or> i = cm_id cm)" for i con
    unfolding GetConnection_def closes_ids [OF inv *(2)] *(3)
    using cm_invD(5-7) [OF inv, of i con] by (auto simp: too_old_def)
  then show ?thesis using *(1,3) by (auto simp: too_old_def GetConnectionOf_def)
qed

theorem idle_edges_closed_witness:
  "\<exists>outs cm'. EdgeCheck 1 100000 (\<lambda>_. 0) ex_manager = Inr (outs, cm') \<and> set (ct_edges cm') = {0}"
  using idle_edges_closed [OF ex_manager_reachable, of 0 100000 "\<lambda>_. 0"] by (auto simp: ex_manager_simps)

text \<open>What an edge is used for in a run, and how it can end: as the connection to \<open>i\<close>, or stopped.\<close>

definition sent_on :: "nat \<Rightarrow> cm_out list \<Rightarrow> cm_msg list" where
  "sent_on e outs = concat (map (\<lambda>out. case out of CmSend e' m \<Rightarrow> if e' = e then [m] else [] | _ \<Rightarrow> []) outs)"

lemma sent_on_append [simp]: "sent_on e (o1 @ o2) = sent_on e o1 @ sent_on e o2"
  by (simp add: sent_on_def)

lemma sent_on_Cons [simp]:
  "sent_on e (out # outs) = (case out of CmSend e' m \<Rightarrow> if e' = e then [m] else [] | _ \<Rightarrow> []) @ sent_on e outs"
  "sent_on e [] = []"
  by (simp_all add: sent_on_def)

lemma sent_on_shut [simp]: "sent_on e (shut_signals e' cm) = []"
  by (simp add: shut_signals_def Let_def split: option.split)

lemma edge_Stop_sends: "edge_Stop (Suc n) e' cm = Inr (outs, cm') \<Longrightarrow> cm_inv cm \<Longrightarrow> sent_on e outs = []"
  using edge_Stop_shut [of cm e' _ n] cm_invD(3,4) [of cm]
  by (cases "cm_store cm e'") (auto simp del: edge_Stop.simps simp: edge_Stop_stopped split: if_splits, auto split: if_splits)

definition bound :: "nat \<Rightarrow> peer \<Rightarrow> con_manager \<Rightarrow> con_manager \<Rightarrow> bool" where
  "bound e i cm cm' \<longleftrightarrow> cm_inv cm' \<and> cm_id cm' = cm_id cm \<and> live cm' e
     \<and> GetConnection cm' i = Some \<lparr>con_edge = e, con_remote = i\<rparr> \<and> (\<forall>j. j \<noteq> i \<longrightarrow> GetConnection cm' j = GetConnection cm j)"

definition unbound :: "nat \<Rightarrow> con_manager \<Rightarrow> con_manager \<Rightarrow> bool" where
  "unbound e cm cm' \<longleftrightarrow> cm_inv cm' \<and> cm_id cm' = cm_id cm \<and> \<not> live cm' e \<and> (\<forall>j. GetConnection cm' j = GetConnection cm j)"

lemma CreateConnection_bound:
  assumes "cm_inv cm" and "live cm e" and "ct_cons cm e = None" and "GetConnection cm i = None"
  shows "\<exists>cm'. CreateConnection e i cm = Inr ([SigNewConnection \<lparr>con_edge = e, con_remote = i\<rparr>], cm') \<and> bound e i cm cm'"
  using AddConnection_inv [OF assms(1-3), of i] assms
  by (auto simp: bound_def CreateConnection_def Let_def GetConnection_def AddConnection_def update_conv' live_def)

lemma closes_others:
  assumes "cm_inv cm" and "closes outs cm cm'" and "set (ct_edges cm') = set (ct_edges cm) - {con_edge old}"
    and "map_of (ct_ids cm) i = Some old" and "j \<noteq> i"
  shows "map_of (ct_ids cm') j = map_of (ct_ids cm) j"
proof -
  have "con_edge con \<noteq> con_edge old" "con_edge con \<in> set (ct_edges cm)" if "map_of (ct_ids cm) j = Some con" for con
  proof -
    show "con_edge con \<noteq> con_edge old"
      using cm_invD(5,6) [OF assms(1) that] cm_invD(5,6) [OF assms(1,4)] \<open>j \<noteq> i\<close> by (metis option.inject)
    show "con_edge con \<in> set (ct_edges cm)" using cm_invD(7) [OF assms(1) that] .
  qed
  then have "map_of (ct_ids cm') j = Some con \<longleftrightarrow> map_of (ct_ids cm) j = Some con" for con
    unfolding closes_ids [OF assms(1,2)] assms(3) by blast
  then show ?thesis by (metis option.exhaust)
qed

lemma Connect_bound:
  assumes inv: "cm_inv cm" and e: "live cm e" "ct_cons cm e = None" and "b \<noteq> []" and "bytes_id V b \<le> cm_id cm"
  shows "\<exists>outs cm'. Connect (Suc n) V (FromEdge e) b cm = Inr (outs, cm') \<and> bound e (bytes_id V b) cm cm' \<and> sent_on e outs = []
    \<and> (\<forall>old. GetConnection cm (bytes_id V b) = Some old \<longrightarrow> \<not> live cm' (con_edge old) \<and> SigConDisconnected old \<in> set outs)"
proof (cases "map_of (ct_ids cm) (bytes_id V b)")
  case None
  then show ?thesis using CreateConnection_bound [OF inv e, of "bytes_id V b"] assms(4,5)
    by (auto simp: Connect_def Let_def GetConnection_def cm_emit_def cm_then_def)
next
  case (Some old)
  let ?i = "bytes_id V b"
  obtain outs cm' where *: "con_Disconnect (Suc n) old cm = Inr (outs, cm')" "closes outs cm cm'"
      "map_of (ct_ids cm') ?i = None" "set (ct_edges cm') = set (ct_edges cm) - {con_edge old}"
      "live cm' e" "ct_cons cm' e = None"
    using displaced [OF inv Some e, of n] by blast
  have inv': "cm_inv cm'" and id': "cm_id cm' = cm_id cm" using *(2) unfolding closes_def by blast+
  have gone: "\<not> live cm' (con_edge old)" using cm_invD(8) [OF inv'] *(4) by blast
  have lost: "SigConDisconnected old \<in> set outs"
    using *(2,4) cm_invD(6) [OF inv Some] by (auto simp: closes_def restrict_map_def)
  obtain ed where ed: "cm_store cm (con_edge old) = Some ed" "\<not> ed_stopped ed"
    using cm_invD(8) [OF inv] cm_invD(7) [OF inv Some] by (auto simp: live_def)
  have "con_edge old \<noteq> e" using cm_invD(6) [OF inv Some] e(2) by auto
  then have quiet: "sent_on e outs = []"
    using *(1) ed edge_Stop_sends [OF _ inv, of n "con_edge old" _ _ e]
    by (auto simp: con_Disconnect_eq [OF inv ed(1)] cm_then_def cm_emit_def fault_simps simp del: edge_Stop.simps split: if_splits)
  obtain cm2 where new: "CreateConnection e ?i cm' = Inr ([SigNewConnection \<lparr>con_edge = e, con_remote = ?i\<rparr>], cm2)" "bound e ?i cm' cm2"
    using CreateConnection_bound [OF inv' *(5,6), of ?i] *(3) by (auto simp: GetConnection_def)
  have "bound e ?i cm cm2" using new(2) closes_others [OF inv *(2,4) Some] id' by (simp add: bound_def GetConnection_def)
  moreover have "\<not> live cm2 (con_edge old)" using new(1) gone
    by (auto simp: CreateConnection_def Let_def AddConnection_def live_def)
  ultimately show ?thesis using *(1) Some new(1) assms(4,5) lost quiet
    by (auto simp: Connect_def Let_def GetConnection_def cm_then_def)
qed

text \<open>
  C36.  A notification \<^verbatim>\<open>CM::Connect\<close> is believed without any check of who sends it.  On an open edge
  that is not yet a connection, any id up to the node's own, the node's own included, makes the edge the
  connection to that id: the connection it had is disconnected and its edge stopped, all others stay.
\<close>

theorem connect_displaces:
  assumes "cm_reachable V can cm" and "live cm e" and "GetConnectionOf cm e = None"
    and "b \<noteq> []" and "bytes_id V b \<le> cm_id cm"
  shows "\<exists>outs cm'. Connect (Suc n) V (FromEdge e) b cm = Inr (outs, cm')
    \<and> GetConnection cm' (bytes_id V b) = Some \<lparr>con_edge = e, con_remote = bytes_id V b\<rparr>
    \<and> (\<forall>old. GetConnection cm (bytes_id V b) = Some old \<longrightarrow> \<not> live cm' (con_edge old) \<and> SigConDisconnected old \<in> set outs)
    \<and> (\<forall>i. i \<noteq> bytes_id V b \<longrightarrow> GetConnection cm' i = GetConnection cm i)"
  using Connect_bound [OF reachable_inv [OF assms(1)] assms(2) _ assms(4,5), of n] assms(3)
  by (auto simp: bound_def GetConnectionOf_def)

text \<open>The example: the connection of a node to itself is taken over by a new edge.\<close>

theorem connect_displaces_witness:
  "GetConnection ex_manager 5 = Some \<lparr>con_edge = 0, con_remote = 5\<rparr>
   \<and> (\<exists>outs cm'. Connect 1 demo_qvs (FromEdge 1) [1, 1, 1, 1, 1] ex_manager = Inr (outs, cm')
        \<and> GetConnection cm' 5 = Some \<lparr>con_edge = 1, con_remote = 5\<rparr> \<and> \<not> live cm' 0)"
proof -
  have id: "bytes_id demo_qvs [1, 1, 1, 1, 1] = 5" by (simp add: demo_qvs_def)
  have old: "GetConnection ex_manager 5 = Some \<lparr>con_edge = 0, con_remote = 5\<rparr>"
    and "live ex_manager 1" "GetConnectionOf ex_manager 1 = None" "cm_id ex_manager = 5" by (simp_all add: ex_manager_simps)
  with connect_displaces [OF ex_manager_reachable this(2,3), of "[1, 1, 1, 1, 1]" 0] show ?thesis by (force simp: id)
qed

end
