(* ===== verification/Handshake.thy ===== *)
theory Handshake
  imports Connections_Props
begin

text \<open>
  Two connection managers at the two ends of one new edge: the messages \<^verbatim>\<open>CM::Inquire\<close>, its answer,
  \<^verbatim>\<open>CM::Connect\<close> and \<^verbatim>\<open>CM::Close\<close> that they exchange until neither has one to read.
\<close>

section \<open>The exchange\<close>

text \<open>Who a message on an edge comes from: a new connection takes the edge over.\<close>

definition edge_source :: "con_manager \<Rightarrow> nat \<Rightarrow> cm_from" where
  "edge_source cm e = (case ct_cons cm e of Some con \<Rightarrow> FromConnection con | None \<Rightarrow> FromEdge e)"

text \<open>A stopped edge delivers nothing.\<close>

definition cm_deliver :: "nat \<Rightarrow> qvs \<Rightarrow> nat \<Rightarrow> cm_msg \<Rightarrow> cm_step" where
  "cm_deliver n V e msg cm =
     (if \<not> (case cm_store cm e of Some ed \<Rightarrow> \<not> ed_stopped ed | None \<Rightarrow> False) then Inr ([], cm)
      else case msg of
        MsgInquire b persistent version \<Rightarrow> Inquire n V (edge_source cm e) b persistent version cm
      | MsgInquired b \<Rightarrow> Inquired n V (edge_source cm e) b cm
      | MsgFailed err reason \<Rightarrow> Inquired n V (edge_source cm e) [] cm
      | MsgConnect b \<Rightarrow> Connect n V (edge_source cm e) b cm
      | MsgClose \<Rightarrow> Close n (edge_source cm e) cm
      | MsgDisconnect \<Rightarrow> Disconnect n (edge_source cm e) cm
      | MsgPing \<Rightarrow> HandlePingRequest (edge_source cm e) QInvalid cm
      | MsgPong v \<Rightarrow> Inr ([], cm))"

text \<open>\<open>k\<close> bounds the number of messages read; \<open>x\<close> has the edge as \<open>e\<close> and \<open>y\<close> has it as \<open>f\<close>.\<close>

primrec exchange ::
    "nat \<Rightarrow> nat \<Rightarrow> qvs \<Rightarrow> nat \<Rightarrow> nat \<Rightarrow> cm_msg list \<Rightarrow> cm_msg list \<Rightarrow> con_manager \<Rightarrow> con_manager \<Rightarrow>
       fault + (con_manager \<times> con_manager)" where
  "exchange 0 n V e f to_x to_y x y = Inl Loops"
| "exchange (Suc k) n V e f to_x to_y x y =
     (case to_y of
        m # ms \<Rightarrow> bindS (cm_deliver n V f m y) (\<lambda>(outs, y). exchange k n V e f (to_x @ sent_on f outs) ms x y)
      | [] \<Rightarrow>
          (case to_x of
             m # ms \<Rightarrow> bindS (cm_deliver n V e m x) (\<lambda>(outs, x). exchange k n V e f ms (sent_on e outs) x y)
           | [] \<Rightarrow> Inr (x, y)))"

definition dial ::
    "nat \<Rightarrow> qvs \<Rightarrow> nat \<Rightarrow> nat \<Rightarrow> edge \<Rightarrow> con_manager \<Rightarrow> nat \<Rightarrow> edge \<Rightarrow> con_manager \<Rightarrow> fault + (con_manager \<times> con_manager)" where
  "dial n V listen e edx x f edy y =
     bindS (HandleNewEdge V listen f edy y) (\<lambda>(_, y).
     bindS (HandleNewEdge V listen e edx x) (\<lambda>(outs, x).
       exchange 6 n V e f [] (sent_on e outs) x y))"

section \<open>One message\<close>

text \<open>An end of the edge that has not become a connection yet.\<close>

definition fresh_end :: "con_manager \<Rightarrow> nat \<Rightarrow> bool \<Rightarrow> bool" where
  "fresh_end cm e out \<longleftrightarrow> cm_inv cm \<and> ct_cons cm e = None
     \<and> (\<exists>ed. cm_store cm e = Some ed \<and> \<not> ed_stopped ed \<and> ed_outbound ed = out)"

lemma fresh_endD: "fresh_end cm e out \<Longrightarrow> cm_inv cm \<and> live cm e \<and> ct_cons cm e = None"
  by (auto simp: fresh_end_def live_def)

lemma HandleNewEdge_fresh:
  assumes "cm_inv cm" and "cm_store cm e = None" and "\<not> ed_stopped ed"
  shows "\<exists>cm'. HandleNewEdge V listen e ed cm =
      Inr (if ed_outbound ed then [CmSend e (MsgInquire (id_bytes V (cm_id cm)) listen VERSION)] else [], cm')
    \<and> fresh_end cm' e (ed_outbound ed) \<and> cm_id cm' = cm_id cm \<and> (\<forall>j. GetConnection cm' j = GetConnection cm j)"
proof -
  let ?cm = "AddEdge e (cm\<lparr>cm_store := (cm_store cm)(e \<mapsto> ed)\<rparr>)"
  have "ct_cons cm e = None"
    using cm_invD(3,4,7,8) [OF assms(1)] assms(2) unfolding live_def by (metis option.exhaust option.distinct(1))
  then have "fresh_end ?cm e (ed_outbound ed)"
    using AddEdge_inv [OF assms] assms(3) by (simp add: fresh_end_def AddEdge_def)
  moreover have "cm_id ?cm = cm_id cm" "GetConnection ?cm j = GetConnection cm j" for j
    by (simp_all add: AddEdge_def GetConnection_def)
  ultimately show ?thesis
    by (auto simp: HandleNewEdge_def Let_def fresh_end_def cm_ok GetConnection_def)
qed

lemma stop_unbound:
  assumes "fresh_end cm e out"
  shows "\<exists>outs cm'. edge_Stop (Suc n) e cm = Inr (outs, cm') \<and> unbound e cm cm' \<and> sent_on e outs = []"
proof -
  have inv: "cm_inv cm" and e: "live cm e" "ct_cons cm e = None" using fresh_endD [OF assms] by blast+
  obtain outs cm' where *: "edge_Stop (Suc n) e cm = Inr (outs, cm')" "closes outs cm cm'"
      "set (ct_edges cm') = set (ct_edges cm) - {e}" using edge_Stop_known [OF inv live_dom [OF e(1)], of n] by blast
  have inv': "cm_inv cm'" and id': "cm_id cm' = cm_id cm" using *(2) unfolding closes_def by blast+
  have "GetConnection cm' j = Some con \<longleftrightarrow> GetConnection cm j = Some con" for j con
    unfolding GetConnection_def closes_ids [OF inv *(2)] *(3)
    using cm_invD(6,7) [OF inv, of j con] e(2) by auto
  then have "GetConnection cm' j = GetConnection cm j" for j by (metis option.exhaust)
  moreover have "\<not> live cm' e" using cm_invD(8) [OF inv'] *(3) by blast
  ultimately show ?thesis using *(1) inv' id' edge_Stop_sends [OF *(1) inv] by (simp add: unbound_def)
qed

lemma BindEdge_new:
  assumes "fresh_end cm e out" and "GetConnection cm i = None"
  shows "\<exists>outs cm'. BindEdge n V e i cm = Inr (outs, cm') \<and> bound e i cm cm'
    \<and> sent_on e outs = [MsgConnect (id_bytes V (cm_id cm))]"
  using CreateConnection_bound [of cm e i] fresh_endD [OF assms(1)] assms(2)
  by (auto simp: BindEdge_def cm_then_def cm_emit_def)

lemma BindEdge_duplicate:
  assumes "fresh_end cm e out" and "GetConnection cm i \<noteq> None"
  shows "\<exists>outs cm'. BindEdge (Suc n) V e i cm = Inr (outs, cm') \<and> unbound e cm cm' \<and> sent_on e outs = [MsgClose]"
  using stop_unbound [OF assms(1), of n] assms(2)
  by (auto simp: BindEdge_def cm_then_def cm_emit_def simp del: edge_Stop.simps)

lemma deliver_fresh:
  assumes "fresh_end cm e out"
  shows "cm_deliver n V e (MsgInquire b p v) cm = Inquire n V (FromEdge e) b p v cm"
    and "cm_deliver n V e (MsgInquired b) cm = Inquired n V (FromEdge e) b cm"
    and "cm_deliver n V e (MsgConnect b) cm = Connect n V (FromEdge e) b cm"
    and "cm_deliver n V e MsgClose cm = edge_Stop n e cm"
  using assms by (auto simp: fresh_end_def cm_deliver_def edge_source_def Close_def simp del: edge_Stop.simps)

text \<open>The answer to an inquiry; the smaller id also settles what becomes of the edge.\<close>

lemma Inquire_fresh:
  assumes "fresh_end cm e False" and "b \<noteq> []" and "cm_id cm \<noteq> bytes_id V b"
  shows "\<exists>cm1. fresh_end cm1 e False \<and> cm_id cm1 = cm_id cm \<and> (\<forall>j. GetConnection cm1 j = GetConnection cm j)
    \<and> Inquire n V (FromEdge e) b p VERSION cm =
        cm_then (cm_emit [CmSend e (MsgInquired (id_bytes V (cm_id cm)))])
          (if cm_id cm < bytes_id V b then BindEdge n V e (bytes_id V b) else cm_emit []) cm1"
proof -
  obtain ed where ed: "cm_store cm e = Some ed" "\<not> ed_stopped ed" "\<not> ed_outbound ed" and inv: "cm_inv cm"
    using assms(1) by (auto simp: fresh_end_def)
  let ?cm = "cm\<lparr>cm_store := (cm_store cm)(e \<mapsto> ed\<lparr>ed_persistent := p\<rparr>)\<rparr>"
  have "fresh_end ?cm e False" using assms(1) ed cm_inv_persistent [OF ed(1), of p] by (simp add: fresh_end_def)
  then show ?thesis using ed assms(2,3)
    by (intro exI [of _ ?cm]) (auto simp: Inquire_def Let_def GetConnection_def)
qed

lemma Inquired_fresh:
  assumes "fresh_end cm e True" and "b \<noteq> []" and "cm_id cm \<noteq> bytes_id V b"
  shows "Inquired n V (FromEdge e) b cm = (if cm_id cm < bytes_id V b then BindEdge n V e (bytes_id V b) cm else Inr ([], cm))"
  using assms by (auto simp: fresh_end_def Inquired_def Let_def)

lemma Connect_fresh:
  assumes "fresh_end cm e out" and "b \<noteq> []" and "bytes_id V b \<le> cm_id cm"
  shows "\<exists>outs cm'. Connect (Suc n) V (FromEdge e) b cm = Inr (outs, cm') \<and> bound e (bytes_id V b) cm cm' \<and> sent_on e outs = []"
  using Connect_bound [of cm e b V n] fresh_endD [OF assms(1)] assms(2,3) by metis

lemma bound_trans: "(\<forall>j. GetConnection cm1 j = GetConnection cm j) \<Longrightarrow> cm_id cm1 = cm_id cm \<Longrightarrow> bound e i cm1 cm' = bound e i cm cm'"
  by (simp add: bound_def)

lemma unbound_trans: "(\<forall>j. GetConnection cm1 j = GetConnection cm j) \<Longrightarrow> cm_id cm1 = cm_id cm \<Longrightarrow> unbound e cm1 cm' = unbound e cm cm'"
  by (simp add: unbound_def)


section \<open>The whole handshake\<close>

text \<open>How both ends finish, depending on whether the smaller id has a connection already.\<close>

definition agreed :: "nat \<Rightarrow> nat \<Rightarrow> con_manager \<Rightarrow> con_manager \<Rightarrow> con_manager \<Rightarrow> con_manager \<Rightarrow> bool" where
  "agreed e f x y x' y' \<longleftrightarrow>
     (if GetConnection (if cm_id x < cm_id y then x else y) (max (cm_id x) (cm_id y)) = None
      then bound e (cm_id y) x x' \<and> bound f (cm_id x) y y'
      else unbound e x x' \<and> unbound f y y')"

lemma exchange_done: "exchange (Suc k) n V e f [] [] x y = Inr (x, y)"
  by simp

lemma exchange_to_y:
  "cm_deliver n V f m y = Inr (outs, y') \<Longrightarrow>
   exchange (Suc k) n V e f to_x (m # ms) x y = exchange k n V e f (to_x @ sent_on f outs) ms x y'"
  by simp

lemma exchange_to_x:
  "cm_deliver n V e m x = Inr (outs, x') \<Longrightarrow>
   exchange (Suc k) n V e f (m # ms) [] x y = exchange k n V e f ms (sent_on e outs) x' y"
  by simp

lemma dialler_smaller:
  assumes V: "qvs_ok V" and x: "fresh_end x e True" and y: "fresh_end y f False"
    and ids: "cm_id x \<noteq> cm_id y" "id_bytes V (cm_id x) \<noteq> []" "id_bytes V (cm_id y) \<noteq> []"
    and less: "cm_id x < cm_id y"
  shows "\<exists>x' y'. exchange 6 (Suc n) V e f [] [MsgInquire (id_bytes V (cm_id x)) p VERSION] x y = Inr (x', y') \<and> agreed e f x y x' y'"
proof -
  note idv = qvs_okD(8) [OF V]
  obtain y1 where y1: "fresh_end y1 f False" "cm_id y1 = cm_id y" "\<forall>j. GetConnection y1 j = GetConnection y j"
    and 1: "cm_deliver (Suc n) V f (MsgInquire (id_bytes V (cm_id x)) p VERSION) y = Inr ([CmSend f (MsgInquired (id_bytes V (cm_id y)))], y1)"
    using Inquire_fresh [OF y ids(2), of V "Suc n" p] ids(1) less
    by (auto simp: idv deliver_fresh [OF y] cm_then_def cm_emit_def)
  have 2: "cm_deliver (Suc n) V e (MsgInquired (id_bytes V (cm_id y))) x = BindEdge (Suc n) V e (cm_id y) x"
    using Inquired_fresh [OF x ids(3), of V "Suc n"] ids(1) less by (simp add: idv deliver_fresh [OF x])
  show ?thesis
  proof (cases "GetConnection x (cm_id y)")
    case None
    obtain outs x' where 3: "BindEdge (Suc n) V e (cm_id y) x = Inr (outs, x')" "bound e (cm_id y) x x'"
        "sent_on e outs = [MsgConnect (id_bytes V (cm_id x))]" using BindEdge_new [OF x None] by blast
    obtain outs2 y' where 4: "cm_deliver (Suc n) V f (MsgConnect (id_bytes V (cm_id x))) y1 = Inr (outs2, y')"
        "bound f (cm_id x) y1 y'" "sent_on f outs2 = []"
      using Connect_fresh [OF y1(1) ids(2), of V n] less y1(2) by (auto simp: idv deliver_fresh [OF y1(1)])
    have "exchange 6 (Suc n) V e f [] [MsgInquire (id_bytes V (cm_id x)) p VERSION] x y = Inr (x', y')"
      using 1 2 3 4 by (simp add: eval_nat_numeral exchange_to_y exchange_to_x exchange_done del: exchange.simps(2))
    then show ?thesis using None 3 4 less bound_trans [OF y1(3,2)] by (auto simp: agreed_def max_def)
  next
    case (Some con)
    obtain outs x' where 3: "BindEdge (Suc n) V e (cm_id y) x = Inr (outs, x')" "unbound e x x'" "sent_on e outs = [MsgClose]"
      using BindEdge_duplicate [OF x, of "cm_id y"] Some by blast
    obtain outs2 y' where 4: "cm_deliver (Suc n) V f MsgClose y1 = Inr (outs2, y')" "unbound f y1 y'" "sent_on f outs2 = []"
      using stop_unbound [OF y1(1), of n] by (auto simp: deliver_fresh [OF y1(1)])
    have "exchange 6 (Suc n) V e f [] [MsgInquire (id_bytes V (cm_id x)) p VERSION] x y = Inr (x', y')"
      using 1 2 3 4 by (simp add: eval_nat_numeral exchange_to_y exchange_to_x exchange_done del: exchange.simps(2))
    then show ?thesis using Some 3 4 less unbound_trans [OF y1(3,2)] by (auto simp: agreed_def max_def)
  qed
qed

lemma dialler_larger:
  assumes V: "qvs_ok V" and x: "fresh_end x e True" and y: "fresh_end y f False"
    and ids: "cm_id x \<noteq> cm_id y" "id_bytes V (cm_id x) \<noteq> []" "id_bytes V (cm_id y) \<noteq> []"
    and less: "cm_id y < cm_id x"
  shows "\<exists>x' y'. exchange 6 (Suc n) V e f [] [MsgInquire (id_bytes V (cm_id x)) p VERSION] x y = Inr (x', y') \<and> agreed e f x y x' y'"
proof -
  note idv = qvs_okD(8) [OF V]
  obtain y1 where y1: "fresh_end y1 f False" "cm_id y1 = cm_id y" "\<forall>j. GetConnection y1 j = GetConnection y j"
    and 1: "cm_deliver (Suc n) V f (MsgInquire (id_bytes V (cm_id x)) p VERSION) y =
      cm_then (cm_emit [CmSend f (MsgInquired (id_bytes V (cm_id y)))]) (BindEdge (Suc n) V f (cm_id x)) y1"
    using Inquire_fresh [OF y ids(2), of V "Suc n" p] ids(1) less by (auto simp: idv deliver_fresh [OF y])
  have 2: "cm_deliver (Suc n) V e (MsgInquired (id_bytes V (cm_id y))) x = Inr ([], x)"
    using Inquired_fresh [OF x ids(3), of V "Suc n"] ids(1) less by (simp add: idv deliver_fresh [OF x])
  show ?thesis
  proof (cases "GetConnection y (cm_id x)")
    case None
    obtain outs y' where 3: "BindEdge (Suc n) V f (cm_id x) y1 = Inr (outs, y')" "bound f (cm_id x) y1 y'"
        "sent_on f outs = [MsgConnect (id_bytes V (cm_id y))]" using BindEdge_new [OF y1(1)] None y1(2,3) by metis
    obtain outs2 x' where 4: "cm_deliver (Suc n) V e (MsgConnect (id_bytes V (cm_id y))) x = Inr (outs2, x')"
        "bound e (cm_id y) x x'" "sent_on e outs2 = []"
      using Connect_fresh [OF x ids(3), of V n] less by (auto simp: idv deliver_fresh [OF x])
    have "exchange 6 (Suc n) V e f [] [MsgInquire (id_bytes V (cm_id x)) p VERSION] x y = Inr (x', y')"
      using 1 2 3 4 by (simp add: eval_nat_numeral exchange_to_y exchange_to_x exchange_done cm_then_def cm_emit_def del: exchange.simps(2))
    then show ?thesis using None 3 4 less bound_trans [OF y1(3,2)] by (auto simp: agreed_def max_def)
  next
    case (Some con)
    obtain outs y' where 3: "BindEdge (Suc n) V f (cm_id x) y1 = Inr (outs, y')" "unbound f y1 y'" "sent_on f outs = [MsgClose]"
      using BindEdge_duplicate [OF y1(1), of "cm_id x"] Some y1(3) by fastforce
    obtain outs2 x' where 4: "cm_deliver (Suc n) V e MsgClose x = Inr (outs2, x')" "unbound e x x'" "sent_on e outs2 = []"
      using stop_unbound [OF x, of n] by (auto simp: deliver_fresh [OF x])
    have "exchange 6 (Suc n) V e f [] [MsgInquire (id_bytes V (cm_id x)) p VERSION] x y = Inr (x', y')"
      using 1 2 3 4 by (simp add: eval_nat_numeral exchange_to_y exchange_to_x exchange_done cm_then_def cm_emit_def del: exchange.simps(2))
    then show ?thesis using Some 3 4 less unbound_trans [OF y1(3,2)] by (auto simp: agreed_def max_def)
  qed
qed


text \<open>
  C5.  Two nodes with different ids meet over a new edge, and neither has to know who it is.  After at most six
  messages both have settled, and they agree: either each has the edge as its connection to the other,
  an older connection of the larger id being replaced, or, if the smaller id had a connection to the
  larger one already, both have stopped the edge and keep what they had.  No other connection changes.
\<close>

theorem handshake_agrees:
  assumes "cm_reachable V can x" and "cm_reachable V can y" and "qvs_ok V"
    and "cm_store x e = None" and "ed_outbound edx" and "\<not> ed_stopped edx"
    and "cm_store y f = None" and "\<not> ed_outbound edy" and "\<not> ed_stopped edy"
    and "cm_id x \<noteq> cm_id y" and "id_bytes V (cm_id x) \<noteq> []" and "id_bytes V (cm_id y) \<noteq> []"
  shows "\<exists>x' y'. dial (Suc n) V listen e edx x f edy y = Inr (x', y')
    \<and> (if GetConnection (if cm_id x < cm_id y then x else y) (max (cm_id x) (cm_id y)) = None
       then GetConnection x' (cm_id y) = Some \<lparr>con_edge = e, con_remote = cm_id y\<rparr> \<and> live x' e
          \<and> GetConnection y' (cm_id x) = Some \<lparr>con_edge = f, con_remote = cm_id x\<rparr> \<and> live y' f
       else \<not> live x' e \<and> \<not> live y' f
          \<and> GetConnection x' (cm_id y) = GetConnection x (cm_id y) \<and> GetConnection y' (cm_id x) = GetConnection y (cm_id x))
    \<and> (\<forall>i. i \<noteq> cm_id y \<longrightarrow> GetConnection x' i = GetConnection x i)
    \<and> (\<forall>i. i \<noteq> cm_id x \<longrightarrow> GetConnection y' i = GetConnection y i)"
proof -
  obtain x1 where x1: "HandleNewEdge V listen e edx x = Inr ([CmSend e (MsgInquire (id_bytes V (cm_id x)) listen VERSION)], x1)"
      "fresh_end x1 e True" "cm_id x1 = cm_id x" "\<forall>j. GetConnection x1 j = GetConnection x j"
    using HandleNewEdge_fresh [OF reachable_inv [OF assms(1)] assms(4,6), of V listen] assms(5) by auto
  obtain y1 where y1: "HandleNewEdge V listen f edy y = Inr ([], y1)"
      "fresh_end y1 f False" "cm_id y1 = cm_id y" "\<forall>j. GetConnection y1 j = GetConnection y j"
    using HandleNewEdge_fresh [OF reachable_inv [OF assms(2)] assms(7,9), of V listen] assms(8) by auto
  have ids: "cm_id x1 \<noteq> cm_id y1" "id_bytes V (cm_id x1) \<noteq> []" "id_bytes V (cm_id y1) \<noteq> []"
    using assms(10-12) x1(3) y1(3) by simp_all
  obtain x' y' where *: "exchange 6 (Suc n) V e f [] [MsgInquire (id_bytes V (cm_id x1)) listen VERSION] x1 y1 = Inr (x', y')"
      "agreed e f x1 y1 x' y'"
  proof (cases "cm_id x1 < cm_id y1")
    case True
    then show ?thesis using dialler_smaller [OF assms(3) x1(2) y1(2) ids] that by blast
  next
    case False
    then show ?thesis using dialler_larger [OF assms(3) x1(2) y1(2) ids] ids(1) that by (meson nat_neq_iff)
  qed
  have "dial (Suc n) V listen e edx x f edy y = Inr (x', y')"
    using x1(1,3) y1(1) *(1) by (simp add: dial_def del: exchange.simps)
  moreover have "agreed e f x1 y1 x' y' = agreed e f x y x' y'"
    unfolding agreed_def bound_trans [OF x1(4,3)] bound_trans [OF y1(4,3)] unbound_trans [OF x1(4,3)] unbound_trans [OF y1(4,3)]
    using x1(3,4) y1(3,4) by auto
  then have "agreed e f x y x' y'" using *(2) by blast
  ultimately show ?thesis by (auto simp: agreed_def bound_def unbound_def)
qed

text \<open>Node 2 dials node 5 twice: the second edge is a duplicate.\<close>

definition ex_out :: edge where
  "ex_out = \<lparr>ed_outbound = True, ed_stopped = False, ed_remote = 9, ed_persistent = 9\<rparr>"

definition ex_in :: edge where
  "ex_in = \<lparr>ed_outbound = False, ed_stopped = False, ed_remote = 8, ed_persistent = 8\<rparr>"

theorem handshake_agrees_witness:
  "\<exists>x' y'. dial 1 demo_qvs 0 1 ex_out (mk_manager 2) 1 ex_in (mk_manager 5) = Inr (x', y')
     \<and> GetConnection x' 5 = Some \<lparr>con_edge = 1, con_remote = 5\<rparr> \<and> GetConnection y' 2 = Some \<lparr>con_edge = 1, con_remote = 2\<rparr>"
proof -
  have id: "cm_id (mk_manager i) = i" "cm_store (mk_manager i) 1 = None" "cm_store (mk_manager i) (Suc 0) = None" "GetConnection (mk_manager i) j = (if i = j then Some \<lparr>con_edge = 0, con_remote = i\<rparr> else None)"
      "id_bytes demo_qvs (Suc i) \<noteq> []" for i j
    by (simp_all add: mk_manager_def AddConnection_def AddEdge_def GetConnection_def demo_qvs_def)
  have "\<exists>x' y'. dial (Suc 0) demo_qvs 0 1 ex_out (mk_manager 2) 1 ex_in (mk_manager 5) = Inr (x', y')
    \<and> (if GetConnection (if cm_id (mk_manager 2) < cm_id (mk_manager 5) then mk_manager 2 else mk_manager 5)
             (max (cm_id (mk_manager 2)) (cm_id (mk_manager 5))) = None
       then GetConnection x' (cm_id (mk_manager 5)) = Some \<lparr>con_edge = 1, con_remote = cm_id (mk_manager 5)\<rparr> \<and> live x' 1
          \<and> GetConnection y' (cm_id (mk_manager 2)) = Some \<lparr>con_edge = 1, con_remote = cm_id (mk_manager 2)\<rparr> \<and> live y' 1
       else \<not> live x' 1 \<and> \<not> live y' 1
          \<and> GetConnection x' (cm_id (mk_manager 5)) = GetConnection (mk_manager 2) (cm_id (mk_manager 5))
          \<and> GetConnection y' (cm_id (mk_manager 2)) = GetConnection (mk_manager 5) (cm_id (mk_manager 2)))
    \<and> (\<forall>i. i \<noteq> cm_id (mk_manager 5) \<longrightarrow> GetConnection x' i = GetConnection (mk_manager 2) i)
    \<and> (\<forall>i. i \<noteq> cm_id (mk_manager 2) \<longrightarrow> GetConnection y' i = GetConnection (mk_manager 5) i)"
    by (rule handshake_agrees [where can = "\<lambda>_. True", OF cm_reachable.start cm_reachable.start demo_qvs_ok])
      (simp_all add: id ex_out_def ex_in_def numeral_eq_Suc)
  then show ?thesis by (auto simp: id)
qed

end
