(* ===== verification/Node_Attack.thy ===== *)
theory Node_Attack
  imports Network_Props Connections_Props
begin

text \<open>
  The connection manager behind the overlay of a node: the methods it registers, how their requests are
  read, and what a forwarded packet with a forged source does to it.
\<close>

section \<open>The methods of the manager\<close>

datatype 'b cm_slot = SlotInquire | SlotClose | SlotConnect | SlotDisconnect | SlotPing | SlotApp 'b

definition cm_methods :: "(string \<times> 'b cm_slot) list" where
  "cm_methods = [(''CM::Inquire'', SlotInquire), (''CM::Close'', SlotClose), (''CM::Connect'', SlotConnect),
     (''CM::Disconnect'', SlotDisconnect), (''CM::Ping'', SlotPing)]"

definition register_cm :: "('b cm_slot ov_slot, 'c) rpc \<Rightarrow> ('b cm_slot ov_slot, 'c) rpc" where
  "register_cm r = fold (\<lambda>(name, slot) r. snd (Register name (SlotOther slot) r)) cm_methods r"

text \<open>The sender of a request, as the manager's casts see it.\<close>

definition cm_source :: "con_manager \<Rightarrow> isender \<Rightarrow> cm_from" where
  "cm_source cm from =
     (case from of
        ViaEdge e \<Rightarrow> FromEdge e
      | ViaConnection i \<Rightarrow> (case GetConnection cm i of Some con \<Rightarrow> FromConnection con | None \<Rightarrow> FromForwarder i)
      | ViaForwarder i \<Rightarrow> FromForwarder i)"

text \<open>\<open>addr_of\<close> reads an address; a key that is missing has the invalid variant.\<close>

definition cm_call :: "nat \<Rightarrow> qvs \<Rightarrow> (string \<Rightarrow> nat) \<Rightarrow> 'b cm_slot \<Rightarrow> packet \<Rightarrow> cm_step" where
  "cm_call n V addr_of slot request cm =
     (let from = cm_source cm (pk_from request); data = GetRequestData request
      in case slot of
           SlotInquire \<Rightarrow>
             let h = to_hash V data
             in Inquire n V from (to_bytes V (hash_value h ''peer_id''))
                  (addr_of (to_str V (hash_value h ''persistent''))) (sint (to_int V (hash_value h ''version''))) cm
         | SlotClose \<Rightarrow> Close n from cm
         | SlotConnect \<Rightarrow> Connect n V from (to_bytes V data) cm
         | SlotDisconnect \<Rightarrow> Disconnect n from cm
         | SlotPing \<Rightarrow> HandlePingRequest from data cm
         | SlotApp b \<Rightarrow> Inr ([], cm))"

lemma callbacks_Register:
  "callbacks (snd (Register name h r)) m = (if m = name \<and> callbacks r name = None then Some (Some h) else callbacks r m)"
  by (simp add: Register_def)

lemma callbacks_fold_Register:
  "distinct (map fst ms) \<Longrightarrow>
   callbacks (fold (\<lambda>(name, slot) r. snd (Register name (SlotOther slot) r)) ms r) m =
     (case map_of ms m of Some slot \<Rightarrow> if callbacks r m = None then Some (Some (SlotOther slot)) else callbacks r m
      | None \<Rightarrow> callbacks r m)"
  by (induction ms arbitrary: r) (auto simp: callbacks_Register map_of_eq_None_iff image_iff split: option.split dest: map_of_SomeD)

lemma callbacks_register_cm:
  "callbacks (register_cm r) m =
     (case map_of cm_methods m of Some slot \<Rightarrow> if callbacks r m = None then Some (Some (SlotOther slot)) else callbacks r m
      | None \<Rightarrow> callbacks r m)"
  unfolding register_cm_def by (rule callbacks_fold_Register) (simp add: cm_methods_def)

section \<open>A forged source\<close>

lemma receive_inner:
  assumes "qvs_ok V" and "0 < sint j" and "callbacks (ov_rpc ov) method = Some (Some (SlotOther h))"
  shows "ov_packet (Suc n) V from (BuildNotification j method data) ov
    = Inr ([OvCall h \<lparr>pk_from = from, pk_container = BuildNotification j method data\<rparr>], ov)"
  using assms
  by (simp add: HandleData_list_def mk_request_def padded_def HandleRequest_def GetId_packet_def
      GetMethod_def BuildNotification_def qvs_okD Let_def ov_output_def ov_then_def ov_skip_def)

lemma Disconnect_of_connection:
  assumes "cm_reachable V can cm" and "GetConnection cm i = Some con"
  shows "\<exists>outs cm'. Disconnect (Suc n) (FromConnection con) cm = Inr (outs, cm') \<and> GetConnection cm' i = None
    \<and> \<not> live cm' (con_edge con) \<and> SigConDisconnected con \<in> set outs \<and> (\<forall>j. j \<noteq> i \<longrightarrow> GetConnection cm' j = GetConnection cm j)"
proof -
  note inv = reachable_inv [OF assms(1)]
  have con: "map_of (ct_ids cm) i = Some con" using assms(2) by (simp add: GetConnection_def)
  obtain outs cm' where *: "edge_Stop (Suc n) (con_edge con) cm = Inr (outs, cm')" "closes outs cm cm'"
      "set (ct_edges cm') = set (ct_edges cm) - {con_edge con}"
    using edge_Stop_known [OF inv table_edge_known [OF inv con], of n] by blast
  have inv': "cm_inv cm'" using *(2) unfolding closes_def by blast
  have "map_of (ct_ids cm') i = None"
  proof (rule ccontr)
    assume "map_of (ct_ids cm') i \<noteq> None"
    then obtain con' where "map_of (ct_ids cm') i = Some con'" by blast
    then show False using closes_ids [OF inv *(2), of i con'] con *(3) by auto
  qed
  moreover have "SigConDisconnected con \<in> set outs"
    using *(2,3) cm_invD(6) [OF inv con] by (auto simp: closes_def restrict_map_def)
  moreover have "\<not> live cm' (con_edge con)" using cm_invD(8) [OF inv'] *(3) by blast
  moreover have "\<forall>j. j \<noteq> i \<longrightarrow> GetConnection cm' j = GetConnection cm j"
    using closes_others [OF inv *(2,3) con] by (simp add: GetConnection_def)
  ultimately show ?thesis using *(1) Disconnect_eq [OF inv] by (simp add: GetConnection_def del: edge_Stop.simps)
qed

text \<open>
  C23.  The source that a forwarded packet names is not checked, neither by the server that passes it on nor by
  the receiver.  Any node \<open>a\<close> connected with the server \<open>r\<close> can send one packet that names \<open>r\<close> itself as the
  source of a \<^verbatim>\<open>CM::Disconnect\<close> for a client of \<open>r\<close>: the server passes it on, and the client's manager
  takes it for a request of the server and tears down its connection to it; its other connections stay.
\<close>

theorem forged_disconnect:
  assumes "qvs_ok V" and "forwards r" and "ids_left r" and "ov_id y \<in> set (ov_cons r)" and "ov_id y \<noteq> ov_id r" and "ov_id y \<noteq> 0"
    and "forwards y" and "callbacks (ov_rpc y) ''CM::Disconnect'' = Some (Some (SlotOther SlotDisconnect))"
    and "ov_id r \<in> set (ov_cons y)" and "cm_reachable V can cm" and "GetConnection cm (ov_id r) = Some con"
    and "0 < sint k" and "0 < sint j"
    and "get_vlist V p = BuildNotification k ''RF::Data''
        (QHash [(''from'', QStr (id_str V (ov_id r))), (''to'', QStr (id_str V (ov_id y))),
          (''data'', QBytes (put_vlist V (BuildNotification j ''CM::Disconnect'' d)))])"
  shows "\<exists>q r' request outs cm'. ov_receive (Suc n) V a p r = Inr ([OvSend (ov_id y) q], r')
    \<and> ov_receive (Suc (Suc n)) V (ov_id r) q y = Inr ([OvCall SlotDisconnect request], y)
    \<and> cm_call (Suc n) V addr_of (SlotDisconnect :: 'b cm_slot) request cm = Inr (outs, cm')
    \<and> GetConnection cm' (ov_id r) = None \<and> \<not> live cm' (con_edge con) \<and> SigConDisconnected con \<in> set outs
    \<and> (\<forall>i. i \<noteq> ov_id r \<longrightarrow> GetConnection cm' i = GetConnection cm i)"
proof -
  let ?inner = "put_vlist V (BuildNotification j ''CM::Disconnect'' d)"
  let ?request = "\<lparr>pk_from = ViaConnection (ov_id r), pk_container = BuildNotification j ''CM::Disconnect'' d\<rparr>"
  from forward_packet [OF assms(1), of r "id_str V (ov_id r)" "ov_id y" "ov_id y" ?inner] assms(3) obtain q r' i where
    q: "ForwardingSend V (id_str V (ov_id r)) (ov_id y) (ov_id y) ?inner r = Inr ([OvSend (ov_id y) q], r')" "0 < sint i"
      "get_vlist V q = BuildNotification i ''RF::Data'' (QHash [(''from'', QStr (id_str V (ov_id r))),
        (''to'', QStr (id_str V (ov_id y))), (''data'', QBytes ?inner)])"
    by (auto simp: ids_left_def)
  have "ov_receive (Suc n) V a p r = Inr ([OvSend (ov_id y) q], r')"
    using receive_forwarded [OF assms(1,12,14) _ assms(6), of r n a] assms(2,4,5) q(1) by (simp add: forwards_def)
  moreover have "ov_receive (Suc (Suc n)) V (ov_id r) q y = Inr ([OvCall SlotDisconnect ?request], y)"
    using receive_forwarded [OF assms(1) q(2,3) _ assms(6), of y "Suc n" "ov_id r"] assms(1,7,9)
      receive_inner [OF assms(1,13,8), of n "ViaConnection (ov_id r)" d]
    by (simp add: forwards_def GetSender_def qvs_okD del: ov_packet.simps)
  moreover have "cm_call (Suc n) V addr_of (SlotDisconnect :: 'b cm_slot) ?request cm = Disconnect (Suc n) (FromConnection con) cm"
    using assms(11) by (simp add: cm_call_def cm_source_def Let_def)
  ultimately show ?thesis using Disconnect_of_connection [OF assms(10,11), of n] by metis
qed


text \<open>Client 3 has the server 1 tear down its connection to client 5; node 4 is not involved.\<close>

definition ex_server :: "(unit cm_slot, nat) overlay" where
  "ex_server = (mk_overlay 1 [1])\<lparr>ov_cons := [1, 3, 5]\<rparr>"

definition ex_client :: "(unit cm_slot, nat) overlay" where
  "ex_client = (mk_overlay 5 [1])\<lparr>ov_cons := [5, 1], ov_rpc := register_cm (ov_rpc (mk_overlay 5 [1]))\<rparr>"

definition ex_client_cm :: con_manager where
  "ex_client_cm = AddConnection \<lparr>con_edge = 1, con_remote = 1\<rparr> ex_manager"

lemma ex_client_cm_reachable: "cm_reachable demo_qvs (\<lambda>_. True) ex_client_cm"
  by (rule cm_reachable.event [OF ex_manager_reachable,
        where ev = "EvConnect (FromEdge 1) [1]" and n = 0 and outs = "[SigNewConnection \<lparr>con_edge = 1, con_remote = 1\<rparr>]"])
    (simp_all add: ex_client_cm_def ex_manager_simps Connect_def CreateConnection_def cm_then_def cm_emit_def demo_qvs_def)

lemma mk_overlay_callbacks:
  "callbacks (ov_rpc (mk_overlay i S)) ''CM::Disconnect'' = None"
  "callbacks (ov_rpc (mk_overlay i S)) ''RF::Data'' = Some (Some SlotForwarded)"
  by (simp_all add: mk_overlay_def callbacks_Register RpcHandler_def)

theorem forged_disconnect_witness:
  "\<exists>p q r' request outs cm'. ov_receive (Suc 0) demo_qvs 3 p ex_server = Inr ([OvSend 5 q], r')
    \<and> ov_receive (Suc (Suc 0)) demo_qvs 1 q ex_client = Inr ([OvCall SlotDisconnect request], ex_client)
    \<and> cm_call (Suc 0) demo_qvs (\<lambda>_. 0) (SlotDisconnect :: unit cm_slot) request ex_client_cm = Inr (outs, cm')
    \<and> GetConnection ex_client_cm 1 \<noteq> None \<and> GetConnection cm' 1 = None"
proof -
  define p where "p = put_vlist demo_qvs (BuildNotification 1 ''RF::Data''
        (QHash [(''from'', QStr (id_str demo_qvs 1)), (''to'', QStr (id_str demo_qvs 5)),
          (''data'', QBytes (put_vlist demo_qvs (BuildNotification 1 ''CM::Disconnect'' QInvalid)))]))"
  note rpc = mk_overlay_callbacks
  have ids: "ov_id ex_server = 1" "ov_id ex_client = 5" "ov_cons ex_server = [1, 3, 5]" "ov_cons ex_client = [5, 1]"
    by (simp_all add: ex_server_def ex_client_def mk_overlay_def)
  have "callbacks (ov_rpc ex_client) ''CM::Disconnect'' = Some (Some (SlotOther SlotDisconnect))"
    by (simp add: ex_client_def callbacks_register_cm, simp add: cm_methods_def rpc)
  moreover have "forwards ex_server" using rpc by (simp add: forwards_def ex_server_def)
  moreover have "forwards ex_client"
    by (simp add: forwards_def ex_client_def callbacks_register_cm, simp add: cm_methods_def rpc)
  moreover have "ids_left ex_server"
    by (simp add: ids_left_def ex_server_def mk_overlay_def Register_def RpcHandler_def)
  moreover have "GetConnection ex_client_cm 1 = Some \<lparr>con_edge = 1, con_remote = 1\<rparr>"
    by (simp add: ex_client_cm_def AddConnection_def GetConnection_def update_conv')
  moreover have "get_vlist demo_qvs p = BuildNotification 1 ''RF::Data''
        (QHash [(''from'', QStr (id_str demo_qvs 1)), (''to'', QStr (id_str demo_qvs 5)),
          (''data'', QBytes (put_vlist demo_qvs (BuildNotification 1 ''CM::Disconnect'' QInvalid)))])"
    by (simp add: p_def qvs_okD [OF demo_qvs_ok])
  ultimately obtain q r' request outs cm' where
    "ov_receive (Suc 0) demo_qvs 3 p ex_server = Inr ([OvSend 5 q], r')"
    "ov_receive (Suc (Suc 0)) demo_qvs 1 q ex_client = Inr ([OvCall SlotDisconnect request], ex_client)"
    "cm_call (Suc 0) demo_qvs (\<lambda>_. 0) (SlotDisconnect :: unit cm_slot) request ex_client_cm = Inr (outs, cm')"
    "GetConnection cm' 1 = None"
    using forged_disconnect [where 'b = unit, OF demo_qvs_ok, of ex_server ex_client "\<lambda>_. True" ex_client_cm
        "\<lparr>con_edge = 1, con_remote = 1\<rparr>" 1 1 p QInvalid 0 3 "\<lambda>_. 0"] ex_client_cm_reachable
    by (auto simp: ids)
  moreover have "GetConnection ex_client_cm 1 \<noteq> None" using \<open>GetConnection ex_client_cm 1 = Some _\<close> by simp
  ultimately show ?thesis by blast
qed

end
