(* ===== verification/Timers.thy ===== *)
theory Timers
  imports Prelude "HOL-Library.Multiset" "HOL-Library.Product_Lexorder"
begin

text \<open>
  The queue of timer events, \<^verbatim>\<open>src/src/Utils/Timer.cpp\<close> and \<^verbatim>\<open>TimerEvent.cpp\<close>.

  The copies of an event share its data, which \<open>tm_data\<close> holds by the number of the event.  The
  priority queue of the standard library is the list of the numbers in it, the smallest time and number
  first; the time of an event changes only while it is not in the queue.  A callback is a name whose
  calls queue and stop events, \<open>cb\<close>; it is an argument of the functions that call it.  The clock is
  read at growing indices, and the loop of \<^verbatim>\<open>Run\<close>, which need not end, counts its rounds with fuel.
\<close>

section \<open>Events\<close>

record 'k timer_event =
  tv_callback :: "'k option"
  tv_next :: int
  tv_period :: int
  tv_stopped :: bool

record 'k timer =
  tm_data :: "nat \<Rightarrow> 'k timer_event"
  tm_uid :: nat
  tm_queue :: "nat list"
  tm_real_time :: bool
  tm_next_timer :: "int option"

definition mk_timer_event :: "'k option \<Rightarrow> int \<Rightarrow> int \<Rightarrow> 'k timer_event" where
  "mk_timer_event callback next period =
     \<lparr>tv_callback = callback, tv_next = next, tv_period = period, tv_stopped = (callback = None)\<rparr>"

definition mk_timer :: "'k timer" where
  "mk_timer = \<lparr>tm_data = (\<lambda>_. mk_timer_event None 0 0), tm_uid = 0, tm_queue = [], tm_real_time = True, tm_next_timer = None\<rparr>"

definition te_key :: "'k timer \<Rightarrow> nat \<Rightarrow> int \<times> nat" where
  "te_key tm u = (tv_next (tm_data tm u), u)"

definition tm_push :: "nat \<Rightarrow> 'k timer \<Rightarrow> 'k timer" where
  "tm_push u tm = tm\<lparr>tm_queue := insort_key (te_key tm) u (tm_queue tm)\<rparr>"

section \<open>Queueing and stopping\<close>

definition QueueEvent :: "nat \<Rightarrow> 'k timer \<Rightarrow> 'k timer" where
  "QueueEvent u tm =
     (let tm = tm_push u tm
      in if hd (tm_queue tm) = u \<and> tm_real_time tm then tm\<lparr>tm_next_timer := Some 0\<rparr> else tm)"

definition QueueCallback :: "int \<Rightarrow> 'k \<Rightarrow> int \<Rightarrow> int \<Rightarrow> 'k timer \<Rightarrow> nat \<times> 'k timer" where
  "QueueCallback now callback due_time period tm =
     (let u = tm_uid tm;
          tm = tm\<lparr>tm_data := (tm_data tm)(u := mk_timer_event (Some callback) (now + due_time) period), tm_uid := u + 1\<rparr>
      in (u, QueueEvent u tm))"

definition StopEvent :: "nat \<Rightarrow> 'k timer \<Rightarrow> 'k timer" where
  "StopEvent u tm = tm\<lparr>tm_data := (tm_data tm)(u := (tm_data tm u)\<lparr>tv_stopped := True\<rparr>)\<rparr>"

definition Clear :: "'k timer \<Rightarrow> 'k timer" where
  "Clear tm = tm\<lparr>tm_next_timer := None, tm_queue := []\<rparr>"

definition UseVirtualTime :: "'k timer \<Rightarrow> 'k timer" where
  "UseVirtualTime tm = (if \<not> tm_real_time tm then tm else Clear (tm\<lparr>tm_real_time := False\<rparr>))"

definition UseRealTime :: "'k timer \<Rightarrow> 'k timer" where
  "UseRealTime tm = (if tm_real_time tm then tm else Clear (tm\<lparr>tm_real_time := True\<rparr>))"

section \<open>Running\<close>

datatype 'k timer_op = OpQueue 'k int int | OpStop nat

fun do_timer_op :: "int \<Rightarrow> 'k timer_op \<Rightarrow> 'k timer \<Rightarrow> 'k timer" where
  "do_timer_op now (OpQueue callback due period) tm = snd (QueueCallback now callback due period tm)"
| "do_timer_op now (OpStop u) tm = StopEvent u tm"

text \<open>An invocation: when the event was due, its number, and its callback.\<close>

type_synonym 'k invoked = "int \<times> nat \<times> 'k"

definition te_Run :: "('k \<Rightarrow> 'k timer_op list) \<Rightarrow> int \<Rightarrow> nat \<Rightarrow> 'k timer \<Rightarrow> fault + ('k invoked list \<times> 'k timer)" where
  "te_Run cb now u tm =
     (let te = tm_data tm u
      in if tv_stopped te then Inr ([], tm\<lparr>tm_data := (tm_data tm)(u := te\<lparr>tv_period := 0\<rparr>)\<rparr>)
         else let te' = te\<lparr>tv_next := tv_next te + tv_period te, tv_stopped := (tv_stopped te \<or> tv_period te = 0)\<rparr>;
                  tm = tm\<lparr>tm_data := (tm_data tm)(u := te')\<rparr>
           in case tv_callback te of
                None \<Rightarrow> Inl NullPointer
              | Some k \<Rightarrow> Inr ([(tv_next te, u, k)], fold (do_timer_op now) (cb k) tm))"

text \<open>The result is cut to an \<^verbatim>\<open>int\<close> by the type of the variable it is kept in.\<close>

primrec Timer_Run :: "nat \<Rightarrow> ('k \<Rightarrow> 'k timer_op list) \<Rightarrow> (nat \<Rightarrow> int) \<Rightarrow> nat \<Rightarrow> 'k timer \<Rightarrow> fault + ('k invoked list \<times> 'k timer \<times> int)" where
  "Timer_Run 0 cb clock i tm = Inl Loops"
| "Timer_Run (Suc n) cb clock i tm =
     (case tm_queue tm of
        [] \<Rightarrow> Inr ([], tm, -1)
      | u # queue \<Rightarrow>
          if tv_next (tm_data tm u) \<le> clock i
          then bindS (te_Run cb (clock (i + 1)) u (tm\<lparr>tm_queue := queue\<rparr>)) (\<lambda>(now, tm).
                 let tm = (if 0 < tv_period (tm_data tm u) then tm_push u tm else tm)
                 in bindS (Timer_Run n cb clock (i + 2) tm) (\<lambda>(later, tm, next). Inr (now @ later, tm, next)))
          else Inr ([], tm, signed_take_bit 31 (tv_next (tm_data tm u) - clock (i + 1))))"

definition timerEvent :: "nat \<Rightarrow> ('k \<Rightarrow> 'k timer_op list) \<Rightarrow> (nat \<Rightarrow> int) \<Rightarrow> 'k timer \<Rightarrow> fault + ('k invoked list \<times> 'k timer)" where
  "timerEvent n cb clock tm =
     bindS (Timer_Run n cb clock 0 tm) (\<lambda>(outs, tm, next).
       Inr (outs, if next > -1 then tm\<lparr>tm_next_timer := Some next\<rparr> else tm))"

section \<open>What is due\<close>

text \<open>The times up to \<open>now\<close> at which an event comes due.\<close>

function dues :: "int \<Rightarrow> int \<Rightarrow> int \<Rightarrow> int list" where
  "dues now next period =
     (if now < next then [] else next # (if period \<le> 0 then [] else dues now (next + period) period))"
  by pat_completeness auto
termination by (relation "measure (\<lambda>(now, next, period). nat (now - next + 1))") auto

declare dues.simps [simp del]

definition event_dues :: "int \<Rightarrow> 'k timer \<Rightarrow> nat \<Rightarrow> (int \<times> nat \<times> 'k) list" where
  "event_dues now tm u =
     (let te = tm_data tm u
      in if tv_stopped te then []
         else case tv_callback te of None \<Rightarrow> [] | Some k \<Rightarrow> map (\<lambda>t. (t, u, k)) (dues now (tv_next te) (tv_period te)))"

definition agenda :: "int \<Rightarrow> 'k timer \<Rightarrow> (int \<times> nat \<times> 'k) list" where
  "agenda now tm = sort_key (\<lambda>(t, u, k). (t, u)) (concat (map (event_dues now tm) (tm_queue tm)))"

text \<open>The number of rounds the loop makes: one for each time that is due, and one to drop a stopped event.\<close>

definition rounds :: "int \<Rightarrow> 'k timer \<Rightarrow> nat" where
  "rounds now tm = sum_list (map (\<lambda>u. length (event_dues now tm u)
     + (if tv_stopped (tm_data tm u) \<and> tv_next (tm_data tm u) \<le> now then 1 else 0)) (tm_queue tm))"

definition timer_ok :: "'k timer \<Rightarrow> bool" where
  "timer_ok tm \<longleftrightarrow> sorted (map (te_key tm) (tm_queue tm)) \<and> distinct (tm_queue tm)
     \<and> (\<forall>u \<in> set (tm_queue tm). u < tm_uid tm \<and> (tv_stopped (tm_data tm u) \<or> tv_callback (tm_data tm u) \<noteq> None))"


section \<open>One event\<close>

lemma te_key_queue [simp]: "te_key (tm\<lparr>tm_queue := q\<rparr>) = te_key tm" "te_key (tm\<lparr>tm_next_timer := x\<rparr>) = te_key tm"
  by (simp_all add: te_key_def fun_eq_iff)

lemma timer_okD:
  assumes "timer_ok tm" and "tm_queue tm = u # q"
  shows "u \<notin> set q" and "u < tm_uid tm" and "tv_stopped (tm_data tm u) \<or> tv_callback (tm_data tm u) \<noteq> None"
    and "v \<in> set (u # q) \<Longrightarrow> te_key tm u \<le> te_key tm v" and "timer_ok (tm\<lparr>tm_queue := q\<rparr>)"
  using assms by (auto simp: timer_ok_def te_key_def)

lemma dues_le: "t \<in> set (dues now next period) \<Longrightarrow> next \<le> t \<and> t \<le> now"
  by (induction now "next" period rule: dues.induct) (subst (asm) (2) dues.simps, auto split: if_splits)

lemma event_dues_key: "(t, v, k) \<in> set (event_dues now tm u) \<Longrightarrow> v = u \<and> te_key tm u \<le> (t, v) \<and> t \<le> now \<and> tv_callback (tm_data tm u) = Some k"
  by (auto simp: event_dues_def te_key_def Let_def dest: dues_le split: if_splits option.splits)

lemma event_dues_later: "now < tv_next (tm_data tm u) \<Longrightarrow> event_dues now tm u = []"
  by (simp add: event_dues_def Let_def dues.simps split: option.split)

lemma event_dues_cong: "tm_data tm u = tm_data tm' u \<Longrightarrow> event_dues now tm u = event_dues now tm' u"
  by (simp add: event_dues_def)

definition due_set :: "int \<Rightarrow> 'k timer \<Rightarrow> (int \<times> nat \<times> 'k) multiset" where
  "due_set now tm = (\<Sum>u \<in># mset (tm_queue tm). mset (event_dues now tm u))"

definition idle_rounds :: "int \<Rightarrow> 'k timer \<Rightarrow> nat" where
  "idle_rounds now tm = size (filter_mset (\<lambda>u. tv_stopped (tm_data tm u) \<and> tv_next (tm_data tm u) \<le> now) (mset (tm_queue tm)))"

lemma mset_agenda: "mset (concat (map (event_dues now tm) (tm_queue tm))) = due_set now tm"
proof -
  have "mset (concat (map (event_dues now tm) q)) = (\<Sum>u \<in># mset q. mset (event_dues now tm u))" for q
    by (induction q) simp_all
  then show ?thesis by (simp add: due_set_def)
qed

lemma rounds_split: "rounds now tm = size (due_set now tm) + idle_rounds now tm"
proof -
  have "sum_list (map (\<lambda>u. length (event_dues now tm u) + (if P u then 1 else 0)) q)
      = size (\<Sum>u \<in># mset q. mset (event_dues now tm u)) + size (filter_mset P (mset q))" for P q
    by (induction q) simp_all
  then show ?thesis unfolding rounds_def due_set_def idle_rounds_def .
qed

lemma due_set_cong:
  assumes "mset (tm_queue tm) = mset (tm_queue tm')" and "\<And>u. u \<in> set (tm_queue tm) \<Longrightarrow> tm_data tm u = tm_data tm' u"
  shows "due_set now tm = due_set now tm'" and "idle_rounds now tm = idle_rounds now tm'"
proof -
  have "image_mset (\<lambda>u. mset (event_dues now tm u)) (mset (tm_queue tm)) = image_mset (\<lambda>u. mset (event_dues now tm' u)) (mset (tm_queue tm))"
    using assms(2) by (intro image_mset_cong) (simp add: event_dues_def)
  then show "due_set now tm = due_set now tm'" using assms(1) by (simp add: due_set_def)
  have "filter_mset (\<lambda>u. tv_stopped (tm_data tm u) \<and> tv_next (tm_data tm u) \<le> now) (mset (tm_queue tm))
      = filter_mset (\<lambda>u. tv_stopped (tm_data tm' u) \<and> tv_next (tm_data tm' u) \<le> now) (mset (tm_queue tm))"
    using assms(2) by (intro filter_mset_cong) simp_all
  then show "idle_rounds now tm = idle_rounds now tm'" using assms(1) by (simp add: idle_rounds_def)
qed

lemma agenda_eq:
  assumes "due_set now tm = add_mset x (due_set now tm')" and "\<And>y. y \<in># due_set now tm \<Longrightarrow> (fst x, fst (snd x)) \<le> (fst y, fst (snd y))"
    and "inj_on (\<lambda>(t, u, k). (t, u)) (set_mset (due_set now tm))"
  shows "agenda now tm = x # agenda now tm'"
  unfolding agenda_def
proof (rule sort_key_inj_key_eq)
  let ?key = "\<lambda>(t, u, k). (t, u :: nat)"
  show "mset (concat (map (event_dues now tm) (tm_queue tm))) = mset (x # sort_key ?key (concat (map (event_dues now tm') (tm_queue tm'))))"
    using assms(1) by (simp add: mset_agenda)
  show "inj_on ?key (set (concat (map (event_dues now tm) (tm_queue tm))))"
    using assms(3) mset_agenda [of now tm] by (metis set_mset_mset)
  have "set (concat (map (event_dues now tm') (tm_queue tm'))) = set_mset (due_set now tm')"
    using mset_agenda [of now tm'] by (metis set_mset_mset)
  then show "sorted (map ?key (x # sort_key ?key (concat (map (event_dues now tm') (tm_queue tm')))))"
    using assms(1,2) by (auto simp: case_prod_beta)
qed


section \<open>Queueing\<close>

lemma timer_ok_next [simp]: "timer_ok (tm\<lparr>tm_next_timer := x\<rparr>) = timer_ok tm"
  by (simp add: timer_ok_def)

lemma due_set_next [simp]: "due_set now (tm\<lparr>tm_next_timer := x\<rparr>) = due_set now tm" "idle_rounds now (tm\<lparr>tm_next_timer := x\<rparr>) = idle_rounds now tm"
  by (simp_all add: due_set_def idle_rounds_def event_dues_def)

lemma tm_push_simps [simp]:
  "tm_data (tm_push u tm) = tm_data tm" "tm_uid (tm_push u tm) = tm_uid tm" "mset (tm_queue (tm_push u tm)) = add_mset u (mset (tm_queue tm))"
  "set (tm_queue (tm_push u tm)) = insert u (set (tm_queue tm))" "te_key (tm_push u tm) = te_key tm"
  by (simp_all add: tm_push_def set_insort_key mset_insort)

lemma tm_push_ok:
  assumes "timer_ok tm" and "u \<notin> set (tm_queue tm)" and "u < tm_uid tm" and "tv_stopped (tm_data tm u) \<or> tv_callback (tm_data tm u) \<noteq> None"
  shows "timer_ok (tm_push u tm)"
proof -
  have "sorted (map (te_key tm) (tm_queue (tm_push u tm)))"
    using assms(1) by (simp add: tm_push_def timer_ok_def sorted_insort_key)
  moreover have "mset (tm_queue (tm_push u tm)) = mset (u # tm_queue tm)" by simp
  then have "distinct (tm_queue (tm_push u tm)) = distinct (u # tm_queue tm)" by (rule mset_eq_imp_distinct_iff)
  ultimately have "sorted (map (te_key tm) (tm_queue (tm_push u tm)))" "distinct (tm_queue (tm_push u tm))"
    using assms(1,2) by (auto simp: timer_ok_def)
  then show ?thesis using assms by (auto simp: timer_ok_def)
qed

lemma tm_push_due:
  "due_set now (tm_push u tm) = mset (event_dues now tm u) + due_set now tm"
  "idle_rounds now (tm_push u tm) = (if tv_stopped (tm_data tm u) \<and> tv_next (tm_data tm u) \<le> now then 1 else 0) + idle_rounds now tm"
proof -
  have "event_dues now (tm_push u tm) v = event_dues now tm v" for v by (rule event_dues_cong) simp
  then show "due_set now (tm_push u tm) = mset (event_dues now tm u) + due_set now tm" by (simp add: due_set_def)
  show "idle_rounds now (tm_push u tm) = (if tv_stopped (tm_data tm u) \<and> tv_next (tm_data tm u) \<le> now then 1 else 0) + idle_rounds now tm"
    by (simp add: idle_rounds_def)
qed

text \<open>Data of events that are not queued do not matter.\<close>

lemma data_outside:
  assumes "u \<notin> set (tm_queue tm)"
  shows "timer_ok (tm\<lparr>tm_data := (tm_data tm)(u := te)\<rparr>) = timer_ok tm"
    and "due_set now (tm\<lparr>tm_data := (tm_data tm)(u := te)\<rparr>) = due_set now tm"
    and "idle_rounds now (tm\<lparr>tm_data := (tm_data tm)(u := te)\<rparr>) = idle_rounds now tm"
proof -
  have "map (te_key (tm\<lparr>tm_data := (tm_data tm)(u := te)\<rparr>)) (tm_queue tm) = map (te_key tm) (tm_queue tm)"
    using assms by (intro map_cong) (auto simp: te_key_def)
  then have "sorted (map (te_key (tm\<lparr>tm_data := (tm_data tm)(u := te)\<rparr>)) (tm_queue tm)) = sorted (map (te_key tm) (tm_queue tm))"
    by (simp only:)
  then show "timer_ok (tm\<lparr>tm_data := (tm_data tm)(u := te)\<rparr>) = timer_ok tm" using assms by (auto simp: timer_ok_def)
qed (use assms in \<open>auto intro!: due_set_cong\<close>)

text \<open>Callbacks that only queue later events: what is due does not change.\<close>

definition grows :: "int \<Rightarrow> 'k timer \<Rightarrow> 'k timer \<Rightarrow> bool" where
  "grows now tm tm' \<longleftrightarrow> timer_ok tm' \<and> due_set now tm' = due_set now tm \<and> idle_rounds now tm' = idle_rounds now tm
     \<and> tm_uid tm \<le> tm_uid tm' \<and> (\<forall>v < tm_uid tm. tm_data tm' v = tm_data tm v)
     \<and> (\<forall>v \<in> set (tm_queue tm'). v < tm_uid tm \<longrightarrow> v \<in> set (tm_queue tm))"

definition later_op :: "'k timer_op \<Rightarrow> bool" where
  "later_op op \<longleftrightarrow> (\<exists>k due period. op = OpQueue k due period \<and> 0 < due)"

lemma later_op_grows:
  assumes "timer_ok tm" and "later_op op"
  shows "grows now tm (do_timer_op now op tm)"
proof -
  obtain k due period where op: "op = OpQueue k due period" "0 < due" using assms(2) by (auto simp: later_op_def)
  define u where "u = tm_uid tm"
  define tm1 where "tm1 = tm\<lparr>tm_data := (tm_data tm)(u := mk_timer_event (Some k) (now + due) period), tm_uid := u + 1\<rparr>"
  have fresh: "u \<notin> set (tm_queue tm)" using assms(1) by (auto simp: timer_ok_def u_def)
  have same: "timer_ok tm1" "due_set now tm1 = due_set now tm" "idle_rounds now tm1 = idle_rounds now tm"
  proof -
    have "timer_ok (tm\<lparr>tm_data := (tm_data tm)(u := mk_timer_event (Some k) (now + due) period)\<rparr>)"
      using data_outside(1) [OF fresh] assms(1) by blast
    then show "timer_ok tm1" by (auto simp: timer_ok_def tm1_def te_key_def [abs_def] u_def)
    show "due_set now tm1 = due_set now tm" "idle_rounds now tm1 = idle_rounds now tm"
      using fresh by (auto simp: tm1_def intro!: due_set_cong)
  qed
  have new: "tm_data tm1 u = mk_timer_event (Some k) (now + due) period" "u < tm_uid tm1" "u \<notin> set (tm_queue tm1)"
    using fresh by (simp_all add: tm1_def)
  have "event_dues now tm1 u = []" using op(2) new(1) by (intro event_dues_later) (simp add: mk_timer_event_def)
  then have "due_set now (tm_push u tm1) = due_set now tm" "idle_rounds now (tm_push u tm1) = idle_rounds now tm"
    using same new(1) by (simp_all add: tm_push_due mk_timer_event_def)
  moreover have "timer_ok (tm_push u tm1)" using same(1) new by (intro tm_push_ok) (auto simp: mk_timer_event_def)
  moreover have "do_timer_op now op tm = tm_push u tm1 \<or> (\<exists>x. do_timer_op now op tm = (tm_push u tm1)\<lparr>tm_next_timer := x\<rparr>)"
    by (auto simp: op QueueCallback_def QueueEvent_def Let_def u_def tm1_def)
  moreover have "\<forall>v < tm_uid tm. tm_data (tm_push u tm1) v = tm_data tm v"
    "\<forall>v \<in> set (tm_queue (tm_push u tm1)). v < tm_uid tm \<longrightarrow> v \<in> set (tm_queue tm)" "tm_uid tm \<le> tm_uid (tm_push u tm1)"
    by (auto simp: tm1_def u_def)
  ultimately show ?thesis by (auto simp: grows_def)
qed

lemma grows_trans: "grows now tm tm1 \<Longrightarrow> grows now tm1 tm2 \<Longrightarrow> grows now tm tm2"
  by (auto simp: grows_def)

lemma later_ops_grow:
  "timer_ok tm \<Longrightarrow> \<forall>op \<in> set ops. later_op op \<Longrightarrow> grows now tm (fold (do_timer_op now) ops tm)"
proof (induction ops arbitrary: tm)
  case Nil
  then show ?case by (simp add: grows_def)
next
  case (Cons op ops)
  then have "grows now tm (do_timer_op now op tm)" by (intro later_op_grows) auto
  moreover from this have "grows now (do_timer_op now op tm) (fold (do_timer_op now) ops (do_timer_op now op tm))"
    using Cons by (intro Cons.IH) (auto simp: grows_def)
  ultimately show ?case by (auto intro: grows_trans)
qed

end
