(* ===== verification/Timers_Props.thy ===== *)
theory Timers_Props
  imports Timers
begin

text \<open>
  One run of the timer queue at a standing clock: the events that are due run in the order of their times.
\<close>

section \<open>One round of the loop\<close>

text \<open>The first event of the queue comes before everything else that is due.\<close>

lemma due_set_first:
  assumes "timer_ok tm" and "tm_queue tm = u # q" and "y \<in># due_set now tm"
  shows "te_key tm u \<le> (fst y, fst (snd y))"
proof -
  obtain t v k where y: "y = (t, v, k)" by (cases y)
  from assms(3) obtain w where w: "w \<in> set (u # q)" "(t, v, k) \<in> set (event_dues now tm w)"
    by (auto simp: due_set_def assms(2) y)
  have "te_key tm u \<le> te_key tm w" using timer_okD(4) [OF assms(1,2) w(1)] .
  also have "\<dots> \<le> (t, v)" using event_dues_key [OF w(2)] by blast
  finally show ?thesis by (simp add: y)
qed

lemma due_set_inj: "inj_on (\<lambda>(t, u, k). (t, u)) (set_mset (due_set now tm))"
proof (rule inj_onI)
  fix x y assume "x \<in> set_mset (due_set now tm)" "y \<in> set_mset (due_set now tm)" "(case x of (t, u, k) \<Rightarrow> (t, u)) = (case y of (t, u, k) \<Rightarrow> (t, u))"
  then show "x = y" by (cases x; cases y) (auto simp: due_set_def dest!: event_dues_key)
qed

lemma none_due:
  assumes "timer_ok tm" and "tm_queue tm = u # q" and "now < tv_next (tm_data tm u)"
  shows "due_set now tm = {#}" and "v \<in> set (tm_queue tm) \<Longrightarrow> now < tv_next (tm_data tm v)"
proof -
  show later: "now < tv_next (tm_data tm v)" if "v \<in> set (tm_queue tm)" for v
    using timer_okD(4) [OF assms(1,2), of v] that assms(2,3) by (auto simp: te_key_def)
  then show "due_set now tm = {#}" by (auto simp: due_set_def event_dues_later)
qed

lemma agenda_empty: "due_set now tm = {#} \<Longrightarrow> agenda now tm = []"
proof -
  assume "due_set now tm = {#}"
  then have "concat (map (event_dues now tm) (tm_queue tm)) = []" using mset_agenda [of now tm] by (simp only: mset_zero_iff)
  then show ?thesis by (simp only: agenda_def sort_key_simps)
qed

lemma agenda_cong:
  assumes "due_set now tm1 = due_set now tm"
  shows "agenda now tm = agenda now tm1"
  unfolding agenda_def
proof (rule sort_key_inj_key_eq)
  let ?key = "\<lambda>(t, u, k). (t, u :: nat)" and ?l = "\<lambda>tm. concat (map (event_dues now tm) (tm_queue tm))"
  show "mset (?l tm) = mset (sort_key ?key (?l tm1))" using assms by (simp only: mset_sort mset_agenda)
  show "inj_on ?key (set (?l tm))" using due_set_inj [of now tm] mset_agenda [of now tm] by (metis set_mset_mset)
  show "sorted (map ?key (sort_key ?key (?l tm1)))" by (rule sorted_sort_key)
qed

text \<open>A stopped event is dropped.\<close>

lemma drop_stopped:
  assumes "timer_ok tm" and "tm_queue tm = u # q" and "tv_next (tm_data tm u) \<le> now" and "tv_stopped (tm_data tm u)"
  shows "\<exists>tm'. te_Run cb now u (tm\<lparr>tm_queue := q\<rparr>) = Inr ([], tm') \<and> timer_ok tm' \<and> tv_period (tm_data tm' u) = 0
    \<and> due_set now tm' = due_set now tm \<and> idle_rounds now tm = Suc (idle_rounds now tm')"
proof -
  let ?tm = "tm\<lparr>tm_queue := q\<rparr>"
  have u: "u \<notin> set (tm_queue ?tm)" and ok: "timer_ok ?tm" using timer_okD(1,5) [OF assms(1,2)] by simp_all
  have "due_set now ?tm = due_set now tm" using assms(4) by (simp add: due_set_def assms(2) event_dues_def)
  moreover have "idle_rounds now tm = Suc (idle_rounds now ?tm)" using assms(3,4) by (simp add: idle_rounds_def assms(2))
  ultimately show ?thesis
    using assms(4) ok data_outside [OF u] by (simp add: te_Run_def Let_def)
qed

text \<open>An event runs, and is queued again if it is periodic.\<close>

lemma run_event:
  assumes "timer_ok tm" and "tm_queue tm = u # q" and "tv_next (tm_data tm u) \<le> now" and "\<not> tv_stopped (tm_data tm u)"
    and "\<forall>k. \<forall>op \<in> set (cb k). later_op op"
  shows "\<exists>k tm' tm''. te_Run cb now u (tm\<lparr>tm_queue := q\<rparr>) = Inr ([(tv_next (tm_data tm u), u, k)], tm')
    \<and> tm'' = (if 0 < tv_period (tm_data tm' u) then tm_push u tm' else tm') \<and> timer_ok tm''
    \<and> due_set now tm = add_mset (tv_next (tm_data tm u), u, k) (due_set now tm'') \<and> idle_rounds now tm'' = idle_rounds now tm"
proof -
  let ?te = "tm_data tm u" and ?tm = "tm\<lparr>tm_queue := q\<rparr>"
  obtain k where k: "tv_callback ?te = Some k" using timer_okD(3) [OF assms(1,2)] assms(4) by auto
  define te' where "te' = ?te\<lparr>tv_next := tv_next ?te + tv_period ?te, tv_stopped := (tv_period ?te = 0)\<rparr>"
  define tm1 where "tm1 = ?tm\<lparr>tm_data := (tm_data ?tm)(u := te')\<rparr>"
  define tm' where "tm' = fold (do_timer_op now) (cb k) tm1"
  have u: "u \<notin> set (tm_queue ?tm)" "u < tm_uid tm" and ok: "timer_ok ?tm" using timer_okD(1,2,5) [OF assms(1,2)] by simp_all
  have "timer_ok tm1" "due_set now tm1 = due_set now ?tm" "idle_rounds now tm1 = idle_rounds now ?tm"
    using ok data_outside [OF u(1)] by (simp_all add: tm1_def)
  moreover from this have grow: "grows now tm1 tm'" using assms(5) by (simp add: tm'_def later_ops_grow)
  ultimately have same: "timer_ok tm'" "due_set now tm' = due_set now ?tm" "idle_rounds now tm' = idle_rounds now ?tm"
    by (auto simp: grows_def)
  have "u < tm_uid tm1" "tm_uid tm1 \<le> tm_uid tm'" using u(2) grow by (auto simp: tm1_def grows_def)
  then have still: "tm_data tm' u = te'" "u < tm_uid tm'" "u \<notin> set (tm_queue tm')"
    using grow u(1) by (auto simp: grows_def tm1_def)
  have old: "due_set now tm = mset (event_dues now tm u) + due_set now ?tm" "idle_rounds now tm = idle_rounds now ?tm"
    using assms(4) by (auto simp: due_set_def idle_rounds_def assms(2) event_dues_def)
  have first: "event_dues now tm u = (tv_next ?te, u, k) # (if 0 < tv_period ?te then event_dues now tm' u else [])"
    using assms(3,4) k by (subst (1) event_dues_def) (simp add: still(1) te'_def event_dues_def Let_def dues.simps [of now "tv_next ?te"])
  have run: "te_Run cb now u ?tm = Inr ([(tv_next ?te, u, k)], tm')"
    using assms(4) k by (simp add: te_Run_def tm'_def tm1_def te'_def Let_def)
  let ?tm2 = "if 0 < tv_period (tm_data tm' u) then tm_push u tm' else tm'"
  have period: "tv_period (tm_data tm' u) = tv_period ?te" by (simp add: still(1) te'_def)
  have "timer_ok ?tm2" using same(1) still k by (auto intro!: tm_push_ok simp: te'_def)
  moreover have "due_set now tm = add_mset (tv_next ?te, u, k) (due_set now ?tm2)"
    using old(1) first same(2) by (auto simp: period tm_push_due)
  moreover have "idle_rounds now ?tm2 = idle_rounds now tm"
    using old(2) same(3) by (auto simp: tm_push_due still(1) te'_def)
  ultimately show ?thesis using run by blast
qed

section \<open>The whole run\<close>

lemma run_agenda:
  assumes "timer_ok tm" and "\<forall>k. \<forall>op \<in> set (cb k). later_op op" and "size (due_set now tm) + idle_rounds now tm < n"
  shows "\<exists>tm' next. Timer_Run n cb (\<lambda>_. now) i tm = Inr (agenda now tm, tm', next)
    \<and> timer_ok tm' \<and> (\<forall>u \<in> set (tm_queue tm'). now < tv_next (tm_data tm' u))
    \<and> next = (case tm_queue tm' of [] \<Rightarrow> -1 | u # _ \<Rightarrow> signed_take_bit 31 (tv_next (tm_data tm' u) - now))"
  using assms(1,3)
proof (induction n arbitrary: tm i)
  case 0
  then show ?case by simp
next
  case (Suc n)
  show ?case
  proof (cases "tm_queue tm")
    case Nil
    then show ?thesis using Suc.prems by (simp add: agenda_def)
  next
    case (Cons u q)
    note ok = Suc.prems(1)
    show ?thesis
    proof (cases "tv_next (tm_data tm u) \<le> now")
      case False
      then have "due_set now tm = {#}" and "\<forall>v \<in> set (tm_queue tm). now < tv_next (tm_data tm v)"
        using none_due [OF ok Cons, of now] by simp_all
      then show ?thesis using False Cons ok by (simp add: agenda_empty)
    next
      case due: True
      show ?thesis
      proof (cases "tv_stopped (tm_data tm u)")
        case True
        from drop_stopped [OF ok Cons due True, of cb] obtain tm1 where
          1: "te_Run cb now u (tm\<lparr>tm_queue := q\<rparr>) = Inr ([], tm1)" "timer_ok tm1" "tv_period (tm_data tm1 u) = 0"
            "due_set now tm1 = due_set now tm" "idle_rounds now tm = Suc (idle_rounds now tm1)" by blast
        have "agenda now tm = agenda now tm1" using 1(4) by (rule agenda_cong)
        moreover obtain tm' nxt where "Timer_Run n cb (\<lambda>_. now) (i + 2) tm1 = Inr (agenda now tm1, tm', nxt)" "timer_ok tm'"
          "\<forall>u \<in> set (tm_queue tm'). now < tv_next (tm_data tm' u)"
          "nxt = (case tm_queue tm' of [] \<Rightarrow> -1 | u # _ \<Rightarrow> signed_take_bit 31 (tv_next (tm_data tm' u) - now))"
          using Suc.IH [of tm1 "i + 2"] 1(2,4,5) Suc.prems(2) by auto
        ultimately show ?thesis using Cons due 1(1,3) by simp
      next
        case False
        from run_event [OF ok Cons due False assms(2)] obtain k tm1 tm2 where
          2: "te_Run cb now u (tm\<lparr>tm_queue := q\<rparr>) = Inr ([(tv_next (tm_data tm u), u, k)], tm1)"
            "tm2 = (if 0 < tv_period (tm_data tm1 u) then tm_push u tm1 else tm1)" "timer_ok tm2"
            "due_set now tm = add_mset (tv_next (tm_data tm u), u, k) (due_set now tm2)" "idle_rounds now tm2 = idle_rounds now tm"
          by blast
        have "agenda now tm = (tv_next (tm_data tm u), u, k) # agenda now tm2"
          using due_set_first [OF ok Cons] by (intro agenda_eq 2(4) due_set_inj) (simp add: te_key_def)
        moreover obtain tm' nxt where "Timer_Run n cb (\<lambda>_. now) (i + 2) tm2 = Inr (agenda now tm2, tm', nxt)" "timer_ok tm'"
          "\<forall>u \<in> set (tm_queue tm'). now < tv_next (tm_data tm' u)"
          "nxt = (case tm_queue tm' of [] \<Rightarrow> -1 | u # _ \<Rightarrow> signed_take_bit 31 (tv_next (tm_data tm' u) - now))"
          using Suc.IH [of tm2 "i + 2"] 2(3,4,5) Suc.prems(2) by auto
        ultimately show ?thesis using Cons due 2(1,2) by simp
      qed
    qed
  qed
qed


text \<open>Every timer that the program builds is well formed.\<close>

inductive timer_reachable :: "'k timer \<Rightarrow> bool" where
  start: "timer_reachable mk_timer"
| queue: "timer_reachable tm \<Longrightarrow> timer_reachable (snd (QueueCallback now k due period tm))"
| stop: "timer_reachable tm \<Longrightarrow> timer_reachable (StopEvent u tm)"
| virtual: "timer_reachable tm \<Longrightarrow> timer_reachable (UseVirtualTime tm)"
| real: "timer_reachable tm \<Longrightarrow> timer_reachable (UseRealTime tm)"
| run: "timer_reachable tm \<Longrightarrow> Timer_Run n cb clock i tm = Inr (outs, tm', nxt) \<Longrightarrow> timer_reachable tm'"


definition keeps :: "'k timer \<Rightarrow> 'k timer \<Rightarrow> bool" where
  "keeps tm tm' \<longleftrightarrow> timer_ok tm' \<and> tm_uid tm \<le> tm_uid tm'
     \<and> (\<forall>v < tm_uid tm. tv_callback (tm_data tm' v) = tv_callback (tm_data tm v))
     \<and> (\<forall>v \<in> set (tm_queue tm'). v < tm_uid tm \<longrightarrow> v \<in> set (tm_queue tm))"

lemma keeps_trans: "keeps tm tm1 \<Longrightarrow> keeps tm1 tm2 \<Longrightarrow> keeps tm tm2"
  by (auto simp: keeps_def)

lemma StopEvent_keeps:
  assumes "timer_ok tm"
  shows "keeps tm (StopEvent u tm)"
proof -
  have "te_key (StopEvent u tm) = te_key tm" by (auto simp: te_key_def StopEvent_def)
  then show ?thesis using assms by (auto simp: keeps_def timer_ok_def StopEvent_def)
qed

lemma QueueCallback_keeps:
  assumes "timer_ok tm"
  shows "keeps tm (snd (QueueCallback now k due period tm))"
proof -
  define u where "u = tm_uid tm"
  define tm0 where "tm0 = tm\<lparr>tm_data := (tm_data tm)(u := mk_timer_event (Some k) (now + due) period)\<rparr>"
  define tm1 where "tm1 = tm0\<lparr>tm_uid := u + 1\<rparr>"
  have fresh: "u \<notin> set (tm_queue tm)" using assms by (auto simp: timer_ok_def u_def)
  then have "timer_ok tm0" using data_outside(1) [OF fresh] assms by (simp add: tm0_def)
  then have ok: "timer_ok tm1" by (auto simp: timer_ok_def tm1_def te_key_def [abs_def] tm0_def u_def)
  have new: "tm_data tm1 u = mk_timer_event (Some k) (now + due) period" "u < tm_uid tm1" "u \<notin> set (tm_queue tm1)"
    using fresh by (simp_all add: tm1_def tm0_def)
  have "timer_ok (tm_push u tm1)" using ok new by (intro tm_push_ok) (auto simp: mk_timer_event_def)
  then have "keeps tm (tm_push u tm1)" by (auto simp: keeps_def tm1_def tm0_def u_def)
  moreover have "snd (QueueCallback now k due period tm) = tm_push u tm1
      \<or> (\<exists>x. snd (QueueCallback now k due period tm) = (tm_push u tm1)\<lparr>tm_next_timer := x\<rparr>)"
    by (auto simp: QueueCallback_def QueueEvent_def Let_def u_def tm1_def tm0_def)
  ultimately show ?thesis by (auto simp: keeps_def)
qed

lemma ops_keep: "timer_ok tm \<Longrightarrow> keeps tm (fold (do_timer_op now) ops tm)"
proof (induction ops arbitrary: tm)
  case Nil
  then show ?case by (simp add: keeps_def)
next
  case (Cons op ops)
  then have "keeps tm (do_timer_op now op tm)"
    by (cases op) (auto simp: StopEvent_keeps QueueCallback_keeps)
  moreover from this have "keeps (do_timer_op now op tm) (fold (do_timer_op now) ops (do_timer_op now op tm))"
    by (intro Cons.IH) (auto simp: keeps_def)
  ultimately show ?case by (auto intro: keeps_trans)
qed

lemma te_Run_ok:
  assumes "timer_ok tm" and "tm_queue tm = u # q"
  shows "\<exists>outs tm'. te_Run cb now u (tm\<lparr>tm_queue := q\<rparr>) = Inr (outs, tm')
    \<and> timer_ok tm' \<and> timer_ok (tm_push u tm') \<and> (\<forall>(t, v, k) \<in> set outs. v = u \<and> t = tv_next (tm_data tm u) \<and> \<not> tv_stopped (tm_data tm u))"
proof -
  let ?te = "tm_data tm u" and ?tm = "tm\<lparr>tm_queue := q\<rparr>"
  have u: "u \<notin> set (tm_queue ?tm)" "u < tm_uid ?tm" "tv_stopped ?te \<or> tv_callback ?te \<noteq> None" and ok: "timer_ok ?tm"
    using timer_okD(1-3,5) [OF assms] by simp_all
  show ?thesis
  proof (cases "tv_stopped ?te")
    case True
    let ?tm' = "?tm\<lparr>tm_data := (tm_data ?tm)(u := ?te\<lparr>tv_period := 0\<rparr>)\<rparr>"
    have "timer_ok ?tm'" using ok data_outside(1) [OF u(1)] by blast
    moreover from this have "timer_ok (tm_push u ?tm')" using u True by (intro tm_push_ok) auto
    ultimately show ?thesis using True by (simp add: te_Run_def Let_def)
  next
    case False
    then obtain k where k: "tv_callback ?te = Some k" using u(3) by auto
    define te' where "te' = ?te\<lparr>tv_next := tv_next ?te + tv_period ?te, tv_stopped := (tv_period ?te = 0)\<rparr>"
    define tm1 where "tm1 = ?tm\<lparr>tm_data := (tm_data ?tm)(u := te')\<rparr>"
    define tm' where "tm' = fold (do_timer_op now) (cb k) tm1"
    have "timer_ok tm1" using ok data_outside(1) [OF u(1)] by (simp add: tm1_def)
    then have keep: "keeps tm1 tm'" by (simp add: tm'_def ops_keep)
    have "u < tm_uid tm1" "tm_uid tm1 \<le> tm_uid tm'" using u(2) keep by (auto simp: tm1_def keeps_def)
    then have "tv_callback (tm_data tm' u) = Some k" "u < tm_uid tm'" "u \<notin> set (tm_queue tm')"
      using keep u(1) k by (auto simp: keeps_def tm1_def te'_def)
    then have "timer_ok (tm_push u tm')" using keep by (intro tm_push_ok) (auto simp: keeps_def)
    then show ?thesis using False k keep by (simp add: te_Run_def Let_def tm'_def tm1_def te'_def keeps_def)
  qed
qed

lemma Timer_Run_ok:
  "timer_ok tm \<Longrightarrow> Timer_Run n cb clock i tm = Inr (outs, tm', nxt) \<Longrightarrow> timer_ok tm'"
proof (induction n arbitrary: i tm outs)
  case (Suc n)
  show ?case
  proof (cases "tm_queue tm")
    case (Cons u q)
    from te_Run_ok [OF Suc.prems(1) this, of cb "clock (i + 1)"] show ?thesis
      using Suc.prems Cons Suc.IH by (auto simp: fault_simps Let_def split: if_splits)
  qed (use Suc.prems in auto)
qed simp

lemma timer_reachable_ok: "timer_reachable tm \<Longrightarrow> timer_ok tm"
proof (induction rule: timer_reachable.induct)
  case start
  show ?case by (simp add: mk_timer_def timer_ok_def)
next
  case (queue tm now k due period)
  then show ?case using QueueCallback_keeps [of tm now k due period] by (simp add: keeps_def)
next
  case (stop tm u)
  then show ?case using StopEvent_keeps [of tm u] by (simp add: keeps_def)
next
  case (run tm n cb clock i outs tm' nxt)
  then show ?case using Timer_Run_ok by blast
qed (auto simp: UseVirtualTime_def UseRealTime_def Clear_def timer_ok_def)

section \<open>Properties\<close>

text \<open>
  C34.  While the clock stands still and the callbacks queue later events only, a run of the timer queue
  ends.  It invokes the callbacks of exactly the events that are due, a periodic event once for every
  time that has passed, in the order of their times and, at equal times, of their creation; stopped
  events are dropped.  What is left is due later, and the result is the wait for the first of it.
\<close>

theorem timer_runs_agenda:
  assumes "timer_reachable tm" and "\<forall>k. \<forall>op \<in> set (cb k). \<exists>k' due period. op = OpQueue k' due period \<and> 0 < due"
    and "rounds now tm < n"
  shows "\<exists>tm' next. Timer_Run n cb (\<lambda>_. now) 0 tm = Inr (agenda now tm, tm', next)
    \<and> (\<forall>u \<in> set (tm_queue tm'). now < tv_next (tm_data tm' u))
    \<and> (tm_queue tm' = [] \<longrightarrow> next = -1)
    \<and> (\<forall>u \<in> set (tm_queue tm'). tv_next (tm_data tm' (hd (tm_queue tm'))) \<le> tv_next (tm_data tm' u))
    \<and> (tm_queue tm' \<noteq> [] \<longrightarrow> next = signed_take_bit 31 (tv_next (tm_data tm' (hd (tm_queue tm'))) - now))"
proof -
  obtain tm' nxt where *: "Timer_Run n cb (\<lambda>_. now) 0 tm = Inr (agenda now tm, tm', nxt)" "timer_ok tm'"
      "\<forall>u \<in> set (tm_queue tm'). now < tv_next (tm_data tm' u)"
      "nxt = (case tm_queue tm' of [] \<Rightarrow> -1 | u # _ \<Rightarrow> signed_take_bit 31 (tv_next (tm_data tm' u) - now))"
    using run_agenda [OF timer_reachable_ok [OF assms(1)], of cb now n 0] assms(2,3)
    by (auto simp: later_op_def rounds_split)
  have "tv_next (tm_data tm' (hd (tm_queue tm'))) \<le> tv_next (tm_data tm' u)" if "u \<in> set (tm_queue tm')" for u
    using *(2) that by (cases "tm_queue tm'") (auto simp: timer_ok_def te_key_def)
  then show ?thesis using * by (cases "tm_queue tm'") auto
qed

text \<open>An event due once at 5, and one due at 3 and every 4 after it, run at 9.\<close>

definition ex_timer :: "string timer" where
  "ex_timer = snd (QueueCallback 0 ''tick'' 3 4 (snd (QueueCallback 0 ''once'' 5 0 mk_timer)))"

theorem timer_runs_agenda_witness:
  "agenda 9 ex_timer = [(3, 1, ''tick''), (5, 0, ''once''), (7, 1, ''tick'')]
   \<and> (\<exists>tm' next. Timer_Run 4 (\<lambda>_. []) (\<lambda>_. 9) 0 ex_timer = Inr (agenda 9 ex_timer, tm', next))"
proof -
  have reach: "timer_reachable ex_timer"
    unfolding ex_timer_def by (intro timer_reachable.queue timer_reachable.start)
  have ev: "tm_queue ex_timer = [1, 0]" "tm_data ex_timer 1 = mk_timer_event (Some ''tick'') 3 4"
    "tm_data ex_timer 0 = mk_timer_event (Some ''once'') 5 0"
    by (simp_all add: ex_timer_def QueueCallback_def QueueEvent_def mk_timer_def tm_push_def te_key_def mk_timer_event_def Let_def)
  have dues: "event_dues 9 ex_timer 1 = [(3, 1, ''tick''), (7, 1, ''tick'')]" "event_dues 9 ex_timer 0 = [(5, 0, ''once'')]"
    using ev(2,3) by (simp_all add: event_dues_def mk_timer_event_def dues.simps Let_def)
  have "agenda 9 ex_timer = [(3, 1, ''tick''), (5, 0, ''once''), (7, 1, ''tick'')]"
    by (simp add: agenda_def ev(1) dues [unfolded One_nat_def])
  moreover have "rounds 9 ex_timer < 4" by (simp add: rounds_def ev dues mk_timer_event_def flip: One_nat_def)
  ultimately show ?thesis
    using timer_runs_agenda [OF reach, of "\<lambda>_. []" 9 4] by auto
qed

end
