(* ===== verification/Acquirer.thy ===== *)
theory Acquirer
  imports Connections
begin

text \<open>
  Who a node connects to: \<^verbatim>\<open>src/src/ClientServer/ClientConnectionAcquirer.cpp\<close> and
  \<^verbatim>\<open>ServerConnectionAcquirer.cpp\<close>, with their base class in \<^verbatim>\<open>src/src/Connections/ConnectionAcquirer.hpp\<close>.

  An acquirer reacts to the signals of the manager: \<open>cl_signal\<close> and \<open>sv_signal\<close> are the slots it has
  connected.  A call of \<^verbatim>\<open>ConnectTo\<close> can emit the failure of the attempt before it returns, which calls the
  acquirer again; \<open>n\<close> counts these nested calls.  \<open>pick\<close> are the numbers drawn at random.
\<close>

section \<open>State\<close>

record acquirer =
  aq_addrs :: "nat list"
  aq_ids :: "peer list"
  aq_stopped :: bool
  aq_watched :: "nat set"
  aq_outstanding_ids :: "peer set"
  aq_outstanding_addrs :: "nat set"

type_synonym aq_step = "acquirer \<Rightarrow> con_manager \<Rightarrow> fault + (cm_out list \<times> acquirer \<times> con_manager)"

definition aq_skip :: aq_step where
  "aq_skip aq cm = Inr ([], aq, cm)"

definition aq_then :: "aq_step \<Rightarrow> aq_step \<Rightarrow> aq_step" where
  "aq_then f g aq cm = bindS (f aq cm) (\<lambda>(o1, aq, cm). bindS (g aq cm) (\<lambda>(o2, aq, cm). Inr (o1 @ o2, aq, cm)))"

fun aq_each :: "('x \<Rightarrow> aq_step) \<Rightarrow> 'x list \<Rightarrow> aq_step" where
  "aq_each f [] = aq_skip"
| "aq_each f (x # xs) = aq_then (f x) (aq_each f xs)"

definition ClientConnectionAcquirer :: "nat list \<Rightarrow> peer list \<Rightarrow> fault + acquirer" where
  "ClientConnectionAcquirer addrs ids =
     (if addrs \<noteq> [] \<and> ids \<noteq> []
      then Inr \<lparr>aq_addrs = addrs, aq_ids = ids, aq_stopped = False, aq_watched = {}, aq_outstanding_ids = {}, aq_outstanding_addrs = {}\<rparr>
      else Inl Fatal)"

definition ServerConnectionAcquirer :: "nat list \<Rightarrow> peer list \<Rightarrow> fault + acquirer" where
  "ServerConnectionAcquirer addrs ids =
     (if length ids \<le> length addrs \<and> ids \<noteq> []
      then Inr \<lparr>aq_addrs = addrs, aq_ids = ids, aq_stopped = False, aq_watched = {}, aq_outstanding_ids = {}, aq_outstanding_addrs = {}\<rparr>
      else Inl Fatal)"

definition ConnectToDisconnect :: "connection \<Rightarrow> acquirer \<Rightarrow> acquirer" where
  "ConnectToDisconnect con aq = aq\<lparr>aq_watched := insert (con_edge con) (aq_watched aq)\<rparr>"

section \<open>Clients\<close>

text \<open>\<open>failed\<close> is what the failure of an attempt calls; other outputs pass on.\<close>

definition dial_addr :: "(nat \<Rightarrow> bool) \<Rightarrow> (nat \<Rightarrow> aq_step) \<Rightarrow> nat \<Rightarrow> aq_step" where
  "dial_addr can failed addr aq cm =
     bindS (ConnectTo can addr cm) (\<lambda>(outs, cm).
       case outs of
         [SigAttemptFailure a reason] \<Rightarrow> aq_then (\<lambda>aq cm. Inr (outs, aq, cm)) (failed a) aq cm
       | _ \<Rightarrow> Inr (outs, aq, cm))"

definition cl_failed :: "aq_step \<Rightarrow> nat \<Rightarrow> aq_step" where
  "cl_failed attempt addr aq cm =
     (if aq_stopped aq then Inr ([], aq, cm)
      else if addr \<notin> set (aq_addrs aq) then Inr ([], aq, cm)
      else attempt aq cm)"

primrec cl_AttemptConnection :: "nat \<Rightarrow> (nat \<Rightarrow> nat) \<Rightarrow> (nat \<Rightarrow> bool) \<Rightarrow> aq_step" where
  "cl_AttemptConnection 0 pick can aq cm = Inl Loops"
| "cl_AttemptConnection (Suc n) pick can aq cm =
     (if \<exists>(i, con) \<in> set (ct_ids cm). con_remote con \<in> set (aq_ids aq) then Inr ([], aq, cm)
      else if pick n < length (aq_addrs aq)
      then dial_addr can (cl_failed (cl_AttemptConnection n pick can)) (aq_addrs aq ! pick n) aq cm
      else Inl OutOfBounds)"

definition cl_HandleConnection :: "nat \<Rightarrow> (nat \<Rightarrow> nat) \<Rightarrow> (nat \<Rightarrow> bool) \<Rightarrow> connection \<Rightarrow> aq_step" where
  "cl_HandleConnection n pick can con aq cm =
     (if aq_stopped aq then Inr ([], aq, cm)
      else if con_remote con \<in> set (aq_ids aq) then Inr ([], ConnectToDisconnect con aq, cm)
      else cl_AttemptConnection n pick can aq cm)"

definition cl_HandleConnectionAttemptFailure :: "nat \<Rightarrow> (nat \<Rightarrow> nat) \<Rightarrow> (nat \<Rightarrow> bool) \<Rightarrow> nat \<Rightarrow> aq_step" where
  "cl_HandleConnectionAttemptFailure n pick can addr = cl_failed (cl_AttemptConnection n pick can) addr"

definition cl_HandleDisconnection :: "nat \<Rightarrow> (nat \<Rightarrow> nat) \<Rightarrow> (nat \<Rightarrow> bool) \<Rightarrow> aq_step" where
  "cl_HandleDisconnection n pick can aq cm =
     (if aq_stopped aq then Inr ([], aq, cm) else cl_AttemptConnection n pick can aq cm)"

text \<open>The slots: a disconnection is heard of connections that are watched.\<close>

definition cl_signal :: "nat \<Rightarrow> (nat \<Rightarrow> nat) \<Rightarrow> (nat \<Rightarrow> bool) \<Rightarrow> cm_out \<Rightarrow> aq_step" where
  "cl_signal n pick can out aq cm =
     (case out of
        SigNewConnection con \<Rightarrow> cl_HandleConnection n pick can con aq cm
      | SigAttemptFailure addr reason \<Rightarrow> cl_HandleConnectionAttemptFailure n pick can addr aq cm
      | SigConDisconnected con \<Rightarrow>
          if con_edge con \<in> aq_watched aq then cl_HandleDisconnection n pick can aq cm else Inr ([], aq, cm)
      | _ \<Rightarrow> Inr ([], aq, cm))"

section \<open>Servers\<close>

primrec sv_ConnectTo :: "nat \<Rightarrow> (nat \<Rightarrow> bool) \<Rightarrow> nat \<Rightarrow> aq_step" where
  "sv_ConnectTo 0 can addr aq cm = Inl Loops"
| "sv_ConnectTo (Suc n) can addr aq cm =
     dial_addr can (\<lambda>a aq cm.
       if aq_stopped aq then Inr ([], aq, cm)
       else if a \<notin> aq_outstanding_addrs aq then Inr ([], aq, cm)
       else if aq_outstanding_ids aq = {} then Inr ([], aq\<lparr>aq_outstanding_addrs := aq_outstanding_addrs aq - {a}\<rparr>, cm)
       else sv_ConnectTo n can a aq cm) addr aq cm"

definition sv_OnStart :: "nat \<Rightarrow> (nat \<Rightarrow> bool) \<Rightarrow> aq_step" where
  "sv_OnStart n can aq cm =
     aq_each (\<lambda>addr aq cm. sv_ConnectTo n can addr (aq\<lparr>aq_outstanding_addrs := insert addr (aq_outstanding_addrs aq)\<rparr>) cm)
       (aq_addrs aq) (aq\<lparr>aq_outstanding_ids := aq_outstanding_ids aq \<union> (set (aq_ids aq) - {cm_id cm})\<rparr>) cm"

text \<open>\<open>addr\<close>: the persistent address of the edge, which is an attribute of it.\<close>

definition persistent :: "con_manager \<Rightarrow> connection \<Rightarrow> nat" where
  "persistent cm con = (case cm_store cm (con_edge con) of None \<Rightarrow> 0 | Some ed \<Rightarrow> ed_persistent ed)"

definition sv_HandleConnection :: "connection \<Rightarrow> aq_step" where
  "sv_HandleConnection con aq cm =
     (if aq_stopped aq then Inr ([], aq, cm)
      else if con_remote con \<notin> aq_outstanding_ids aq then Inr ([], aq, cm)
      else let aq = ConnectToDisconnect con (aq\<lparr>aq_outstanding_addrs := aq_outstanding_addrs aq - {persistent cm con},
                      aq_outstanding_ids := aq_outstanding_ids aq - {con_remote con}\<rparr>)
        in Inr ([], if aq_outstanding_ids aq = {} then aq\<lparr>aq_outstanding_addrs := {}\<rparr> else aq, cm))"

definition sv_HandleConnectionAttemptFailure :: "nat \<Rightarrow> (nat \<Rightarrow> bool) \<Rightarrow> nat \<Rightarrow> aq_step" where
  "sv_HandleConnectionAttemptFailure n can addr aq cm =
     (if aq_stopped aq then Inr ([], aq, cm)
      else if addr \<notin> aq_outstanding_addrs aq then Inr ([], aq, cm)
      else if aq_outstanding_ids aq = {} then Inr ([], aq\<lparr>aq_outstanding_addrs := aq_outstanding_addrs aq - {addr}\<rparr>, cm)
      else sv_ConnectTo n can addr aq cm)"

definition sv_HandleDisconnection :: "nat \<Rightarrow> (nat \<Rightarrow> bool) \<Rightarrow> connection \<Rightarrow> aq_step" where
  "sv_HandleDisconnection n can con aq cm =
     (if aq_stopped aq then Inr ([], aq, cm)
      else sv_ConnectTo n can (persistent cm con)
             (aq\<lparr>aq_outstanding_ids := insert (con_remote con) (aq_outstanding_ids aq),
                aq_outstanding_addrs := insert (persistent cm con) (aq_outstanding_addrs aq)\<rparr>) cm)"

definition sv_signal :: "nat \<Rightarrow> (nat \<Rightarrow> bool) \<Rightarrow> cm_out \<Rightarrow> aq_step" where
  "sv_signal n can out aq cm =
     (case out of
        SigNewConnection con \<Rightarrow> sv_HandleConnection con aq cm
      | SigAttemptFailure addr reason \<Rightarrow> sv_HandleConnectionAttemptFailure n can addr aq cm
      | SigConDisconnected con \<Rightarrow>
          if con_edge con \<in> aq_watched aq then sv_HandleDisconnection n can con aq cm else Inr ([], aq, cm)
      | _ \<Rightarrow> Inr ([], aq, cm))"

end
