(* ===== verification/Acquirer_Props.thy ===== *)
theory Acquirer_Props
  imports Acquirer Handshake
begin

text \<open>
  What the acquirers miss: the end of an edge that never became a connection is not signalled, so a client
  whose only attempt ends this way never dials again; and an address that no listener can handle makes the
  acquirer call itself without end.
\<close>

section \<open>Outputs an acquirer does not react to\<close>

fun unheard :: "cm_out \<Rightarrow> bool" where
  "unheard (CmSend e m) \<longleftrightarrow> True"
| "unheard (SigConDisconnected con) \<longleftrightarrow> con_edge con = 0"
| "unheard SigDisconnected \<longleftrightarrow> True"
| "unheard _ \<longleftrightarrow> False"

lemma unheard_signal: "unheard out \<Longrightarrow> 0 \<notin> aq_watched aq \<Longrightarrow> cl_signal n pick can out aq cm = Inr ([], aq, cm)"
  by (cases out) (auto simp: cl_signal_def)

text \<open>Only the loopback is left.\<close>

definition stalled :: "con_manager \<Rightarrow> bool" where
  "stalled cm \<longleftrightarrow> cm_inv cm \<and> (ct_edges cm = [] \<or> ct_edges cm = [0] \<and> ct_cons cm 0 = Some \<lparr>con_edge = 0, con_remote = cm_id cm\<rparr>)"

definition stays_stalled :: "fault + (cm_out list \<times> con_manager) \<Rightarrow> bool" where
  "stays_stalled r \<longleftrightarrow> (\<exists>outs cm'. r = Inr (outs, cm') \<and> stalled cm' \<and> (\<forall>out \<in> set outs. unheard out))"

lemma stays_stalled_Inr [simp]: "stays_stalled (Inr (outs, cm)) \<longleftrightarrow> stalled cm \<and> (\<forall>out \<in> set outs. unheard out)"
  by (auto simp: stays_stalled_def)

lemma stalled_inv: "stalled cm \<Longrightarrow> cm_inv cm"
  by (simp add: stalled_def)

lemma stalled_edge: "stalled cm \<Longrightarrow> live cm e \<Longrightarrow> e = 0 \<and> ct_cons cm e \<noteq> None"
  using cm_invD(8) [of cm e] by (auto simp: stalled_def)

lemma stalled_con: "stalled cm \<Longrightarrow> ct_cons cm e = Some con \<Longrightarrow> e = 0 \<and> con_edge con = 0"
  using cm_invD(3,4,7) [of cm] by (fastforce simp: stalled_def)

lemma list_of_one: "distinct xs \<Longrightarrow> set xs \<subseteq> {a} \<Longrightarrow> xs = [] \<or> xs = [a]"
  by (cases xs rule: list.exhaust; cases "tl xs") auto

lemma closes_stalled:
  assumes "stalled cm" and "closes outs cm cm'"
  shows "stalled cm' \<and> (\<forall>out \<in> set outs. unheard out)"
proof -
  note closes = assms(2) [unfolded closes_def]
  have inv: "cm_inv cm'" and cons: "ct_cons cm' = ct_cons cm |` set (ct_edges cm')" using closes by blast+
  have "set (ct_edges cm') \<subseteq> {0}" using closes assms(1) by (auto simp: stalled_def)
  then have "ct_edges cm' = [] \<or> ct_edges cm' = [0] \<and> 0 \<in> set (ct_edges cm)"
    using list_of_one [OF cm_invD(2) [OF inv]] closes by fastforce
  then have "stalled cm'" using assms(1) inv cons closes by (auto simp: stalled_def restrict_map_def)
  moreover have "unheard out" if "out \<in> set outs" for out
  proof (cases out)
    case (SigConDisconnected con)
    with that closes have "\<exists>e. ct_cons cm e = Some con" by blast
    then show ?thesis using stalled_con [OF assms(1)] SigConDisconnected by auto
  qed (use that closes in fastforce)+
  ultimately show ?thesis by blast
qed

lemma stalled_from: "stalled cm \<Longrightarrow> live cm e \<Longrightarrow> ct_cons cm e \<noteq> None"
  using stalled_edge [of cm e] by blast

text \<open>Events other than a new edge, an attempt to connect and the answer to one.\<close>

fun later_event :: "cm_event \<Rightarrow> bool" where
  "later_event (EvNewEdge listen e ed) \<longleftrightarrow> False"
| "later_event (EvConnectTo addr) \<longleftrightarrow> False"
| "later_event (EvCreationFailure addr reason) \<longleftrightarrow> False"
| "later_event _ \<longleftrightarrow> True"

lemma stalled_stopped: "stalled (cm\<lparr>cm_stopped := b\<rparr>) = stalled cm"
  by (simp add: stalled_def cm_ok)

lemma stalled_step:
  assumes "stalled cm" and "cm_enabled ev cm" and "later_event ev"
  shows "stays_stalled (cm_event_step (Suc n) V can ev cm)"
proof (cases ev)
  case (EvEdgeCheck now heard)
  then show ?thesis using EdgeCheck_closes [OF stalled_inv [OF assms(1)], of n now heard] closes_stalled [OF assms(1)]
    by (auto simp: stays_stalled_def)
next
  case (EvConDisconnect con)
  then show ?thesis using con_Disconnect_known [OF stalled_inv [OF assms(1)], of con n] closes_stalled [OF assms(1)] assms(2)
    by (auto simp: stays_stalled_def)
next
  case (EvEdgeStopped e)
  then show ?thesis using edge_Stop_known [OF stalled_inv [OF assms(1)], of e n] closes_stalled [OF assms(1)] assms(2)
    by (auto simp: stays_stalled_def simp del: edge_Stop.simps)
next
  case (EvDisconnect src)
  show ?thesis
  proof (cases src)
    case (FromConnection con)
    then show ?thesis using EvDisconnect edge_Stop_known [OF stalled_inv [OF assms(1)], of "con_edge con" n] closes_stalled [OF assms(1)] assms(2)
      by (auto simp: stays_stalled_def Disconnect_eq [OF stalled_inv [OF assms(1)]] simp del: edge_Stop.simps)
  qed (use EvDisconnect assms in \<open>simp_all add: Disconnect_def\<close>)
next
  case EvStop
  show ?thesis
  proof (cases "cm_stopped cm")
    case False
    let ?cm = "cm\<lparr>cm_stopped := True\<rparr>"
    have st: "stalled ?cm" using assms(1) by (simp add: stalled_stopped)
    obtain outs cm' where *: "OnStop (Suc n) ?cm = Inr (outs, cm')" "cm_inv cm'" "ct_edges cm' = []"
        "\<forall>con. SigConDisconnected con \<in> set outs \<longleftrightarrow> (\<exists>i. map_of (ct_ids ?cm) i = Some con)" "\<forall>out \<in> set outs. closing_out out"
      using OnStop_closes [OF stalled_inv [OF st], of n] by auto
    have "unheard out" if "out \<in> set outs" for out
    proof (cases out)
      case (SigConDisconnected con)
      with that *(4) obtain i where "map_of (ct_ids cm) i = Some con" by auto
      then show ?thesis using cm_invD(6) [OF stalled_inv [OF assms(1)]] stalled_con [OF assms(1)] SigConDisconnected by auto
    qed (use that *(5) in fastforce)+
    then show ?thesis using EvStop False * by (simp add: StopManager_def stalled_def)
  qed (use EvStop assms in \<open>simp add: StopManager_def\<close>)
next
  case (EvInquire src b p v)
  then show ?thesis using assms by (cases src) (auto dest: stalled_from simp: Inquire_def refuse_def)
next
  case (EvInquired src b)
  then show ?thesis using assms by (cases src) (auto dest: stalled_from simp: Inquired_def)
next
  case (EvConnect src b)
  then show ?thesis using assms by (cases src) (auto dest: stalled_from simp: Connect_def)
next
  case (EvClose src)
  then show ?thesis using assms by (cases src) (auto dest: stalled_from simp: Close_def)
next
  case (EvPing src data)
  then show ?thesis using assms by (cases src) (auto simp: HandlePingRequest_def)
qed (use assms(3) in simp_all)


text \<open>A run of events with the outputs it makes.\<close>

inductive cm_run :: "nat \<Rightarrow> qvs \<Rightarrow> (nat \<Rightarrow> bool) \<Rightarrow> con_manager \<Rightarrow> cm_event list \<Rightarrow> cm_out list \<Rightarrow> con_manager \<Rightarrow> bool" for n V can where
  nil: "cm_run n V can cm [] [] cm"
| cons: "cm_enabled ev cm \<Longrightarrow> cm_event_step n V can ev cm = Inr (o1, cm1) \<Longrightarrow> cm_run n V can cm1 evs o2 cm2 \<Longrightarrow>
    cm_run n V can cm (ev # evs) (o1 @ o2) cm2"

lemma stalled_run:
  "cm_run (Suc n) V can cm evs outs cm' \<Longrightarrow> stalled cm \<Longrightarrow> \<forall>ev \<in> set evs. later_event ev \<Longrightarrow>
   stalled cm' \<and> (\<forall>out \<in> set outs. unheard out)"
proof (induction rule: cm_run.induct)
  case (cons ev cm o1 cm1 evs o2 cm2)
  then show ?case using stalled_step [of cm ev n V can] by auto
qed simp

text \<open>
  The events that end an edge before it is a connection: the other side closes it, its socket ends, or it
  was silent for too long.
\<close>

fun ends_edge :: "nat \<Rightarrow> cm_event \<Rightarrow> bool" where
  "ends_edge e (EvClose from) \<longleftrightarrow> from = FromEdge e"
| "ends_edge e (EvEdgeStopped e') \<longleftrightarrow> e' = e"
| "ends_edge e (EvEdgeCheck now heard) \<longleftrightarrow> heard e < now - 60000"
| "ends_edge e _ \<longleftrightarrow> False"

lemma edge_ends:
  assumes "cm_inv cm" and "set (ct_edges cm) = {0, e}" and "ct_cons cm 0 = Some \<lparr>con_edge = 0, con_remote = cm_id cm\<rparr>"
    and "ct_cons cm e = None" and "ends_edge e ev"
  shows "\<exists>outs cm'. cm_event_step (Suc n) V can ev cm = Inr (outs, cm') \<and> closes outs cm cm' \<and> ct_edges cm' = [0]"
proof -
  have e: "e \<noteq> 0" "e \<in> dom (cm_store cm)" using assms(2-4) edges_known [OF assms(1)] by auto
  have one: "ct_edges cm' = [0]" if "closes outs cm cm'" "set (ct_edges cm') = {0}" for outs cm'
  proof -
    have "cm_inv cm'" using that(1) unfolding closes_def by blast
    then have "ct_edges cm' = [] \<or> ct_edges cm' = [0]" by (intro list_of_one) (simp_all add: cm_invD(2) that(2))
    then show ?thesis using that(2) by (elim disjE) simp_all
  qed
  obtain outs cm' where stop: "edge_Stop (Suc n) e cm = Inr (outs, cm')" "closes outs cm cm'" "set (ct_edges cm') = set (ct_edges cm) - {e}"
    using edge_Stop_known [OF assms(1) e(2), of n] by blast
  have "set (ct_edges cm') = {0}" using stop(3) assms(2) e(1) by auto
  with one [OF stop(2)] have left: "ct_edges cm' = [0]" .
  show ?thesis
  proof (cases ev)
    case (EvEdgeCheck now heard)
    have "{e' \<in> {0, e}. \<not> too_old cm now heard e'} = {0}"
      using EvEdgeCheck assms(3-5) by (auto simp: too_old_def)
    then show ?thesis using EdgeCheck_closes [OF assms(1), of n now heard] one assms(2) EvEdgeCheck by auto
  qed (use assms(5) stop(1,2) left in \<open>auto simp: Close_def simp del: edge_Stop.simps\<close>)
qed

section \<open>Addresses that no listener handles\<close>

lemma ConnectTo_fails:
  assumes "\<not> cm_stopped cm" and "addr \<notin> cm_active cm" and "addr \<notin> cm_outstanding cm" and "\<not> can addr"
  shows "ConnectTo can addr cm = Inr ([SigAttemptFailure addr ''No EdgeListener to handle request''], cm)"
  using assms by (simp add: ConnectTo_def Let_def)

lemma AttemptConnection_loops:
  assumes "\<not> cm_stopped cm" and "\<not> aq_stopped aq" and "\<forall>i. pick i < length (aq_addrs aq)"
    and "\<forall>addr \<in> set (aq_addrs aq). \<not> can addr \<and> addr \<notin> cm_active cm \<and> addr \<notin> cm_outstanding cm"
    and "\<forall>(i, con) \<in> set (ct_ids cm). con_remote con \<notin> set (aq_ids aq)"
  shows "cl_AttemptConnection n pick can aq cm = Inl Loops"
proof (induction n)
  case (Suc n)
  have "aq_addrs aq ! pick n \<in> set (aq_addrs aq)" using assms(3) by simp
  then show ?case using Suc assms
    by (auto simp: dial_addr_def ConnectTo_fails cl_failed_def aq_then_def)
qed simp

lemma sv_ConnectTo_loops:
  assumes "\<not> cm_stopped cm" and "\<not> aq_stopped aq" and "addr \<in> aq_outstanding_addrs aq" and "aq_outstanding_ids aq \<noteq> {}"
    and "\<not> can addr" and "addr \<notin> cm_active cm" and "addr \<notin> cm_outstanding cm"
  shows "sv_ConnectTo n can addr aq cm = Inl Loops"
proof (induction n)
  case (Suc n)
  then show ?case using assms by (simp add: dial_addr_def ConnectTo_fails aq_then_def)
qed simp


lemma OnStart_loops:
  assumes "\<not> cm_stopped cm" and "\<not> aq_stopped aq" and "aq_addrs aq = addr # rest"
    and "\<not> can addr" and "addr \<notin> cm_active cm" and "addr \<notin> cm_outstanding cm" and "set (aq_ids aq) - {cm_id cm} \<noteq> {}"
  shows "sv_OnStart n can aq cm = Inl Loops"
proof -
  let ?aq = "aq\<lparr>aq_outstanding_ids := aq_outstanding_ids aq \<union> (set (aq_ids aq) - {cm_id cm}),
    aq_outstanding_addrs := insert addr (aq_outstanding_addrs aq)\<rparr>"
  have "sv_ConnectTo n can addr ?aq cm = Inl Loops"
    by (rule sv_ConnectTo_loops) (use assms in auto)
  then show ?thesis using assms(3) by (simp add: sv_OnStart_def aq_then_def)
qed

section \<open>Properties\<close>

text \<open>
  C35.  An attempt that is lost before it is a connection is lost for good.  If a client's only edge is the one it has
  dialled, and that edge ends before the handshake has made a connection of it, because the other side
  closed it, the socket ended or it was silent for a minute, then no signal reaches the acquirer: in no
  later run of events, short of a connection from outside, is another edge asked for, and the client
  stays without a connection to any other node.
\<close>

theorem lost_attempt_unnoticed:
  assumes "cm_reachable V can cm" and "set (ct_edges cm) = {0, e}"
    and "GetConnectionOf cm 0 = Some \<lparr>con_edge = 0, con_remote = cm_id cm\<rparr>" and "GetConnectionOf cm e = None"
    and "ends_edge e ev" and "\<forall>ev \<in> set evs. later_event ev" and "cm_run (Suc n) V can cm (ev # evs) outs cm'"
  shows "(\<forall>addr. CreateEdgeTo addr \<notin> set outs)
    \<and> (\<forall>out \<in> set outs. \<forall>m pick aq cm''. 0 \<notin> aq_watched aq \<longrightarrow> cl_signal m pick can out aq cm'' = Inr ([], aq, cm''))
    \<and> (\<forall>i. GetConnection cm' i \<noteq> None \<longrightarrow> i = cm_id cm')"
proof -
  note inv = reachable_inv [OF assms(1)]
  have cons: "ct_cons cm 0 = Some \<lparr>con_edge = 0, con_remote = cm_id cm\<rparr>" "ct_cons cm e = None"
    using assms(3,4) by (simp_all add: GetConnectionOf_def)
  obtain o1 cm1 where 1: "cm_event_step (Suc n) V can ev cm = Inr (o1, cm1)" "closes o1 cm cm1" "ct_edges cm1 = [0]"
    using edge_ends [OF inv assms(2) cons assms(5), of n V can] by blast
  obtain o2 where 2: "outs = o1 @ o2" "cm_run (Suc n) V can cm1 evs o2 cm'"
    using assms(7) 1(1) by (cases rule: cm_run.cases) auto
  note closes = 1(2) [unfolded closes_def]
  have "ct_cons cm1 = ct_cons cm |` set (ct_edges cm1)" "cm_inv cm1" "cm_id cm1 = cm_id cm" using closes by blast+
  then have st: "stalled cm1" using 1(3) cons(1) by (simp add: stalled_def)
  have "unheard out" if "out \<in> set o1" for out
  proof (cases out)
    case (SigConDisconnected con)
    with that closes obtain e' where e': "ct_cons cm e' = Some con" "ct_cons cm1 e' = None" by blast
    then have "con_edge con = e'" "con_edge con \<in> {0, e}"
      using cm_invD(3,4,7) [OF inv] assms(2) by blast+
    then show ?thesis using e'(1) cons SigConDisconnected by auto
  qed (use that closes in fastforce)+
  moreover have later: "stalled cm'" "\<forall>out \<in> set o2. unheard out" using stalled_run [OF 2(2) st assms(6)] by blast+
  ultimately have all: "\<forall>out \<in> set outs. unheard out" using 2(1) by auto
  have "i = cm_id cm'" if some: "GetConnection cm' i \<noteq> None" for i
  proof -
    obtain con where con: "map_of (ct_ids cm') i = Some con" using some unfolding GetConnection_def by (auto simp: GetConnection_def)
    note tab = cm_invD(5-7) [OF stalled_inv [OF later(1)] con]
    then have "con_edge con = 0" using later(1) by (auto simp: stalled_def)
    then show ?thesis using tab later(1) by (auto simp: stalled_def)
  qed
  then show ?thesis using all unheard_signal by fastforce
qed

definition ex_dialled :: con_manager where
  "ex_dialled = snd (projr (HandleNewEdge demo_qvs 0 1 ex_out (mk_manager 5)))"

lemma ex_dialled_reachable: "cm_reachable demo_qvs (\<lambda>_. True) ex_dialled"
  by (rule cm_reachable.event [OF cm_reachable.start [of _ _ 5], where ev = "EvNewEdge 0 1 ex_out" and n = 0
        and outs = "[CmSend 1 (MsgInquire (id_bytes demo_qvs 5) 0 VERSION)]"])
    (simp_all add: ex_dialled_def ex_out_def HandleNewEdge_def Let_def mk_manager_def AddConnection_def AddEdge_def)

theorem lost_attempt_unnoticed_witness:
  "\<exists>outs cm'. cm_run 1 demo_qvs (\<lambda>_. True) ex_dialled [EvClose (FromEdge 1)] outs cm' \<and> (\<forall>addr. CreateEdgeTo addr \<notin> set outs)"
proof -
  have st: "set (ct_edges ex_dialled) = {0, 1}" "GetConnectionOf ex_dialled 0 = Some \<lparr>con_edge = 0, con_remote = cm_id ex_dialled\<rparr>"
      "GetConnectionOf ex_dialled 1 = None" "live ex_dialled 1"
    by (auto simp: ex_dialled_def ex_out_def HandleNewEdge_def Let_def mk_manager_def AddConnection_def AddEdge_def GetConnectionOf_def live_def)
  have "cm_enabled (EvClose (FromEdge 1)) ex_dialled" using st(3,4) by (simp add: GetConnectionOf_def)
  moreover from this obtain outs cm' where step: "cm_event_step (Suc 0) demo_qvs (\<lambda>_. True) (EvClose (FromEdge 1)) ex_dialled = Inr (outs, cm')"
    using event_ok [OF reachable_inv [OF ex_dialled_reachable], of "EvClose (FromEdge 1)" 0 demo_qvs "\<lambda>_. True"] by (auto simp: goes_well_def)
  ultimately have run: "cm_run (Suc 0) demo_qvs (\<lambda>_. True) ex_dialled [EvClose (FromEdge 1)] (outs @ []) cm'"
    by (rule cm_run.cons [OF _ _ cm_run.nil])
  show ?thesis using lost_attempt_unnoticed [OF ex_dialled_reachable st(1-3) _ _ run] run by auto
qed

text \<open>
  If no listener can handle the configured addresses, the failure of an attempt is signalled before the
  call that makes it returns, and the acquirer tries again inside the signal: the nested calls do not
  end, neither for a client that looks for a server nor for a server that starts.
\<close>

theorem unhandled_address_loops:
  assumes "\<not> cm_stopped cm" and "\<not> aq_stopped aq" and "aq_addrs aq \<noteq> []"
    and "\<forall>addr \<in> set (aq_addrs aq). \<not> can addr \<and> addr \<notin> cm_active cm \<and> addr \<notin> cm_outstanding cm"
    and "\<forall>i. pick i < length (aq_addrs aq)"
  shows "((\<forall>(i, con) \<in> set (ct_ids cm). con_remote con \<notin> set (aq_ids aq)) \<longrightarrow> cl_AttemptConnection n pick can aq cm = Inl Loops)
    \<and> (\<not> set (aq_ids aq) \<subseteq> {cm_id cm} \<longrightarrow> sv_OnStart n can aq cm = Inl Loops)"
proof -
  obtain addr rest where "aq_addrs aq = addr # rest" using assms(3) by (cases "aq_addrs aq") auto
  then show ?thesis using AttemptConnection_loops [OF assms(1,2,5,4)] OnStart_loops [of cm aq addr rest can n] assms(1,2,4)
    by auto
qed

theorem unhandled_address_loops_witness:
  "\<exists>aq. ClientConnectionAcquirer [7] [2] = Inr aq \<and> (\<forall>n. cl_AttemptConnection n (\<lambda>_. 0) (\<lambda>_. False) aq (mk_manager 5) = Inl Loops)"
proof -
  let ?aq = "\<lparr>aq_addrs = [7], aq_ids = [2], aq_stopped = False, aq_watched = {}, aq_outstanding_ids = {}, aq_outstanding_addrs = {}\<rparr>"
  have "cl_AttemptConnection n (\<lambda>_. 0) (\<lambda>_. False) ?aq (mk_manager 5) = Inl Loops" for n
    using unhandled_address_loops [of "mk_manager 5" ?aq "\<lambda>_. False" "\<lambda>_. 0" n]
    by (simp add: mk_manager_def AddConnection_def AddEdge_def)
  then show ?thesis by (simp add: ClientConnectionAcquirer_def)
qed

end
