(* ===== verification/NullRound.thy ===== *)
theory NullRound
  imports ServerSession_Props
begin

text \<open>
  The round without anonymity, \<^verbatim>\<open>src/src/Anonymity/NullRound.cpp\<close> with its base class \<^verbatim>\<open>Round.cpp\<close>: every
  client broadcasts its message, and when a message of every client has come, all of them are handed on.
  \<open>null_ops\<close> is this round as the session sees it.
\<close>

section \<open>The round\<close>

record null_round =
  nl_clients :: roster
  nl_servers :: roster
  nl_am_server :: bool
  nl_received :: "bytes list"
  nl_msgs :: int32
  nl_stopped :: bool
  nl_successful :: bool
  nl_interrupted :: bool
  nl_sent :: "bytes list"
  nl_pushed :: "bytes list"

definition mk_NullRound :: "roster \<Rightarrow> roster \<Rightarrow> bool \<Rightarrow> null_round" where
  "mk_NullRound clients servers am_server =
     \<lparr>nl_clients = clients, nl_servers = servers, nl_am_server = am_server, nl_received = replicate (Count clients) [],
      nl_msgs = 0, nl_stopped = False, nl_successful = False, nl_interrupted = False, nl_sent = [], nl_pushed = []\<rparr>"

text \<open>\<^verbatim>\<open>StartStop::Stop\<close>; the result tells whether the signal \<^verbatim>\<open>Finished\<close> is emitted.\<close>

definition nl_Stop :: "null_round \<Rightarrow> null_round \<times> bool" where
  "nl_Stop r = (if nl_stopped r then (r, False) else (r\<lparr>nl_stopped := True\<rparr>, True))"

definition nl_OnStart :: "null_round \<Rightarrow> data_queue \<Rightarrow> null_round \<times> data_queue" where
  "nl_OnStart r q =
     (if nl_am_server r then (r, q)
      else let ((data, more), q) = GetData 1024 q in (r\<lparr>nl_sent := nl_sent r @ [127 # data]\<rparr>, q))"

text \<open>The counter of messages is an \<^verbatim>\<open>int\<close>.\<close>

definition nl_ProcessPacket :: "peer \<Rightarrow> bytes \<Rightarrow> null_round \<Rightarrow> fault + (null_round \<times> bool)" where
  "nl_ProcessPacket from data r =
     (if nl_stopped r then Inr (r, False)
      else if \<not> Contains (nl_clients r) from then Inr (r, False)
      else let idx = GetIndex (nl_clients r) from
        in if idx < 0 \<or> int (length (nl_received r)) \<le> idx then Inl OutOfBounds
           else if nl_received r ! nat idx \<noteq> [] then Inr (r, False)
           else if sint (nl_msgs r) = 2 ^ 31 - 1 then Inl Overflow
           else let r = r\<lparr>nl_received := (nl_received r)[nat idx := data], nl_msgs := nl_msgs r + 1\<rparr>
             in if sint (nl_msgs r) \<noteq> int (length (nl_received r)) then Inr (r, False)
                else Inr (nl_Stop (r\<lparr>nl_pushed := nl_pushed r @ filter (\<lambda>msg. msg \<noteq> []) (nl_received r), nl_successful := True\<rparr>)))"

definition nl_HandleDisconnect :: "peer \<Rightarrow> null_round \<Rightarrow> null_round \<times> bool" where
  "nl_HandleDisconnect i r =
     (if Contains (nl_servers r) i \<or> Contains (nl_clients r) i then nl_Stop (r\<lparr>nl_interrupted := True\<rparr>) else (r, False))"

text \<open>The operations a session calls.\<close>

definition null_ops :: "peer list \<Rightarrow> null_round round_ops" where
  "null_ops server_ids =
     \<lparr>ro_create = (\<lambda>clients servers i key dh round_id. mk_NullRound clients servers (i \<in> set server_ids)),
      ro_start = (\<lambda>r q. let (r, q) = nl_OnStart r q in Inr (r, q, False)),
      ro_packet = (\<lambda>i p r q. bindS (nl_ProcessPacket i p r) (\<lambda>(r, finished). Inr (r, q, finished))),
      ro_disconnect = (\<lambda>i r q. let (r, finished) = nl_HandleDisconnect i r in Inr (r, q, finished)),
      ro_stop = (\<lambda>r q. let (r, finished) = nl_Stop r in Inr (r, q, finished)),
      ro_interrupt = (\<lambda>r. r\<lparr>nl_interrupted := True\<rparr>),
      ro_successful = nl_successful\<rparr>"

text \<open>The session's hypotheses on a round hold for it.\<close>

lemma null_round_ends: "cf_round cf = null_ops ids \<Longrightarrow> round_ends cf"
  by (auto simp: round_ends_def null_ops_def nl_ProcessPacket_def Let_def split: prod.split)

lemma null_round_starts: "cf_round cf = null_ops ids \<Longrightarrow> round_starts cf"
  by (auto simp: round_starts_def null_ops_def split: prod.split)

lemma nl_closed: "nl_stopped r \<Longrightarrow> nl_ProcessPacket j data r = Inr (r, False)"
  by (simp add: nl_ProcessPacket_def)

section \<open>Runs\<close>

definition nl_run :: "(peer \<times> bytes) list \<Rightarrow> null_round \<Rightarrow> fault + null_round" where
  "nl_run = foldS (\<lambda>(from, data) r. bindS (nl_ProcessPacket from data r) (\<lambda>(r, finished). Inr r))"

text \<open>The message a packet list holds of a client.\<close>

definition said :: "(peer \<times> bytes) list \<Rightarrow> peer \<Rightarrow> bytes" where
  "said ps i = (case map_of ps i of None \<Rightarrow> [] | Some data \<Rightarrow> data)"

abbreviation client_ids :: "roster \<Rightarrow> peer list" where
  "client_ids R \<equiv> map pi_id (m_roster R)"

lemma Count_ids: "Count R = length (client_ids R)"
  by (simp add: Count_def)

lemma Contains_ids: "roster_ok R \<Longrightarrow> Contains R i \<longleftrightarrow> i \<in> set (client_ids R)"
proof -
  assume R: "roster_ok R"
  have "Contains R i \<longleftrightarrow> (\<exists>n. m_id_to_int R i = Some n)" unfolding Contains_def by blast
  also have "\<dots> \<longleftrightarrow> (\<exists>n < Count R. pi_id (m_roster R ! n) = i)" using id_to_int_iff [OF R] by blast
  also have "\<dots> \<longleftrightarrow> i \<in> set (client_ids R)" by (force simp: Count_def in_set_conv_nth)
  finally show ?thesis .
qed

lemma said_snoc: "i \<notin> fst ` set ps \<Longrightarrow> said (ps @ [(i, data)]) k = (if k = i then data else said ps k)"
  by (auto simp: said_def map_add_def map_of_eq_None_iff split: option.split) (metis map_of_eq_None_iff option.distinct(1))+

lemma count_next:
  assumes "k + 1 < 2 ^ 31"
  shows "sint (of_nat k :: int32) = int k" and "sint (of_nat k + 1 :: int32) = int k + 1"
proof -
  show "sint (of_nat k :: int32) = int k" using assms by (simp add: signed_of_nat signed_take_bit_int_eq_self)
  have "sint (of_nat (k + 1) :: int32) = int (k + 1)"
    using assms by (simp only: signed_of_nat) (simp add: signed_take_bit_int_eq_self)
  then show "sint (of_nat k + 1 :: int32) = int k + 1" by (simp add: add.commute)
qed

text \<open>The first message of a client.\<close>

lemma first_message:
  assumes "\<not> nl_stopped r" and "Contains (nl_clients r) i" and "GetIndex (nl_clients r) i = int n"
    and "n < length (nl_received r)" and "nl_received r ! n = []" and "nl_msgs r = of_nat k" and "k + 1 < 2 ^ 31"
  shows "nl_ProcessPacket i data r =
    (let r = r\<lparr>nl_received := (nl_received r)[n := data], nl_msgs := nl_msgs r + 1\<rparr>
     in if k + 1 \<noteq> length (nl_received r) then Inr (r, False)
        else Inr (nl_Stop (r\<lparr>nl_pushed := nl_pushed r @ filter (\<lambda>msg. msg \<noteq> []) (nl_received r), nl_successful := True\<rparr>)))"
proof -
  have "(int k + 1 \<noteq> int (length (nl_received r))) = (k + 1 \<noteq> length (nl_received r))" by linarith
  then show ?thesis using assms count_next [OF assms(7)] by (simp add: nl_ProcessPacket_def Let_def)
qed

text \<open>While some client has not been heard, each one heard at most once.\<close>

lemma nl_run_part:
  assumes "roster_ok R" and "Count R < 2 ^ 31" and "distinct (map fst ps)" and "set (map fst ps) \<subseteq> set (client_ids R)"
    and "length ps < Count R"
  shows "nl_run ps (mk_NullRound R S b) =
    Inr ((mk_NullRound R S b)\<lparr>nl_received := map (said ps) (client_ids R), nl_msgs := of_nat (length ps)\<rparr>)"
  using assms(3-5)
proof (induction ps rule: rev_induct)
  case Nil
  have "map (said []) (client_ids R) = replicate (Count R) []" by (rule nth_equalityI) (simp_all add: Count_def said_def)
  then show ?case by (simp add: nl_run_def mk_NullRound_def)
next
  case (snoc p ps)
  obtain i data where p: "p = (i, data)" by (cases p)
  have ps: "distinct (map fst ps)" "set (map fst ps) \<subseteq> set (client_ids R)" "length ps < Count R" "i \<notin> fst ` set ps" "i \<in> set (client_ids R)"
    using snoc.prems by (auto simp: p)
  let ?r = "(mk_NullRound R S b)\<lparr>nl_received := map (said ps) (client_ids R), nl_msgs := of_nat (length ps)\<rparr>"
  have run: "nl_run ps (mk_NullRound R S b) = Inr ?r" using snoc.IH ps(1-3) by blast
  have "Contains R i" using Contains_ids [OF assms(1)] ps(5) by blast
  then obtain n where n: "GetIndex R i = int n" "n < Count R" "pi_id (m_roster R ! n) = i" by (rule GetIndex_Some [OF assms(1)])
  have "map_of ps i = None" using ps(4) unfolding map_of_eq_None_iff .
  then have none: "said ps i = []" by (simp add: said_def)
  have "(map (said ps) (client_ids R))[n := data] = map (said (ps @ [p])) (client_ids R)"
  proof (rule nth_equalityI)
    fix j assume "j < length ((map (said ps) (client_ids R))[n := data])"
    then have j: "j < Count R" by (simp add: Count_def)
    have "pi_id (m_roster R ! j) = i \<longleftrightarrow> j = n"
    proof
      assume "pi_id (m_roster R ! j) = i"
      then show "j = n" using GetIndex_nth [OF assms(1) j] n(1) by simp
    qed (simp add: n(3))
    then show "(map (said ps) (client_ids R))[n := data] ! j = map (said (ps @ [p])) (client_ids R) ! j"
      using j n(2) by (simp add: Count_def nth_list_update p said_snoc [OF ps(4)])
  qed simp
  moreover have "nl_ProcessPacket i data ?r = Inr (?r\<lparr>nl_received := (nl_received ?r)[n := data], nl_msgs := nl_msgs ?r + 1\<rparr>, False)"
  proof -
    have "map (said ps) (client_ids R) ! n = []" using n(2,3) none by (simp add: Count_def)
    then show ?thesis
      using first_message [of ?r i n "length ps" data] n \<open>Contains R i\<close> snoc.prems(3) assms(2)
      by (simp add: mk_NullRound_def Count_def Let_def)
  qed
  ultimately show ?case
    using run by (simp add: nl_run_def p fault_simps add.commute)
qed


lemma nl_run_snoc: "nl_run (ps @ [(i, data)]) r = bindS (nl_run ps r) (\<lambda>r. bindS (nl_ProcessPacket i data r) (\<lambda>(r, finished). Inr r))"
proof -
  have "nl_run [(i, data)] x = bindS (nl_ProcessPacket i data x) (\<lambda>(r, finished). Inr r)" for x
    by (cases "nl_ProcessPacket i data x") (auto simp: nl_run_def)
  then show ?thesis by (simp add: nl_run_def fault_simps cong: bindS_cong)
qed

lemma nl_run_empty:
  assumes "roster_ok R" and "Count R < 2 ^ 31" and "Contains R i" and "k < Count R"
  shows "nl_run (replicate k (i, [])) (mk_NullRound R S b) = Inr ((mk_NullRound R S b)\<lparr>nl_msgs := of_nat k\<rparr>)"
  using assms(4)
proof (induction k)
  case 0
  then show ?case by (simp add: nl_run_def mk_NullRound_def)
next
  case (Suc k)
  obtain n where n: "GetIndex R i = int n" "n < Count R" using assms(1,3) by (rule GetIndex_Some)
  let ?r = "(mk_NullRound R S b)\<lparr>nl_msgs := of_nat k\<rparr>"
  have "nl_ProcessPacket i [] ?r = Inr ((mk_NullRound R S b)\<lparr>nl_msgs := of_nat (Suc k)\<rparr>, False)"
    using first_message [of ?r i n k "[]"] n assms(2,3) Suc.prems
    by (simp add: mk_NullRound_def Let_def add.commute) (metis list_update_id nth_replicate)
  then show ?case
    using Suc by (simp add: replicate_append_same [symmetric] nl_run_snoc del: of_nat_Suc)
qed

section \<open>Properties\<close>

text \<open>
  When one message of every client has come, in whatever order, the round ends successfully and has
  handed on exactly the messages that are not empty, in the order of the roster.
\<close>

theorem null_round_delivers:
  assumes "roster_ok R" and "Count R < 2 ^ 31" and "ps \<noteq> []" and "distinct (map fst ps)"
    and "set (map fst ps) = set (map pi_id (m_roster R))"
  shows "\<exists>r. nl_run ps (mk_NullRound R S b) = Inr r \<and> nl_stopped r \<and> nl_successful r
    \<and> nl_pushed r = filter (\<lambda>msg. msg \<noteq> []) (map (\<lambda>p. the (map_of ps (pi_id p))) (m_roster R))"
proof -
  obtain qs i data where ps: "ps = qs @ [(i, data)]" using assms(3) by (metis append_butlast_last_id surj_pair)
  have "distinct (client_ids R)" using assms(1) by (simp add: roster_ok_def)
  then have "Count R = card (set (client_ids R))" unfolding Count_ids by (rule distinct_card [symmetric])
  also have "\<dots> = length ps" using assms(4,5) distinct_card [of "map fst ps"] by simp
  finally have len: "Count R = Suc (length qs)" by (simp add: ps)
  have qs: "distinct (map fst qs)" "set (map fst qs) \<subseteq> set (client_ids R)" "i \<notin> fst ` set qs" "i \<in> set (client_ids R)"
    using assms(4) assms(5) [symmetric] by (auto simp: ps)
  let ?r = "(mk_NullRound R S b)\<lparr>nl_received := map (said qs) (client_ids R), nl_msgs := of_nat (length qs)\<rparr>"
  have run: "nl_run qs (mk_NullRound R S b) = Inr ?r" using nl_run_part [OF assms(1,2) qs(1,2)] len by simp
  have "Contains R i" using Contains_ids [OF assms(1)] qs(4) by blast
  then obtain n where n: "GetIndex R i = int n" "n < Count R" "pi_id (m_roster R ! n) = i" by (rule GetIndex_Some [OF assms(1)])
  have "map_of qs i = None" using qs(3) unfolding map_of_eq_None_iff .
  then have none: "map (said qs) (client_ids R) ! n = []" using n(2,3) by (simp add: Count_def said_def)
  have all: "(map (said qs) (client_ids R))[n := data] = map (\<lambda>p. the (map_of ps (pi_id p))) (m_roster R)"
  proof (rule nth_equalityI)
    fix j assume "j < length ((map (said qs) (client_ids R))[n := data])"
    then have j: "j < Count R" by (simp add: Count_def)
    have j_n: "pi_id (m_roster R ! j) = i \<longleftrightarrow> j = n"
    proof
      assume "pi_id (m_roster R ! j) = i"
      then show "j = n" using GetIndex_nth [OF assms(1) j] n(1) by simp
    qed (simp add: n(3))
    have "pi_id (m_roster R ! j) \<in> set (map fst ps)" using j unfolding assms(5) by (simp add: Count_def)
    then have "map_of ps (pi_id (m_roster R ! j)) = Some (said ps (pi_id (m_roster R ! j)))"
      by (cases "map_of ps (pi_id (m_roster R ! j))") (auto simp: said_def map_of_eq_None_iff)
    then show "(map (said qs) (client_ids R))[n := data] ! j = map (\<lambda>p. the (map_of ps (pi_id p))) (m_roster R) ! j"
      using j j_n n(2) by (simp add: Count_def nth_list_update ps said_snoc [OF qs(3)])
  qed simp
  have "nl_ProcessPacket i data ?r = Inr (nl_Stop (?r\<lparr>nl_received := (nl_received ?r)[n := data], nl_msgs := nl_msgs ?r + 1,
      nl_pushed := filter (\<lambda>msg. msg \<noteq> []) ((nl_received ?r)[n := data]), nl_successful := True\<rparr>))"
    using first_message [of ?r i n "length qs" data] n none \<open>Contains R i\<close> len assms(2)
    by (simp add: mk_NullRound_def Count_def Let_def)
  then show ?thesis using run all by (simp add: ps nl_run_snoc nl_Stop_def mk_NullRound_def)
qed

lemma demo_pair: "roster_ok (demo_roster [2, 3])" "map pi_id (m_roster (demo_roster [2, 3])) = [2, 3]"
  by (simp_all add: demo_roster_ok) (simp add: demo_roster_def mk_roster_def)

theorem null_round_delivers_witness:
  "\<exists>r. nl_run [(3, [7]), (2, [])] (mk_NullRound (demo_roster [2, 3]) (demo_roster [1]) True) = Inr r \<and> nl_pushed r = [[7]]"
proof -
  have "Count (demo_roster [2, 3]) = 2" unfolding Count_ids demo_pair(2) by simp
  then have few: "Count (demo_roster [2, 3]) < 2 ^ 31" by simp
  let ?ps = "[(3, [7]), (2, [])] :: (peer \<times> bytes) list"
  have said: "map (\<lambda>p. the (map_of ?ps (pi_id p))) (m_roster (demo_roster [2, 3])) = map (\<lambda>i. the (map_of ?ps i)) [2, 3]"
    using arg_cong [OF demo_pair(2), of "map (\<lambda>i. the (map_of ?ps i))"] by (simp add: comp_def)
  have ps: "?ps \<noteq> []" "distinct (map fst ?ps)" by simp_all
  have "set (map fst ?ps) = set (map pi_id (m_roster (demo_roster [2, 3])))" unfolding demo_pair(2) by auto
  from null_round_delivers [OF demo_pair(1) few ps this, of "demo_roster [1]" True, unfolded said]
  obtain r where "nl_run ?ps (mk_NullRound (demo_roster [2, 3]) (demo_roster [1]) True) = Inr r"
    "nl_pushed r = filter (\<lambda>msg. msg \<noteq> []) (map (\<lambda>i. the (map_of ?ps i)) [2, 3])" by blast
  then show ?thesis by auto
qed

text \<open>
  C37.  An empty message is not remembered as received but is counted.  One client that sends it as often as
  there are clients ends the round: it counts as successful, no message of any other client is handed
  on, and what the others send later is dropped.
\<close>

theorem null_round_cut_short:
  assumes "roster_ok R" and "Count R < 2 ^ 31" and "Contains R i"
  shows "\<exists>r. nl_run (replicate (Count R) (i, [])) (mk_NullRound R S b) = Inr r \<and> nl_stopped r \<and> nl_successful r \<and> nl_pushed r = []
    \<and> (\<forall>j data. nl_ProcessPacket j data r = Inr (r, False))"
proof -
  obtain n where n: "GetIndex R i = int n" "n < Count R" using assms(1,3) by (rule GetIndex_Some)
  then obtain k where k: "Count R = Suc k" by (cases "Count R") auto
  let ?r = "(mk_NullRound R S b)\<lparr>nl_msgs := of_nat k\<rparr>"
  have "nl_ProcessPacket i [] ?r = Inr (nl_Stop (?r\<lparr>nl_received := (replicate (Count R) [])[n := []], nl_msgs := of_nat k + 1,
      nl_pushed := filter (\<lambda>msg. msg \<noteq> []) ((replicate (Count R) [])[n := []]), nl_successful := True\<rparr>))"
    using first_message [of ?r i n k "[]"] n assms(2,3) k [symmetric] by (simp add: mk_NullRound_def Let_def)
  moreover have "(replicate (Count R) [])[n := []] = replicate (Count R) ([] :: bytes)"
    using n(2) by (metis list_update_id nth_replicate)
  moreover have "nl_run (replicate k (i, [])) (mk_NullRound R S b) = Inr ?r" using nl_run_empty assms k by simp
  ultimately have run: "nl_run (replicate (Suc k) (i, [])) (mk_NullRound R S b) =
      Inr (?r\<lparr>nl_received := replicate (Count R) [], nl_msgs := of_nat k + 1, nl_successful := True, nl_stopped := True\<rparr>)"
    unfolding replicate_Suc replicate_append_same [symmetric] nl_run_snoc by (simp add: nl_Stop_def mk_NullRound_def)
  show ?thesis unfolding k by (rule exI, rule conjI, rule run) (simp add: nl_closed, simp add: mk_NullRound_def)
qed

theorem null_round_cut_short_witness:
  "\<exists>r. nl_run [(2, []), (2, [])] (mk_NullRound (demo_roster [2, 3]) (demo_roster [1]) True) = Inr r \<and> nl_successful r \<and> nl_pushed r = []"
proof -
  have count: "Count (demo_roster [2, 3]) = 2" unfolding Count_ids demo_pair(2) by simp
  then have few: "Count (demo_roster [2, 3]) < 2 ^ 31" by simp
  have two: "replicate (Count (demo_roster [2, 3])) (2 :: peer, [] :: bytes) = [(2, []), (2, [])]"
    unfolding count by (simp add: numeral_2_eq_2)
  have "Contains (demo_roster [2, 3]) 2" unfolding Contains_ids [OF demo_pair(1)] demo_pair(2) by simp
  from null_round_cut_short [OF demo_pair(1) few this, of "demo_roster [1]" True, unfolded two] show ?thesis by blast
qed

end
