(* ===== verification/SFT_View.thy ===== *)
theory SFT_View
  imports Roster
begin

text \<open>
  The views of the fault-tolerant round, \<^verbatim>\<open>src/src/SFT/SFTViewManager.cpp\<close>: a view is a choice of two thirds of
  the servers, drawn with \<^verbatim>\<open>rand\<close> from the number of the view; servers that fail make the others vote for a
  view without them.

  The C library's generator is the parameter \<open>R\<close>: \<open>R seed i\<close> is the number that call \<open>i\<close> of \<^verbatim>\<open>rand\<close> returns after
  \<^verbatim>\<open>srand(seed)\<close>.  The constructor's \<^verbatim>\<open>quorumRatio\<close> has its default 2/3.  The program compares integers with
  \<^verbatim>\<open>double\<close> products such as \<^verbatim>\<open>2.0 * n / 3.0\<close>; these are integers when the exact value is one, and otherwise
  differ from every integer by about a third, so the comparisons are those of \<open>3 * k\<close> with \<open>2 * n\<close>.
\<close>

section \<open>Membership\<close>

type_synonym c_rand = "32 word \<Rightarrow> nat \<Rightarrow> nat"

text \<open>\<^verbatim>\<open>Id::GetInteger().GetInt32()\<close>: the lowest 32 bits of an id.\<close>

definition id32 :: "peer \<Rightarrow> int32" where
  "id32 i = of_nat i"

text \<open>The loop ends when enough servers have been drawn; whether it does depends on \<^verbatim>\<open>rand\<close>.\<close>

partial_function (option) member_loop :: "(nat \<Rightarrow> nat) \<Rightarrow> nat \<Rightarrow> nat \<Rightarrow> bool list \<Rightarrow> bool list option" where
  "member_loop rnd i count members =
     (if 3 * count < 2 * length members
      then let j = rnd i mod length members
        in if members ! j then member_loop rnd (i + 1) count members
           else member_loop rnd (i + 1) (count + 1) (members[j := True])
      else Some members)"

definition calcServerMembership :: "c_rand \<Rightarrow> int32 \<Rightarrow> nat \<Rightarrow> fault + bool list" where
  "calcServerMembership R v n =
     (if sint v * 100 < - (2 ^ 31) \<or> 2 ^ 31 \<le> sint v * 100 then Inl Overflow
      else case member_loop (R (v * 100)) 0 0 (replicate n False) of None \<Rightarrow> Inl Loops | Some members \<Rightarrow> Inr members)"

section \<open>The view manager\<close>

record vote_count =
  vc_count :: nat
  vc_rejections :: nat
  vc_voters :: "int32 list"

record sft_view =
  vw_servers :: roster
  vw_num :: int32
  vw_proposed :: int32
  vw_current :: "bool list"
  vw_proposals :: "int32 \<rightharpoonup> vote_count"
  vw_down :: "peer list"

definition setNewView :: "c_rand \<Rightarrow> int32 \<Rightarrow> sft_view \<Rightarrow> fault + sft_view" where
  "setNewView R v w =
     bindS (calcServerMembership R v (Count (vw_servers w))) (\<lambda>members.
       Inr (w\<lparr>vw_num := v, vw_current := members, vw_proposals := Map.empty\<rparr>))"

definition SFTViewManager :: "c_rand \<Rightarrow> roster \<Rightarrow> fault + sft_view" where
  "SFTViewManager R servers =
     setNewView R 0 \<lparr>vw_servers = servers, vw_num = 0, vw_proposed = 0, vw_current = [], vw_proposals = Map.empty, vw_down = []\<rparr>"

definition proposeNewView :: "int32 \<Rightarrow> sft_view \<Rightarrow> sft_view" where
  "proposeNewView v w = w\<lparr>vw_proposed := v\<rparr>"

definition inCurrentView :: "sft_view \<Rightarrow> peer \<Rightarrow> fault + bool" where
  "inCurrentView w i =
     (let index = GetIndex (vw_servers w) i
      in if 0 \<le> index \<and> nat index < length (vw_current w) then Inr (vw_current w ! nat index) else Inl OutOfBounds)"

definition addFailedServer :: "peer \<Rightarrow> sft_view \<Rightarrow> fault + (bool \<times> sft_view)" where
  "addFailedServer i w =
     (if i \<in> set (vw_down w) then Inr (False, w)
      else let w = w\<lparr>vw_down := vw_down w @ [i]\<rparr> in bindS (inCurrentView w i) (\<lambda>b. Inr (b, w)))"

definition getCurrentServers :: "sft_view \<Rightarrow> fault + peer list" where
  "getCurrentServers w =
     foldS (\<lambda>i connections.
         if vw_current w ! i then bindS (GetId (vw_servers w) (int i)) (\<lambda>server. Inr (connections @ [server]))
         else Inr connections)
       [0..<length (vw_current w)] []"

definition isFirstInView :: "sft_view \<Rightarrow> peer \<Rightarrow> fault + bool" where
  "isFirstInView w i =
     bindS (getCurrentServers w) (\<lambda>servers. case servers of [] \<Rightarrow> Inl OutOfBounds | server # _ \<Rightarrow> Inr (server = i))"

definition getNumLiveServers :: "sft_view \<Rightarrow> int" where
  "getNumLiveServers w = int (Count (vw_servers w)) - int (length (vw_down w))"

definition getViewSize :: "sft_view \<Rightarrow> nat" where
  "getViewSize w = length (filter (\<lambda>b. b) (vw_current w))"

definition tooFewServers :: "sft_view \<Rightarrow> bool" where
  "tooFewServers w \<longleftrightarrow> 3 * getNumLiveServers w < 2 * int (Count (vw_servers w))"

text \<open>The check of one view against the servers that are down, and the search for the next good one.\<close>

definition view_good :: "int list \<Rightarrow> bool list \<Rightarrow> fault + bool" where
  "view_good badServers members =
     foldS (\<lambda>index good.
         if 0 \<le> index \<and> nat index < length members then Inr (if members ! nat index then False else good) else Inl OutOfBounds)
       badServers True"

function next_view :: "c_rand \<Rightarrow> nat \<Rightarrow> int list \<Rightarrow> int32 \<Rightarrow> fault + int32" where
  "next_view R n badServers v =
     bindS (calcServerMembership R v n) (\<lambda>members.
       bindS (view_good badServers members) (\<lambda>good.
         if good then Inr v
         else if sint v = 2 ^ 31 - 1 then Inl Overflow
         else next_view R n badServers (v + 1)))"
  by pat_completeness auto

lemma sint_add_one: "sint (v :: int32) \<noteq> 2 ^ 31 - 1 \<Longrightarrow> sint (v + 1) = sint v + 1"
  using sint_range_size [of v] by (simp add: signed_take_bit_int_eq_self sint_word_ariths wsst_TYs size_word_def)

termination next_view
proof (relation "measure (\<lambda>(R, n, badServers, v). nat (2 ^ 31 - sint v))", goal_cases)
  case (2 R n badServers v members good)
  then show ?case using sint_range_size [of v] sint_add_one [of v] by (simp add: size_word_def)
qed simp

declare next_view.simps [simp del]

definition nextGoodView :: "c_rand \<Rightarrow> int32 \<Rightarrow> sft_view \<Rightarrow> fault + int32" where
  "nextGoodView R minView w =
     (if sint minView = 2 ^ 31 - 1 then Inl Overflow
      else next_view R (Count (vw_servers w)) (map (GetIndex (vw_servers w)) (vw_down w)) (minView + 1))"

text \<open>The votes for a view so far; a missing key reads as zero or as no voters.\<close>

definition votes_for :: "sft_view \<Rightarrow> int32 \<Rightarrow> vote_count" where
  "votes_for w v = (case vw_proposals w v of None \<Rightarrow> \<lparr>vc_count = 0, vc_rejections = 0, vc_voters = []\<rparr> | Some m \<Rightarrow> m)"

text \<open>
  A vote.  The result is the number of the new view, -1 if nothing changes, or -2 if the view is rejected.
  The rejections so far are read from the key \<^verbatim>\<open>Count\<close>.
\<close>

definition addViewChangeVote :: "c_rand \<Rightarrow> int32 \<Rightarrow> bool \<Rightarrow> peer \<Rightarrow> sft_view \<Rightarrow> fault + (int32 \<times> sft_view)" where
  "addViewChangeVote R v vote voter w =
     (let n = Count (vw_servers w); serverID = id32 voter; countMap = votes_for w v;
          count = vc_count countMap; rejections = vc_count countMap
      in if serverID \<in> set (vc_voters countMap) then Inr (-1, w)
         else let count = (if vote then count + 1 else count); rejections = (if vote then rejections else rejections + 1);
                  w = w\<lparr>vw_proposals := (vw_proposals w)(v \<mapsto>
                        \<lparr>vc_count = count, vc_rejections = rejections, vc_voters = vc_voters countMap @ [serverID]\<rparr>)\<rparr>
           in if 2 * n \<le> 3 * count \<and> sint (vw_num w) < sint v
              then bindS (setNewView R v w) (\<lambda>w. Inr (v, w))
              else if n \<le> rejections then Inr (-2, w\<lparr>vw_proposed := vw_num w, vw_proposals := Map.empty\<rparr>)
              else Inr (-1, w))"

end
