(* ===== verification/SFT.thy ===== *)
theory SFT
  imports SFT_View SendQueue Overlay "HOL-Library.AList"
begin

text \<open>
  The fault-tolerant round: \<^verbatim>\<open>src/src/SFT/SFTMessageManager.cpp\<close> and \<^verbatim>\<open>SFTNullRound.cpp\<close>.

  One record holds the members of the round, of its message manager and of its view manager.  A packet a node
  sends to itself is processed inside the call that sends it, because the edge of a node to itself delivers
  synchronously: \<open>self\<close> is that call, and \<open>sft_packet\<close> bounds the nesting.  What the round sends to other nodes
  and hands to its sink is collected in \<open>sf_sent\<close> and \<open>sf_pushed\<close>.  A \<^verbatim>\<open>QHash\<close> is an association list without
  repeated keys.

  Code that is not in the repository is the parameter \<open>sft_env\<close>: \<^verbatim>\<open>rand\<close>, the order in which a \<^verbatim>\<open>QHash\<close> lists its
  keys, the bytes of a \<^verbatim>\<open>QVariantMap\<close>, the conversions of variants and of strings.  \<open>se_servers\<close> are the
  servers the overlay knows.
\<close>

section \<open>Environment and state\<close>

type_synonym variant_map = "(string \<times> qvariant) list"

record sft_env =
  se_rand :: c_rand
  se_order :: "int32 list \<Rightarrow> int32 list"
  se_put :: "variant_map \<Rightarrow> bytes"
  se_get :: "bytes \<Rightarrow> variant_map"
  se_qvs :: qvs
  se_text :: "string \<Rightarrow> bytes"
  se_servers :: "peer list"

text \<open>Documented behaviour: keys are listed once each, a stream returns the map that was written.\<close>

definition sft_env_ok :: "sft_env \<Rightarrow> bool" where
  "sft_env_ok E \<longleftrightarrow>
     qvs_ok (se_qvs E) \<and> (\<forall>m. se_get E (se_put E m) = m)
     \<and> (\<forall>ks. length (se_order E ks) = length ks \<and> set (se_order E ks) = set ks \<and> (distinct ks \<longrightarrow> distinct (se_order E ks)))"

record sft =
  sf_id :: peer
  sf_clients :: roster
  sf_servers :: roster
  sf_is_server :: bool
  sf_downstream :: "peer list"
  sf_upstream :: "peer list"
  sf_number :: nat
  sf_stopped :: bool
  sf_successful :: bool
  sf_view :: sft_view
  sf_connections :: "peer list"
  sf_phase :: nat
  sf_client_msgs :: "(int32 \<times> bytes) list"
  sf_ciphers :: "(int32 \<times> bytes) list"
  sf_attendance :: "int32 list"
  sf_cipher_from :: "int32 list"
  sf_view_from :: "int32 list"
  sf_responded :: "int32 list"
  sf_total :: "int32 list"
  sf_last_cipher :: bytes
  sf_queue :: data_queue
  sf_sent :: "(peer \<times> bytes) list"
  sf_pushed :: "bytes list"

type_synonym sft_step = "sft \<Rightarrow> fault + sft"

text \<open>The phases of a server and of a client are kept in the same \<^verbatim>\<open>int\<close>.\<close>

definition CollectionPhase :: nat where "CollectionPhase = 0"
definition ClientAttendancePhase :: nat where "ClientAttendancePhase = 1"
definition ExchangeCiphersPhase :: nat where "ExchangeCiphersPhase = 2"
definition ViewChangeVotingPhase :: nat where "ViewChangeVotingPhase = 3"
definition SendPhase :: nat where "SendPhase = 0"
definition ReceivePhase :: nat where "ReceivePhase = 1"

lemmas phase_defs = CollectionPhase_def ClientAttendancePhase_def ExchangeCiphersPhase_def ViewChangeVotingPhase_def
  SendPhase_def ReceivePhase_def

datatype message_type =
  ViewChangeVote | ViewChangeNotification | ClientMessage | ForwardedClientMessage | ServerCipher | Decrypted
| ClientAttendance | RequestInfo | RequestInput

fun type_code :: "message_type \<Rightarrow> int32" where
  "type_code ViewChangeVote = 0"
| "type_code ViewChangeNotification = 1"
| "type_code ClientMessage = 2"
| "type_code ForwardedClientMessage = 3"
| "type_code ServerCipher = 4"
| "type_code Decrypted = 5"
| "type_code ClientAttendance = 6"
| "type_code RequestInfo = 7"
| "type_code RequestInput = 8"

definition keyLength :: nat where "keyLength = 3"

definition own :: "sft \<Rightarrow> int32" where
  "own s = id32 (sf_id s)"

section \<open>Messages\<close>

definition genViewChangeProposal :: "int32 \<Rightarrow> variant_map" where
  "genViewChangeProposal viewNum = [(''Type'', QInt (type_code ViewChangeVote)), (''ViewNum'', QInt viewNum), (''Vote'', QBool True)]"

definition genClientViewChangeNotification :: "int32 \<Rightarrow> variant_map" where
  "genClientViewChangeNotification viewNum = [(''Type'', QInt (type_code ViewChangeNotification)), (''ViewNum'', QInt viewNum)]"

definition genDecryption :: "bytes \<Rightarrow> int32 \<Rightarrow> variant_map" where
  "genDecryption decrypted viewNum =
     [(''Type'', QInt (type_code Decrypted)), (''Decrypted'', QBytes decrypted), (''ViewNum'', QInt viewNum)]"

definition genClientMessage :: "int32 \<Rightarrow> bytes \<Rightarrow> variant_map" where
  "genClientMessage viewNum data =
     [(''Type'', QInt (type_code ClientMessage)), (''Message'', QBytes data), (''ViewNum'', QInt viewNum)]"

definition genRequest :: "nat \<Rightarrow> variant_map" where
  "genRequest phase = [(''Type'', QInt (type_code RequestInfo)), (''Request'', QInt (of_nat phase))]"

definition attendance_map :: "int32 list \<Rightarrow> variant_map" where
  "attendance_map clients = [(''Type'', QInt (type_code ClientAttendance)), (''ClientList'', QList (map QInt clients))]"

definition cipher_map :: "bytes \<Rightarrow> variant_map" where
  "cipher_map cipher = [(''Type'', QInt (type_code ServerCipher)), (''Cipher'', QBytes cipher)]"

definition has_type :: "sft_env \<Rightarrow> variant_map \<Rightarrow> message_type \<Rightarrow> bool" where
  "has_type E m t \<longleftrightarrow> to_int (se_qvs E) (hash_value m ''Type'') = type_code t"

definition has_request :: "sft_env \<Rightarrow> variant_map \<Rightarrow> nat \<Rightarrow> bool" where
  "has_request E m phase \<longleftrightarrow> to_int (se_qvs E) (hash_value m ''Request'') = of_nat phase"

section \<open>Pads and slots\<close>

definition int_range :: "int \<Rightarrow> bool" where
  "int_range x \<longleftrightarrow> - (2 ^ 31) \<le> x \<and> x < 2 ^ 31"

text \<open>The seed is computed with \<^verbatim>\<open>int\<close>s.\<close>

definition encryptionKey :: "sft_env \<Rightarrow> int32 \<Rightarrow> int32 \<Rightarrow> nat \<Rightarrow> nat \<Rightarrow> fault + bytes" where
  "encryptionKey E serverID clientID key_length numClients =
     (let product = sint serverID * int numClients; sum = product + sint clientID
      in if int_range product \<and> int_range sum \<and> int_range (sum * 100)
         then Inr (map (\<lambda>k. of_nat (32 + se_rand E (of_int (sum * 100)) k mod 96)) [0..<numClients * key_length])
         else Inl Overflow)"

definition insertInSlot :: "sft_env \<Rightarrow> string \<Rightarrow> sft \<Rightarrow> bytes" where
  "insertInSlot E msg s =
     (let index = GetIndex (sf_clients s) (sf_id s)
      in replicate (nat index * keyLength) 0 @ se_text E msg
         @ replicate (nat (int (Count (sf_clients s)) - (index + 1)) * keyLength) 0)"

text \<open>The second array is indexed up to the length of the first one.\<close>

definition xorBytes :: "bytes \<Rightarrow> bytes \<Rightarrow> fault + bytes" where
  "xorBytes a1 a2 = (if length a2 < length a1 then Inl OutOfBounds else Inr (map2 (XOR) a1 a2))"

definition encryptClientMessage :: "sft_env \<Rightarrow> int32 \<Rightarrow> bytes \<Rightarrow> sft \<Rightarrow> fault + bytes" where
  "encryptClientMessage E clientID data s =
     bindS (getCurrentServers (sf_view s)) (\<lambda>servers.
       foldS (\<lambda>server xored.
           bindS (encryptionKey E (id32 server) clientID keyLength (Count (sf_clients s))) (xorBytes xored))
         servers data)"

text \<open>The value of a key in a \<^verbatim>\<open>QHash\<close>, empty if there is none, and the first element of a list or a default.\<close>

definition value_of :: "(int32 \<times> bytes) list \<Rightarrow> int32 \<Rightarrow> bytes" where
  "value_of h k = (case map_of h k of None \<Rightarrow> [] | Some b \<Rightarrow> b)"

definition first_or :: "'a \<Rightarrow> 'a list \<Rightarrow> 'a" where
  "first_or d xs = (case xs of [] \<Rightarrow> d | x # _ \<Rightarrow> x)"

definition createCipher :: "sft_env \<Rightarrow> sft \<Rightarrow> fault + bytes" where
  "createCipher E s =
     (let keys = se_order E (map fst (sf_client_msgs s)); xored = value_of (sf_client_msgs s) (first_or 0 keys)
      in bindS (foldS (\<lambda>i xored. xorBytes xored (value_of (sf_client_msgs s) i)) (tl keys) xored) (\<lambda>xored.
         bindS (inCurrentView (sf_view s) (sf_id s)) (\<lambda>inside.
           if \<not> inside then Inr xored
           else foldS (\<lambda>clientID xored. bindS (encryptionKey E (own s) clientID keyLength (Count (sf_clients s))) (xorBytes xored))
                  (sf_total s) xored)))"

definition getDecrypted :: "sft_env \<Rightarrow> sft \<Rightarrow> fault + bytes" where
  "getDecrypted E s =
     (let allCiphers = map (value_of (sf_ciphers s)) (se_order E (map fst (sf_ciphers s)))
      in foldS (\<lambda>cipher decrypted. xorBytes decrypted cipher) (tl allCiphers) (first_or [] allCiphers))"

section \<open>Sending\<close>

text \<open>\<open>self\<close> processes a packet of the node itself.\<close>

definition sendToSingleNode :: "sft_env \<Rightarrow> (bytes \<Rightarrow> sft_step) \<Rightarrow> peer \<Rightarrow> variant_map \<Rightarrow> sft_step" where
  "sendToSingleNode E self to m s =
     (if to = sf_id s then self (se_put E m) s else Inr (s\<lparr>sf_sent := sf_sent s @ [(to, 127 # se_put E m)]\<rparr>))"

definition broadcastToServers :: "sft_env \<Rightarrow> (bytes \<Rightarrow> sft_step) \<Rightarrow> variant_map \<Rightarrow> sft_step" where
  "broadcastToServers E self m s = foldS (\<lambda>server. sendToSingleNode E self server m) (se_servers E) s"

definition broadcastToDownstreamClients :: "sft_env \<Rightarrow> (bytes \<Rightarrow> sft_step) \<Rightarrow> variant_map \<Rightarrow> sft_step" where
  "broadcastToDownstreamClients E self m s = foldS (\<lambda>client. sendToSingleNode E self client m) (sf_downstream s) s"

definition sendViewChangeProposal :: "sft_env \<Rightarrow> (bytes \<Rightarrow> sft_step) \<Rightarrow> int32 \<Rightarrow> sft_step" where
  "sendViewChangeProposal E self viewNum = broadcastToServers E self (genViewChangeProposal viewNum)"

definition sendRequest :: "sft_env \<Rightarrow> (bytes \<Rightarrow> sft_step) \<Rightarrow> nat \<Rightarrow> sft_step" where
  "sendRequest E self phase = broadcastToServers E self (genRequest phase)"

definition clientRoundMessageSend :: "sft_env \<Rightarrow> (bytes \<Rightarrow> sft_step) \<Rightarrow> string \<Rightarrow> sft_step" where
  "clientRoundMessageSend E self msg s =
     bindS (encryptClientMessage E (own s) (insertInSlot E (take keyLength msg) s) s) (\<lambda>encrypted.
       case sf_connections s of
         [] \<Rightarrow> Inl OutOfBounds
       | server # _ \<Rightarrow> sendToSingleNode E self server (genClientMessage (vw_num (sf_view s)) encrypted) s)"

text \<open>What is taken from the send queue is printed only; the message is the text \<^verbatim>\<open>abc\<close>.\<close>

definition startMessageExchange :: "sft_env \<Rightarrow> (bytes \<Rightarrow> sft_step) \<Rightarrow> sft_step" where
  "startMessageExchange E self s = clientRoundMessageSend E self ''abc'' (s\<lparr>sf_queue := snd (GetData 1024 (sf_queue s))\<rparr>)"

definition pushDataOut :: "sft_env \<Rightarrow> (bytes \<Rightarrow> sft_step) \<Rightarrow> bytes \<Rightarrow> sft_step" where
  "pushDataOut E self data s =
     bindS (let s = s\<lparr>sf_pushed := sf_pushed s @ [data]\<rparr>
            in if Contains (sf_clients s) (sf_id s) then startMessageExchange E self s else Inr s)
       (\<lambda>s. Inr (s\<lparr>sf_number := sf_number s + 1\<rparr>))"

section \<open>Phases of a server\<close>

definition startServerRound :: "sft \<Rightarrow> sft" where
  "startServerRound s = s\<lparr>sf_phase := CollectionPhase, sf_client_msgs := [], sf_ciphers := [], sf_responded := [],
     sf_attendance := [], sf_cipher_from := [], sf_total := []\<rparr>"

definition startClientAttendance :: "sft_env \<Rightarrow> (bytes \<Rightarrow> sft_step) \<Rightarrow> sft_step" where
  "startClientAttendance E self s =
     (let s = s\<lparr>sf_attendance := [own s], sf_total := sf_total s @ sf_responded s, sf_phase := ClientAttendancePhase\<rparr>
      in bindS (broadcastToServers E self (attendance_map (sf_responded s)) s) (sendRequest E self ClientAttendancePhase))"

definition startCipherExchange :: "sft_env \<Rightarrow> (bytes \<Rightarrow> sft_step) \<Rightarrow> sft_step" where
  "startCipherExchange E self s =
     (let s = s\<lparr>sf_ciphers := [], sf_cipher_from := [own s], sf_phase := ExchangeCiphersPhase\<rparr>
      in bindS (createCipher E s) (\<lambda>cipher.
           let s = s\<lparr>sf_ciphers := AList.update (own s) cipher (sf_ciphers s), sf_last_cipher := cipher\<rparr>
           in bindS (broadcastToServers E self (cipher_map cipher) s) (sendRequest E self ExchangeCiphersPhase)))"

text \<open>The result of the node's own vote is ignored.\<close>

definition startViewVoting :: "sft_env \<Rightarrow> (bytes \<Rightarrow> sft_step) \<Rightarrow> sft_step" where
  "startViewVoting E self s =
     (let s = s\<lparr>sf_phase := ViewChangeVotingPhase\<rparr>
      in bindS (nextGoodView (se_rand E) (vw_num (sf_view s)) (sf_view s)) (\<lambda>newView.
         bindS (addViewChangeVote (se_rand E) newView True (sf_id s) (proposeNewView newView (sf_view s))) (\<lambda>(code, w).
         bindS (sendViewChangeProposal E self newView (s\<lparr>sf_view := w\<rparr>)) (sendRequest E self ViewChangeVotingPhase))))"

section \<open>Messages of a server\<close>

definition processCipher :: "sft_env \<Rightarrow> (bytes \<Rightarrow> sft_step) \<Rightarrow> variant_map \<Rightarrow> peer \<Rightarrow> sft_step" where
  "processCipher E self m from s =
     (if sf_phase s \<noteq> ExchangeCiphersPhase then Inr s
      else if id32 from \<in> set (sf_cipher_from s) then Inr s
      else let cipher = to_bytes (se_qvs E) (hash_value m ''Cipher'');
               s = s\<lparr>sf_ciphers := AList.update (id32 from) cipher (sf_ciphers s), sf_cipher_from := sf_cipher_from s @ [id32 from]\<rparr>
        in if int (length (sf_ciphers s)) \<noteq> getNumLiveServers (sf_view s) then Inr s
           else bindS (getDecrypted E s) (\<lambda>decrypted.
                let m = genDecryption decrypted (vw_num (sf_view s)); decrypted = to_bytes (se_qvs E) (hash_value m ''Decrypted'')
                in bindS (broadcastToDownstreamClients E self m s) (\<lambda>s. pushDataOut E self decrypted (startServerRound s))))"

definition processInfoRequest :: "sft_env \<Rightarrow> (bytes \<Rightarrow> sft_step) \<Rightarrow> variant_map \<Rightarrow> peer \<Rightarrow> sft_step" where
  "processInfoRequest E self m from s =
     (if has_request E m ExchangeCiphersPhase
      then if ExchangeCiphersPhase \<le> sf_phase s \<or> sf_phase s = CollectionPhase
           then sendToSingleNode E self from (cipher_map (sf_last_cipher s)) s else Inr s
      else if has_request E m ViewChangeVotingPhase then Inr s
      else if has_request E m ClientAttendancePhase
      then if sf_phase s = ClientAttendancePhase \<or> sf_phase s = ExchangeCiphersPhase
           then sendToSingleNode E self from (attendance_map (sf_responded s)) s else Inr s
      else Inr s)"

definition processViewChangeProposal :: "sft_env \<Rightarrow> (bytes \<Rightarrow> sft_step) \<Rightarrow> variant_map \<Rightarrow> peer \<Rightarrow> sft_step" where
  "processViewChangeProposal E self m from s =
     (if id32 from \<in> set (sf_view_from s) then Inr s
      else bindS (addViewChangeVote (se_rand E) (to_int (se_qvs E) (hash_value m ''ViewNum''))
                    (to_bool (se_qvs E) (hash_value m ''Vote'')) from (sf_view s)) (\<lambda>(viewChangeCode, w).
        let s = s\<lparr>sf_view := w\<rparr>
        in if -1 < sint viewChangeCode
           then bindS (broadcastToDownstreamClients E self (genClientViewChangeNotification viewChangeCode) s)
                  (\<lambda>s. Inr ((startServerRound s)\<lparr>sf_view_from := []\<rparr>))
           else if viewChangeCode = -2 then Inr ((startServerRound s)\<lparr>sf_view_from := []\<rparr>)
           else Inr s))"

definition processClientList :: "sft_env \<Rightarrow> (bytes \<Rightarrow> sft_step) \<Rightarrow> variant_map \<Rightarrow> peer \<Rightarrow> sft_step" where
  "processClientList E self m from s =
     (if sf_phase s \<noteq> ClientAttendancePhase then Inr s
      else if id32 from \<in> set (sf_attendance s) then Inr s
      else let clientList = map (to_int (se_qvs E)) (to_list (se_qvs E) (hash_value m ''ClientList''));
               s = s\<lparr>sf_total := fold (\<lambda>c total. if c \<in> set total then total else total @ [c]) clientList (sf_total s),
                     sf_attendance := sf_attendance s @ [id32 from]\<rparr>
        in if int (length (sf_attendance s)) = getNumLiveServers (sf_view s) then startCipherExchange E self s else Inr s)"

definition processClientMessage :: "sft_env \<Rightarrow> (bytes \<Rightarrow> sft_step) \<Rightarrow> variant_map \<Rightarrow> peer \<Rightarrow> sft_step" where
  "processClientMessage E self m from s =
     (if sf_phase s \<noteq> CollectionPhase then Inr s
      else if from \<notin> set (sf_connections s) then Inr s
      else if id32 from \<in> set (sf_responded s) then Inr s
      else if vw_num (sf_view s) \<noteq> to_int (se_qvs E) (hash_value m ''ViewNum'') then Inr s
      else let s = s\<lparr>sf_client_msgs := AList.update (id32 from) (to_bytes (se_qvs E) (hash_value m ''Message'')) (sf_client_msgs s),
                     sf_responded := sf_responded s @ [id32 from]\<rparr>
        in if length (sf_responded s) = length (sf_connections s) then startClientAttendance E self s else Inr s)"

definition switchServerMessage :: "sft_env \<Rightarrow> (bytes \<Rightarrow> sft_step) \<Rightarrow> variant_map \<Rightarrow> peer \<Rightarrow> sft_step" where
  "switchServerMessage E self m from s =
     (if ''Type'' \<notin> fst ` set m then Inr s
      else if has_type E m ClientMessage then processClientMessage E self m from s
      else if has_type E m ViewChangeVote then processViewChangeProposal E self m from s
      else if has_type E m ClientAttendance then processClientList E self m from s
      else if has_type E m ServerCipher then processCipher E self m from s
      else if has_type E m RequestInfo then processInfoRequest E self m from s
      else Inr s)"

section \<open>Messages of a client\<close>

definition processViewChangeNotification :: "sft_env \<Rightarrow> (bytes \<Rightarrow> sft_step) \<Rightarrow> variant_map \<Rightarrow> peer \<Rightarrow> sft_step" where
  "processViewChangeNotification E self m from s =
     (if \<not> Contains (sf_servers s) from then Inr s
      else let viewNum = to_int (se_qvs E) (hash_value m ''ViewNum'')
        in if viewNum = vw_num (sf_view s) then Inr s
           else bindS (setNewView (se_rand E) viewNum (sf_view s)) (\<lambda>w. startMessageExchange E self (s\<lparr>sf_view := w\<rparr>)))"

definition processDecrypted :: "sft_env \<Rightarrow> (bytes \<Rightarrow> sft_step) \<Rightarrow> variant_map \<Rightarrow> sft_step" where
  "processDecrypted E self m s =
     pushDataOut E self (to_bytes (se_qvs E) (hash_value m ''Decrypted'')) (s\<lparr>sf_phase := SendPhase\<rparr>)"

text \<open>A request for input is only printed.\<close>

definition switchClientMessage :: "sft_env \<Rightarrow> (bytes \<Rightarrow> sft_step) \<Rightarrow> variant_map \<Rightarrow> peer \<Rightarrow> sft_step" where
  "switchClientMessage E self m from s =
     (if ''Type'' \<notin> fst ` set m then Inr s
      else if has_type E m ViewChangeNotification then processViewChangeNotification E self m from s
      else if has_type E m Decrypted then processDecrypted E self m s
      else Inr s)"

section \<open>The round\<close>

definition SFTNullRound :: "sft_env \<Rightarrow> roster \<Rightarrow> roster \<Rightarrow> peer \<Rightarrow> peer list \<Rightarrow> data_queue \<Rightarrow> fault + sft" where
  "SFTNullRound E clients servers i connected queue =
     bindS (SFTViewManager (se_rand E) servers) (\<lambda>w.
       let near = (\<lambda>R. filter (\<lambda>j. j \<in> set connected) (map pi_id (m_roster R)));
           s = \<lparr>sf_id = i, sf_clients = clients, sf_servers = servers, sf_is_server = False, sf_downstream = [], sf_upstream = [],
                sf_number = 0, sf_stopped = False, sf_successful = False, sf_view = w, sf_connections = [], sf_phase = ReceivePhase,
                sf_client_msgs = [], sf_ciphers = [], sf_attendance = [], sf_cipher_from = [], sf_view_from = [], sf_responded = [],
                sf_total = [], sf_last_cipher = [], sf_queue = queue, sf_sent = [], sf_pushed = []\<rparr>
       in if Contains servers i
          then Inr (startServerRound (s\<lparr>sf_is_server := True, sf_downstream := near clients, sf_connections := near clients\<rparr>))
          else if Contains clients i then Inr (s\<lparr>sf_upstream := near servers, sf_connections := near servers\<rparr>)
          else Inl NullPointer)"

definition sf_ProcessPacket :: "sft_env \<Rightarrow> (bytes \<Rightarrow> sft_step) \<Rightarrow> peer \<Rightarrow> bytes \<Rightarrow> sft_step" where
  "sf_ProcessPacket E self from data s =
     (if sf_stopped s then Inr s
      else if \<not> Contains (sf_servers s) from \<and> \<not> Contains (sf_clients s) from then Inr s
      else if sf_is_server s then switchServerMessage E self (se_get E data) from s
      else switchClientMessage E self (se_get E data) from s)"

primrec sft_packet :: "nat \<Rightarrow> sft_env \<Rightarrow> peer \<Rightarrow> bytes \<Rightarrow> sft_step" where
  "sft_packet 0 E from data s = Inl Loops"
| "sft_packet (Suc n) E from data s = sf_ProcessPacket E (\<lambda>data s. sft_packet n E (sf_id s) data s) from data s"

abbreviation to_self :: "nat \<Rightarrow> sft_env \<Rightarrow> bytes \<Rightarrow> sft_step" where
  "to_self n E \<equiv> \<lambda>data s. sft_packet n E (sf_id s) data s"

definition sf_OnStart :: "nat \<Rightarrow> sft_env \<Rightarrow> sft_step" where
  "sf_OnStart n E s = (if sf_is_server s then Inr s else startMessageExchange E (to_self n E) s)"

text \<open>\<^verbatim>\<open>OnStop\<close> is overridden with an empty method, so a round that stops does not emit \<^verbatim>\<open>Finished\<close>.\<close>

definition sf_Stop :: "sft \<Rightarrow> sft" where
  "sf_Stop s = s\<lparr>sf_stopped := True\<rparr>"

definition sf_HandleDisconnect :: "nat \<Rightarrow> sft_env \<Rightarrow> peer \<Rightarrow> sft_step" where
  "sf_HandleDisconnect n E i s =
     (if i \<notin> set (se_servers E) \<and> Contains (sf_clients s) i then Inr s
      else bindS (addFailedServer i (sf_view s)) (\<lambda>(needed, w).
        let s = s\<lparr>sf_view := w\<rparr>
        in if \<not> needed then Inr s
           else if tooFewServers w
           then if sf_stopped s then Inr s else Inr (sf_Stop (s\<lparr>sf_successful := False\<rparr>))
           else startViewVoting E (to_self n E) s))"

end
