(* ===== verification/SFT_Data.thy ===== *)
theory SFT_Data
  imports SFT DCNet
begin

text \<open>
  What the ciphertexts of a fault-tolerant round add up to: the pads of the clients and of the servers in the
  view cancel, and the messages of the clients appear in their slots.
\<close>

section \<open>Chains of xor\<close>

lemma xorBytes_same: "length b = length a \<Longrightarrow> xorBytes a b = Inr (map2 (XOR) a b)"
  by (simp add: xorBytes_def)

lemma xor_chain:
  assumes "length a = L" and "distinct xs" and "\<forall>x \<in> set xs. g x = Inr (f x) \<and> length (f x) = L"
  shows "\<exists>r. foldS (\<lambda>x acc. bindS (g x) (xorBytes acc)) xs a = Inr r \<and> length r = L
    \<and> (\<forall>k < L. r ! k = a ! k XOR bx.F (\<lambda>x. f x ! k) (set xs))"
  using assms
proof (induction xs arbitrary: a)
  case (Cons x xs)
  let ?a = "map2 (XOR) a (f x)"
  have "length ?a = L" "distinct xs" "\<forall>x \<in> set xs. g x = Inr (f x) \<and> length (f x) = L" using Cons.prems by auto
  from Cons.IH [OF this] obtain r where r: "foldS (\<lambda>x acc. bindS (g x) (xorBytes acc)) xs ?a = Inr r" "length r = L"
      "\<forall>k < L. r ! k = ?a ! k XOR bx.F (\<lambda>x. f x ! k) (set xs)" by blast
  have "foldS (\<lambda>x acc. bindS (g x) (xorBytes acc)) (x # xs) a = Inr r" using r(1) Cons.prems by (simp add: xorBytes_same)
  moreover have "r ! k = a ! k XOR bx.F (\<lambda>x. f x ! k) (set (x # xs))" if "k < L" for k
    using r(3) that Cons.prems by (simp add: xor.assoc)
  ultimately show ?case using r(2) by blast
qed simp

lemma xor_chain_pure:
  assumes "length a = L" and "distinct xs" and "\<forall>x \<in> set xs. length (f x) = L"
  shows "\<exists>r. foldS (\<lambda>x acc. xorBytes acc (f x)) xs a = Inr r \<and> length r = L
    \<and> (\<forall>k < L. r ! k = a ! k XOR bx.F (\<lambda>x. f x ! k) (set xs))"
  using xor_chain [OF assms(1,2), of "\<lambda>x. Inr (f x)" f] assms(3) by simp

text \<open>A chain that starts with the first of its elements.\<close>

lemma xor_chain_all:
  assumes "distinct xs" and "xs \<noteq> []" and "\<forall>x \<in> set xs. length (f x) = L"
  shows "\<exists>r. foldS (\<lambda>x acc. xorBytes acc (f x)) (tl xs) (f (hd xs)) = Inr r \<and> length r = L
    \<and> (\<forall>k < L. r ! k = bx.F (\<lambda>x. f x ! k) (set xs))"
proof -
  obtain y ys where xs: "xs = y # ys" using assms(2) by (cases xs) auto
  then show ?thesis using xor_chain_pure [of "f y" L ys f] assms(1,3) by simp
qed

section \<open>Pads\<close>

definition pad :: "sft_env \<Rightarrow> nat \<Rightarrow> int32 \<Rightarrow> int32 \<Rightarrow> bytes" where
  "pad E n server client =
     map (\<lambda>k. of_nat (32 + se_rand E (of_int ((sint server * int n + sint client) * 100)) k mod 96)) [0..<n * keyLength]"

text \<open>Ids for which the seed can be computed without an overflow.\<close>

definition seed_ok :: "nat \<Rightarrow> int32 \<Rightarrow> int32 \<Rightarrow> bool" where
  "seed_ok n server client \<longleftrightarrow> int_range (sint server * int n) \<and> int_range (sint server * int n + sint client)
     \<and> int_range ((sint server * int n + sint client) * 100)"

lemma encryptionKey_pad: "seed_ok n v c \<Longrightarrow> encryptionKey E v c keyLength n = Inr (pad E n v c)"
  by (simp add: encryptionKey_def seed_ok_def pad_def Let_def)

lemma length_sft_pad [simp]: "length (pad E n v c) = n * keyLength"
  by (simp add: pad_def)

text \<open>The comment in \<^verbatim>\<open>encryptionKey\<close> asks whether its seeds are unique.\<close>

lemma pads_repeat:
  assumes "sint v' = sint v - 1" and "sint c' = sint c + int n"
  shows "pad E n v c = pad E n v' c'"
proof -
  have "sint v = sint v' + 1" using assms(1) by simp
  then have "sint v * int n + sint c = sint v' * int n + sint c'" unfolding assms(2) by (simp only: distrib_right mult_1 add.assoc add.commute [of "int n"])
  then show ?thesis by (simp add: pad_def)
qed

section \<open>Slots\<close>

text \<open>The plain text of a client: its message in its slot, zeros elsewhere.\<close>

definition slot_text :: "nat \<Rightarrow> nat \<Rightarrow> bytes \<Rightarrow> bytes" where
  "slot_text n i text = replicate (i * keyLength) 0 @ text @ replicate ((n - Suc i) * keyLength) 0"

lemma insertInSlot_conv:
  assumes "roster_ok (sf_clients s)" and "i < Count (sf_clients s)" and "sf_id s = pi_id (m_roster (sf_clients s) ! i)"
  shows "insertInSlot E msg s = slot_text (Count (sf_clients s)) i (se_text E msg)"
proof -
  have "GetIndex (sf_clients s) (sf_id s) = int i" using GetIndex_nth [OF assms(1,2)] assms(3) by simp
  moreover have "nat (int (Count (sf_clients s)) - (int i + 1)) = Count (sf_clients s) - Suc i" by linarith
  ultimately show ?thesis by (simp add: insertInSlot_def slot_text_def Let_def)
qed

lemma length_slot_text [simp]: "i < n \<Longrightarrow> length text = keyLength \<Longrightarrow> length (slot_text n i text) = n * keyLength"
proof -
  assume "i < n" "length text = keyLength"
  then obtain d where n: "n = Suc i + d" using le_Suc_ex [of "Suc i" n] by auto
  then show ?thesis using \<open>length text = keyLength\<close> by (simp add: slot_text_def distrib_right)
qed

lemma nth_slot_text:
  assumes "i < n" and "length text = keyLength" and "k < n * keyLength"
  shows "slot_text n i text ! k = (if k div keyLength = i then text ! (k mod keyLength) else 0)"
proof -
  have L: "0 < keyLength" by (simp add: keyLength_def)
  have "k div keyLength = i \<longleftrightarrow> i * keyLength \<le> k \<and> k < i * keyLength + keyLength"
    using L div_less_iff_less_mult [OF L, of k "Suc i"] less_eq_div_iff_mult_less_eq [OF L, of i k] by auto
  moreover have "k - i * keyLength = k mod keyLength" if "k div keyLength = i" unfolding that [symmetric] by (rule minus_div_mult_eq_mod)
  moreover have "k - i * keyLength - keyLength < (n - Suc i) * keyLength" if "i * keyLength + keyLength \<le> k"
    using that assms(1,3) by (simp add: diff_mult_distrib)
  ultimately show ?thesis using assms(2) by (auto simp: slot_text_def nth_append)
qed

text \<open>All slots together.\<close>

definition all_slots :: "nat \<Rightarrow> (nat \<Rightarrow> bytes) \<Rightarrow> bytes" where
  "all_slots n text = concat (map text [0..<n])"

lemma length_all_slots: "\<forall>i < n. length (text i) = keyLength \<Longrightarrow> length (all_slots n text) = n * keyLength"
  by (induction n) (simp_all add: all_slots_def)

lemma nth_all_slots:
  assumes "\<forall>i < n. length (text i) = keyLength" and "k < n * keyLength"
  shows "all_slots n text ! k = text (k div keyLength) ! (k mod keyLength)"
  using assms
proof (induction n)
  case (Suc n)
  have L: "0 < keyLength" by (simp add: keyLength_def)
  have split: "all_slots (Suc n) text = all_slots n text @ text n" by (simp add: all_slots_def)
  have len: "length (all_slots n text) = n * keyLength" using Suc.prems(1) by (simp add: length_all_slots)
  show ?case
  proof (cases "k < n * keyLength")
    case True
    then show ?thesis using Suc len by (simp add: split nth_append)
  next
    case False
    then have n: "k div keyLength = n" using Suc.prems(2) L by (intro div_nat_eqI) (simp_all add: mult.commute)
    moreover have "k - n * keyLength = k mod keyLength" unfolding n [symmetric] by (rule minus_div_mult_eq_mod)
    ultimately show ?thesis using False len by (simp add: split nth_append)
  qed
qed simp

section \<open>The view\<close>

definition view_servers :: "sft_view \<Rightarrow> peer list" where
  "view_servers w = map (\<lambda>i. pi_id (m_roster (vw_servers w) ! i)) (filter (\<lambda>i. vw_current w ! i) [0..<Count (vw_servers w)])"

lemma getCurrentServers_conv:
  assumes "length (vw_current w) = Count (vw_servers w)"
  shows "getCurrentServers w = Inr (view_servers w)"
proof -
  let ?f = "\<lambda>i connections. if vw_current w ! i then bindS (GetId (vw_servers w) (int i)) (\<lambda>server. Inr (connections @ [server])) else Inr connections"
  have "foldS ?f is xs = Inr (xs @ map (\<lambda>i. pi_id (m_roster (vw_servers w) ! i)) (filter (\<lambda>i. vw_current w ! i) is))"
    if "\<forall>i \<in> set is. i < Count (vw_servers w)" for "is" xs
    using that by (induction "is" arbitrary: xs) (auto simp: GetId_def Count_def)
  then show ?thesis by (simp add: getCurrentServers_def view_servers_def assms)
qed

lemma view_servers_props:
  assumes "roster_ok (vw_servers w)"
  shows "distinct (view_servers w)" and "set (view_servers w) \<subseteq> set (map pi_id (m_roster (vw_servers w)))"
proof -
  have d: "distinct (map pi_id (m_roster (vw_servers w)))" using assms by (simp add: roster_ok_def)
  have "inj_on (\<lambda>i. pi_id (m_roster (vw_servers w) ! i)) {0..<Count (vw_servers w)}"
  proof (rule inj_onI)
    fix x y
    assume "x \<in> {0..<Count (vw_servers w)}" "y \<in> {0..<Count (vw_servers w)}" "pi_id (m_roster (vw_servers w) ! x) = pi_id (m_roster (vw_servers w) ! y)"
    then show "x = y" using nth_eq_iff_index_eq [OF d, of x y] by (simp add: Count_def)
  qed
  then show "distinct (view_servers w)" unfolding view_servers_def distinct_map by (auto intro: inj_on_subset)
  show "set (view_servers w) \<subseteq> set (map pi_id (m_roster (vw_servers w)))" by (auto simp: view_servers_def Count_def)
qed

lemma inCurrentView_conv:
  assumes "roster_ok (vw_servers w)" and "length (vw_current w) = Count (vw_servers w)" and "Contains (vw_servers w) i"
  shows "inCurrentView w i = Inr (i \<in> set (view_servers w))"
proof -
  obtain k where k: "GetIndex (vw_servers w) i = int k" "k < Count (vw_servers w)" "pi_id (m_roster (vw_servers w) ! k) = i"
    using GetIndex_Some [OF assms(1,3)] by blast
  have "j = k" if "j < Count (vw_servers w)" "pi_id (m_roster (vw_servers w) ! j) = i" for j
    using GetIndex_nth [OF assms(1) that(1)] that(2) k(1) by simp
  then have "i \<in> set (view_servers w) \<longleftrightarrow> vw_current w ! k"
    unfolding view_servers_def set_map set_filter using k(2,3) by (metis (mono_tags, lifting) atLeastLessThan_iff atLeast_upt imageE imageI lessThan_iff mem_Collect_eq)
  then show ?thesis using k assms(2) by (simp add: inCurrentView_def Let_def)
qed

section \<open>Ciphertexts\<close>

text \<open>What a client sends.\<close>

lemma encryptClientMessage_conv:
  assumes "roster_ok (vw_servers (sf_view s))" and "length (vw_current (sf_view s)) = Count (vw_servers (sf_view s))"
    and "inj_on id32 (set (view_servers (sf_view s)))" and "length data = Count (sf_clients s) * keyLength"
    and "\<forall>v \<in> set (view_servers (sf_view s)). seed_ok (Count (sf_clients s)) (id32 v) c"
  shows "\<exists>x. encryptClientMessage E c data s = Inr x \<and> length x = Count (sf_clients s) * keyLength
    \<and> (\<forall>k < Count (sf_clients s) * keyLength. x ! k = data ! k XOR bx.F (\<lambda>v. pad E (Count (sf_clients s)) (id32 v) c ! k) (set (view_servers (sf_view s))))"
  using xor_chain [OF assms(4) view_servers_props(1) [OF assms(1)], of "\<lambda>v. encryptionKey E (id32 v) c keyLength (Count (sf_clients s))" "\<lambda>v. pad E (Count (sf_clients s)) (id32 v) c"]
    assms(5) by (simp add: encryptClientMessage_def getCurrentServers_conv [OF assms(2)] encryptionKey_pad)

lemma first_hd: "xs \<noteq> [] \<Longrightarrow> first_or d xs = hd xs"
  by (cases xs) (simp_all add: first_or_def)

lemma order_props:
  assumes "sft_env_ok E"
  shows "set (se_order E ks) = set ks" and "distinct ks \<Longrightarrow> distinct (se_order E ks)" and "ks \<noteq> [] \<Longrightarrow> se_order E ks \<noteq> []"
  using assms by (auto simp: sft_env_ok_def) (metis length_0_conv)

text \<open>What a server sends to the others.\<close>

lemma createCipher_conv:
  assumes "sft_env_ok E" and "distinct (map fst (sf_client_msgs t))" and "sf_client_msgs t \<noteq> []"
    and "\<forall>i \<in> fst ` set (sf_client_msgs t). length (value_of (sf_client_msgs t) i) = Count (sf_clients t) * keyLength"
    and "inCurrentView (sf_view t) (sf_id t) = Inr inside" and "distinct (sf_total t)"
    and "\<forall>c \<in> set (sf_total t). seed_ok (Count (sf_clients t)) (own t) c"
  shows "\<exists>y. createCipher E t = Inr y \<and> length y = Count (sf_clients t) * keyLength
    \<and> (\<forall>k < Count (sf_clients t) * keyLength. y ! k = bx.F (\<lambda>i. value_of (sf_client_msgs t) i ! k) (fst ` set (sf_client_msgs t))
         XOR (if inside then bx.F (\<lambda>c. pad E (Count (sf_clients t)) (own t) c ! k) (set (sf_total t)) else 0))"
proof -
  let ?L = "Count (sf_clients t) * keyLength" and ?keys = "se_order E (map fst (sf_client_msgs t))"
  have keys: "distinct ?keys" "?keys \<noteq> []" "set ?keys = fst ` set (sf_client_msgs t)"
    using order_props [OF assms(1), of "map fst (sf_client_msgs t)"] assms(2,3) by auto
  have "\<forall>i \<in> set ?keys. length (value_of (sf_client_msgs t) i) = ?L" using assms(4) keys(3) by simp
  from xor_chain_all [OF keys(1,2) this] obtain r where
    r: "foldS (\<lambda>i acc. xorBytes acc (value_of (sf_client_msgs t) i)) (tl ?keys) (value_of (sf_client_msgs t) (first_or 0 ?keys)) = Inr r"
      "length r = ?L" "\<forall>k < ?L. r ! k = bx.F (\<lambda>i. value_of (sf_client_msgs t) i ! k) (fst ` set (sf_client_msgs t))"
    unfolding keys(3) [symmetric] first_hd [OF keys(2)] by blast
  show ?thesis
  proof (cases inside)
    case False
    then show ?thesis using r assms(5) by (simp add: createCipher_def Let_def)
  next
    case True
    have "\<forall>c \<in> set (sf_total t). encryptionKey E (own t) c keyLength (Count (sf_clients t)) = Inr (pad E (Count (sf_clients t)) (own t) c)
        \<and> length (pad E (Count (sf_clients t)) (own t) c) = ?L" using assms(7) by (simp add: encryptionKey_pad)
    from xor_chain [OF r(2) assms(6) this] show ?thesis using r True assms(5) by (auto simp: createCipher_def Let_def)
  qed
qed

lemma getDecrypted_conv:
  assumes "sft_env_ok E" and "distinct (map fst (sf_ciphers t))" and "sf_ciphers t \<noteq> []"
    and "\<forall>i \<in> fst ` set (sf_ciphers t). length (value_of (sf_ciphers t) i) = L"
  shows "\<exists>y. getDecrypted E t = Inr y \<and> length y = L \<and> (\<forall>k < L. y ! k = bx.F (\<lambda>i. value_of (sf_ciphers t) i ! k) (fst ` set (sf_ciphers t)))"
proof -
  let ?keys = "se_order E (map fst (sf_ciphers t))"
  have keys: "distinct ?keys" "?keys \<noteq> []" "set ?keys = fst ` set (sf_ciphers t)"
    using order_props [OF assms(1), of "map fst (sf_ciphers t)"] assms(2,3) by auto
  have fold_map: "foldS (\<lambda>c acc. xorBytes acc c) (map f xs) a = foldS (\<lambda>x acc. xorBytes acc (f x)) xs a" for f xs a
    by (induction xs arbitrary: a) (simp_all cong: bindS_cong)
  have "\<forall>i \<in> set ?keys. length (value_of (sf_ciphers t) i) = L" using assms(4) keys(3) by simp
  from xor_chain_all [OF keys(1,2) this] show ?thesis
    using keys(2) unfolding keys(3) by (simp add: getDecrypted_def Let_def first_hd hd_map fold_map flip: map_tl)
qed

section \<open>Cancelling\<close>

text \<open>
  At one byte position: clients \<open>CL\<close> with plain text \<open>t\<close>, whose message goes to the server \<open>home\<close>; \<open>p v c\<close> is
  the pad of a client with a server of the view \<open>V\<close>.
\<close>

lemma sft_pads_cancel:
  assumes "finite CL" and "finite SS" and "V \<subseteq> SS" and "home ` CL \<subseteq> SS"
  shows "bx.F (\<lambda>j. bx.F (\<lambda>c. t c XOR bx.F (\<lambda>v. p v c) V) {c. c \<in> CL \<and> home c = j} XOR (if j \<in> V then bx.F (\<lambda>c. p j c) CL else 0)) SS
    = bx.F t CL"
proof -
  have "bx.F (\<lambda>j. if j \<in> V then bx.F (\<lambda>c. p j c) CL else 0) SS = bx.F (\<lambda>j. bx.F (\<lambda>c. p j c) CL) V"
    using assms(2,3) by (simp add: bx.inter_restrict [symmetric] Int_absorb1)
  also have "\<dots> = bx.F (\<lambda>c. bx.F (\<lambda>v. p v c) V) CL" by (rule bx.swap)
  finally have pads: "bx.F (\<lambda>j. if j \<in> V then bx.F (\<lambda>c. p j c) CL else 0) SS = bx.F (\<lambda>c. bx.F (\<lambda>v. p v c) V) CL" .
  have groups: "bx.F (\<lambda>j. bx.F (\<lambda>c. t c XOR bx.F (\<lambda>v. p v c) V) {c. c \<in> CL \<and> home c = j}) SS = bx.F (\<lambda>c. t c XOR bx.F (\<lambda>v. p v c) V) CL"
    by (rule bx.group [OF assms(1,2,4)])
  have "bx.F (\<lambda>c. t c XOR bx.F (\<lambda>v. p v c) V) CL XOR bx.F (\<lambda>c. bx.F (\<lambda>v. p v c) V) CL = bx.F t CL"
    unfolding bx.distrib by (simp add: xor.assoc)
  then show ?thesis unfolding groups [symmetric] pads [symmetric] by (simp only: bx.distrib)
qed

end
