(* ===== verification/SFT_View_Props.thy ===== *)
theory SFT_View_Props
  imports SFT_View
begin

text \<open>
  Properties of the view manager: which views exist, when the search for a view ends, and what a change of
  the view by votes means.
\<close>

section \<open>Membership\<close>

text \<open>The servers the first \<open>k\<close> random numbers select, and the vector of a set of servers.\<close>

definition drawn :: "(nat \<Rightarrow> nat) \<Rightarrow> nat \<Rightarrow> nat \<Rightarrow> nat set" where
  "drawn rnd n k = (\<lambda>i. rnd i mod n) ` {..<k}"

definition member_vector :: "nat \<Rightarrow> nat set \<Rightarrow> bool list" where
  "member_vector n S = map (\<lambda>j. j \<in> S) [0..<n]"

lemma member_vector_simps [simp]:
  "length (member_vector n S) = n" "j < n \<Longrightarrow> member_vector n S ! j \<longleftrightarrow> j \<in> S"
  by (simp_all add: member_vector_def)

lemma member_vector_insert: "(member_vector n S)[j := True] = member_vector n (insert j S)"
  by (cases "j < n") (auto intro!: nth_equalityI simp: nth_list_update split: if_splits)

lemma drawn_Suc: "drawn rnd n (Suc k) = insert (rnd k mod n) (drawn rnd n k)"
  by (simp add: drawn_def lessThan_Suc)

lemma drawn_finite [simp]: "finite (drawn rnd n k)"
  by (simp add: drawn_def)

lemma drawn_subset: "0 < n \<Longrightarrow> drawn rnd n k \<subseteq> {..<n}"
  by (auto simp: drawn_def)

lemma card_drawn: "card (drawn rnd n (Suc k)) \<le> Suc (card (drawn rnd n k))"
  by (simp add: drawn_Suc card_insert_if)

text \<open>One iteration of the loop draws one number.\<close>

lemma member_loop_step:
  "member_loop rnd k (card (drawn rnd n k)) (member_vector n (drawn rnd n k)) =
     (if 3 * card (drawn rnd n k) < 2 * n
      then member_loop rnd (Suc k) (card (drawn rnd n (Suc k))) (member_vector n (drawn rnd n (Suc k)))
      else Some (member_vector n (drawn rnd n k)))"
proof -
  have "rnd k mod n < n" if "3 * card (drawn rnd n k) < 2 * n" using that by simp
  then show ?thesis
    by (subst member_loop.simps)
      (auto simp: Let_def drawn_Suc member_vector_insert insert_absorb card_insert_if)
qed

lemma member_loop_ends:
  assumes "\<forall>k < m. 3 * card (drawn rnd n k) < 2 * n" and "2 * n \<le> 3 * card (drawn rnd n m)" and "k \<le> m"
  shows "member_loop rnd k (card (drawn rnd n k)) (member_vector n (drawn rnd n k)) = Some (member_vector n (drawn rnd n m))"
  using assms(3)
proof (induction k rule: inc_induct)
  case base
  then show ?case using assms(2) by (subst member_loop_step) simp
next
  case (step k)
  then show ?case using assms(1) by (subst member_loop_step) simp
qed

lemma member_loop_enough:
  assumes "member_loop rnd i count members = Some result" and "members = member_vector n (drawn rnd n i)"
    and "count = card (drawn rnd n i)"
  shows "\<exists>m. 2 * n \<le> 3 * card (drawn rnd n m)"
proof -
  let ?P = "\<lambda>rnd i count members result. members = member_vector n (drawn rnd n i) \<longrightarrow> count = card (drawn rnd n i)
    \<longrightarrow> (\<exists>m. 2 * n \<le> 3 * card (drawn rnd n m))"
  have "?P rnd i count members result"
  proof (rule member_loop.raw_induct [where P = ?P, OF _ assms(1)], intro impI)
    fix loop rnd i count members result
    assume IH: "\<And>rnd i count members result. loop rnd i count members = Some result \<Longrightarrow> ?P rnd i count members result"
      and body: "(if 3 * count < 2 * length members
        then let j = rnd i mod length members
          in if members ! j then loop rnd (i + 1) count members else loop rnd (i + 1) (count + 1) (members[j := True])
        else Some members) = Some result"
      and members: "members = member_vector n (drawn rnd n i)" and count: "count = card (drawn rnd n i)"
    let ?j = "rnd i mod n"
    show "\<exists>m. 2 * n \<le> 3 * card (drawn rnd n m)"
    proof (cases "3 * card (drawn rnd n i) < 2 * n")
      case True
      then have j: "?j < n" by simp
      have next_members: "member_vector n (drawn rnd n (i + 1)) = (if ?j \<in> drawn rnd n i then members else members[?j := True])"
        using members by (simp add: drawn_Suc member_vector_insert insert_absorb)
      have next_count: "card (drawn rnd n (i + 1)) = (if ?j \<in> drawn rnd n i then count else count + 1)"
        using count by (simp add: drawn_Suc card_insert_if)
      show ?thesis
      proof (cases "?j \<in> drawn rnd n i")
        case in_drawn: True
        then have "loop rnd (i + 1) count members = Some result" using body members count True j by (simp add: Let_def)
        from IH [OF this] show ?thesis using in_drawn next_members next_count by simp
      next
        case out: False
        then have "loop rnd (i + 1) (count + 1) (members[?j := True]) = Some result" using body members count True j by (simp add: Let_def)
        from IH [OF this] show ?thesis using out next_members next_count by simp
      qed
    qed (use not_less in blast)
  qed
  then show ?thesis using assms(2,3) by blast
qed

text \<open>The number of members of every view.\<close>

definition view_size :: "nat \<Rightarrow> nat" where
  "view_size n = (2 * n + 2) div 3"

lemma enough_drawn:
  assumes "2 * n \<le> 3 * card ((\<lambda>i. rnd i mod n) ` UNIV)"
  shows "\<exists>m. (\<forall>k < m. 3 * card (drawn rnd n k) < 2 * n) \<and> 2 * n \<le> 3 * card (drawn rnd n m) \<and> card (drawn rnd n m) = view_size n"
proof (cases "n = 0")
  case True
  then show ?thesis by (intro exI [of _ 0]) (simp add: view_size_def drawn_def)
next
  case False
  let ?S = "(\<lambda>i. rnd i mod n) ` UNIV"
  have "finite ?S" using False by (intro finite_subset [of ?S "{..<n}"]) auto
  have "\<forall>s \<in> ?S. \<exists>i. rnd i mod n = s" by auto
  from bchoice [OF this] obtain f where f: "\<forall>s \<in> ?S. rnd (f s) mod n = s" by blast
  have "?S \<subseteq> drawn rnd n (Suc (Max (f ` ?S)))"
  proof
    fix s assume s: "s \<in> ?S"
    have "f s \<le> Max (f ` ?S)" using \<open>finite ?S\<close> s by (intro Max_ge) auto
    moreover have "s = rnd (f s) mod n" using bspec [OF f s] by (rule sym)
    ultimately show "s \<in> drawn rnd n (Suc (Max (f ` ?S)))" unfolding drawn_def by (intro image_eqI [of _ _ "f s"]) auto
  qed
  then have "2 * n \<le> 3 * card (drawn rnd n (Suc (Max (f ` ?S))))"
    using assms card_mono [of "drawn rnd n (Suc (Max (f ` ?S)))" ?S] by simp
  then have ex: "\<exists>m. 2 * n \<le> 3 * card (drawn rnd n m)" by blast
  define m where "m = (LEAST m. 2 * n \<le> 3 * card (drawn rnd n m))"
  have m: "2 * n \<le> 3 * card (drawn rnd n m)" unfolding m_def using ex by (rule LeastI_ex)
  have least: "\<forall>k < m. 3 * card (drawn rnd n k) < 2 * n" using not_less_Least m_def not_le by blast
  obtain k where k: "m = Suc k" using m False by (cases m) (auto simp: drawn_def)
  have "card (drawn rnd n m) = view_size n"
    using m least card_drawn [of rnd n k] unfolding k view_size_def by (auto dest!: spec [of _ k])
  then show ?thesis using m least by blast
qed

lemma membership_start: "replicate n False = member_vector n (drawn rnd n 0)"
  by (rule nth_equalityI) (auto simp: drawn_def)

lemma membership_returns:
  "(\<exists>members. member_loop rnd 0 0 (replicate n False) = Some members) \<longleftrightarrow> 2 * n \<le> 3 * card ((\<lambda>i. rnd i mod n) ` UNIV)"
proof
  assume "\<exists>members. member_loop rnd 0 0 (replicate n False) = Some members"
  then obtain m where m: "2 * n \<le> 3 * card (drawn rnd n m)"
    using member_loop_enough [OF _ membership_start [of n rnd]] by (auto simp: drawn_def)
  have "card (drawn rnd n m) \<le> card ((\<lambda>i. rnd i mod n) ` UNIV)" if "n \<noteq> 0"
    using that by (intro card_mono finite_subset [of "(\<lambda>i. rnd i mod n) ` UNIV" "{..<n}"]) (auto simp: drawn_def)
  with m show "2 * n \<le> 3 * card ((\<lambda>i. rnd i mod n) ` UNIV)" by (cases "n = 0") auto
next
  assume "2 * n \<le> 3 * card ((\<lambda>i. rnd i mod n) ` UNIV)"
  then show "\<exists>members. member_loop rnd 0 0 (replicate n False) = Some members"
    using enough_drawn [of n rnd] member_loop_ends [of _ rnd n 0] membership_start [of n rnd] by (auto simp: drawn_def)
qed

lemma membership_size:
  assumes "calcServerMembership R v n = Inr members"
  shows "length members = n" and "card {j. j < n \<and> members ! j} = view_size n"
proof -
  obtain rnd where "member_loop rnd 0 0 (replicate n False) = Some members"
    using assms by (auto simp: calcServerMembership_def split: if_splits option.splits)
  moreover from this obtain m where m: "\<forall>k < m. 3 * card (drawn rnd n k) < 2 * n" "2 * n \<le> 3 * card (drawn rnd n m)"
      "card (drawn rnd n m) = view_size n"
    using enough_drawn [of n rnd] membership_returns [of rnd n] by blast
  ultimately have *: "members = member_vector n (drawn rnd n m)"
    using member_loop_ends [OF m(1,2), of 0] membership_start [of n rnd] by (simp add: drawn_def)
  then show "length members = n" by simp
  have "{j. j < n \<and> members ! j} = drawn rnd n m"
  proof (cases "n = 0")
    case True
    then have "drawn rnd n m = {}" using m(3) card_0_eq [OF drawn_finite] by (simp add: view_size_def)
    then show ?thesis using True by simp
  qed (use * drawn_subset [of n rnd m] in auto)
  then show "card {j. j < n \<and> members ! j} = view_size n" using m(3) by simp
qed

section \<open>The search for a view\<close>

definition view_ok :: "sft_view \<Rightarrow> bool" where
  "view_ok w \<longleftrightarrow> roster_ok (vw_servers w) \<and> length (vw_current w) = Count (vw_servers w)
     \<and> distinct (vw_down w) \<and> (\<forall>i \<in> set (vw_down w). Contains (vw_servers w) i)"

text \<open>A view without the servers that are down.\<close>

definition good_view :: "c_rand \<Rightarrow> sft_view \<Rightarrow> int32 \<Rightarrow> bool" where
  "good_view R w v \<longleftrightarrow>
     (\<exists>members. calcServerMembership R v (Count (vw_servers w)) = Inr members
       \<and> (\<forall>i \<in> set (vw_down w). \<not> members ! nat (GetIndex (vw_servers w) i)))"

lemma view_good_conv:
  "\<forall>index \<in> set bad. 0 \<le> index \<and> nat index < length members \<Longrightarrow>
     view_good bad members = Inr (\<forall>index \<in> set bad. \<not> members ! nat index)"
proof -
  have "foldS (\<lambda>index good. if 0 \<le> index \<and> nat index < length members then Inr (if members ! nat index then False else good) else Inl OutOfBounds)
      bad good = Inr (good \<and> (\<forall>index \<in> set bad. \<not> members ! nat index))"
    if "\<forall>index \<in> set bad. 0 \<le> index \<and> nat index < length members" for good
    using that by (induction bad arbitrary: good) auto
  then show "\<forall>index \<in> set bad. 0 \<le> index \<and> nat index < length members \<Longrightarrow> ?thesis" unfolding view_good_def by simp
qed

lemma down_indexes:
  assumes "view_ok w" and "length members = Count (vw_servers w)"
  shows "view_good (map (GetIndex (vw_servers w)) (vw_down w)) members =
    Inr (\<forall>i \<in> set (vw_down w). \<not> members ! nat (GetIndex (vw_servers w) i))"
proof -
  have "\<forall>index \<in> set (map (GetIndex (vw_servers w)) (vw_down w)). 0 \<le> index \<and> nat index < length members"
  proof
    fix index assume "index \<in> set (map (GetIndex (vw_servers w)) (vw_down w))"
    then obtain i where i: "Contains (vw_servers w) i" "index = GetIndex (vw_servers w) i" using assms(1) by (auto simp: view_ok_def)
    have "roster_ok (vw_servers w)" using assms(1) by (simp add: view_ok_def)
    then obtain k where "GetIndex (vw_servers w) i = int k" "k < Count (vw_servers w)" using i(1) by (rule GetIndex_Some)
    then show "0 \<le> index \<and> nat index < length members" using i(2) assms(2) by simp
  qed
  then show ?thesis using view_good_conv by simp
qed

text \<open>If more than a third of the servers is down, every view has one of them.\<close>

lemma no_good_view:
  assumes "view_ok w" and "tooFewServers w"
  shows "\<not> good_view R w v"
proof
  assume "good_view R w v"
  then obtain members where members: "calcServerMembership R v (Count (vw_servers w)) = Inr members"
      "\<forall>i \<in> set (vw_down w). \<not> members ! nat (GetIndex (vw_servers w) i)" by (auto simp: good_view_def)
  let ?n = "Count (vw_servers w)" and ?down = "(\<lambda>i. nat (GetIndex (vw_servers w) i)) ` set (vw_down w)"
  have R: "roster_ok (vw_servers w)" and down: "distinct (vw_down w)" "\<forall>i \<in> set (vw_down w). Contains (vw_servers w) i"
    using assms(1) by (auto simp: view_ok_def)
  have index: "\<exists>k. GetIndex (vw_servers w) i = int k \<and> k < ?n \<and> pi_id (m_roster (vw_servers w) ! k) = i" if "i \<in> set (vw_down w)" for i
    using GetIndex_Some [OF R, of i] down(2) that by blast
  have "inj_on (\<lambda>i. nat (GetIndex (vw_servers w) i)) (set (vw_down w))"
    by (rule inj_onI) (metis index nat_int)
  then have card: "card ?down = length (vw_down w)" using down(1) by (simp add: card_image distinct_card)
  have "?down \<subseteq> {..<?n}" using index by fastforce
  moreover have "{j. j < ?n \<and> members ! j} \<inter> ?down = {}" using members(2) by auto
  ultimately have "card ({j. j < ?n \<and> members ! j} \<union> ?down) \<le> ?n" "card ({j. j < ?n \<and> members ! j} \<union> ?down) = card {j. j < ?n \<and> members ! j} + card ?down"
    using card_mono [of "{..<?n}" "{j. j < ?n \<and> members ! j} \<union> ?down"] by (auto intro!: card_Un_disjoint)
  then have "view_size ?n + length (vw_down w) \<le> ?n" using membership_size(2) [OF members(1)] card by simp
  then show False using assms(2) by (simp add: tooFewServers_def getNumLiveServers_def view_size_def)
qed

lemma sint_eq_iff: "sint a = sint b \<longleftrightarrow> a = (b :: int32)"
  by (auto dest: signed_word_eqI)

lemma next_view_correct:
  assumes "view_ok w"
  shows "case next_view R (Count (vw_servers w)) (map (GetIndex (vw_servers w)) (vw_down w)) v of
      Inr v' \<Rightarrow> sint v \<le> sint v' \<and> good_view R w v' \<and> (\<forall>u. sint v \<le> sint u \<and> sint u < sint v' \<longrightarrow> \<not> good_view R w u)
    | Inl e \<Rightarrow> e = Overflow \<and> (\<forall>u. sint v \<le> sint u \<longrightarrow> \<not> good_view R w u) \<or> (\<exists>u. sint v \<le> sint u \<and> calcServerMembership R u (Count (vw_servers w)) = Inl e)"
proof (induction R "Count (vw_servers w)" "map (GetIndex (vw_servers w)) (vw_down w)" v rule: next_view.induct)
  case (1 R v)
  let ?n = "Count (vw_servers w)" and ?bad = "map (GetIndex (vw_servers w)) (vw_down w)"
  show ?case
  proof (cases "calcServerMembership R v ?n")
    case (Inl e)
    then show ?thesis by (subst next_view.simps) auto
  next
    case (Inr members)
    have good: "view_good ?bad members = Inr (good_view R w v)"
      using down_indexes [OF assms membership_size(1) [OF Inr]] Inr by (simp add: good_view_def)
    consider "good_view R w v" | "\<not> good_view R w v" "sint v = 2 ^ 31 - 1" | "\<not> good_view R w v" "sint v \<noteq> 2 ^ 31 - 1" by blast
    then show ?thesis
    proof cases
      case 1
      then show ?thesis using Inr good by (subst next_view.simps) auto
    next
      case 2
      have "u = v" if "sint v \<le> sint u" for u
      proof -
        have "sint u = sint v" using that 2(2) sint_range_size [of u] by (simp add: size_word_def)
        then show ?thesis by (rule signed_word_eqI)
      qed
      then have "\<not> good_view R w u" if "sint v \<le> sint u" for u using that 2(1) by blast
      then show ?thesis using Inr good 2 by (subst next_view.simps) simp
    next
      case 3
      have less: "sint (v + 1) \<le> sint u \<longleftrightarrow> sint v \<le> sint u \<and> u \<noteq> v" for u
        using sint_add_one [OF 3(2)] sint_eq_iff [of u v] by auto
      from 1 [OF Inr good] 3 have IH: "case next_view R ?n ?bad (v + 1) of
          Inr v' \<Rightarrow> sint (v + 1) \<le> sint v' \<and> good_view R w v' \<and> (\<forall>u. sint (v + 1) \<le> sint u \<and> sint u < sint v' \<longrightarrow> \<not> good_view R w u)
        | Inl e \<Rightarrow> e = Overflow \<and> (\<forall>u. sint (v + 1) \<le> sint u \<longrightarrow> \<not> good_view R w u)
            \<or> (\<exists>u. sint (v + 1) \<le> sint u \<and> calcServerMembership R u ?n = Inl e)" by simp
      have "next_view R ?n ?bad v = next_view R ?n ?bad (v + 1)" using Inr good 3 by (subst next_view.simps) simp
      then show ?thesis using IH less 3(1) by (auto split: sum.splits)
    qed
  qed
qed

section \<open>Votes\<close>

datatype view_op = OpVote int32 bool peer | OpNew int32 | OpFail peer | OpPropose int32

text \<open>The states a view manager gets into, with the operations that led there.\<close>

inductive view_run :: "c_rand \<Rightarrow> roster \<Rightarrow> view_op list \<Rightarrow> sft_view \<Rightarrow> bool" for R servers where
  start: "SFTViewManager R servers = Inr w \<Longrightarrow> view_run R servers [] w"
| vote: "view_run R servers ops w \<Longrightarrow> addViewChangeVote R v b i w = Inr (code, w') \<Longrightarrow> view_run R servers (ops @ [OpVote v b i]) w'"
| new: "view_run R servers ops w \<Longrightarrow> setNewView R v w = Inr w' \<Longrightarrow> view_run R servers (ops @ [OpNew v]) w'"
| failed: "view_run R servers ops w \<Longrightarrow> addFailedServer i w = Inr (b, w') \<Longrightarrow> view_run R servers (ops @ [OpFail i]) w'"
| propose: "view_run R servers ops w \<Longrightarrow> view_run R servers (ops @ [OpPropose v]) (proposeNewView v w)"

text \<open>Who voted for a view, by the 32 bits of the ids that the manager tells apart.\<close>

definition yes_votes :: "view_op list \<Rightarrow> int32 \<Rightarrow> int32 set" where
  "yes_votes ops v = id32 ` {i. OpVote v True i \<in> set ops}"

lemma yes_votes_snoc:
  "yes_votes (ops @ [OpVote v b i]) u = (if u = v \<and> b then insert (id32 i) (yes_votes ops u) else yes_votes ops u)"
  "yes_votes (ops @ [OpNew v]) u = yes_votes ops u" "yes_votes (ops @ [OpFail i]) u = yes_votes ops u"
  "yes_votes (ops @ [OpPropose v]) u = yes_votes ops u"
proof -
  have "{j. OpVote u True j \<in> set (ops @ [OpVote v b i])} = {j. OpVote u True j \<in> set ops} \<union> (if u = v \<and> b then {i} else {})" by auto
  then show "yes_votes (ops @ [OpVote v b i]) u = (if u = v \<and> b then insert (id32 i) (yes_votes ops u) else yes_votes ops u)"
    unfolding yes_votes_def by (simp only:) auto
qed (simp_all add: yes_votes_def)

lemma yes_votes_finite [simp]: "finite (yes_votes ops v)"
proof -
  have "(\<lambda>i. OpVote v True i) ` {i. OpVote v True i \<in> set ops} \<subseteq> set ops" by auto
  then have "finite {i. OpVote v True i \<in> set ops}" by (rule inj_on_finite [rotated]) (auto intro: inj_onI)
  then show ?thesis by (simp add: yes_votes_def)
qed

text \<open>Every counted vote is the vote of someone else, and no newer view has a quorum yet.\<close>

definition counted :: "roster \<Rightarrow> int32 set \<Rightarrow> bool \<Rightarrow> vote_count \<Rightarrow> bool" where
  "counted servers yes newer c \<longleftrightarrow>
     (\<exists>Y \<subseteq> set (vc_voters c) \<inter> yes. card Y = vc_count c) \<and> (newer \<longrightarrow> 3 * vc_count c < 2 * Count servers)"

definition votes_inv :: "roster \<Rightarrow> view_op list \<Rightarrow> sft_view \<Rightarrow> bool" where
  "votes_inv servers ops w \<longleftrightarrow> vw_servers w = servers
     \<and> (\<forall>v c. vw_proposals w v = Some c \<longrightarrow> counted servers (yes_votes ops v) (sint (vw_num w) < sint v) c)"

lemma setNewView_fields:
  "setNewView R v w = Inr w' \<Longrightarrow> vw_servers w' = vw_servers w \<and> vw_num w' = v \<and> vw_proposals w' = Map.empty
    \<and> vw_down w' = vw_down w \<and> vw_proposed w' = vw_proposed w \<and> calcServerMembership R v (Count (vw_servers w)) = Inr (vw_current w')"
  by (auto simp: setNewView_def fault_simps)

lemma counted_mono: "counted servers yes newer c \<Longrightarrow> yes \<subseteq> yes' \<Longrightarrow> counted servers yes' newer c"
  unfolding counted_def by blast

text \<open>One vote.\<close>

lemma vote_cases:
  assumes "addViewChangeVote R v b i w = Inr (code, w')"
  obtains (again) "id32 i \<in> set (vc_voters (votes_for w v))" "code = -1" "w' = w"
  | (changed) c where "code = v" "sint (vw_num w) < sint v" "setNewView R v (w\<lparr>vw_proposals := (vw_proposals w)(v \<mapsto> c)\<rparr>) = Inr w'"
      "2 * Count (vw_servers w) \<le> 3 * vc_count c" "id32 i \<notin> set (vc_voters (votes_for w v))"
      "vc_count c = vc_count (votes_for w v) + (if b then 1 else 0)"
  | (rejected) "code = -2" "w' = w\<lparr>vw_proposed := vw_num w, vw_proposals := Map.empty\<rparr>"
      "\<not> (sint (vw_num w) < sint v \<and> 2 * Count (vw_servers w) \<le> 3 * (vc_count (votes_for w v) + (if b then 1 else 0)))"
      "Count (vw_servers w) \<le> vc_count (votes_for w v) + (if b then 0 else 1)"
  | (counted) c where "code = -1" "w' = w\<lparr>vw_proposals := (vw_proposals w)(v \<mapsto> c)\<rparr>"
      "\<not> (sint (vw_num w) < sint v \<and> 2 * Count (vw_servers w) \<le> 3 * vc_count c)"
      "vc_count c = vc_count (votes_for w v) + (if b then 1 else 0)"
      "vc_voters c = vc_voters (votes_for w v) @ [id32 i]" "id32 i \<notin> set (vc_voters (votes_for w v))"
proof -
  define c where "c = \<lparr>vc_count = vc_count (votes_for w v) + (if b then 1 else 0), vc_rejections = vc_count (votes_for w v) + (if b then 0 else 1),
    vc_voters = vc_voters (votes_for w v) @ [id32 i]\<rparr>"
  let ?w = "w\<lparr>vw_proposals := (vw_proposals w)(v \<mapsto> c)\<rparr>"
  have step: "addViewChangeVote R v b i w =
    (if id32 i \<in> set (vc_voters (votes_for w v)) then Inr (-1, w)
     else if 2 * Count (vw_servers w) \<le> 3 * vc_count c \<and> sint (vw_num w) < sint v then bindS (setNewView R v ?w) (\<lambda>w. Inr (v, w))
     else if Count (vw_servers w) \<le> vc_rejections c then Inr (-2, w\<lparr>vw_proposed := vw_num w, vw_proposals := Map.empty\<rparr>)
     else Inr (-1, ?w))"
    by (simp add: addViewChangeVote_def Let_def c_def)
  have c: "vc_count c = vc_count (votes_for w v) + (if b then 1 else 0)" "vc_voters c = vc_voters (votes_for w v) @ [id32 i]"
    "vc_rejections c = vc_count (votes_for w v) + (if b then 0 else 1)"
    by (simp_all add: c_def)
  consider "id32 i \<in> set (vc_voters (votes_for w v))"
    | "id32 i \<notin> set (vc_voters (votes_for w v))" "2 * Count (vw_servers w) \<le> 3 * vc_count c" "sint (vw_num w) < sint v"
    | "id32 i \<notin> set (vc_voters (votes_for w v))" "\<not> (2 * Count (vw_servers w) \<le> 3 * vc_count c \<and> sint (vw_num w) < sint v)" "Count (vw_servers w) \<le> vc_rejections c"
    | "id32 i \<notin> set (vc_voters (votes_for w v))" "\<not> (2 * Count (vw_servers w) \<le> 3 * vc_count c \<and> sint (vw_num w) < sint v)" "\<not> Count (vw_servers w) \<le> vc_rejections c"
    by blast
  then show thesis
  proof cases
    case 1
    have "Inr (-1, w) = (Inr (code, w') :: fault + _)" using assms unfolding step if_P [OF 1] .
    then show ?thesis by (intro again 1) simp_all
  next
    case 2
    have "bindS (setNewView R v ?w) (\<lambda>w. Inr (v, w)) = Inr (code, w')"
      using assms unfolding step if_not_P [OF 2(1)] if_P [OF conjI [OF 2(2,3)]] .
    then have "code = v" "setNewView R v ?w = Inr w'" by (auto simp: fault_simps)
    then show ?thesis using changed [OF _ 2(3) _ 2(2,1) c(1)] by blast
  next
    case 3
    have "Inr (-2, w\<lparr>vw_proposed := vw_num w, vw_proposals := Map.empty\<rparr>) = (Inr (code, w') :: fault + _)"
      using assms unfolding step if_not_P [OF 3(1)] if_not_P [OF 3(2)] if_P [OF 3(3)] .
    then have "code = -2" "w' = w\<lparr>vw_proposed := vw_num w, vw_proposals := Map.empty\<rparr>" by simp_all
    moreover have "\<not> (sint (vw_num w) < sint v \<and> 2 * Count (vw_servers w) \<le> 3 * (vc_count (votes_for w v) + (if b then 1 else 0)))"
      using 3(2) unfolding c(1) by blast
    moreover have "Count (vw_servers w) \<le> vc_count (votes_for w v) + (if b then 0 else 1)" using 3(3) unfolding c(3) .
    ultimately show ?thesis by (rule rejected)
  next
    case 4
    have "Inr (-1, ?w) = (Inr (code, w') :: fault + _)" using assms unfolding step if_not_P [OF 4(1)] if_not_P [OF 4(2)] if_not_P [OF 4(3)] .
    then have "code = -1" "w' = ?w" by simp_all
    then show ?thesis using counted [OF _ _ _ c(1,2) 4(1)] 4(2) by blast
  qed
qed

lemma addFailedServer_fields:
  "addFailedServer i w = Inr (b, w') \<Longrightarrow> vw_servers w' = vw_servers w \<and> vw_num w' = vw_num w \<and> vw_proposals w' = vw_proposals w
    \<and> vw_current w' = vw_current w \<and> vw_proposed w' = vw_proposed w \<and> vw_down w' = (if i \<in> set (vw_down w) then vw_down w else vw_down w @ [i])"
  by (auto simp: addFailedServer_def Let_def fault_simps split: if_splits)

lemma counted_vote:
  assumes "vw_servers w = servers" and "\<forall>v c. vw_proposals w v = Some c \<longrightarrow> counted servers (yes_votes ops v) (sint (vw_num w) < sint v) c"
    and "vc_count c = vc_count (votes_for w v) + (if b then 1 else 0)" and "id32 i \<notin> set (vc_voters (votes_for w v))"
  shows "\<exists>Y \<subseteq> insert (id32 i) (set (vc_voters (votes_for w v))) \<inter> yes_votes (ops @ [OpVote v b i]) v. card Y = vc_count c"
proof -
  obtain Y where Y: "Y \<subseteq> set (vc_voters (votes_for w v)) \<inter> yes_votes ops v" "card Y = vc_count (votes_for w v)"
  proof (cases "vw_proposals w v")
    case None
    then show ?thesis using that [of "{}"] by (simp add: votes_for_def)
  next
    case (Some c)
    then have "counted servers (yes_votes ops v) (sint (vw_num w) < sint v) c" using assms(2) by blast
    then obtain Y where "Y \<subseteq> set (vc_voters c) \<inter> yes_votes ops v" "card Y = vc_count c" unfolding counted_def by blast
    then show ?thesis using that [of Y] Some by (simp add: votes_for_def)
  qed
  show ?thesis
  proof (cases b)
    case True
    have "finite Y" "id32 i \<notin> Y" using Y(1) assms(4) finite_subset [of Y "yes_votes ops v"] by auto
    then have "card (insert (id32 i) Y) = vc_count c" using Y(2) assms(3) True by simp
    moreover have "insert (id32 i) Y \<subseteq> insert (id32 i) (set (vc_voters (votes_for w v))) \<inter> yes_votes (ops @ [OpVote v b i]) v"
      using Y(1) True by (auto simp: yes_votes_snoc)
    ultimately show ?thesis by blast
  next
    case False
    then show ?thesis using Y assms(3) by (auto simp: yes_votes_snoc)
  qed
qed

lemma view_run_inv:
  assumes "view_run R servers ops w"
  shows "votes_inv servers ops w"
  using assms
proof induction
  case (start w)
  then show ?case by (auto simp: votes_inv_def SFTViewManager_def dest!: setNewView_fields)
next
  case (vote ops w v b i code w')
  from vote.IH have w: "vw_servers w = servers" and
      props: "\<forall>v c. vw_proposals w v = Some c \<longrightarrow> counted servers (yes_votes ops v) (sint (vw_num w) < sint v) c"
    by (auto simp: votes_inv_def)
  have mono: "yes_votes ops u \<subseteq> yes_votes (ops @ [OpVote v b i]) u" for u by (auto simp: yes_votes_snoc)
  have props': "counted servers (yes_votes (ops @ [OpVote v b i]) u) (sint (vw_num w) < sint u) c" if "vw_proposals w u = Some c" for u c
    using counted_mono [OF _ mono] props that by blast
  from vote.hyps(2) show ?case
  proof (cases rule: vote_cases)
    case again
    then show ?thesis using w props' by (simp add: votes_inv_def)
  next
    case (changed c)
    then show ?thesis using setNewView_fields w by (force simp: votes_inv_def)
  next
    case rejected
    then show ?thesis using w by (simp add: votes_inv_def)
  next
    case (counted c)
    have "counted servers (yes_votes (ops @ [OpVote v b i]) v) (sint (vw_num w) < sint v) c"
      using counted_vote [OF w props counted(4,6)] counted(3,5) w by (auto simp: counted_def)
    then show ?thesis using counted(2) w props' by (simp add: votes_inv_def)
  qed
next
  case (new ops w v w')
  then show ?case using setNewView_fields by (fastforce simp: votes_inv_def)
next
  case (failed ops w i b w')
  then show ?case using addFailedServer_fields [OF failed.hyps(2)] by (simp add: votes_inv_def yes_votes_snoc)
next
  case (propose ops w v)
  then show ?case by (simp add: votes_inv_def proposeNewView_def yes_votes_snoc)
qed

lemma view_run_view_ok:
  assumes "view_run R servers ops w" and "roster_ok servers" and "\<forall>i. OpFail i \<in> set ops \<longrightarrow> Contains servers i"
  shows "view_ok w \<and> vw_servers w = servers \<and> set (vw_down w) = {i. OpFail i \<in> set ops}"
  using assms
proof induction
  case (start w)
  then show ?case by (auto simp: view_ok_def SFTViewManager_def membership_size dest!: setNewView_fields)
next
  case (vote ops w v b i code w')
  from vote.hyps(2) have "vw_servers w' = vw_servers w \<and> vw_down w' = vw_down w \<and> length (vw_current w') \<in> {length (vw_current w), Count (vw_servers w)}"
    by (cases rule: vote_cases) (auto dest!: setNewView_fields simp: membership_size(1))
  moreover have "{j. OpFail j \<in> set (ops @ [OpVote v b i])} = {j. OpFail j \<in> set ops}" by auto
  ultimately show ?case using vote by (auto simp: view_ok_def)
next
  case (new ops w v w')
  have "{j. OpFail j \<in> set (ops @ [OpNew v])} = {j. OpFail j \<in> set ops}" by auto
  then show ?case using new setNewView_fields [OF new.hyps(2)] by (auto simp: view_ok_def membership_size(1))
next
  case (failed ops w i b w')
  have "{j. OpFail j \<in> set (ops @ [OpFail i])} = insert i {j. OpFail j \<in> set ops}" by auto
  then show ?case using failed addFailedServer_fields [OF failed.hyps(2)] by (auto simp: view_ok_def)
next
  case (propose ops w v)
  have "{j. OpFail j \<in> set (ops @ [OpPropose v])} = {j. OpFail j \<in> set ops}" by auto
  then show ?case using propose by (auto simp: view_ok_def proposeNewView_def)
qed

section \<open>Concrete views\<close>

text \<open>A generator that counts: every view has the first two thirds of the servers.\<close>

definition demo_rand :: c_rand where
  "demo_rand seed i = i"

lemma demo_members:
  assumes "0 \<le> sint v" and "sint v * 100 < 2 ^ 31"
  shows "calcServerMembership demo_rand v 3 = Inr [True, True, False]"
proof -
  have "member_loop (demo_rand s) 0 0 [False, False, False] = Some [True, True, False]" for s
    by (subst member_loop.simps, simp add: Let_def demo_rand_def, subst member_loop.simps, simp add: Let_def demo_rand_def,
        subst member_loop.simps, simp add: Let_def)
  then show ?thesis using assms by (simp add: calcServerMembership_def numeral_3_eq_3)
qed

lemma demo_view:
  assumes "Count servers = 3"
  shows "SFTViewManager demo_rand servers = Inr \<lparr>vw_servers = servers, vw_num = 0, vw_proposed = 0, vw_current = [True, True, False],
    vw_proposals = Map.empty, vw_down = []\<rparr>"
  by (simp add: SFTViewManager_def setNewView_def demo_members assms)

section \<open>Properties\<close>

text \<open>
  The members of a view can be computed exactly if its number times 100 is an \<^verbatim>\<open>int\<close> and the random
  numbers of its seed, modulo the number of servers, take at least two thirds of the possible values; otherwise
  the program overflows or never returns.  A view has two thirds of the servers, rounded up.
\<close>

theorem view_membership:
  "(case calcServerMembership R v n of
      Inr members \<Rightarrow> length members = n \<and> card {j. j < n \<and> members ! j} = (2 * n + 2) div 3
    | Inl e \<Rightarrow> e = Overflow \<or> e = Loops)
   \<and> ((\<exists>members. calcServerMembership R v n = Inr members) \<longleftrightarrow>
       - (2 ^ 31) \<le> sint v * 100 \<and> sint v * 100 < 2 ^ 31 \<and> 2 * n \<le> 3 * card ((\<lambda>i. R (v * 100) i mod n) ` UNIV))"
proof
  show "case calcServerMembership R v n of
      Inr members \<Rightarrow> length members = n \<and> card {j. j < n \<and> members ! j} = (2 * n + 2) div 3
    | Inl e \<Rightarrow> e = Overflow \<or> e = Loops"
  proof (cases "calcServerMembership R v n")
    case (Inl e)
    then show ?thesis by (auto simp: calcServerMembership_def split: if_splits option.splits)
  next
    case (Inr members)
    then show ?thesis using membership_size [OF Inr] by (simp add: view_size_def)
  qed
  show "(\<exists>members. calcServerMembership R v n = Inr members) \<longleftrightarrow>
       - (2 ^ 31) \<le> sint v * 100 \<and> sint v * 100 < 2 ^ 31 \<and> 2 * n \<le> 3 * card ((\<lambda>i. R (v * 100) i mod n) ` UNIV)"
    unfolding membership_returns [symmetric] calcServerMembership_def by (auto split: option.splits)
qed

theorem view_membership_witness:
  "calcServerMembership demo_rand 21474837 3 = Inl Overflow \<and> (\<exists>members. calcServerMembership demo_rand 7 3 = Inr members \<and> length members = 3)"
  using view_membership [where R = demo_rand and v = 7 and n = 3] demo_members [of 7] by (auto simp: calcServerMembership_def)

text \<open>
  C19.  The search for a view yields the first number behind the given one whose view has none of the failed
  servers.  If more than a third of the servers failed there is none: the search runs into an overflow or a view that cannot be computed.
\<close>

theorem search_avoids_failed:
  assumes "view_run R servers ops w" and "roster_ok servers" and "\<forall>i. OpFail i \<in> set ops \<longrightarrow> Contains servers i"
  shows "case nextGoodView R v w of
      Inr v' \<Rightarrow> sint v < sint v' \<and> \<not> tooFewServers w
        \<and> (\<exists>members. calcServerMembership R v' (Count servers) = Inr members
             \<and> (\<forall>i. OpFail i \<in> set ops \<longrightarrow> \<not> members ! nat (GetIndex servers i)))
        \<and> (\<forall>u. sint v < sint u \<and> sint u < sint v' \<longrightarrow> \<not> good_view R w u)
    | Inl e \<Rightarrow> e = Overflow \<or> (\<exists>u. sint v < sint u \<and> calcServerMembership R u (Count servers) = Inl e)"
proof -
  have ok: "view_ok w" "vw_servers w = servers" "set (vw_down w) = {i. OpFail i \<in> set ops}" using view_run_view_ok [OF assms] by auto
  show ?thesis
  proof (cases "sint v = 2 ^ 31 - 1")
    case True
    then show ?thesis by (simp add: nextGoodView_def)
  next
    case False
    have "sint (v + 1) \<le> sint u \<longleftrightarrow> sint v < sint u" for u using sint_add_one [OF False] by auto
    then show ?thesis
      using next_view_correct [OF ok(1), where R = R and v = "v + 1"] no_good_view [OF ok(1), where R = R] False
      unfolding good_view_def by (auto simp: nextGoodView_def ok(2,3) split: sum.splits) blast
  qed
qed

theorem search_avoids_failed_witness:
  "\<exists>w. view_run demo_rand (demo_roster [4, 5, 6]) [OpFail 6] w \<and> nextGoodView demo_rand 0 w = Inr 1"
proof -
  let ?R = "demo_roster [4, 5, 6]"
  have ids: "map pi_id (m_roster ?R) = [4, 5, 6]" and R: "roster_ok ?R" by (simp add: demo_roster_def mk_roster_def) (simp add: demo_roster_ok)
  have n: "Count ?R = 3" using arg_cong [OF ids, of length] by (simp add: Count_def)
  have six: "GetIndex ?R 6 = 2" using GetIndex_nth [OF R, of 2] n arg_cong [OF ids, of "\<lambda>xs. xs ! 2"] by (simp add: Count_def)
  then have has: "Contains ?R 6" using GetIndex_absent by (force simp: Contains_def GetIndex_def split: option.splits)
  obtain w0 where w0: "SFTViewManager demo_rand ?R = Inr w0" "vw_down w0 = []" "vw_current w0 = [True, True, False]" "vw_servers w0 = ?R"
    using demo_view [OF n] by simp
  let ?w = "w0\<lparr>vw_down := [6]\<rparr>"
  have "addFailedServer 6 w0 = Inr (False, ?w)" using w0 six by (simp add: addFailedServer_def inCurrentView_def Let_def)
  then have run: "view_run demo_rand ?R [OpFail 6] ?w"
    using view_run.failed [OF view_run.start [OF w0(1)]] by fastforce
  have "nextGoodView demo_rand 0 ?w = Inr 1"
    using six n w0 demo_members [of 1] by (simp add: nextGoodView_def next_view.simps view_good_def)
  moreover have "sint (0 :: int32) < sint (1 :: int32)" using search_avoids_failed [OF run R, where v = 0] has calculation by simp
  ultimately show ?thesis using run by blast
qed

text \<open>
  C12.  Votes change the view only to a newer one, and only if two thirds of the servers' number of different ids
  voted for it.
\<close>

theorem view_change_quorum:
  assumes "view_run R servers ops w" and "addViewChangeVote R v b i w = Inr (code, w')" and "vw_num w' \<noteq> vw_num w"
  shows "code = v \<and> vw_num w' = v \<and> sint (vw_num w) < sint v \<and> vw_proposals w' = Map.empty
    \<and> 2 * Count servers \<le> 3 * card (id32 ` {j. OpVote v True j \<in> set (ops @ [OpVote v b i])})"
proof -
  have inv: "vw_servers w = servers" "\<forall>v c. vw_proposals w v = Some c \<longrightarrow> counted servers (yes_votes ops v) (sint (vw_num w) < sint v) c"
    using view_run_inv [OF assms(1)] by (auto simp: votes_inv_def)
  from assms(2) show ?thesis
  proof (cases rule: vote_cases)
    case (changed c)
    from counted_vote [OF inv changed(6,5)] obtain Y where Y: "Y \<subseteq> yes_votes (ops @ [OpVote v b i]) v" "card Y = vc_count c" by blast
    then have "vc_count c \<le> card (yes_votes (ops @ [OpVote v b i]) v)" using card_mono [OF yes_votes_finite Y(1)] by simp
    then show ?thesis using changed inv(1) setNewView_fields [OF changed(3)] by (simp add: yes_votes_def)
  qed (use assms(3) in simp_all)
qed

theorem view_change_quorum_witness:
  "\<exists>w w'. view_run demo_rand (demo_roster [4, 5, 6]) [OpVote 1 True 4] w \<and> addViewChangeVote demo_rand 1 True 5 w = Inr (1, w') \<and> vw_num w' = 1"
proof -
  let ?R = "demo_roster [4, 5, 6]"
  have n: "Count ?R = 3" by (simp add: Count_def demo_roster_def mk_roster_def)
  obtain w0 where w0: "SFTViewManager demo_rand ?R = Inr w0" "vw_proposals w0 = Map.empty" "vw_num w0 = 0" "vw_servers w0 = ?R"
    using demo_view [OF n] by simp
  have "addViewChangeVote demo_rand 1 True 4 w0 = Inr (-1, w0\<lparr>vw_proposals := [1 \<mapsto> \<lparr>vc_count = 1, vc_rejections = 0, vc_voters = [4]\<rparr>]\<rparr>)"
    using w0 n by (simp add: addViewChangeVote_def votes_for_def id32_def)
  from view_run.vote [OF view_run.start [OF w0(1)] this]
  have run: "view_run demo_rand ?R [OpVote 1 True 4] (w0\<lparr>vw_proposals := [1 \<mapsto> \<lparr>vc_count = 1, vc_rejections = 0, vc_voters = [4]\<rparr>]\<rparr>)" by simp
  obtain w' where w': "addViewChangeVote demo_rand 1 True 5 (w0\<lparr>vw_proposals := [1 \<mapsto> \<lparr>vc_count = 1, vc_rejections = 0, vc_voters = [4]\<rparr>]\<rparr>) = Inr (1, w')"
      "vw_num w' \<noteq> 0"
    using w0 n demo_members [of 1] by (simp add: addViewChangeVote_def votes_for_def id32_def setNewView_def)
  then show ?thesis using view_change_quorum [OF run w'(1)] w0(3) run by auto
qed

text \<open>
  C31.  With three or more servers a newer view is never rejected, however many vote against it: the program
  reads the votes in favour where it means the rejections so far.
\<close>

theorem newer_view_never_rejected:
  assumes "view_run R servers ops w" and "3 \<le> Count servers" and "sint (vw_num w) < sint v"
    and "addViewChangeVote R v b i w = Inr (code, w')"
  shows "code = v \<and> vw_num w' = v \<or> code = -1 \<and> vw_num w' = vw_num w \<and> vw_proposals w' v \<noteq> None"
proof -
  have inv: "vw_servers w = servers" "\<forall>v c. vw_proposals w v = Some c \<longrightarrow> counted servers (yes_votes ops v) (sint (vw_num w) < sint v) c"
    using view_run_inv [OF assms(1)] by (auto simp: votes_inv_def)
  have few: "3 * vc_count (votes_for w v) < 2 * Count servers"
    using inv(2) assms(2,3) by (cases "vw_proposals w v") (auto simp: votes_for_def counted_def)
  from assms(4) show ?thesis
  proof (cases rule: vote_cases)
    case again
    then show ?thesis by (auto simp: votes_for_def split: option.splits)
  next
    case (changed c)
    then show ?thesis using setNewView_fields [OF changed(3)] by simp
  next
    case rejected
    then show ?thesis using few assms(2,3) inv(1) by (cases b) auto
  qed simp
qed

theorem newer_view_never_rejected_witness:
  "\<exists>w. SFTViewManager demo_rand (demo_roster [4, 5, 6]) = Inr w
    \<and> (\<forall>i code w'. addViewChangeVote demo_rand 1 False i w = Inr (code, w') \<longrightarrow> code \<noteq> -2)"
proof -
  have n: "Count (demo_roster [4, 5, 6]) = 3" by (simp add: Count_def demo_roster_def mk_roster_def)
  obtain w where w: "SFTViewManager demo_rand (demo_roster [4, 5, 6]) = Inr w" "vw_num w = 0" using demo_view [OF n] by simp
  have "code \<noteq> -2" if "addViewChangeVote demo_rand 1 False i w = Inr (code, w')" for i code w'
    using newer_view_never_rejected [OF view_run.start [OF w(1)] _ _ that] n w(2) by auto
  then show ?thesis using w(1) by blast
qed

end
