(* ===== verification/SFT_Run.thy ===== *)
theory SFT_Run
  imports SFT_Data SFT_View_Props
begin

text \<open>
  A message exchange of the fault-tolerant round, followed through the phases of a server: it collects the
  messages of its clients, the lists of clients and then the ciphertexts of the other servers, and hands out
  the sum.  What a node sends itself in the course of this changes nothing.
\<close>

declare sft_packet.simps [simp del]

section \<open>Messages and their handlers\<close>

named_theorems sft_msgs \<open>reading the messages the round makes\<close>

lemma hash_value_simps [simp]:
  "hash_value [] k = QInvalid" "hash_value ((k', v) # h) k = (if k' = k then v else hash_value h k)"
  by (simp_all add: hash_value_def)

lemma type_code_eq [simp]: "type_code t = type_code t' \<longleftrightarrow> t = t'"
  by (cases t; cases t') simp_all

lemma env_simps:
  assumes "sft_env_ok E"
  shows "se_get E (se_put E m) = m" and "to_int (se_qvs E) (QInt i) = i" and "to_bool (se_qvs E) (QBool b) = b"
    and "to_bytes (se_qvs E) (QBytes d) = d" and "to_list (se_qvs E) (QList l) = l"
  using assms by (auto simp: sft_env_ok_def qvs_ok_def)

lemmas message_defs = genClientMessage_def attendance_map_def cipher_map_def genRequest_def genViewChangeProposal_def
  genClientViewChangeNotification_def genDecryption_def

lemma has_type_simps [sft_msgs]:
  assumes "sft_env_ok E"
  shows "has_type E (genClientMessage v x) t \<longleftrightarrow> t = ClientMessage" and "has_type E (attendance_map l) t \<longleftrightarrow> t = ClientAttendance"
    and "has_type E (cipher_map x) t \<longleftrightarrow> t = ServerCipher" and "has_type E (genRequest p) t \<longleftrightarrow> t = RequestInfo"
    and "has_type E (genViewChangeProposal v) t \<longleftrightarrow> t = ViewChangeVote"
    and "has_type E (genClientViewChangeNotification v) t \<longleftrightarrow> t = ViewChangeNotification"
    and "has_type E (genDecryption x v) t \<longleftrightarrow> t = Decrypted"
  using env_simps [OF assms] by (auto simp: has_type_def message_defs simp del: type_code.simps)

lemma typed [sft_msgs]:
  "''Type'' \<in> fst ` set (genClientMessage v x)" "''Type'' \<in> fst ` set (attendance_map l)" "''Type'' \<in> fst ` set (cipher_map x)"
  "''Type'' \<in> fst ` set (genRequest p)" "''Type'' \<in> fst ` set (genViewChangeProposal v)"
  "''Type'' \<in> fst ` set (genClientViewChangeNotification v)" "''Type'' \<in> fst ` set (genDecryption x v)"
  by (simp_all add: message_defs)

lemma switch_simps [sft_msgs]:
  assumes "sft_env_ok E"
  shows "switchServerMessage E self (genClientMessage v x) from s = processClientMessage E self (genClientMessage v x) from s"
    and "switchServerMessage E self (attendance_map l) from s = processClientList E self (attendance_map l) from s"
    and "switchServerMessage E self (cipher_map x) from s = processCipher E self (cipher_map x) from s"
    and "switchServerMessage E self (genRequest p) from s = processInfoRequest E self (genRequest p) from s"
    and "switchServerMessage E self (genViewChangeProposal v) from s = processViewChangeProposal E self (genViewChangeProposal v) from s"
  by (simp_all add: switchServerMessage_def sft_msgs assms)

lemma field_simps' [sft_msgs]:
  assumes "sft_env_ok E"
  shows "to_int (se_qvs E) (hash_value (genClientMessage v x) ''ViewNum'') = v"
    and "to_bytes (se_qvs E) (hash_value (genClientMessage v x) ''Message'') = x"
    and "map (to_int (se_qvs E)) (to_list (se_qvs E) (hash_value (attendance_map l) ''ClientList'')) = l"
    and "to_bytes (se_qvs E) (hash_value (cipher_map x) ''Cipher'') = x"
    and "to_bytes (se_qvs E) (hash_value (genDecryption x v) ''Decrypted'') = x"
    and "to_int (se_qvs E) (hash_value (genViewChangeProposal v) ''ViewNum'') = v"
    and "to_bool (se_qvs E) (hash_value (genViewChangeProposal v) ''Vote'') = True"
  using env_simps [OF assms] by (simp_all add: message_defs comp_def)

lemma has_request_simps [sft_msgs]:
  assumes "sft_env_ok E"
  shows "has_request E (genRequest ClientAttendancePhase) p \<longleftrightarrow> (of_nat p :: int32) = 1"
    and "has_request E (genRequest ExchangeCiphersPhase) p \<longleftrightarrow> (of_nat p :: int32) = 2"
    and "has_request E (genRequest ViewChangeVotingPhase) p \<longleftrightarrow> (of_nat p :: int32) = 3"
  using env_simps [OF assms] by (auto simp: has_request_def message_defs phase_defs)

text \<open>A packet of a member at a server that is running.\<close>

lemma packet_server:
  assumes "sft_env_ok E" and "\<not> sf_stopped s" and "sf_is_server s" and "Contains (sf_servers s) from \<or> Contains (sf_clients s) from"
  shows "sft_packet (Suc n) E from (se_put E m) s = switchServerMessage E (to_self n E) m from s"
  using assms(2-4) env_simps(1) [OF assms(1)] by (auto simp: sft_packet.simps sf_ProcessPacket_def)

section \<open>What a node sends itself\<close>

text \<open>A message that its sender ignores goes to the others only.\<close>

definition to_others :: "sft_env \<Rightarrow> peer \<Rightarrow> variant_map \<Rightarrow> (peer \<times> bytes) list" where
  "to_others E i m = map (\<lambda>j. (j, 127 # se_put E m)) (filter (\<lambda>j. j \<noteq> i) (se_servers E))"

lemma broadcast_quiet:
  assumes "\<And>sent. self (se_put E m) (s\<lparr>sf_sent := sent\<rparr>) = Inr (s\<lparr>sf_sent := sent\<rparr>)"
  shows "broadcastToServers E self m s = Inr (s\<lparr>sf_sent := sf_sent s @ to_others E (sf_id s) m\<rparr>)"
proof -
  have "foldS (\<lambda>server. sendToSingleNode E self server m) servers (s\<lparr>sf_sent := sent\<rparr>) =
      Inr (s\<lparr>sf_sent := sent @ map (\<lambda>j. (j, 127 # se_put E m)) (filter (\<lambda>j. j \<noteq> sf_id s) servers)\<rparr>)" for servers sent
    using assms by (induction servers arbitrary: sent) (simp_all add: sendToSingleNode_def)
  from this [of "se_servers E" "sf_sent s"] show ?thesis by (simp add: broadcastToServers_def to_others_def)
qed

lemma own_cipher_ignored:
  assumes "sft_env_ok E" and "sf_is_server s" and "sf_phase s = ExchangeCiphersPhase" and "own s \<in> set (sf_cipher_from s)"
  shows "sft_packet (Suc n) E (sf_id s) (se_put E (cipher_map x)) s = Inr s"
  using assms env_simps(1) [OF assms(1)] by (simp add: sft_packet.simps sf_ProcessPacket_def sft_msgs processCipher_def own_def)

lemma own_list_ignored:
  assumes "sft_env_ok E" and "sf_is_server s" and "sf_phase s = ClientAttendancePhase" and "own s \<in> set (sf_attendance s)"
  shows "sft_packet (Suc n) E (sf_id s) (se_put E (attendance_map l)) s = Inr s"
  using assms env_simps(1) [OF assms(1)] by (simp add: sft_packet.simps sf_ProcessPacket_def sft_msgs processClientList_def own_def)

lemma own_request_ignored:
  assumes "sft_env_ok E" and "sf_is_server s"
    and "p = ClientAttendancePhase \<and> sf_phase s = p \<and> own s \<in> set (sf_attendance s)
      \<or> p = ExchangeCiphersPhase \<and> sf_phase s = p \<and> own s \<in> set (sf_cipher_from s) \<or> p = ViewChangeVotingPhase"
  shows "sft_packet (Suc (Suc n)) E (sf_id s) (se_put E (genRequest p)) s = Inr s"
proof -
  note ignored = own_cipher_ignored [OF assms(1,2), of n] own_list_ignored [OF assms(1,2), of n]
  show ?thesis
    using assms(2,3) env_simps(1) [OF assms(1)] ignored
    by (auto simp: sft_packet.simps sf_ProcessPacket_def sft_msgs assms(1) processInfoRequest_def sendToSingleNode_def phase_defs
        has_request_simps [OF assms(1), unfolded phase_defs])
qed

section \<open>The phases of a server\<close>

text \<open>A server between two exchanges, in a group without failures.\<close>

definition server_ready :: "sft_env \<Rightarrow> sft \<Rightarrow> bool" where
  "server_ready E s \<longleftrightarrow> sft_env_ok E \<and> sf_is_server s \<and> \<not> sf_stopped s
     \<and> roster_ok (sf_servers s) \<and> inj_on id32 (set (map pi_id (m_roster (sf_servers s)))) \<and> Contains (sf_servers s) (sf_id s)
     \<and> 2 \<le> Count (sf_servers s) \<and> \<not> Contains (sf_clients s) (sf_id s)
     \<and> vw_servers (sf_view s) = sf_servers s \<and> vw_down (sf_view s) = [] \<and> length (vw_current (sf_view s)) = Count (sf_servers s)
     \<and> roster_ok (sf_clients s) \<and> inj_on id32 (set (sf_connections s)) \<and> distinct (sf_connections s) \<and> sf_connections s \<noteq> []
     \<and> (\<forall>c \<in> set (sf_connections s). Contains (sf_clients s) c) \<and> sf_downstream s = sf_connections s"

text \<open>What handling packets never changes.\<close>

lemma server_ready_upd [simp]:
  "server_ready E (s\<lparr>sf_phase := p\<rparr>) = server_ready E s" "server_ready E (s\<lparr>sf_client_msgs := cm\<rparr>) = server_ready E s"
  "server_ready E (s\<lparr>sf_ciphers := cs\<rparr>) = server_ready E s" "server_ready E (s\<lparr>sf_attendance := a\<rparr>) = server_ready E s"
  "server_ready E (s\<lparr>sf_cipher_from := a\<rparr>) = server_ready E s" "server_ready E (s\<lparr>sf_responded := a\<rparr>) = server_ready E s"
  "server_ready E (s\<lparr>sf_total := a\<rparr>) = server_ready E s" "server_ready E (s\<lparr>sf_last_cipher := x\<rparr>) = server_ready E s"
  "server_ready E (s\<lparr>sf_sent := out\<rparr>) = server_ready E s" "server_ready E (s\<lparr>sf_pushed := ps\<rparr>) = server_ready E s"
  "server_ready E (s\<lparr>sf_number := k\<rparr>) = server_ready E s"
  by (simp_all add: server_ready_def)

lemma own_upd [simp]:
  "own (s\<lparr>sf_phase := p\<rparr>) = own s" "own (s\<lparr>sf_client_msgs := cm\<rparr>) = own s" "own (s\<lparr>sf_ciphers := cs\<rparr>) = own s"
  "own (s\<lparr>sf_attendance := a\<rparr>) = own s" "own (s\<lparr>sf_cipher_from := a\<rparr>) = own s" "own (s\<lparr>sf_responded := a\<rparr>) = own s"
  "own (s\<lparr>sf_total := a\<rparr>) = own s" "own (s\<lparr>sf_last_cipher := x\<rparr>) = own s" "own (s\<lparr>sf_sent := out\<rparr>) = own s"
  by (simp_all add: own_def)

definition sft_run :: "nat \<Rightarrow> sft_env \<Rightarrow> (peer \<times> variant_map) list \<Rightarrow> sft_step" where
  "sft_run n E = foldS (\<lambda>(from, m). sft_packet n E from (se_put E m))"

lemma sft_run_simps [simp]:
  "sft_run n E [] s = Inr s" "sft_run n E ((from, m) # ms) s = bindS (sft_packet n E from (se_put E m) s) (sft_run n E ms)"
  "sft_run n E (ms @ ms') s = bindS (sft_run n E ms s) (sft_run n E ms')"
  by (simp_all add: sft_run_def fault_simps)

lemma update_fresh: "k \<notin> fst ` set al \<Longrightarrow> AList.update k v al = al @ [(k, v)]"
  by (induction al) auto

text \<open>Messages of clients, while some client is missing.\<close>

lemma collect_part:
  assumes "server_ready E s" and "sf_phase s = CollectionPhase" and "sf_client_msgs s = []" and "sf_responded s = []"
    and "distinct (map fst ps)" and "set (map fst ps) \<subseteq> set (sf_connections s)" and "length ps < length (sf_connections s)"
  shows "sft_run (Suc n) E (map (\<lambda>(c, x). (c, genClientMessage (vw_num (sf_view s)) x)) ps) s =
    Inr (s\<lparr>sf_client_msgs := map (\<lambda>(c, x). (id32 c, x)) ps, sf_responded := map (\<lambda>(c, x). id32 c) ps\<rparr>)"
  using assms(5-7)
proof (induction ps rule: rev_induct)
  case Nil
  then show ?case using assms(3,4) by simp
next
  case (snoc p ps)
  obtain c x where p: "p = (c, x)" by (cases p)
  note rd = assms(1) [unfolded server_ready_def]
  let ?s = "s\<lparr>sf_client_msgs := map (\<lambda>(c, x). (id32 c, x)) ps, sf_responded := map (\<lambda>(c, x). id32 c) ps\<rparr>"
  have ps: "distinct (map fst ps)" "set (map fst ps) \<subseteq> set (sf_connections s)" "length ps < length (sf_connections s)" "c \<in> set (sf_connections s)" "c \<notin> fst ` set ps"
    using snoc.prems by (auto simp: p)
  have fresh: "id32 c \<notin> id32 ` fst ` set ps" using rd ps(2,4,5) by (auto dest!: inj_onD [of id32 "set (sf_connections s)" c])
  have "sft_packet (Suc n) E c (se_put E (genClientMessage (vw_num (sf_view s)) x)) ?s =
      processClientMessage E (to_self n E) (genClientMessage (vw_num (sf_view s)) x) c ?s"
    using rd ps(4) by (subst packet_server) (simp_all add: sft_msgs)
  also have "\<dots> = Inr (s\<lparr>sf_client_msgs := map (\<lambda>(c, x). (id32 c, x)) (ps @ [p]), sf_responded := map (\<lambda>(c, x). id32 c) (ps @ [p])\<rparr>)"
    using rd ps fresh assms(2) snoc.prems(3)
    by (simp add: processClientMessage_def sft_msgs update_fresh p Let_def image_image case_prod_beta)
  finally show ?case using snoc.IH [OF ps(1-3)] by (simp add: p)
qed

lemma snoc_of_length: "length ps = length xs \<Longrightarrow> xs \<noteq> [] \<Longrightarrow> \<exists>qs q. ps = qs @ [q]"
  by (cases ps rule: rev_cases) auto

text \<open>The last client: its server tells the others who was there.\<close>

lemma collect_all:
  assumes "server_ready E s" and "sf_phase s = CollectionPhase" and "sf_client_msgs s = []" and "sf_responded s = []" and "sf_total s = []"
    and "distinct (map fst ps)" and "set (map fst ps) \<subseteq> set (sf_connections s)" and "length ps = length (sf_connections s)"
  shows "sft_run (Suc (Suc (Suc n))) E (map (\<lambda>(c, x). (c, genClientMessage (vw_num (sf_view s)) x)) ps) s =
    Inr (s\<lparr>sf_client_msgs := map (\<lambda>(c, x). (id32 c, x)) ps, sf_responded := map (\<lambda>(c, x). id32 c) ps,
      sf_attendance := [own s], sf_total := map (\<lambda>(c, x). id32 c) ps, sf_phase := ClientAttendancePhase,
      sf_sent := sf_sent s @ to_others E (sf_id s) (attendance_map (map (\<lambda>(c, x). id32 c) ps)) @ to_others E (sf_id s) (genRequest ClientAttendancePhase)\<rparr>)"
proof -
  note rd = assms(1) [unfolded server_ready_def]
  have "sf_connections s \<noteq> []" using rd by blast
  from snoc_of_length [OF assms(8) this] obtain qs q where "ps = qs @ [q]" by blast
  then obtain c x where p: "ps = qs @ [(c, x)]" by (cases q) auto
  let ?ids = "map (\<lambda>(c, x). id32 c) ps"
  let ?s = "s\<lparr>sf_client_msgs := map (\<lambda>(c, x). (id32 c, x)) qs, sf_responded := map (\<lambda>(c, x). id32 c) qs\<rparr>"
  let ?t = "s\<lparr>sf_client_msgs := map (\<lambda>(c, x). (id32 c, x)) ps, sf_responded := ?ids,
    sf_attendance := [own s], sf_total := ?ids, sf_phase := ClientAttendancePhase\<rparr>"
  have qs: "distinct (map fst qs)" "set (map fst qs) \<subseteq> set (sf_connections s)" "length qs < length (sf_connections s)" "c \<in> set (sf_connections s)" "c \<notin> fst ` set qs"
    using assms(6-8) by (auto simp: p)
  have fresh: "id32 c \<notin> id32 ` fst ` set qs" using rd qs(2,4,5) by (auto dest!: inj_onD [of id32 "set (sf_connections s)" c])
  let ?self = "to_self (Suc (Suc n)) E"
  have E: "sft_env_ok E" and srv: "sf_is_server s" using rd by blast+
  have q1: "?self (se_put E (attendance_map ?ids)) (?t\<lparr>sf_sent := sent\<rparr>) = Inr (?t\<lparr>sf_sent := sent\<rparr>)" for sent
    using own_list_ignored [OF E, of "?t\<lparr>sf_sent := sent\<rparr>"] srv by simp
  have q2: "?self (se_put E (genRequest ClientAttendancePhase)) (?t\<lparr>sf_sent := sent\<rparr>) = Inr (?t\<lparr>sf_sent := sent\<rparr>)" for sent
    using own_request_ignored [OF E, of "?t\<lparr>sf_sent := sent\<rparr>"] srv by simp
  have bc: "broadcastToServers E ?self (attendance_map ?ids) ?t = Inr (?t\<lparr>sf_sent := sf_sent s @ to_others E (sf_id s) (attendance_map ?ids)\<rparr>)"
    by (subst broadcast_quiet [where s = ?t]) (rule q1, simp)
  have rq: "sendRequest E ?self ClientAttendancePhase (?t\<lparr>sf_sent := sent\<rparr>) = Inr (?t\<lparr>sf_sent := sent @ to_others E (sf_id s) (genRequest ClientAttendancePhase)\<rparr>)" for sent
    unfolding sendRequest_def using q2 by (subst broadcast_quiet [where s = "?t\<lparr>sf_sent := sent\<rparr>"]) simp_all
  have "sft_packet (Suc (Suc (Suc n))) E c (se_put E (genClientMessage (vw_num (sf_view s)) x)) ?s =
      processClientMessage E ?self (genClientMessage (vw_num (sf_view s)) x) c ?s"
    using rd qs(4) by (subst packet_server) (simp_all add: sft_msgs)
  also have "\<dots> = bindS (broadcastToServers E ?self (attendance_map ?ids) ?t) (sendRequest E ?self ClientAttendancePhase)"
    using rd qs fresh assms(2,5,8)
    by (simp add: processClientMessage_def sft_msgs update_fresh p Let_def image_image case_prod_beta startClientAttendance_def)
  finally show ?thesis
    using collect_part [OF assms(1-4) qs(1-3), of "Suc (Suc n)"] by (simp add: p bc [unfolded p, simplified] rq [unfolded p, simplified])
qed

section \<open>The lists of clients\<close>

definition merge :: "int32 list \<Rightarrow> int32 list \<Rightarrow> int32 list" where
  "merge l acc = fold (\<lambda>c acc. if c \<in> set acc then acc else acc @ [c]) l acc"

lemma set_merge: "set (merge l acc) = set acc \<union> set l"
  unfolding merge_def by (induction l arbitrary: acc) auto

lemma distinct_merge: "distinct acc \<Longrightarrow> distinct (merge l acc)"
  unfolding merge_def by (induction l arbitrary: acc) auto

lemma servers_apart:
  assumes "server_ready E s" and "distinct (map fst ls)" and "\<forall>i \<in> fst ` set ls. Contains (sf_servers s) i \<and> i \<noteq> sf_id s" and "i \<notin> fst ` set ls"
    and "Contains (sf_servers s) i" and "i \<noteq> sf_id s"
  shows "id32 i \<notin> insert (own s) (id32 ` fst ` set ls)"
proof -
  note rd = assms(1) [unfolded server_ready_def]
  have R: "roster_ok (sf_servers s)" using rd by blast
  have ids: "Contains (sf_servers s) j \<Longrightarrow> j \<in> set (map pi_id (m_roster (sf_servers s)))" for j
  proof -
    assume "Contains (sf_servers s) j"
    then obtain k where "GetIndex (sf_servers s) j = int k" "k < Count (sf_servers s)" "pi_id (m_roster (sf_servers s) ! k) = j" by (rule GetIndex_Some [OF R])
    then show "j \<in> set (map pi_id (m_roster (sf_servers s)))" by (auto simp: Count_def)
  qed
  have "id32 i \<noteq> id32 j" if "Contains (sf_servers s) j" "i \<noteq> j" for j
    using rd ids [OF assms(5)] ids [OF that(1)] that(2) by (auto dest: inj_onD)
  then show ?thesis using assms(3,4,6) rd by (auto simp: own_def)
qed

lemma createCipher_cong:
  assumes "sf_client_msgs t = sf_client_msgs t'" and "sf_view t = sf_view t'" and "sf_id t = sf_id t'" and "sf_clients t = sf_clients t'"
    and "sf_total t = sf_total t'"
  shows "createCipher E t = createCipher E t'"
  unfolding createCipher_def own_def assms ..

lemma lists_part:
  assumes "server_ready E s" and "sf_phase s = ClientAttendancePhase" and "sf_attendance s = [own s]"
    and "distinct (map fst ls)" and "\<forall>i \<in> fst ` set ls. Contains (sf_servers s) i \<and> i \<noteq> sf_id s" and "length ls + 1 < Count (sf_servers s)"
  shows "sft_run (Suc n) E (map (\<lambda>(i, l). (i, attendance_map l)) ls) s =
    Inr (s\<lparr>sf_total := fold merge (map snd ls) (sf_total s), sf_attendance := own s # map (\<lambda>(i, l). id32 i) ls\<rparr>)"
  using assms(4-6)
proof (induction ls rule: rev_induct)
  case Nil
  then show ?case using assms(3) by simp
next
  case (snoc p ls)
  obtain i l where p: "p = (i, l)" by (cases p)
  note rd = assms(1) [unfolded server_ready_def]
  let ?s = "s\<lparr>sf_total := fold merge (map snd ls) (sf_total s), sf_attendance := own s # map (\<lambda>(i, l). id32 i) ls\<rparr>"
  have fresh: "id32 i \<notin> insert (own s) (id32 ` fst ` set ls)"
    using servers_apart [OF assms(1), of ls i] snoc.prems by (simp add: p)
  have "sft_packet (Suc n) E i (se_put E (attendance_map l)) ?s = processClientList E (to_self n E) (attendance_map l) i ?s"
    using rd snoc.prems(2) by (subst packet_server) (simp_all add: sft_msgs p)
  also have "\<dots> = Inr (s\<lparr>sf_total := fold merge (map snd (ls @ [p])) (sf_total s), sf_attendance := own s # map (\<lambda>(i, l). id32 i) (ls @ [p])\<rparr>)"
    using rd fresh assms(2) snoc.prems(3)
    by (simp add: processClientList_def sft_msgs p Let_def image_image case_prod_beta getNumLiveServers_def merge_def)
  finally show ?case using snoc by (simp add: p)
qed

lemma lists_all:
  assumes "server_ready E s" and "sf_phase s = ClientAttendancePhase" and "sf_attendance s = [own s]"
    and "distinct (map fst ls)" and "\<forall>i \<in> fst ` set ls. Contains (sf_servers s) i \<and> i \<noteq> sf_id s" and "length ls + 1 = Count (sf_servers s)"
    and "createCipher E (s\<lparr>sf_total := fold merge (map snd ls) (sf_total s)\<rparr>) = Inr y"
  shows "sft_run (Suc (Suc (Suc n))) E (map (\<lambda>(i, l). (i, attendance_map l)) ls) s =
    Inr (s\<lparr>sf_total := fold merge (map snd ls) (sf_total s), sf_attendance := own s # map (\<lambda>(i, l). id32 i) ls,
      sf_cipher_from := [own s], sf_phase := ExchangeCiphersPhase, sf_ciphers := [(own s, y)], sf_last_cipher := y,
      sf_sent := sf_sent s @ to_others E (sf_id s) (cipher_map y) @ to_others E (sf_id s) (genRequest ExchangeCiphersPhase)\<rparr>)"
proof -
  note rd = assms(1) [unfolded server_ready_def]
  have "ls \<noteq> []" using assms(6) rd by auto
  then obtain qs q where "ls = qs @ [q]" by (cases ls rule: rev_cases) auto
  then obtain i l where p: "ls = qs @ [(i, l)]" by (cases q) auto
  have E: "sft_env_ok E" and srv: "sf_is_server s" using rd by blast+
  let ?total = "fold merge (map snd ls) (sf_total s)"
  let ?s = "s\<lparr>sf_total := fold merge (map snd qs) (sf_total s), sf_attendance := own s # map (\<lambda>(i, l). id32 i) qs\<rparr>"
  let ?u = "s\<lparr>sf_total := ?total, sf_attendance := own s # map (\<lambda>(i, l). id32 i) ls, sf_cipher_from := [own s], sf_phase := ExchangeCiphersPhase\<rparr>"
  let ?t = "?u\<lparr>sf_ciphers := [(own s, y)], sf_last_cipher := y\<rparr>"
  let ?self = "to_self (Suc (Suc n)) E"
  have q1: "?self (se_put E (cipher_map y)) (?t\<lparr>sf_sent := sent\<rparr>) = Inr (?t\<lparr>sf_sent := sent\<rparr>)" for sent
    using own_cipher_ignored [OF E, of "?t\<lparr>sf_sent := sent\<rparr>"] srv by simp
  have q2: "?self (se_put E (genRequest ExchangeCiphersPhase)) (?t\<lparr>sf_sent := sent\<rparr>) = Inr (?t\<lparr>sf_sent := sent\<rparr>)" for sent
    using own_request_ignored [OF E, of "?t\<lparr>sf_sent := sent\<rparr>"] srv by simp
  have bc: "broadcastToServers E ?self (cipher_map y) ?t = Inr (?t\<lparr>sf_sent := sf_sent s @ to_others E (sf_id s) (cipher_map y)\<rparr>)"
    by (subst broadcast_quiet [where s = ?t]) (rule q1, simp)
  have rq: "sendRequest E ?self ExchangeCiphersPhase (?t\<lparr>sf_sent := sent\<rparr>) = Inr (?t\<lparr>sf_sent := sent @ to_others E (sf_id s) (genRequest ExchangeCiphersPhase)\<rparr>)" for sent
    unfolding sendRequest_def using q2 by (subst broadcast_quiet [where s = "?t\<lparr>sf_sent := sent\<rparr>"]) simp_all
  have cipher: "createCipher E (s\<lparr>sf_total := ?total, sf_attendance := own s # map (\<lambda>(i, l). id32 i) ls, sf_ciphers := [],
      sf_cipher_from := [own s], sf_phase := ExchangeCiphersPhase\<rparr>) = Inr y" using assms(7) by (subst createCipher_cong [where t' = "s\<lparr>sf_total := ?total\<rparr>"]) simp_all
  have fresh: "id32 i \<notin> insert (own s) (id32 ` fst ` set qs)"
    using servers_apart [OF assms(1), of qs i] assms(4,5) by (simp add: p)
  have "sft_packet (Suc (Suc (Suc n))) E i (se_put E (attendance_map l)) ?s = processClientList E ?self (attendance_map l) i ?s"
    using rd assms(5) by (subst packet_server) (simp_all add: sft_msgs p)
  also have "\<dots> = startCipherExchange E ?self (s\<lparr>sf_total := ?total, sf_attendance := own s # map (\<lambda>(i, l). id32 i) ls\<rparr>)"
    using rd fresh assms(2,6)
    by (simp add: processClientList_def sft_msgs p Let_def image_image case_prod_beta getNumLiveServers_def merge_def)
  also have "\<dots> = bindS (broadcastToServers E ?self (cipher_map y) ?t) (sendRequest E ?self ExchangeCiphersPhase)"
    using cipher by (simp add: startCipherExchange_def Let_def)
  also have "\<dots> = Inr (?t\<lparr>sf_sent := (sf_sent s @ to_others E (sf_id s) (cipher_map y)) @ to_others E (sf_id s) (genRequest ExchangeCiphersPhase)\<rparr>)"
    unfolding bc bindS.simps by (rule rq)
  finally show ?thesis
    using lists_part [OF assms(1-3), of qs "Suc (Suc n)"] assms(4-6) by (simp add: p)
qed

section \<open>The ciphertexts\<close>

lemma ciphers_part:
  assumes "server_ready E s" and "sf_phase s = ExchangeCiphersPhase" and "sf_cipher_from s = [own s]" and "sf_ciphers s = [(own s, y)]"
    and "distinct (map fst cs)" and "\<forall>i \<in> fst ` set cs. Contains (sf_servers s) i \<and> i \<noteq> sf_id s" and "length cs + 1 < Count (sf_servers s)"
  shows "sft_run (Suc n) E (map (\<lambda>(i, x). (i, cipher_map x)) cs) s =
    Inr (s\<lparr>sf_ciphers := (own s, y) # map (\<lambda>(i, x). (id32 i, x)) cs, sf_cipher_from := own s # map (\<lambda>(i, x). id32 i) cs\<rparr>)"
  using assms(5-7)
proof (induction cs rule: rev_induct)
  case Nil
  then show ?case using assms(3,4) by simp
next
  case (snoc p cs)
  obtain i x where p: "p = (i, x)" by (cases p)
  note rd = assms(1) [unfolded server_ready_def]
  let ?s = "s\<lparr>sf_ciphers := (own s, y) # map (\<lambda>(i, x). (id32 i, x)) cs, sf_cipher_from := own s # map (\<lambda>(i, x). id32 i) cs\<rparr>"
  have fresh: "id32 i \<notin> insert (own s) (id32 ` fst ` set cs)"
    using servers_apart [OF assms(1), of cs i] snoc.prems by (simp add: p)
  have fresh': "own s \<noteq> id32 i" using fresh by auto
  have "sft_packet (Suc n) E i (se_put E (cipher_map x)) ?s = processCipher E (to_self n E) (cipher_map x) i ?s"
    using rd snoc.prems(2) by (subst packet_server) (simp_all add: sft_msgs p)
  also have "\<dots> = Inr (s\<lparr>sf_ciphers := (own s, y) # map (\<lambda>(i, x). (id32 i, x)) (cs @ [p]), sf_cipher_from := own s # map (\<lambda>(i, x). id32 i) (cs @ [p])\<rparr>)"
    using rd fresh fresh' assms(2) snoc.prems(3)
    by (simp add: processCipher_def sft_msgs p Let_def image_image case_prod_beta getNumLiveServers_def update_fresh)
  finally show ?case using snoc by (simp add: p)
qed

lemma to_clients:
  assumes "sf_id s \<notin> set (sf_downstream s)"
  shows "broadcastToDownstreamClients E self m s = Inr (s\<lparr>sf_sent := sf_sent s @ map (\<lambda>c. (c, 127 # se_put E m)) (sf_downstream s)\<rparr>)"
proof -
  have "foldS (\<lambda>client. sendToSingleNode E self client m) cs s = Inr (s\<lparr>sf_sent := sf_sent s @ map (\<lambda>c. (c, 127 # se_put E m)) cs\<rparr>)"
    if "sf_id s \<notin> set cs" for cs
    using that
  proof (induction cs arbitrary: s)
    case (Cons c cs)
    then show ?case using Cons.IH [of "s\<lparr>sf_sent := sf_sent s @ [(c, 127 # se_put E m)]\<rparr>"] by (auto simp: sendToSingleNode_def)
  qed simp
  then show ?thesis using assms by (simp add: broadcastToDownstreamClients_def)
qed

lemma getDecrypted_cong: "sf_ciphers t = sf_ciphers t' \<Longrightarrow> getDecrypted E t = getDecrypted E t'"
  by (simp add: getDecrypted_def)

lemma ciphers_all:
  assumes "server_ready E s" and "sf_phase s = ExchangeCiphersPhase" and "sf_cipher_from s = [own s]" and "sf_ciphers s = [(own s, y)]"
    and "distinct (map fst cs)" and "\<forall>i \<in> fst ` set cs. Contains (sf_servers s) i \<and> i \<noteq> sf_id s" and "length cs + 1 = Count (sf_servers s)"
    and "getDecrypted E (s\<lparr>sf_ciphers := (own s, y) # map (\<lambda>(i, x). (id32 i, x)) cs\<rparr>) = Inr d"
  shows "sft_run (Suc n) E (map (\<lambda>(i, x). (i, cipher_map x)) cs) s =
    Inr ((startServerRound s)\<lparr>sf_sent := sf_sent s @ map (\<lambda>c. (c, 127 # se_put E (genDecryption d (vw_num (sf_view s))))) (sf_connections s),
      sf_pushed := sf_pushed s @ [d], sf_number := sf_number s + 1\<rparr>)"
proof -
  note rd = assms(1) [unfolded server_ready_def]
  have "cs \<noteq> []" using assms(7) rd by auto
  then obtain qs q where "cs = qs @ [q]" by (cases cs rule: rev_cases) auto
  then obtain i x where p: "cs = qs @ [(i, x)]" by (cases q) auto
  let ?s = "s\<lparr>sf_ciphers := (own s, y) # map (\<lambda>(i, x). (id32 i, x)) qs, sf_cipher_from := own s # map (\<lambda>(i, x). id32 i) qs\<rparr>"
  let ?t = "s\<lparr>sf_ciphers := (own s, y) # map (\<lambda>(i, x). (id32 i, x)) cs, sf_cipher_from := own s # map (\<lambda>(i, x). id32 i) cs\<rparr>"
  have fresh: "id32 i \<notin> insert (own s) (id32 ` fst ` set qs)"
    using servers_apart [OF assms(1), of qs i] assms(5,6) by (simp add: p)
  have dec: "getDecrypted E ?t = Inr d" using assms(8) by (subst getDecrypted_cong [where t' = "s\<lparr>sf_ciphers := (own s, y) # map (\<lambda>(i, x). (id32 i, x)) cs\<rparr>"]) simp_all
  have away: "sf_id ?t \<notin> set (sf_downstream ?t)" using rd by auto
  have fresh': "own s \<noteq> id32 i" using fresh by auto
  have "sft_packet (Suc n) E i (se_put E (cipher_map x)) ?s = processCipher E (to_self n E) (cipher_map x) i ?s"
    using rd assms(6) by (subst packet_server) (simp_all add: sft_msgs p)
  also have "\<dots> = bindS (getDecrypted E ?t) (\<lambda>d. bindS (broadcastToDownstreamClients E (to_self n E) (genDecryption d (vw_num (sf_view s))) ?t)
      (\<lambda>s. pushDataOut E (to_self n E) d (startServerRound s)))"
    using rd fresh fresh' assms(2,7)
    by (simp add: processCipher_def sft_msgs p Let_def image_image case_prod_beta getNumLiveServers_def update_fresh)
  also have "\<dots> = Inr ((startServerRound s)\<lparr>sf_sent := sf_sent s @ map (\<lambda>c. (c, 127 # se_put E (genDecryption d (vw_num (sf_view s))))) (sf_connections s),
      sf_pushed := sf_pushed s @ [d], sf_number := sf_number s + 1\<rparr>)"
    using rd by (simp add: dec to_clients [OF away] pushDataOut_def startServerRound_def Let_def)
  finally show ?thesis using ciphers_part [OF assms(1-4), of qs n] assms(5-7) by (simp add: p)
qed

end
