(* ===== verification/SFT_Exchange.thy ===== *)
theory SFT_Exchange
  imports SFT_Run Variant_Demo
begin

text \<open>
  A whole exchange of a group: clients send to their servers, the servers exchange lists of clients and
  ciphertexts, and every server hands out the messages of all clients, each in its slot.
\<close>

section \<open>Keys of dictionaries\<close>

lemma value_of_map:
  assumes "inj_on id32 (set xs)" and "c \<in> set xs"
  shows "value_of (map (\<lambda>c. (id32 c, f c)) xs) (id32 c) = f c"
  using assms by (induction xs) (auto simp: value_of_def inj_on_def)

lemma sum_over_keys:
  assumes "inj_on id32 (set xs)"
  shows "bx.F (\<lambda>i. g i) (fst ` set (map (\<lambda>c. (id32 c, f c)) xs)) = bx.F (\<lambda>c. g (id32 c)) (set xs)"
  using bx.reindex [OF assms, of g] by (simp add: image_image)

lemma sum_of_values:
  assumes "inj_on id32 (set xs)"
  shows "bx.F (\<lambda>i. value_of (map (\<lambda>c. (id32 c, f c)) xs) i ! k) (fst ` set (map (\<lambda>c. (id32 c, f c)) xs)) = bx.F (\<lambda>c. f c ! k) (set xs)"
  unfolding sum_over_keys [OF assms] by (rule bx.cong) (simp_all add: value_of_map [OF assms])

lemma set_fold_merge: "set (fold merge ls acc) = set acc \<union> (\<Union>l \<in> set ls. set l)"
  by (induction ls arbitrary: acc) (auto simp: set_merge)

lemma distinct_fold_merge: "distinct acc \<Longrightarrow> distinct (fold merge ls acc)"
  by (induction ls arbitrary: acc) (auto simp: distinct_merge)

section \<open>The group\<close>

text \<open>
  Members of a group: \<open>xg_server j\<close> is the state of server \<open>j\<close> and \<open>xg_client c\<close> that of client \<open>c\<close>, which is
  connected to the server \<open>xg_home c\<close>.  The lists are the orders in which the packets of an exchange arrive
  at a server: those of its clients, and twice those of the other servers.
\<close>

record sft_group =
  xg_env :: sft_env
  xg_clients :: roster
  xg_servers :: roster
  xg_view :: sft_view
  xg_home :: "peer \<Rightarrow> peer"
  xg_text :: "peer \<Rightarrow> string"
  xg_server :: "peer \<Rightarrow> sft"
  xg_client :: "peer \<Rightarrow> sft"
  xg_messages :: "peer \<Rightarrow> peer list"
  xg_lists :: "peer \<Rightarrow> peer list"
  xg_ciphers :: "peer \<Rightarrow> peer list"

definition ids_of :: "roster \<Rightarrow> peer set" where
  "ids_of R = set (map pi_id (m_roster R))"

definition client_ready :: "sft_group \<Rightarrow> peer \<Rightarrow> bool" where
  "client_ready X c \<longleftrightarrow> sf_id (xg_client X c) = c \<and> sf_clients (xg_client X c) = xg_clients X \<and> sf_view (xg_client X c) = xg_view X
     \<and> sf_connections (xg_client X c) = [xg_home X c] \<and> xg_home X c \<in> ids_of (xg_servers X) \<and> xg_home X c \<noteq> c
     \<and> length (se_text (xg_env X) (take keyLength (xg_text X c))) = keyLength"

definition group_ready :: "sft_group \<Rightarrow> bool" where
  "group_ready X \<longleftrightarrow> roster_ok (xg_clients X) \<and> roster_ok (xg_servers X) \<and> inj_on id32 (ids_of (xg_clients X))
     \<and> (\<forall>c \<in> ids_of (xg_clients X). client_ready X c \<and> (\<forall>v \<in> ids_of (xg_servers X). seed_ok (Count (xg_clients X)) (id32 v) (id32 c)))
     \<and> ids_of (xg_servers X) \<noteq> {}
     \<and> (\<forall>j \<in> ids_of (xg_servers X). let s = xg_server X j in
          server_ready (xg_env X) s \<and> sf_id s = j \<and> sf_clients s = xg_clients X \<and> sf_servers s = xg_servers X \<and> sf_view s = xg_view X
          \<and> set (sf_connections s) = {c \<in> ids_of (xg_clients X). xg_home X c = j}
          \<and> sf_phase s = CollectionPhase \<and> sf_client_msgs s = [] \<and> sf_responded s = [] \<and> sf_total s = []
          \<and> distinct (xg_messages X j) \<and> set (xg_messages X j) = set (sf_connections s)
          \<and> distinct (xg_lists X j) \<and> set (xg_lists X j) = ids_of (xg_servers X) - {j}
          \<and> distinct (xg_ciphers X j) \<and> set (xg_ciphers X j) = ids_of (xg_servers X) - {j})"

text \<open>What the exchange should deliver.\<close>

definition group_text :: "sft_group \<Rightarrow> bytes" where
  "group_text X = all_slots (Count (xg_clients X)) (\<lambda>i. se_text (xg_env X) (take keyLength (xg_text X (pi_id (m_roster (xg_clients X) ! i)))))"

lemma ids_Contains: "roster_ok R \<Longrightarrow> Contains R i \<longleftrightarrow> i \<in> ids_of R"
proof -
  assume R: "roster_ok R"
  have "Contains R i \<longleftrightarrow> (\<exists>n. m_id_to_int R i = Some n)" unfolding Contains_def by blast
  also have "\<dots> \<longleftrightarrow> (\<exists>n < Count R. pi_id (m_roster R ! n) = i)" using id_to_int_iff [OF R] by blast
  also have "\<dots> \<longleftrightarrow> i \<in> ids_of R" by (force simp: ids_of_def Count_def in_set_conv_nth)
  finally show ?thesis .
qed

lemma group_server:
  assumes "group_ready X" and "j \<in> ids_of (xg_servers X)"
  shows "server_ready (xg_env X) (xg_server X j)" and "sf_id (xg_server X j) = j" and "sf_clients (xg_server X j) = xg_clients X"
    and "sf_servers (xg_server X j) = xg_servers X" and "sf_view (xg_server X j) = xg_view X"
    and "set (sf_connections (xg_server X j)) = {c \<in> ids_of (xg_clients X). xg_home X c = j}"
    and "sf_phase (xg_server X j) = CollectionPhase" and "sf_client_msgs (xg_server X j) = []" and "sf_responded (xg_server X j) = []"
    and "sf_total (xg_server X j) = []" and "distinct (xg_messages X j)" and "set (xg_messages X j) = set (sf_connections (xg_server X j))"
    and "distinct (xg_lists X j)" and "set (xg_lists X j) = ids_of (xg_servers X) - {j}"
    and "distinct (xg_ciphers X j)" and "set (xg_ciphers X j) = ids_of (xg_servers X) - {j}"
  using assms by (simp_all add: group_ready_def Let_def)

lemma group_view:
  assumes "group_ready X"
  shows "sft_env_ok (xg_env X)" and "vw_servers (xg_view X) = xg_servers X" and "length (vw_current (xg_view X)) = Count (xg_servers X)"
    and "inj_on id32 (ids_of (xg_servers X))"
proof -
  obtain j where j: "j \<in> ids_of (xg_servers X)" using assms by (auto simp: group_ready_def)
  show "sft_env_ok (xg_env X)" and "vw_servers (xg_view X) = xg_servers X" and "length (vw_current (xg_view X)) = Count (xg_servers X)"
    and "inj_on id32 (ids_of (xg_servers X))"
    using group_server(1,4,5) [OF assms j] by (simp_all add: server_ready_def ids_of_def)
qed

text \<open>The message of a client.\<close>

lemma client_message:
  assumes "group_ready X" and "i < Count (xg_clients X)" and "c = pi_id (m_roster (xg_clients X) ! i)"
  shows "\<exists>x. (\<forall>self. clientRoundMessageSend (xg_env X) self (xg_text X c) (xg_client X c) =
        Inr ((xg_client X c)\<lparr>sf_sent := sf_sent (xg_client X c) @ [(xg_home X c, 127 # se_put (xg_env X) (genClientMessage (vw_num (xg_view X)) x))]\<rparr>))
    \<and> length x = Count (xg_clients X) * keyLength
    \<and> (\<forall>k < Count (xg_clients X) * keyLength. x ! k =
        slot_text (Count (xg_clients X)) i (se_text (xg_env X) (take keyLength (xg_text X c))) ! k
        XOR bx.F (\<lambda>v. pad (xg_env X) (Count (xg_clients X)) (id32 v) (id32 c) ! k) (set (view_servers (xg_view X))))"
proof -
  have c: "c \<in> ids_of (xg_clients X)" using assms(2,3) by (auto simp: ids_of_def Count_def)
  have rd: "client_ready X c" and seeds: "\<forall>v \<in> ids_of (xg_servers X). seed_ok (Count (xg_clients X)) (id32 v) (id32 c)"
    and R: "roster_ok (xg_clients X)" "roster_ok (xg_servers X)" using assms(1) c by (auto simp: group_ready_def)
  note v = group_view [OF assms(1)]
  have inside: "set (view_servers (xg_view X)) \<subseteq> ids_of (xg_servers X)" using view_servers_props(2) [of "xg_view X"] R(2) v(2) by (simp add: ids_of_def)
  let ?s = "xg_client X c" and ?text = "se_text (xg_env X) (take keyLength (xg_text X c))"
  have slot: "insertInSlot (xg_env X) (take keyLength (xg_text X c)) ?s = slot_text (Count (xg_clients X)) i ?text"
    using insertInSlot_conv [of ?s i] rd R(1) assms(2,3) by (simp add: client_ready_def)
  have len: "length (slot_text (Count (xg_clients X)) i ?text) = Count (sf_clients ?s) * keyLength" using rd assms(2) by (simp add: client_ready_def)
  have "inj_on id32 (set (view_servers (sf_view ?s)))" using inj_on_subset [OF v(4) inside] rd by (simp add: client_ready_def)
  moreover have "\<forall>v \<in> set (view_servers (sf_view ?s)). seed_ok (Count (xg_clients X)) (id32 v) (id32 c)"
    using seeds inside rd by (auto simp: client_ready_def)
  ultimately obtain x where x: "encryptClientMessage (xg_env X) (id32 c) (slot_text (Count (xg_clients X)) i ?text) ?s = Inr x"
      "length x = Count (xg_clients X) * keyLength"
      "\<forall>k < Count (xg_clients X) * keyLength. x ! k = slot_text (Count (xg_clients X)) i ?text ! k
        XOR bx.F (\<lambda>v. pad (xg_env X) (Count (xg_clients X)) (id32 v) (id32 c) ! k) (set (view_servers (xg_view X)))"
    using encryptClientMessage_conv [of ?s "slot_text (Count (xg_clients X)) i ?text" "id32 c" "xg_env X"] rd R(2) v(2,3) len
    by (auto simp: client_ready_def)
  have "own ?s = id32 c" using rd by (simp add: own_def client_ready_def)
  then have "clientRoundMessageSend (xg_env X) self (xg_text X c) ?s =
      Inr (?s\<lparr>sf_sent := sf_sent ?s @ [(xg_home X c, 127 # se_put (xg_env X) (genClientMessage (vw_num (xg_view X)) x))]\<rparr>)" for self
    using slot x(1) rd by (simp add: clientRoundMessageSend_def sendToSingleNode_def client_ready_def)
  then show ?thesis using x(2,3) by blast
qed

text \<open>The ciphertext of a server that has heard its clients and the lists of the others.\<close>

definition totals :: "sft_group \<Rightarrow> peer \<Rightarrow> int32 list" where
  "totals X j = fold merge (map (\<lambda>i. map id32 (xg_messages X i)) (xg_lists X j)) (map id32 (xg_messages X j))"

lemma totals_props:
  assumes "group_ready X" and "j \<in> ids_of (xg_servers X)"
  shows "distinct (totals X j)" and "set (totals X j) = id32 ` ids_of (xg_clients X)"
proof -
  have inj: "inj_on id32 (ids_of (xg_clients X))" and homes: "\<forall>c \<in> ids_of (xg_clients X). xg_home X c \<in> ids_of (xg_servers X)"
    using assms(1) by (auto simp: group_ready_def client_ready_def)
  have ms: "set (xg_messages X i) = {c \<in> ids_of (xg_clients X). xg_home X c = i}" if "i \<in> ids_of (xg_servers X)" for i
    using group_server(6,12) [OF assms(1) that] by simp
  have "distinct (map id32 (xg_messages X j))"
    using group_server(11) [OF assms] ms [OF assms(2)] inj by (auto simp: distinct_map intro: inj_on_subset)
  then show "distinct (totals X j)" unfolding totals_def by (rule distinct_fold_merge)
  have "set (totals X j) = id32 ` set (xg_messages X j) \<union> (\<Union>i \<in> ids_of (xg_servers X) - {j}. id32 ` set (xg_messages X i))"
    using group_server(14) [OF assms] by (simp add: totals_def set_fold_merge)
  also have "\<dots> = (\<Union>i \<in> ids_of (xg_servers X). id32 ` set (xg_messages X i))" using assms(2) by blast
  also have "\<dots> = id32 ` ids_of (xg_clients X)"
  proof
    show "(\<Union>i \<in> ids_of (xg_servers X). id32 ` set (xg_messages X i)) \<subseteq> id32 ` ids_of (xg_clients X)" using ms by blast
    show "id32 ` ids_of (xg_clients X) \<subseteq> (\<Union>i \<in> ids_of (xg_servers X). id32 ` set (xg_messages X i))" using ms homes by blast
  qed
  finally show "set (totals X j) = id32 ` ids_of (xg_clients X)" .
qed

lemma server_cipher:
  assumes "group_ready X" and "j \<in> ids_of (xg_servers X)" and "\<forall>c \<in> ids_of (xg_clients X). length (x c) = Count (xg_clients X) * keyLength"
  shows "\<exists>y. createCipher (xg_env X) ((xg_server X j)\<lparr>sf_client_msgs := map (\<lambda>c. (id32 c, x c)) (xg_messages X j), sf_total := totals X j\<rparr>) = Inr y
    \<and> length y = Count (xg_clients X) * keyLength
    \<and> (\<forall>k < Count (xg_clients X) * keyLength. y ! k = bx.F (\<lambda>c. x c ! k) {c. c \<in> ids_of (xg_clients X) \<and> xg_home X c = j}
        XOR (if j \<in> set (view_servers (xg_view X)) then bx.F (\<lambda>c. pad (xg_env X) (Count (xg_clients X)) (id32 j) (id32 c) ! k) (ids_of (xg_clients X)) else 0))"
proof -
  let ?t = "(xg_server X j)\<lparr>sf_client_msgs := map (\<lambda>c. (id32 c, x c)) (xg_messages X j), sf_total := totals X j\<rparr>"
  let ?n = "Count (xg_clients X)"
  note srv = group_server [OF assms(1,2)] and v = group_view [OF assms(1)] and tot = totals_props [OF assms(1,2)]
  have inj: "inj_on id32 (ids_of (xg_clients X))" and R: "roster_ok (xg_servers X)"
    and seeds: "\<forall>c \<in> ids_of (xg_clients X). seed_ok ?n (id32 j) (id32 c)" using assms(1,2) by (auto simp: group_ready_def)
  have ms: "set (xg_messages X j) = {c. c \<in> ids_of (xg_clients X) \<and> xg_home X c = j}" using srv(6,12) by simp
  have inj_ms: "inj_on id32 (set (xg_messages X j))" using ms by (auto intro: inj_on_subset [OF inj])
  have "sf_connections (xg_server X j) \<noteq> []" using srv(1) by (simp add: server_ready_def)
  then have some: "xg_messages X j \<noteq> []" using srv(12) by auto
  have keys: "distinct (map fst (map (\<lambda>c. (id32 c, x c)) (xg_messages X j)))" using srv(11) inj_ms by (simp add: distinct_map comp_def)
  have lengths: "\<forall>i \<in> fst ` set (map (\<lambda>c. (id32 c, x c)) (xg_messages X j)). length (value_of (map (\<lambda>c. (id32 c, x c)) (xg_messages X j)) i) = ?n * keyLength"
    using value_of_map [OF inj_ms, of _ x] assms(3) ms by auto
  have here: "inCurrentView (xg_view X) j = Inr (j \<in> set (view_servers (xg_view X)))"
    using inCurrentView_conv [of "xg_view X" j] v(2,3) R ids_Contains [OF R, of j] assms(2) by simp
  have pads: "bx.F (\<lambda>c. pad (xg_env X) ?n (id32 j) c ! k) (set (totals X j)) = bx.F (\<lambda>c. pad (xg_env X) ?n (id32 j) (id32 c) ! k) (ids_of (xg_clients X))" for k
    using bx.reindex [OF inj, of "\<lambda>c. pad (xg_env X) ?n (id32 j) c ! k"] tot(2) by (simp add: comp_def)
  have "own ?t = id32 j" using srv(2) by (simp add: own_def)
  then show ?thesis
    using createCipher_conv [OF v(1), of ?t "j \<in> set (view_servers (xg_view X))"] keys some lengths here seeds tot srv(2,3,5) sum_of_values [OF inj_ms, of x] ms
    by (simp add: pads [unfolded tot(2)] cong: if_cong)
qed

section \<open>The exchange\<close>

text \<open>The sum of the ciphertexts of all servers, at one position.\<close>

lemma sum_of_ciphers:
  assumes "group_ready X" and k: "k < Count (xg_clients X) * keyLength"
    and x: "\<forall>i < Count (xg_clients X). x (pi_id (m_roster (xg_clients X) ! i)) ! k =
      slot_text (Count (xg_clients X)) i (se_text (xg_env X) (take keyLength (xg_text X (pi_id (m_roster (xg_clients X) ! i))))) ! k
      XOR bx.F (\<lambda>v. pad (xg_env X) (Count (xg_clients X)) (id32 v) (id32 (pi_id (m_roster (xg_clients X) ! i))) ! k) (set (view_servers (xg_view X)))"
    and y: "\<forall>j \<in> ids_of (xg_servers X). y j ! k = bx.F (\<lambda>c. x c ! k) {c. c \<in> ids_of (xg_clients X) \<and> xg_home X c = j}
      XOR (if j \<in> set (view_servers (xg_view X)) then bx.F (\<lambda>c. pad (xg_env X) (Count (xg_clients X)) (id32 j) (id32 c) ! k) (ids_of (xg_clients X)) else 0)"
  shows "bx.F (\<lambda>j. y j ! k) (ids_of (xg_servers X)) = group_text X ! k"
proof -
  let ?n = "Count (xg_clients X)" and ?V = "set (view_servers (xg_view X))" and ?id = "\<lambda>i. pi_id (m_roster (xg_clients X) ! i)"
  let ?p = "\<lambda>v c. pad (xg_env X) ?n (id32 v) (id32 c) ! k"
  let ?text = "\<lambda>i. se_text (xg_env X) (take keyLength (xg_text X (?id i)))"
  have R: "roster_ok (xg_clients X)" "roster_ok (xg_servers X)" and ready: "\<forall>c \<in> ids_of (xg_clients X). client_ready X c"
    using assms(1) by (auto simp: group_ready_def)
  have clients: "ids_of (xg_clients X) = ?id ` {..<?n}" by (force simp: ids_of_def Count_def in_set_conv_nth)
  have inj: "inj_on ?id {..<?n}"
  proof (rule inj_onI)
    fix a b assume "a \<in> {..<?n}" "b \<in> {..<?n}" "?id a = ?id b"
    then show "a = b" by (metis GetIndex_nth R(1) lessThan_iff of_nat_eq_iff)
  qed
  have texts: "\<forall>i < ?n. length (?text i) = keyLength" using ready clients by (auto simp: client_ready_def)
  define t where "t c = x c ! k XOR bx.F (\<lambda>v. ?p v c) ?V" for c
  have x_t: "x c ! k = t c XOR bx.F (\<lambda>v. ?p v c) ?V" for c by (simp add: t_def xor.assoc)
  have slots: "t (?id i) = slot_text ?n i (?text i) ! k" if "i < ?n" for i
  proof -
    have "x (?id i) ! k = slot_text ?n i (?text i) ! k XOR bx.F (\<lambda>v. ?p v (?id i)) ?V" using x that by blast
    then show ?thesis unfolding t_def by (simp only: xor.assoc xor_self_eq xor.right_neutral)
  qed
  have V: "?V \<subseteq> ids_of (xg_servers X)" using view_servers_props(2) [of "xg_view X"] R(2) group_view(2) [OF assms(1)] by (simp add: ids_of_def)
  have home: "xg_home X ` ids_of (xg_clients X) \<subseteq> ids_of (xg_servers X)" using ready by (auto simp: client_ready_def)
  have "bx.F (\<lambda>j. y j ! k) (ids_of (xg_servers X)) =
    bx.F (\<lambda>j. bx.F (\<lambda>c. t c XOR bx.F (\<lambda>v. ?p v c) ?V) {c. c \<in> ids_of (xg_clients X) \<and> xg_home X c = j}
      XOR (if j \<in> ?V then bx.F (\<lambda>c. ?p j c) (ids_of (xg_clients X)) else 0)) (ids_of (xg_servers X))"
    by (rule bx.cong) (use y x_t in simp_all)
  also have "\<dots> = bx.F t (ids_of (xg_clients X))" by (rule sft_pads_cancel) (use V home in \<open>simp_all add: ids_of_def\<close>)
  also have "\<dots> = bx.F (\<lambda>i. t (?id i)) {..<?n}" unfolding clients using bx.reindex [OF inj, of t] by (simp add: comp_def)
  also have "\<dots> = bx.F (\<lambda>i. if i = k div keyLength then ?text i ! (k mod keyLength) else 0) {..<?n}"
    by (rule bx.cong) (use slots texts nth_slot_text k in auto)
  also have "\<dots> = ?text (k div keyLength) ! (k mod keyLength)"
    using k div_less_iff_less_mult [of keyLength k ?n] by (simp add: keyLength_def)
  also have "\<dots> = group_text X ! k" unfolding group_text_def by (rule nth_all_slots [OF texts k, symmetric])
  finally show ?thesis .
qed

text \<open>The sum at one server, in whatever order the ciphertexts came.\<close>

lemma group_decrypted:
  assumes "group_ready X" and "j \<in> ids_of (xg_servers X)"
    and x: "\<forall>i < Count (xg_clients X). \<forall>k < Count (xg_clients X) * keyLength. x (pi_id (m_roster (xg_clients X) ! i)) ! k =
      slot_text (Count (xg_clients X)) i (se_text (xg_env X) (take keyLength (xg_text X (pi_id (m_roster (xg_clients X) ! i))))) ! k
      XOR bx.F (\<lambda>v. pad (xg_env X) (Count (xg_clients X)) (id32 v) (id32 (pi_id (m_roster (xg_clients X) ! i))) ! k) (set (view_servers (xg_view X)))"
    and y: "\<forall>j \<in> ids_of (xg_servers X). length (y j) = Count (xg_clients X) * keyLength
      \<and> (\<forall>k < Count (xg_clients X) * keyLength. y j ! k = bx.F (\<lambda>c. x c ! k) {c. c \<in> ids_of (xg_clients X) \<and> xg_home X c = j}
        XOR (if j \<in> set (view_servers (xg_view X)) then bx.F (\<lambda>c. pad (xg_env X) (Count (xg_clients X)) (id32 j) (id32 c) ! k) (ids_of (xg_clients X)) else 0))"
    and t: "sf_ciphers t = map (\<lambda>i. (id32 i, y i)) (j # xg_ciphers X j)"
  shows "getDecrypted (xg_env X) t = Inr (group_text X)"
proof -
  let ?L = "Count (xg_clients X) * keyLength"
  note v = group_view [OF assms(1)] and srv = group_server [OF assms(1,2)]
  have servers: "set (j # xg_ciphers X j) = ids_of (xg_servers X)" using srv(16) assms(2) by auto
  have inj: "inj_on id32 (set (j # xg_ciphers X j))" unfolding servers by (rule v(4))
  have "distinct (j # xg_ciphers X j)" using srv(15,16) by simp
  then have "distinct (map id32 (j # xg_ciphers X j))" using inj by (simp only: distinct_map)
  then have keys: "distinct (map fst (sf_ciphers t))" by (simp add: t comp_def)
  have lengths: "\<forall>i \<in> fst ` set (sf_ciphers t). length (value_of (sf_ciphers t) i) = ?L"
  proof
    fix i assume "i \<in> fst ` set (sf_ciphers t)"
    moreover have "fst ` set (sf_ciphers t) = id32 ` set (j # xg_ciphers X j)" unfolding t by (simp add: image_image)
    ultimately obtain i' where "i' \<in> set (j # xg_ciphers X j)" "i = id32 i'" by blast
    then show "length (value_of (sf_ciphers t) i) = ?L" unfolding t using value_of_map [OF inj, of i' y] y servers by auto
  qed
  have "sf_ciphers t \<noteq> []" by (simp add: t)
  from getDecrypted_conv [OF v(1) keys this lengths] obtain d where d: "getDecrypted (xg_env X) t = Inr d" "length d = ?L"
      "\<forall>k < ?L. d ! k = bx.F (\<lambda>i. value_of (sf_ciphers t) i ! k) (fst ` set (sf_ciphers t))" by blast
  have "\<forall>i < Count (xg_clients X). length (se_text (xg_env X) (take keyLength (xg_text X (pi_id (m_roster (xg_clients X) ! i))))) = keyLength"
    using assms(1) by (auto simp: group_ready_def client_ready_def ids_of_def Count_def)
  then have len: "length (group_text X) = ?L" unfolding group_text_def by (rule length_all_slots)
  have "d = group_text X"
  proof (rule nth_equalityI)
    fix k assume "k < length d"
    then have k: "k < ?L" using d(2) by simp
    have "d ! k = bx.F (\<lambda>i. y i ! k) (ids_of (xg_servers X))"
      using d(3) k sum_of_values [OF inj, of y k] unfolding t servers by simp
    also have "\<dots> = group_text X ! k" by (rule sum_of_ciphers [OF assms(1) k]) (use x y k in auto)
    finally show "d ! k = group_text X ! k" .
  qed (simp add: d(2) len)
  then show ?thesis using d(1) by simp
qed

text \<open>The packets of an exchange that reach a server, and what it does in the end.\<close>

definition exchange_packets :: "sft_group \<Rightarrow> (peer \<Rightarrow> bytes) \<Rightarrow> (peer \<Rightarrow> bytes) \<Rightarrow> peer \<Rightarrow> (peer \<times> variant_map) list" where
  "exchange_packets X x y j =
     map (\<lambda>c. (c, genClientMessage (vw_num (xg_view X)) (x c))) (xg_messages X j)
     @ map (\<lambda>i. (i, attendance_map (map id32 (xg_messages X i)))) (xg_lists X j)
     @ map (\<lambda>i. (i, cipher_map (y i))) (xg_ciphers X j)"

definition exchange_sent :: "sft_group \<Rightarrow> (peer \<Rightarrow> bytes) \<Rightarrow> peer \<Rightarrow> (peer \<times> bytes) list" where
  "exchange_sent X y j =
     to_others (xg_env X) j (attendance_map (map id32 (xg_messages X j))) @ to_others (xg_env X) j (genRequest ClientAttendancePhase)
     @ to_others (xg_env X) j (cipher_map (y j)) @ to_others (xg_env X) j (genRequest ExchangeCiphersPhase)
     @ map (\<lambda>c. (c, 127 # se_put (xg_env X) (genDecryption (group_text X) (vw_num (xg_view X))))) (sf_connections (xg_server X j))"

lemma server_exchange:
  assumes "group_ready X" and "j \<in> ids_of (xg_servers X)"
    and cipher: "createCipher (xg_env X) ((xg_server X j)\<lparr>sf_client_msgs := map (\<lambda>c. (id32 c, x c)) (xg_messages X j), sf_total := totals X j\<rparr>) = Inr (y j)"
    and decrypted: "\<And>t. sf_ciphers t = map (\<lambda>i. (id32 i, y i)) (j # xg_ciphers X j) \<Longrightarrow> getDecrypted (xg_env X) t = Inr (group_text X)"
  shows "sft_run (Suc (Suc (Suc n))) (xg_env X) (exchange_packets X x y j) (xg_server X j) =
    Inr ((startServerRound (xg_server X j))\<lparr>sf_last_cipher := y j, sf_sent := sf_sent (xg_server X j) @ exchange_sent X y j,
      sf_pushed := sf_pushed (xg_server X j) @ [group_text X], sf_number := sf_number (xg_server X j) + 1\<rparr>)"
proof -
  let ?E = "xg_env X" and ?s = "xg_server X j" and ?v = "vw_num (xg_view X)" and ?ids = "map id32 (xg_messages X j)"
  note srv = group_server [OF assms(1,2)]
  have R: "roster_ok (xg_servers X)" using assms(1) by (simp add: group_ready_def)
  have own: "own ?s = id32 j" using srv(2) by (simp add: own_def)
  have others: "\<forall>i \<in> ids_of (xg_servers X) - {j}. Contains (sf_servers ?s) i \<and> i \<noteq> sf_id ?s" using srv(2,4) ids_Contains [OF R] by simp
  have distinct: "distinct (map pi_id (m_roster (xg_servers X)))" using R by (simp add: roster_ok_def)
  have count: "length xs + 1 = Count (sf_servers ?s)" if "distinct xs" "set xs = ids_of (xg_servers X) - {j}" for xs
  proof -
    have "length xs = card (ids_of (xg_servers X) - {j})" using distinct_card [OF that(1)] that(2) by simp
    moreover have "card (ids_of (xg_servers X)) = Count (sf_servers ?s)" using distinct_card [OF distinct] srv(4) by (simp add: ids_of_def Count_def)
    moreover have "finite (ids_of (xg_servers X))" by (simp add: ids_of_def)
    ultimately show ?thesis using assms(2) card_gt_0_iff [of "ids_of (xg_servers X)"] by (simp add: card_Diff_singleton) (metis Suc_pred empty_iff)
  qed
  let ?s1 = "?s\<lparr>sf_client_msgs := map (\<lambda>c. (id32 c, x c)) (xg_messages X j), sf_responded := ?ids, sf_attendance := [own ?s], sf_total := ?ids,
    sf_phase := ClientAttendancePhase, sf_sent := sf_sent ?s @ to_others ?E j (attendance_map ?ids) @ to_others ?E j (genRequest ClientAttendancePhase)\<rparr>"
  have "distinct (sf_connections ?s)" using srv(1) by (simp add: server_ready_def)
  then have "length (xg_messages X j) = length (sf_connections ?s)" using distinct_card srv(11,12) by metis
  then have stage1: "sft_run (Suc (Suc (Suc n))) ?E (map (\<lambda>c. (c, genClientMessage ?v (x c))) (xg_messages X j)) ?s = Inr ?s1"
    using collect_all [OF srv(1,7-10), of "map (\<lambda>c. (c, x c)) (xg_messages X j)" n] srv(2,5,11,12) by (simp add: comp_def)
  let ?s2 = "?s1\<lparr>sf_total := totals X j, sf_attendance := own ?s # map id32 (xg_lists X j), sf_cipher_from := [own ?s], sf_phase := ExchangeCiphersPhase,
    sf_ciphers := [(own ?s, y j)], sf_last_cipher := y j,
    sf_sent := sf_sent ?s1 @ to_others ?E j (cipher_map (y j)) @ to_others ?E j (genRequest ExchangeCiphersPhase)\<rparr>"
  have ready1: "server_ready ?E ?s1" using srv(1) by simp
  let ?ls = "map (\<lambda>i. (i, map id32 (xg_messages X i))) (xg_lists X j)"
  have merged: "fold merge (map snd ?ls) (sf_total ?s1) = totals X j" by (simp add: totals_def comp_def)
  have cipher1: "createCipher ?E (?s1\<lparr>sf_total := fold merge (map snd ?ls) (sf_total ?s1)\<rparr>) = Inr (y j)"
    unfolding merged cipher [symmetric] by (rule createCipher_cong) simp_all
  have lists: "distinct (map fst ?ls)" "\<forall>i \<in> fst ` set ?ls. Contains (sf_servers ?s1) i \<and> i \<noteq> sf_id ?s1" "length ?ls + 1 = Count (sf_servers ?s1)"
    using srv(13,14) others count [of "xg_lists X j"] by (auto simp: comp_def)
  have "sft_run (Suc (Suc (Suc n))) ?E (map (\<lambda>(i, l). (i, attendance_map l)) ?ls) ?s1 = Inr ?s2"
    unfolding merged [symmetric] using lists_all [OF ready1 _ _ lists cipher1, of n] srv(2) by (simp add: comp_def)
  then have stage2: "sft_run (Suc (Suc (Suc n))) ?E (map (\<lambda>i. (i, attendance_map (map id32 (xg_messages X i)))) (xg_lists X j)) ?s1 = Inr ?s2"
    by (simp add: comp_def)
  have ready2: "server_ready ?E ?s2" using srv(1) by simp
  let ?cs = "map (\<lambda>i. (i, y i)) (xg_ciphers X j)"
  have ciphers: "distinct (map fst ?cs)" "\<forall>i \<in> fst ` set ?cs. Contains (sf_servers ?s2) i \<and> i \<noteq> sf_id ?s2" "length ?cs + 1 = Count (sf_servers ?s2)"
    using srv(15,16) others count [of "xg_ciphers X j"] by (auto simp: comp_def)
  have dec: "getDecrypted ?E (?s2\<lparr>sf_ciphers := (own ?s2, y j) # map (\<lambda>(i, x). (id32 i, x)) ?cs\<rparr>) = Inr (group_text X)"
    by (rule decrypted) (simp add: own comp_def)
  have "sft_run (Suc (Suc (Suc n))) ?E (map (\<lambda>(i, x). (i, cipher_map x)) ?cs) ?s2 =
    Inr ((startServerRound ?s2)\<lparr>sf_sent := sf_sent ?s2 @ map (\<lambda>c. (c, 127 # se_put ?E (genDecryption (group_text X) (vw_num (sf_view ?s2))))) (sf_connections ?s2),
      sf_pushed := sf_pushed ?s2 @ [group_text X], sf_number := sf_number ?s2 + 1\<rparr>)"
    by (rule ciphers_all [OF ready2 _ _ _ ciphers dec]) simp_all
  then have stage3: "sft_run (Suc (Suc (Suc n))) ?E (map (\<lambda>i. (i, cipher_map (y i))) (xg_ciphers X j)) ?s2 =
    Inr ((startServerRound ?s)\<lparr>sf_last_cipher := y j, sf_sent := sf_sent ?s @ exchange_sent X y j,
      sf_pushed := sf_pushed ?s @ [group_text X], sf_number := sf_number ?s + 1\<rparr>)"
    using srv(5) by (simp add: comp_def startServerRound_def exchange_sent_def)
  show ?thesis unfolding exchange_packets_def sft_run_simps(3) stage1 bindS.simps stage2 by (rule stage3)
qed

section \<open>A concrete group\<close>

definition demo_env :: sft_env where
  "demo_env = \<lparr>se_rand = demo_rand, se_order = (\<lambda>ks. ks), se_put = (\<lambda>m. put_vlist demo_qvs [QHash m]),
     se_get = (\<lambda>b. to_hash demo_qvs (hd (get_vlist demo_qvs b))), se_qvs = demo_qvs, se_text = map of_char, se_servers = [4, 5, 6]\<rparr>"

definition demo_state :: "peer \<Rightarrow> peer list \<Rightarrow> sft" where
  "demo_state i connected =
     (case SFTNullRound demo_env (demo_roster [1, 2, 3]) (demo_roster [4, 5, 6]) i connected DataQueue of Inr s \<Rightarrow> s)"

definition demo_group :: sft_group where
  "demo_group = \<lparr>xg_env = demo_env, xg_clients = demo_roster [1, 2, 3], xg_servers = demo_roster [4, 5, 6],
     xg_view = sf_view (demo_state 4 []), xg_home = (\<lambda>c. c + 3), xg_text = (\<lambda>c. ''abcd''),
     xg_server = (\<lambda>j. demo_state j ((j - 3) # remove1 j [4, 5, 6])), xg_client = (\<lambda>c. demo_state c [c + 3]),
     xg_messages = (\<lambda>j. [j - 3]), xg_lists = (\<lambda>j. remove1 j [4, 5, 6]), xg_ciphers = (\<lambda>j. remove1 j [6, 5, 4])\<rparr>"

lemma demo_env_ok: "sft_env_ok demo_env"
  using demo_qvs_ok by (simp add: sft_env_ok_def demo_env_def qvs_ok_def)

lemma demo_ids: "map pi_id (m_roster (demo_roster ids)) = ids" "Count (demo_roster ids) = length ids" "ids_of (demo_roster ids) = set ids"
  by (simp_all add: demo_roster_def mk_roster_def comp_def Count_def ids_of_def image_image)

lemma demo_Contains: "distinct ids \<Longrightarrow> Contains (demo_roster ids) i \<longleftrightarrow> i \<in> set ids"
  using ids_Contains [OF demo_roster_ok] demo_ids(3) by blast

abbreviation demo_first_view :: sft_view where
  "demo_first_view \<equiv> \<lparr>vw_servers = demo_roster [4, 5, 6], vw_num = 0, vw_proposed = 0, vw_current = [True, True, False],
    vw_proposals = Map.empty, vw_down = []\<rparr>"

lemma demo_state_view: "i \<in> {1, 2, 3, 4, 5, 6} \<Longrightarrow> sf_view (demo_state i cs) = demo_first_view"
  by (auto simp: demo_state_def SFTNullRound_def demo_view demo_ids demo_Contains demo_env_def Let_def startServerRound_def)

lemma demo_state_server:
  assumes "i \<in> {4, 5, 6}"
  shows "demo_state i cs = \<lparr>sf_id = i, sf_clients = demo_roster [1, 2, 3], sf_servers = demo_roster [4, 5, 6], sf_is_server = True,
    sf_downstream = filter (\<lambda>j. j \<in> set cs) [1, 2, 3], sf_upstream = [], sf_number = 0, sf_stopped = False, sf_successful = False,
    sf_view = demo_first_view, sf_connections = filter (\<lambda>j. j \<in> set cs) [1, 2, 3], sf_phase = CollectionPhase,
    sf_client_msgs = [], sf_ciphers = [], sf_attendance = [], sf_cipher_from = [], sf_view_from = [], sf_responded = [],
    sf_total = [], sf_last_cipher = [], sf_queue = DataQueue, sf_sent = [], sf_pushed = []\<rparr>"
  using assms by (auto simp: demo_state_def SFTNullRound_def demo_view demo_ids demo_Contains demo_env_def Let_def startServerRound_def)

lemma demo_state_client:
  assumes "i \<in> {1, 2, 3}"
  shows "demo_state i cs = \<lparr>sf_id = i, sf_clients = demo_roster [1, 2, 3], sf_servers = demo_roster [4, 5, 6], sf_is_server = False,
    sf_downstream = [], sf_upstream = filter (\<lambda>j. j \<in> set cs) [4, 5, 6], sf_number = 0, sf_stopped = False, sf_successful = False,
    sf_view = demo_first_view, sf_connections = filter (\<lambda>j. j \<in> set cs) [4, 5, 6], sf_phase = ReceivePhase,
    sf_client_msgs = [], sf_ciphers = [], sf_attendance = [], sf_cipher_from = [], sf_view_from = [], sf_responded = [],
    sf_total = [], sf_last_cipher = [], sf_queue = DataQueue, sf_sent = [], sf_pushed = []\<rparr>"
  using assms by (auto simp: demo_state_def SFTNullRound_def demo_view demo_ids demo_Contains demo_env_def Let_def)

text \<open>Every server has one client and is connected to the other servers.\<close>

lemma demo_id32: "inj_on id32 {1, 2, 3}" "inj_on id32 {4, 5, 6}"
  by (simp_all add: inj_on_def id32_def)

lemma demo_server_ready:
  assumes "i \<in> {4, 5, 6}" and "filter (\<lambda>j. j \<in> set cs) [1, 2, 3] = [j]" and "j \<in> {1, 2, 3}"
  shows "server_ready demo_env (demo_state i cs)"
proof -
  have r: "roster_ok (demo_roster [1, 2, 3])" "roster_ok (demo_roster [4, 5, 6])" by (simp_all add: demo_roster_ok)
  show ?thesis
    unfolding server_ready_def demo_state_server [OF assms(1)] assms(2)
    using assms(1,3) demo_id32 r by (auto simp: demo_env_ok demo_ids demo_Contains simp del: One_nat_def)
qed

lemma demo_seeds: "\<forall>v \<in> {4, 5, 6}. \<forall>c \<in> {1, 2, 3}. seed_ok 3 (id32 v) (id32 c)"
  by (simp add: seed_ok_def id32_def int_range_def)

lemma demo_group_simps [simp]:
  "xg_env demo_group = demo_env" "xg_clients demo_group = demo_roster [1, 2, 3]" "xg_servers demo_group = demo_roster [4, 5, 6]"
  "xg_view demo_group = demo_first_view" "xg_home demo_group c = c + 3" "xg_text demo_group c = ''abcd''"
  "xg_server demo_group j = demo_state j ((j - 3) # remove1 j [4, 5, 6])" "xg_client demo_group c = demo_state c [c + 3]"
  "xg_messages demo_group j = [j - 3]" "xg_lists demo_group j = remove1 j [4, 5, 6]" "xg_ciphers demo_group j = remove1 j [6, 5, 4]"
  by (simp_all add: demo_group_def demo_state_view)

lemma demo_group_ready: "group_ready demo_group"
proof -
  have clients: "client_ready demo_group c" if "c \<in> {1, 2, 3}" for c
    using that by (auto simp: client_ready_def demo_state_client demo_ids demo_env_def keyLength_def simp del: One_nat_def)
  have servers: "server_ready demo_env (demo_state i ((i - 3) # remove1 i [4, 5, 6]))" if "i \<in> {4, 5, 6}" for i
    using that by (intro demo_server_ready [where j = "i - 3"]) auto
  have fields: "set (sf_connections (demo_state i ((i - 3) # remove1 i [4, 5, 6]))) = {i - 3}" "{c \<in> {1, 2, 3}. c + 3 = i} = {i - 3}"
    "set (remove1 i [4, 5, 6]) = {4, 5, 6} - {i}" "set (remove1 i [6, 5, 4]) = {4, 5, 6} - {i}" if "i \<in> {4, 5, 6}" for i :: nat
    using that by (auto simp: demo_state_server)
  have state: "sf_id (demo_state i cs) = i" "sf_clients (demo_state i cs) = demo_roster [1, 2, 3]" "sf_servers (demo_state i cs) = demo_roster [4, 5, 6]"
    "sf_view (demo_state i cs) = demo_first_view" "sf_phase (demo_state i cs) = CollectionPhase" "sf_client_msgs (demo_state i cs) = []"
    "sf_responded (demo_state i cs) = []" "sf_total (demo_state i cs) = []" if "i \<in> {4, 5, 6}" for i cs
    using demo_state_server [OF that, of cs] by simp_all
  have seeds: "seed_ok 3 (id32 v) (id32 c)" if "c \<in> {1, 2, 3}" "v \<in> {4, 5, 6}" for c v using demo_seeds that by blast
  have three: "length [1 :: nat, 2, 3] = 3" by simp
  show ?thesis
    unfolding group_ready_def Let_def demo_group_simps demo_ids set_simps three
    by (intro conjI ballI clients servers seeds)
      (use state fields demo_id32 in \<open>simp_all add: demo_roster_ok del: One_nat_def remove1.simps\<close>)
qed

section \<open>Messages and ciphertexts of a group\<close>

text \<open>\<open>x c\<close> is what client \<open>c\<close> sends, \<open>y j\<close> the ciphertext of server \<open>j\<close>.\<close>

definition group_messages :: "sft_group \<Rightarrow> (peer \<Rightarrow> bytes) \<Rightarrow> bool" where
  "group_messages X x \<longleftrightarrow> (\<forall>c \<in> ids_of (xg_clients X).
     (\<forall>self. clientRoundMessageSend (xg_env X) self (xg_text X c) (xg_client X c) =
        Inr ((xg_client X c)\<lparr>sf_sent := sf_sent (xg_client X c) @ [(xg_home X c, 127 # se_put (xg_env X) (genClientMessage (vw_num (xg_view X)) (x c)))]\<rparr>))
     \<and> length (x c) = Count (xg_clients X) * keyLength
     \<and> (\<forall>i < Count (xg_clients X). c = pi_id (m_roster (xg_clients X) ! i) \<longrightarrow> (\<forall>k < Count (xg_clients X) * keyLength. x c ! k =
          slot_text (Count (xg_clients X)) i (se_text (xg_env X) (take keyLength (xg_text X c))) ! k
          XOR bx.F (\<lambda>v. pad (xg_env X) (Count (xg_clients X)) (id32 v) (id32 c) ! k) (set (view_servers (xg_view X))))))"

definition group_ciphers :: "sft_group \<Rightarrow> (peer \<Rightarrow> bytes) \<Rightarrow> (peer \<Rightarrow> bytes) \<Rightarrow> bool" where
  "group_ciphers X x y \<longleftrightarrow> (\<forall>j \<in> ids_of (xg_servers X).
     createCipher (xg_env X) ((xg_server X j)\<lparr>sf_client_msgs := map (\<lambda>c. (id32 c, x c)) (xg_messages X j), sf_total := totals X j\<rparr>) = Inr (y j)
     \<and> length (y j) = Count (xg_clients X) * keyLength
     \<and> (\<forall>k < Count (xg_clients X) * keyLength. y j ! k = bx.F (\<lambda>c. x c ! k) {c. c \<in> ids_of (xg_clients X) \<and> xg_home X c = j}
         XOR (if j \<in> set (view_servers (xg_view X)) then bx.F (\<lambda>c. pad (xg_env X) (Count (xg_clients X)) (id32 j) (id32 c) ! k) (ids_of (xg_clients X)) else 0)))"

lemma group_messages_exist:
  assumes "group_ready X"
  shows "\<exists>x. group_messages X x"
  unfolding group_messages_def
proof (rule bchoice, rule ballI)
  fix c assume "c \<in> ids_of (xg_clients X)"
  then obtain i where i: "i < Count (xg_clients X)" "c = pi_id (m_roster (xg_clients X) ! i)"
    by (force simp: ids_of_def Count_def in_set_conv_nth)
  have R: "roster_ok (xg_clients X)" using assms by (simp add: group_ready_def)
  have "i' = i" if "i' < Count (xg_clients X)" "c = pi_id (m_roster (xg_clients X) ! i')" for i'
    using GetIndex_nth [OF R that(1)] GetIndex_nth [OF R i(1)] that(2) i(2) by (metis of_nat_eq_iff)
  then show "\<exists>x. (\<forall>self. clientRoundMessageSend (xg_env X) self (xg_text X c) (xg_client X c) =
        Inr ((xg_client X c)\<lparr>sf_sent := sf_sent (xg_client X c) @ [(xg_home X c, 127 # se_put (xg_env X) (genClientMessage (vw_num (xg_view X)) x))]\<rparr>))
     \<and> length x = Count (xg_clients X) * keyLength
     \<and> (\<forall>i < Count (xg_clients X). c = pi_id (m_roster (xg_clients X) ! i) \<longrightarrow> (\<forall>k < Count (xg_clients X) * keyLength. x ! k =
          slot_text (Count (xg_clients X)) i (se_text (xg_env X) (take keyLength (xg_text X c))) ! k
          XOR bx.F (\<lambda>v. pad (xg_env X) (Count (xg_clients X)) (id32 v) (id32 c) ! k) (set (view_servers (xg_view X)))))"
    using client_message [OF assms i] by blast
qed

lemma group_ciphers_exist:
  assumes "group_ready X" and "group_messages X x"
  shows "\<exists>y. group_ciphers X x y"
  unfolding group_ciphers_def using assms(2) by (intro bchoice ballI server_cipher [OF assms(1)]) (simp_all add: group_messages_def)

section \<open>Property\<close>



end
