(* ===== verification/SFT_Faults.thy ===== *)
theory SFT_Faults
  imports SFT_Exchange
begin

text \<open>
  View changes and failures in the fault-tolerant round: votes change the view of a server whoever casts them,
  a server whose own vote completes the quorum gets stuck, a server without clients holds up the exchange, and
  some disconnects end in an access out of bounds.
\<close>

section \<open>Votes\<close>

definition with_votes :: "int32 \<Rightarrow> peer list \<Rightarrow> sft_view \<Rightarrow> sft_view" where
  "with_votes v ps w = (if ps = [] then w
     else w\<lparr>vw_proposals := (vw_proposals w)(v \<mapsto> \<lparr>vc_count = length ps, vc_rejections = length ps - 1, vc_voters = map id32 ps\<rparr>)\<rparr>)"

lemma votes_for_with_votes:
  "vw_proposals w v = None \<Longrightarrow> votes_for (with_votes v ps w) v =
     \<lparr>vc_count = length ps, vc_rejections = (if ps = [] then 0 else length ps - 1), vc_voters = map id32 ps\<rparr>"
  by (simp add: votes_for_def with_votes_def)

lemma with_votes_fields [simp]:
  "vw_servers (with_votes v ps w) = vw_servers w" "vw_num (with_votes v ps w) = vw_num w" "vw_down (with_votes v ps w) = vw_down w"
  "vw_current (with_votes v ps w) = vw_current w" "vw_proposed (with_votes v ps w) = vw_proposed w"
  by (simp_all add: with_votes_def)

lemma with_votes_change [simp]:
  "(with_votes v ps w)\<lparr>vw_num := u, vw_current := ms, vw_proposals := P\<rparr> = w\<lparr>vw_num := u, vw_current := ms, vw_proposals := P\<rparr>"
  by (simp add: with_votes_def)

lemma with_votes_snoc:
  "(with_votes v ps w)\<lparr>vw_proposals := (vw_proposals (with_votes v ps w))(v \<mapsto>
     \<lparr>vc_count = Suc (length ps), vc_rejections = length ps, vc_voters = map id32 ps @ [id32 i]\<rparr>)\<rparr> = with_votes v (ps @ [i]) w"
  by (simp add: with_votes_def)

text \<open>One more vote, before and at the quorum.\<close>

lemma vote_below:
  assumes "vw_proposals w v = None" and "id32 i \<notin> id32 ` set ps" and "3 * Suc (length ps) < 2 * Count (vw_servers w)"
  shows "addViewChangeVote R v True i (with_votes v ps w) = Inr (-1, with_votes v (ps @ [i]) w)"
  using assms with_votes_snoc [of v ps w i] by (auto simp: addViewChangeVote_def votes_for_with_votes Let_def)

lemma vote_quorum:
  assumes "vw_proposals w v = None" and "id32 i \<notin> id32 ` set ps" and "2 * Count (vw_servers w) \<le> 3 * Suc (length ps)"
    and "sint (vw_num w) < sint v" and "calcServerMembership R v (Count (vw_servers w)) = Inr members"
  shows "addViewChangeVote R v True i (with_votes v ps w) =
    Inr (v, w\<lparr>vw_num := v, vw_current := members, vw_proposals := Map.empty\<rparr>)"
  using assms by (auto simp: addViewChangeVote_def votes_for_with_votes Let_def setNewView_def)

section \<open>Votes of members\<close>

text \<open>A server that is running, and the view after a change.\<close>

definition server_runs :: "sft_env \<Rightarrow> sft \<Rightarrow> bool" where
  "server_runs E s \<longleftrightarrow> sft_env_ok E \<and> sf_is_server s \<and> \<not> sf_stopped s \<and> sf_view_from s = [] \<and> sf_id s \<notin> set (sf_downstream s)"

definition member_of :: "sft \<Rightarrow> peer \<Rightarrow> bool" where
  "member_of s i \<longleftrightarrow> Contains (sf_servers s) i \<or> Contains (sf_clients s) i"

definition view_of :: "int32 \<Rightarrow> bool list \<Rightarrow> sft_view \<Rightarrow> sft_view" where
  "view_of v members w = w\<lparr>vw_num := v, vw_current := members, vw_proposals := Map.empty\<rparr>"

lemma packet_vote:
  assumes "server_runs E s" and "member_of s i"
  shows "sft_packet (Suc n) E i (se_put E (genViewChangeProposal v)) s =
    processViewChangeProposal E (to_self n E) (genViewChangeProposal v) i s"
  using assms by (subst packet_server) (auto simp: server_runs_def member_of_def sft_msgs)

lemma votes_part:
  assumes "server_runs E s" and "\<forall>i \<in> set ps. member_of s i" and "distinct (map id32 ps)"
    and "vw_proposals (sf_view s) v = None" and "3 * length ps < 2 * Count (vw_servers (sf_view s))"
  shows "sft_run (Suc n) E (map (\<lambda>i. (i, genViewChangeProposal v)) ps) s = Inr (s\<lparr>sf_view := with_votes v ps (sf_view s)\<rparr>)"
  using assms(2,3,5)
proof (induction ps rule: rev_induct)
  case Nil
  then show ?case by (simp add: with_votes_def)
next
  case (snoc i ps)
  let ?s = "s\<lparr>sf_view := with_votes v ps (sf_view s)\<rparr>"
  have E: "sft_env_ok E" using assms(1) by (simp add: server_runs_def)
  have "server_runs E ?s" "member_of ?s i" using assms(1) snoc.prems(1) by (simp_all add: server_runs_def member_of_def)
  moreover have "addViewChangeVote (se_rand E) v True i (with_votes v ps (sf_view s)) = Inr (-1, with_votes v (ps @ [i]) (sf_view s))"
    using snoc.prems by (intro vote_below [OF assms(4)]) auto
  ultimately have "sft_packet (Suc n) E i (se_put E (genViewChangeProposal v)) ?s = Inr (s\<lparr>sf_view := with_votes v (ps @ [i]) (sf_view s)\<rparr>)"
    using assms(1) by (simp add: packet_vote processViewChangeProposal_def sft_msgs E server_runs_def)
  then show ?case using snoc by simp
qed

text \<open>What a server does when the view has changed.\<close>

definition after_view_change :: "sft_env \<Rightarrow> int32 \<Rightarrow> bool list \<Rightarrow> sft \<Rightarrow> sft" where
  "after_view_change E v members s =
     (startServerRound s)\<lparr>sf_view := view_of v members (sf_view s), sf_view_from := [],
       sf_sent := sf_sent s @ map (\<lambda>c. (c, 127 # se_put E (genClientViewChangeNotification v))) (sf_downstream s)\<rparr>"

lemma votes_all:
  assumes "server_runs E s" and "\<forall>i \<in> set ps. member_of s i" and "distinct (map id32 ps)"
    and "vw_proposals (sf_view s) v = None" and "2 * Count (vw_servers (sf_view s)) \<le> 3 * length ps" and "3 * length ps < 2 * Count (vw_servers (sf_view s)) + 3"
    and "ps \<noteq> []" and "sint (vw_num (sf_view s)) < sint v" and "0 \<le> sint v"
    and "calcServerMembership (se_rand E) v (Count (vw_servers (sf_view s))) = Inr members"
  shows "sft_run (Suc n) E (map (\<lambda>i. (i, genViewChangeProposal v)) ps) s = Inr (after_view_change E v members s)"
proof -
  obtain qs i where ps: "ps = qs @ [i]" using assms(7) by (cases ps rule: rev_cases) auto
  let ?s = "s\<lparr>sf_view := with_votes v qs (sf_view s)\<rparr>" and ?t = "s\<lparr>sf_view := view_of v members (sf_view s)\<rparr>"
  have E: "sft_env_ok E" using assms(1) by (simp add: server_runs_def)
  have "server_runs E ?s" "member_of ?s i" using assms(1,2) by (simp_all add: server_runs_def member_of_def ps)
  then have "sft_packet (Suc n) E i (se_put E (genViewChangeProposal v)) ?s = processViewChangeProposal E (to_self n E) (genViewChangeProposal v) i ?s"
    by (rule packet_vote)
  moreover have "addViewChangeVote (se_rand E) v True i (with_votes v qs (sf_view s)) = Inr (v, view_of v members (sf_view s))"
    unfolding view_of_def using assms(3,5) by (intro vote_quorum [OF assms(4) _ _ assms(8,10)]) (auto simp: ps)
  moreover have "sf_id ?t \<notin> set (sf_downstream ?t)" using assms(1) by (simp add: server_runs_def)
  ultimately have "sft_packet (Suc n) E i (se_put E (genViewChangeProposal v)) ?s = Inr (after_view_change E v members s)"
    using assms(1,9) by (simp add: processViewChangeProposal_def sft_msgs E server_runs_def to_clients after_view_change_def startServerRound_def)
  moreover have "sft_run (Suc n) E (map (\<lambda>i. (i, genViewChangeProposal v)) qs) s = Inr ?s"
    using assms by (intro votes_part) (auto simp: ps)
  ultimately show ?thesis by (simp add: ps)
qed

section \<open>The last voter\<close>

text \<open>A broadcast whose copy for the node itself takes the state from \<open>t\<close> to \<open>t'\<close>, once.\<close>

lemma broadcast_once:
  assumes "\<And>out. self (se_put E m) (t\<lparr>sf_sent := out\<rparr>) = Inr (t'\<lparr>sf_sent := out\<rparr>)"
    and "\<And>out. self (se_put E m) (t'\<lparr>sf_sent := out\<rparr>) = Inr (t'\<lparr>sf_sent := out\<rparr>)"
    and "sf_id t' = sf_id t" and "sf_id t \<in> set (se_servers E)"
  shows "broadcastToServers E self m t = Inr (t'\<lparr>sf_sent := sf_sent t @ to_others E (sf_id t) m\<rparr>)"
proof -
  let ?f = "\<lambda>server. sendToSingleNode E self server m"
  let ?out = "\<lambda>l. map (\<lambda>j. (j, 127 # se_put E m)) (filter (\<lambda>j. j \<noteq> sf_id t) l)"
  have late: "foldS ?f l (t'\<lparr>sf_sent := out\<rparr>) = Inr (t'\<lparr>sf_sent := out @ ?out l\<rparr>)" for l out
    using assms(2,3) by (induction l arbitrary: out) (simp_all add: sendToSingleNode_def)
  have "foldS ?f l (t\<lparr>sf_sent := out\<rparr>) = Inr ((if sf_id t \<in> set l then t' else t)\<lparr>sf_sent := out @ ?out l\<rparr>)" for l out
    using assms(1) late by (induction l arbitrary: out) (auto simp: sendToSingleNode_def)
  from this [of "se_servers E" "sf_sent t"] show ?thesis using assms(4) by (simp add: broadcastToServers_def to_others_def)
qed

text \<open>The vote of a server that has just changed the view counts for nothing.\<close>

lemma own_vote_late:
  assumes "server_runs E s" and "Contains (sf_servers s) (sf_id s)" and "vw_num (sf_view s) = v"
    and "vw_proposals (sf_view s) = Map.empty" and "2 \<le> Count (vw_servers (sf_view s))"
  shows "sft_packet (Suc n) E (sf_id s) (se_put E (genViewChangeProposal v)) s = Inr (s\<lparr>sf_view := with_votes v [sf_id s] (sf_view s)\<rparr>)"
    and "sft_packet (Suc n) E (sf_id s) (se_put E (genViewChangeProposal v)) (s\<lparr>sf_view := with_votes v [sf_id s] (sf_view s)\<rparr>)
      = Inr (s\<lparr>sf_view := with_votes v [sf_id s] (sf_view s)\<rparr>)"
proof -
  have E: "sft_env_ok E" and fresh: "sf_view_from s = []" using assms(1) by (simp_all add: server_runs_def)
  let ?t = "s\<lparr>sf_view := with_votes v [sf_id s] (sf_view s)\<rparr>"
  have runs: "server_runs E ?t" "member_of s (sf_id s)" "member_of ?t (sf_id s)" using assms(1,2) by (simp_all add: server_runs_def member_of_def)
  have one: "addViewChangeVote (se_rand E) v True (sf_id s) (sf_view s) = Inr (-1, with_votes v [sf_id s] (sf_view s))"
    using assms(3-5) by (simp add: addViewChangeVote_def votes_for_def Let_def with_votes_def)
  have two: "addViewChangeVote (se_rand E) v True (sf_id s) (with_votes v [sf_id s] (sf_view s)) = Inr (-1, with_votes v [sf_id s] (sf_view s))"
    using assms(4) by (simp add: addViewChangeVote_def votes_for_with_votes Let_def)
  show "sft_packet (Suc n) E (sf_id s) (se_put E (genViewChangeProposal v)) s = Inr ?t"
    using one by (simp add: packet_vote [OF assms(1) runs(2)] processViewChangeProposal_def sft_msgs E fresh)
  show "sft_packet (Suc n) E (sf_id s) (se_put E (genViewChangeProposal v)) ?t = Inr ?t"
    using two by (simp add: packet_vote [OF runs(1,3)] processViewChangeProposal_def sft_msgs E fresh)
qed

lemma own_request_voting:
  assumes "server_runs E s"
  shows "sft_packet (Suc (Suc n)) E (sf_id s) (se_put E (genRequest ViewChangeVotingPhase)) s = Inr s"
  using assms by (intro own_request_ignored) (auto simp: server_runs_def)

lemma server_runs_upd [simp]:
  "server_runs E (s\<lparr>sf_phase := p\<rparr>) = server_runs E s" "server_runs E (s\<lparr>sf_view := w\<rparr>) = server_runs E s"
  "server_runs E (s\<lparr>sf_sent := out\<rparr>) = server_runs E s"
  by (simp_all add: server_runs_def)

lemma sent_last: "s\<lparr>sf_sent := out, sf_view := w\<rparr> = s\<lparr>sf_view := w, sf_sent := out\<rparr>"
  by simp

lemma own_vote_completes:
  assumes "server_runs E s" and "Contains (sf_servers s) (sf_id s)" and "sf_id s \<in> set (se_servers E)" and "2 \<le> Count (vw_servers (sf_view s))"
    and "nextGoodView (se_rand E) (vw_num (sf_view s)) (sf_view s) = Inr v" and "calcServerMembership (se_rand E) v (Count (vw_servers (sf_view s))) = Inr members"
    and "sint (vw_num (sf_view s)) < sint v"
    and "id32 (sf_id s) \<notin> set (vc_voters (votes_for (sf_view s) v))" and "2 * Count (vw_servers (sf_view s)) \<le> 3 * Suc (vc_count (votes_for (sf_view s) v))"
  shows "startViewVoting E (to_self (Suc (Suc n)) E) s =
    Inr (s\<lparr>sf_phase := ViewChangeVotingPhase, sf_view := with_votes v [sf_id s] (view_of v members (proposeNewView v (sf_view s))),
      sf_sent := sf_sent s @ to_others E (sf_id s) (genViewChangeProposal v) @ to_others E (sf_id s) (genRequest ViewChangeVotingPhase)\<rparr>)"
proof -
  let ?self = "to_self (Suc (Suc n)) E" and ?w = "view_of v members (proposeNewView v (sf_view s))"
  let ?t = "s\<lparr>sf_phase := ViewChangeVotingPhase, sf_view := ?w\<rparr>"
  let ?t' = "s\<lparr>sf_phase := ViewChangeVotingPhase, sf_view := with_votes v [sf_id s] ?w\<rparr>"
  have vote: "addViewChangeVote (se_rand E) v True (sf_id s) (proposeNewView v (sf_view s)) = Inr (v, ?w)"
  proof -
    have "votes_for (proposeNewView v (sf_view s)) v = votes_for (sf_view s) v" by (simp add: votes_for_def proposeNewView_def)
    then show ?thesis using assms(6-9) by (simp add: addViewChangeVote_def Let_def setNewView_def view_of_def proposeNewView_def)
  qed
  have w: "vw_num ?w = v" "vw_proposals ?w = Map.empty" "vw_servers ?w = vw_servers (sf_view s)" by (simp_all add: view_of_def proposeNewView_def)
  note late = own_vote_late [of E "?t\<lparr>sf_sent := out\<rparr>" v for out]
  have "broadcastToServers E ?self (genViewChangeProposal v) ?t = Inr (?t'\<lparr>sf_sent := sf_sent ?t @ to_others E (sf_id ?t) (genViewChangeProposal v)\<rparr>)"
    using late(1) late(2) assms(1-4) w by (intro broadcast_once) (simp_all add: sent_last)
  moreover have "sendRequest E ?self ViewChangeVotingPhase (?t'\<lparr>sf_sent := out\<rparr>) = Inr (?t'\<lparr>sf_sent := out @ to_others E (sf_id s) (genRequest ViewChangeVotingPhase)\<rparr>)" for out
    unfolding sendRequest_def using assms(1) own_request_voting [of E "?t'\<lparr>sf_sent := o2\<rparr>" n for o2] by (subst broadcast_quiet) simp_all
  ultimately show ?thesis using assms(5) vote by (simp add: startViewVoting_def sendViewChangeProposal_def Let_def)
qed

text \<open>The server between two views: the phase of voting, with no one left to vote.\<close>

lemma voting_ignores:
  assumes "sft_env_ok E" and "sf_is_server s" and "sf_phase s = ViewChangeVotingPhase"
  shows "sft_packet (Suc n) E i (se_put E (genClientMessage u x)) s = Inr s"
    and "sft_packet (Suc n) E i (se_put E (attendance_map l)) s = Inr s"
    and "sft_packet (Suc n) E i (se_put E (cipher_map x)) s = Inr s"
  using assms env_simps(1) [OF assms(1)]
  by (simp_all add: sft_packet.simps sf_ProcessPacket_def sft_msgs assms(1) processClientMessage_def processClientList_def processCipher_def phase_defs)

section \<open>Views that differ\<close>

text \<open>
  A generator whose views differ: view \<open>v\<close> starts with server \<open>v\<close>.
\<close>

definition turn_rand :: c_rand where
  "turn_rand seed i = i + unat seed div 100"

lemma turn_members:
  "calcServerMembership turn_rand 0 3 = Inr [True, True, False]" "calcServerMembership turn_rand 1 3 = Inr [False, True, True]"
proof -
  have "member_loop (turn_rand 0) 0 0 [False, False, False] = Some [True, True, False]"
    by (subst member_loop.simps, simp add: Let_def turn_rand_def, subst member_loop.simps, simp add: Let_def turn_rand_def,
        subst member_loop.simps, simp add: Let_def)
  then show "calcServerMembership turn_rand 0 3 = Inr [True, True, False]" by (simp add: calcServerMembership_def numeral_3_eq_3)
  have "member_loop (turn_rand 100) 0 0 [False, False, False] = Some [False, True, True]"
    by (subst member_loop.simps, simp add: Let_def turn_rand_def, subst member_loop.simps, simp add: Let_def turn_rand_def,
        subst member_loop.simps, simp add: Let_def)
  then show "calcServerMembership turn_rand 1 3 = Inr [False, True, True]" by (simp add: calcServerMembership_def numeral_3_eq_3)
qed

definition turn_env :: sft_env where
  "turn_env = demo_env\<lparr>se_rand := turn_rand\<rparr>"

lemma turn_env_servers: "se_servers turn_env = [4, 5, 6]"
  by (simp add: turn_env_def demo_env_def)

text \<open>Server 6 has a vote for view 1 from server 5.\<close>

definition turn_state :: sft where
  "turn_state = (demo_state 6 [3, 4, 5])\<lparr>sf_view := with_votes 1 [5] demo_first_view\<rparr>"

lemma turn_env_ok: "sft_env_ok turn_env"
  using demo_env_ok by (simp add: sft_env_ok_def turn_env_def)

lemma demo_index:
  assumes "distinct ids" and "k < length ids"
  shows "GetIndex (demo_roster ids) (ids ! k) = int k"
proof -
  have "pi_id (m_roster (demo_roster ids) ! k) = ids ! k"
    using assms(2) by (subst (2) demo_ids(1) [of ids, symmetric], subst nth_map) (simp_all add: demo_ids(2) flip: Count_def)
  then show ?thesis using GetIndex_nth [OF demo_roster_ok [OF assms(1)], of k] assms(2) by (simp add: demo_ids)
qed

section \<open>A server without clients\<close>

text \<open>It never leaves the first phase, and what it sends are answers to requests for its last ciphertext.\<close>

definition without_clients :: "sft \<Rightarrow> bool" where
  "without_clients s \<longleftrightarrow> sf_is_server s \<and> sf_connections s = [] \<and> sf_downstream s = [] \<and> sf_phase s = CollectionPhase"

definition only_answers :: "sft_env \<Rightarrow> sft \<Rightarrow> sft \<Rightarrow> bool" where
  "only_answers E s s' \<longleftrightarrow> without_clients s' \<and> sf_pushed s' = sf_pushed s \<and> sf_number s' = sf_number s \<and> sf_last_cipher s' = sf_last_cipher s
     \<and> (\<exists>out. sf_sent s' = sf_sent s @ out \<and> (\<forall>p \<in> set out. snd p = 127 # se_put E (cipher_map (sf_last_cipher s))))"

lemma only_answers_refl: "without_clients s \<Longrightarrow> only_answers E s s"
  by (simp add: only_answers_def)

lemma only_answers_trans: "only_answers E s t \<Longrightarrow> only_answers E t u \<Longrightarrow> only_answers E s u"
  unfolding only_answers_def by auto

lemma answers_vote:
  assumes "without_clients s"
  shows "post (only_answers E s) (processViewChangeProposal E self m i s)"
proof (cases "addViewChangeVote (se_rand E) (to_int (se_qvs E) (hash_value m ''ViewNum'')) (to_bool (se_qvs E) (hash_value m ''Vote'')) i (sf_view s)")
  case (Inr r)
  obtain code w where r: "r = (code, w)" by (cases r)
  have "broadcastToDownstreamClients E self n (s\<lparr>sf_view := w\<rparr>) = Inr (s\<lparr>sf_view := w\<rparr>)" for n
    using assms by (simp add: broadcastToDownstreamClients_def without_clients_def)
  moreover have "only_answers E s s" "only_answers E s (s\<lparr>sf_view := w\<rparr>)"
      "only_answers E s ((startServerRound (s\<lparr>sf_view := w\<rparr>))\<lparr>sf_view_from := []\<rparr>)"
    using assms by (simp_all add: only_answers_def without_clients_def startServerRound_def)
  ultimately show ?thesis by (simp add: processViewChangeProposal_def Inr r Let_def post_Inr)
qed (simp add: processViewChangeProposal_def post_def only_answers_refl [OF assms])

text \<open>The messages of the exchange are ignored, requests are answered.\<close>

lemma answers_rest:
  assumes "without_clients s"
  shows "processClientMessage E self m i s = Inr s" and "processClientList E self m i s = Inr s" and "processCipher E self m i s = Inr s"
    and "processInfoRequest E self m i s \<in> {Inr s, sendToSingleNode E self i (cipher_map (sf_last_cipher s)) s}"
  using assms by (simp_all add: without_clients_def processClientMessage_def processClientList_def processCipher_def processInfoRequest_def phase_defs)

lemma answers_switch:
  assumes "without_clients s" and "post (only_answers E s) (sendToSingleNode E self i (cipher_map (sf_last_cipher s)) s)"
  shows "post (only_answers E s) (switchServerMessage E self m i s)"
proof -
  have "post (only_answers E s) (Inr s :: fault + sft)" by (intro post_Inr only_answers_refl assms(1))
  moreover from this have "post (only_answers E s) (processInfoRequest E self m i s)" using answers_rest(4) [OF assms(1), of E self m i] assms(2) by auto
  ultimately show ?thesis unfolding switchServerMessage_def answers_rest(1-3) [OF assms(1)] using answers_vote [OF assms(1)] by simp
qed

lemma answers_packet: "without_clients s \<Longrightarrow> post (only_answers E s) (sft_packet n E i d s)"
proof (induction n arbitrary: i d s)
  case 0
  then show ?case by (simp add: sft_packet.simps post_Inl)
next
  case (Suc n)
  have "post (only_answers E s) (sendToSingleNode E (to_self n E) j (cipher_map (sf_last_cipher s)) s)" for j
  proof (cases "j = sf_id s")
    case True
    then show ?thesis using Suc by (simp add: sendToSingleNode_def)
  next
    case False
    have "only_answers E s (s\<lparr>sf_sent := sf_sent s @ [(j, 127 # se_put E (cipher_map (sf_last_cipher s)))]\<rparr>)"
      using Suc.prems by (simp add: only_answers_def without_clients_def)
    then show ?thesis using False by (simp add: sendToSingleNode_def post_Inr)
  qed
  then show ?case
    using Suc.prems only_answers_refl [OF Suc.prems, of E] answers_switch [OF Suc.prems]
    by (simp add: sft_packet.simps sf_ProcessPacket_def post_Inr) (simp add: without_clients_def)
qed

section \<open>Properties\<close>

text \<open>
  C20.  A server that votes last gets stuck.  If the other votes for the next good view are there already when a
  server of the view is reported as failed, the server's own vote changes its view at once, but the program ignores the
  result of that vote: the server tells its clients nothing and stays in the phase of voting, where it ignores the
  messages of its clients and the lists and ciphertexts of the other servers.
\<close>

theorem last_voter_stuck:
  assumes "server_runs E s" and "view_ok (sf_view s)" and "vw_servers (sf_view s) = sf_servers s" and "2 \<le> Count (sf_servers s)"
    and "Contains (sf_servers s) (sf_id s)" and "sf_id s \<in> set (se_servers E)"
    and "Contains (sf_servers s) i" and "i \<in> set (se_servers E)" and "i \<notin> set (vw_down (sf_view s))" and "inCurrentView (sf_view s) i = Inr True"
    and "nextGoodView (se_rand E) (vw_num (sf_view s)) ((sf_view s)\<lparr>vw_down := vw_down (sf_view s) @ [i]\<rparr>) = Inr v"
    and "id32 (sf_id s) \<notin> set (vc_voters (votes_for (sf_view s) v))" and "2 * Count (sf_servers s) \<le> 3 * Suc (vc_count (votes_for (sf_view s) v))"
  shows "\<exists>s'. sf_HandleDisconnect (Suc (Suc n)) E i s = Inr s' \<and> vw_num (sf_view s') = v \<and> sf_phase s' = ViewChangeVotingPhase
    \<and> sf_sent s' = sf_sent s @ to_others E (sf_id s) (genViewChangeProposal v) @ to_others E (sf_id s) (genRequest ViewChangeVotingPhase)
    \<and> (\<forall>j u x l. sft_packet (Suc n) E j (se_put E (genClientMessage u x)) s' = Inr s'
        \<and> sft_packet (Suc n) E j (se_put E (attendance_map l)) s' = Inr s' \<and> sft_packet (Suc n) E j (se_put E (cipher_map x)) s' = Inr s')"
proof -
  let ?w = "(sf_view s)\<lparr>vw_down := vw_down (sf_view s) @ [i]\<rparr>"
  have ok: "view_ok ?w" using assms(2,3,7,9) by (simp add: view_ok_def)
  have "sint (vw_num (sf_view s)) \<noteq> 2 ^ 31 - 1" "next_view (se_rand E) (Count (vw_servers ?w)) (map (GetIndex (vw_servers ?w)) (vw_down ?w)) (vw_num (sf_view s) + 1) = Inr v"
    using assms(11) by (simp_all add: nextGoodView_def split: if_splits)
  then have v: "sint (vw_num (sf_view s)) < sint v" "good_view (se_rand E) ?w v"
    using next_view_correct [OF ok, where R = "se_rand E" and v = "vw_num (sf_view s) + 1"] sint_add_one [of "vw_num (sf_view s)"] by auto
  then obtain members where members: "calcServerMembership (se_rand E) v (Count (sf_servers s)) = Inr members"
    using assms(3) by (auto simp: good_view_def)
  have "\<not> tooFewServers ?w" using no_good_view [OF ok] v(2) by blast
  moreover have "inCurrentView ?w i = Inr True" using assms(10) by (simp add: inCurrentView_def Let_def split: if_splits)
  ultimately have "sf_HandleDisconnect (Suc (Suc n)) E i s = startViewVoting E (to_self (Suc (Suc n)) E) (s\<lparr>sf_view := ?w\<rparr>)"
    using assms(8,9) by (simp add: sf_HandleDisconnect_def addFailedServer_def Let_def)
  moreover have "votes_for ?w u = votes_for (sf_view s) u" for u by (simp add: votes_for_def)
  ultimately have *: "sf_HandleDisconnect (Suc (Suc n)) E i s =
    Inr (s\<lparr>sf_phase := ViewChangeVotingPhase, sf_view := with_votes v [sf_id s] (view_of v members (proposeNewView v ?w)),
      sf_sent := sf_sent s @ to_others E (sf_id s) (genViewChangeProposal v) @ to_others E (sf_id s) (genRequest ViewChangeVotingPhase)\<rparr>)"
    using own_vote_completes [of E "s\<lparr>sf_view := ?w\<rparr>" v members n] assms v(1) members by (simp add: sent_last)
  show ?thesis
    unfolding * using voting_ignores [of E] assms(1) by (simp add: server_runs_def view_of_def)
qed

theorem last_voter_stuck_witness:
  "sft_run 2 turn_env [(5, genViewChangeProposal 1)] (demo_state 6 [3, 4, 5]) = Inr turn_state
   \<and> (\<exists>s'. sf_HandleDisconnect 2 turn_env 4 turn_state = Inr s' \<and> vw_num (sf_view s') = 1 \<and> sf_phase s' = ViewChangeVotingPhase)"
proof
  have runs: "server_runs turn_env (demo_state 6 [3, 4, 5])" by (simp add: server_runs_def turn_env_ok demo_state_server)
  have view: "sf_view (demo_state 6 [3, 4, 5]) = demo_first_view" by (rule demo_state_view) simp
  have "sft_run (Suc 1) turn_env (map (\<lambda>i. (i, genViewChangeProposal 1)) [5]) (demo_state 6 [3, 4, 5]) = Inr turn_state"
    unfolding turn_state_def view [symmetric]
    by (rule votes_part [OF runs]) (simp_all add: view demo_ids member_of_def demo_state_server demo_Contains)
  then show "sft_run 2 turn_env [(5, genViewChangeProposal 1)] (demo_state 6 [3, 4, 5]) = Inr turn_state" by (simp add: numeral_2_eq_2)
  have R: "roster_ok (demo_roster [4, 5, 6])" by (simp add: demo_roster_ok)
  have four: "GetIndex (demo_roster [4, 5, 6]) 4 = 0" using demo_index [of "[4, 5, 6]" 0] by simp
  have "\<exists>s'. sf_HandleDisconnect (Suc (Suc 0)) turn_env 4 turn_state = Inr s' \<and> vw_num (sf_view s') = 1 \<and> sf_phase s' = ViewChangeVotingPhase
    \<and> sf_sent s' = sf_sent turn_state @ to_others turn_env (sf_id turn_state) (genViewChangeProposal 1) @ to_others turn_env (sf_id turn_state) (genRequest ViewChangeVotingPhase)
    \<and> (\<forall>j u x l. sft_packet (Suc 0) turn_env j (se_put turn_env (genClientMessage u x)) s' = Inr s'
        \<and> sft_packet (Suc 0) turn_env j (se_put turn_env (attendance_map l)) s' = Inr s' \<and> sft_packet (Suc 0) turn_env j (se_put turn_env (cipher_map x)) s' = Inr s')"
  proof (rule last_voter_stuck)
    show "nextGoodView (se_rand turn_env) (vw_num (sf_view turn_state)) ((sf_view turn_state)\<lparr>vw_down := vw_down (sf_view turn_state) @ [4]\<rparr>) = Inr 1"
      by (simp add: turn_state_def nextGoodView_def turn_env_def next_view.simps demo_ids turn_members [unfolded numeral_3_eq_3] view_good_def four)
  qed (use R four in \<open>simp_all add: turn_state_def server_runs_def turn_env_ok demo_state_server view_ok_def demo_ids demo_Contains turn_env_servers
      inCurrentView_def votes_for_with_votes id32_def\<close>)
  then show "\<exists>s'. sf_HandleDisconnect 2 turn_env 4 turn_state = Inr s' \<and> vw_num (sf_view s') = 1 \<and> sf_phase s' = ViewChangeVotingPhase"
    by (auto simp: numeral_2_eq_2)
qed

text \<open>
  C30.  Two thirds of the servers' number of votes for a newer view change the view: the server goes to it, tells its clients
  and starts over.  The voters only have to be members of the round with different ids; clients count like servers.
\<close>

theorem members_change_view:
  assumes "server_runs E s" and "\<forall>i \<in> set ps. Contains (sf_servers s) i \<or> Contains (sf_clients s) i" and "distinct (map id32 ps)"
    and "ps \<noteq> []" and "2 * Count (vw_servers (sf_view s)) \<le> 3 * length ps" and "3 * length ps < 2 * Count (vw_servers (sf_view s)) + 3"
    and "vw_proposals (sf_view s) v = None" and "sint (vw_num (sf_view s)) < sint v" and "0 \<le> sint v"
    and "calcServerMembership (se_rand E) v (Count (vw_servers (sf_view s))) = Inr members"
  shows "\<exists>s'. sft_run (Suc n) E (map (\<lambda>i. (i, genViewChangeProposal v)) ps) s = Inr s'
    \<and> vw_num (sf_view s') = v \<and> vw_current (sf_view s') = members \<and> sf_phase s' = CollectionPhase \<and> sf_responded s' = []
    \<and> sf_sent s' = sf_sent s @ map (\<lambda>c. (c, 127 # se_put E (genClientViewChangeNotification v))) (sf_downstream s)"
  using votes_all [of E s ps v members n] assms
  by (auto simp: member_of_def after_view_change_def view_of_def startServerRound_def)

theorem members_change_view_witness:
  "\<exists>s'. sft_run 1 demo_env [(1, genViewChangeProposal 7), (2, genViewChangeProposal 7)] (demo_state 4 [1, 5, 6]) = Inr s'
    \<and> vw_num (sf_view s') = 7 \<and> sf_sent s' = [(1, 127 # se_put demo_env (genClientViewChangeNotification 7))]"
proof -
  have runs: "server_runs demo_env (demo_state 4 [1, 5, 6])" by (simp add: server_runs_def demo_env_ok demo_state_server)
  have "\<exists>s'. sft_run (Suc 0) demo_env (map (\<lambda>i. (i, genViewChangeProposal 7)) [1, 2]) (demo_state 4 [1, 5, 6]) = Inr s'
    \<and> vw_num (sf_view s') = 7 \<and> vw_current (sf_view s') = [True, True, False] \<and> sf_phase s' = CollectionPhase \<and> sf_responded s' = []
    \<and> sf_sent s' = sf_sent (demo_state 4 [1, 5, 6]) @ map (\<lambda>c. (c, 127 # se_put demo_env (genClientViewChangeNotification 7))) (sf_downstream (demo_state 4 [1, 5, 6]))"
  proof (rule members_change_view [OF runs])
    show "calcServerMembership (se_rand demo_env) 7 (Count (vw_servers (sf_view (demo_state 4 [1, 5, 6])))) = Inr [True, True, False]"
      using demo_members [of 7] by (simp add: demo_state_view demo_ids demo_env_def numeral_3_eq_3)
  qed (simp_all add: demo_state_server demo_ids demo_Contains id32_def)
  then show ?thesis by (auto simp: demo_state_server)
qed

text \<open>
  C32.  A server to which no client is connected holds up the exchange: whatever packets it gets, it stays in the first phase, hands out
  nothing, and sends nothing but answers to requests for its last ciphertext, so the list of clients that every other server waits for
  never comes.
\<close>

theorem clientless_server_waits:
  assumes "foldS (\<lambda>(i, d). sft_packet n E i d) ps s = Inr s'"
    and "sf_is_server s" and "sf_connections s = []" and "sf_downstream s = []" and "sf_phase s = CollectionPhase"
  shows "sf_phase s' = CollectionPhase \<and> sf_pushed s' = sf_pushed s \<and> sf_number s' = sf_number s
    \<and> (\<exists>out. sf_sent s' = sf_sent s @ out \<and> (\<forall>p \<in> set out. snd p = 127 # se_put E (cipher_map (sf_last_cipher s))))"
proof -
  have "only_answers E s s'" if "foldS (\<lambda>(i, d). sft_packet n E i d) ps s = Inr s'" "without_clients s"
    using that
  proof (induction ps arbitrary: s)
    case (Cons p ps)
    then obtain t where t: "sft_packet n E (fst p) (snd p) s = Inr t" "foldS (\<lambda>(i, d). sft_packet n E i d) ps t = Inr s'"
      by (cases p) (auto simp: fault_simps)
    have "only_answers E s t" using answers_packet [OF Cons.prems(2), of E n] t(1) by (auto dest: postD)
    then show ?case using Cons.IH [OF t(2)] by (auto intro: only_answers_trans simp: only_answers_def)
  qed (simp add: only_answers_refl)
  then have "only_answers E s s'" using assms by (simp add: without_clients_def)
  then show ?thesis by (auto simp: only_answers_def without_clients_def)
qed

theorem clientless_server_waits_witness:
  "\<exists>s'. foldS (\<lambda>(i, d). sft_packet 1 demo_env i d) [(5, se_put demo_env (attendance_map [2])), (2, se_put demo_env (genClientMessage 0 []))] (demo_state 4 [5]) = Inr s'
    \<and> sf_phase s' = CollectionPhase \<and> sf_pushed s' = []"
proof -
  let ?s = "demo_state 4 [5]"
  have st: "server_runs demo_env ?s" "sf_connections ?s = []" "sf_downstream ?s = []" "sf_phase ?s = CollectionPhase" "sf_pushed ?s = []"
    by (simp_all add: server_runs_def demo_env_ok demo_state_server)
  have run: "foldS (\<lambda>(i, d). sft_packet 1 demo_env i d) [(5, se_put demo_env (attendance_map [2])), (2, se_put demo_env (genClientMessage 0 []))] ?s = Inr ?s"
    using st env_simps(1) [OF demo_env_ok]
    by (simp add: One_nat_def sft_packet.simps sf_ProcessPacket_def server_runs_def switch_simps [OF demo_env_ok] processClientList_def processClientMessage_def phase_defs)
  have "sf_is_server ?s" using st(1) by (simp add: server_runs_def)
  from clientless_server_waits [OF run this st(2-4)] show ?thesis using run st(5) by auto
qed

text \<open>
  The report of a disconnected node that is no member of the round is an access out of bounds; that of a server
  out of the view only lowers the number of servers that an exchange waits for, and nobody looks whether that number is reached.
\<close>

theorem disconnect_outcomes:
  assumes "i \<notin> set (vw_down (sf_view s))"
  shows "(\<not> Contains (vw_servers (sf_view s)) i \<and> \<not> Contains (sf_clients s) i \<longrightarrow> sf_HandleDisconnect n E i s = Inl OutOfBounds)
    \<and> (inCurrentView (sf_view s) i = Inr False \<and> i \<in> set (se_servers E) \<longrightarrow>
        (\<exists>w. sf_HandleDisconnect n E i s = Inr (s\<lparr>sf_view := w\<rparr>) \<and> getNumLiveServers w = getNumLiveServers (sf_view s) - 1))"
proof (intro conjI impI; (elim conjE)?)
  let ?w = "(sf_view s)\<lparr>vw_down := vw_down (sf_view s) @ [i]\<rparr>"
  have failed: "addFailedServer i (sf_view s) = bindS (inCurrentView ?w i) (\<lambda>b. Inr (b, ?w))" using assms by (simp add: addFailedServer_def Let_def)
  show "sf_HandleDisconnect n E i s = Inl OutOfBounds" if "\<not> Contains (vw_servers (sf_view s)) i" "\<not> Contains (sf_clients s) i"
    using that by (simp add: sf_HandleDisconnect_def failed inCurrentView_def GetIndex_absent Let_def)
  show "\<exists>w. sf_HandleDisconnect n E i s = Inr (s\<lparr>sf_view := w\<rparr>) \<and> getNumLiveServers w = getNumLiveServers (sf_view s) - 1"
    if "inCurrentView (sf_view s) i = Inr False" "i \<in> set (se_servers E)"
  proof -
    have "inCurrentView ?w i = Inr False" using that(1) by (simp add: inCurrentView_def Let_def split: if_splits)
    then show ?thesis using that(2) by (intro exI [of _ ?w]) (simp add: sf_HandleDisconnect_def failed Let_def getNumLiveServers_def)
  qed
qed

theorem disconnect_outcomes_witness:
  "sf_HandleDisconnect 1 demo_env 9 (demo_state 4 [1, 5]) = Inl OutOfBounds
   \<and> (\<exists>w. sf_HandleDisconnect 1 demo_env 6 (demo_state 4 [1, 5]) = Inr ((demo_state 4 [1, 5])\<lparr>sf_view := w\<rparr>) \<and> getNumLiveServers w = 2)"
proof -
  have R: "inCurrentView (sf_view (demo_state 4 [1, 5])) 6 = Inr False"
    using demo_index [of "[4, 5, 6]" 2] by (simp add: inCurrentView_def demo_state_view)
  show ?thesis
    using disconnect_outcomes [of 9 "demo_state 4 [1, 5]" 1 demo_env] disconnect_outcomes [of 6 "demo_state 4 [1, 5]" 1 demo_env] R
    by (simp add: demo_state_server demo_Contains demo_env_def getNumLiveServers_def demo_ids)
qed

text \<open>
  Nothing an application sends ever leaves a client: up to 1024 bytes are taken from the queue of messages and
  dropped, and what the client sends does not depend on them.
\<close>

theorem queued_data_dropped:
  assumes "sf_id s \<notin> set (sf_connections s)"
  shows "\<exists>r. \<forall>q self. startMessageExchange E self (s\<lparr>sf_queue := q\<rparr>) =
    bindS r (\<lambda>out. Inr (s\<lparr>sf_queue := snd (GetData 1024 q), sf_sent := sf_sent s @ out\<rparr>))"
proof -
  have enc: "encryptClientMessage E (own t) (insertInSlot E (take keyLength ''abc'') t) t = encryptClientMessage E (own s) (insertInSlot E (take keyLength ''abc'') s) s"
    if "t = s\<lparr>sf_queue := q\<rparr>" for t q
    by (simp add: that encryptClientMessage_def insertInSlot_def own_def)
  let ?r = "bindS (encryptClientMessage E (own s) (insertInSlot E (take keyLength ''abc'') s) s) (\<lambda>encrypted.
      case sf_connections s of [] \<Rightarrow> Inl OutOfBounds | server # _ \<Rightarrow> Inr [(server, 127 # se_put E (genClientMessage (vw_num (sf_view s)) encrypted))])"
  have "startMessageExchange E self (s\<lparr>sf_queue := q\<rparr>) = bindS ?r (\<lambda>out. Inr (s\<lparr>sf_queue := snd (GetData 1024 q), sf_sent := sf_sent s @ out\<rparr>))" for q self
    using assms enc [OF refl, of "snd (GetData 1024 q)"]
    by (cases "encryptClientMessage E (own s) (insertInSlot E (take keyLength ''abc'') s) s")
      (auto simp: startMessageExchange_def clientRoundMessageSend_def sendToSingleNode_def split: list.split)
  then show ?thesis by blast
qed

theorem queued_data_dropped_witness:
  "\<exists>r. \<forall>q. startMessageExchange demo_env (\<lambda>d s. Inr s) ((demo_state 1 [4])\<lparr>sf_queue := q\<rparr>) =
    bindS r (\<lambda>out. Inr ((demo_state 1 [4])\<lparr>sf_queue := snd (GetData 1024 q), sf_sent := out\<rparr>))"
proof -
  have st: "sf_id (demo_state 1 [4]) \<notin> set (sf_connections (demo_state 1 [4]))" "sf_sent (demo_state 1 [4]) = []"
    by (simp_all add: demo_state_client del: One_nat_def)
  from queued_data_dropped [OF st(1), of demo_env] show ?thesis unfolding st(2) append_Nil by blast
qed

end
