(* ===== verification/SFT_Calls.thy ===== *)
theory SFT_Calls
  imports SFT_Faults
begin

text \<open>
  How deep the calls of the fault-tolerant round nest: a node that sends itself a packet processes it inside the call that sends it.
  Five levels are enough for every node that is not client and server at once, so the number of levels that \<open>sft_packet\<close> allows
  does not matter, and packets are processed in finitely many steps.
\<close>

section \<open>Computations that agree\<close>

definition apart :: "sft \<Rightarrow> bool" where
  "apart s \<longleftrightarrow> sf_is_server s \<and> \<not> Contains (sf_clients s) (sf_id s) \<and> sf_id s \<notin> set (sf_downstream s)"

text \<open>Two results that are equal, do not run out of levels and leave the node what it is.\<close>

definition halts :: "fault + 'a \<Rightarrow> bool" where
  "halts r \<longleftrightarrow> r \<noteq> Inl Loops"

definition same :: "fault + sft \<Rightarrow> fault + sft \<Rightarrow> bool" where
  "same r r' \<longleftrightarrow> r = r' \<and> halts r' \<and> post apart r'"

definition agree :: "sft_env \<Rightarrow> (bytes \<Rightarrow> sft_step) \<Rightarrow> (bytes \<Rightarrow> sft_step) \<Rightarrow> variant_map \<Rightarrow> bool" where
  "agree E self self' m \<longleftrightarrow> (\<forall>t. apart t \<longrightarrow> same (self (se_put E m) t) (self' (se_put E m) t))"

lemma same_Inr: "apart s \<Longrightarrow> same (Inr s) (Inr s)"
  by (simp add: same_def halts_def post_Inr)

lemma same_bindS: "same m m' \<Longrightarrow> (\<And>t. apart t \<Longrightarrow> same (f t) (f' t)) \<Longrightarrow> same (bindS m f) (bindS m' f')"
  by (cases m') (auto simp: same_def halts_def post_def)

lemma same_value: "halts r \<Longrightarrow> (\<And>x. same (f x) (f' x)) \<Longrightarrow> same (bindS r f) (bindS r f')"
  by (cases r) (auto simp: same_def halts_def post_def)

lemma same_foldS: "(\<And>x s. apart s \<Longrightarrow> same (f x s) (f' x s)) \<Longrightarrow> apart s \<Longrightarrow> same (foldS f xs s) (foldS f' xs s)"
  by (induction xs arbitrary: s) (simp_all add: same_Inr same_bindS)

lemma apart_upd [simp]:
  "apart (s\<lparr>sf_phase := p\<rparr>) = apart s" "apart (s\<lparr>sf_client_msgs := cm\<rparr>) = apart s" "apart (s\<lparr>sf_ciphers := cs\<rparr>) = apart s"
  "apart (s\<lparr>sf_attendance := a\<rparr>) = apart s" "apart (s\<lparr>sf_cipher_from := a\<rparr>) = apart s" "apart (s\<lparr>sf_responded := a\<rparr>) = apart s"
  "apart (s\<lparr>sf_total := a\<rparr>) = apart s" "apart (s\<lparr>sf_last_cipher := x\<rparr>) = apart s" "apart (s\<lparr>sf_sent := out\<rparr>) = apart s"
  "apart (s\<lparr>sf_pushed := ps\<rparr>) = apart s" "apart (s\<lparr>sf_number := k\<rparr>) = apart s" "apart (s\<lparr>sf_view := w\<rparr>) = apart s"
  "apart (s\<lparr>sf_view_from := a\<rparr>) = apart s" "apart (startServerRound s) = apart s"
  by (simp_all add: apart_def startServerRound_def)

section \<open>Computations without calls\<close>

lemma halts_Inr [simp]: "halts (Inr x)"
  by (simp add: halts_def)

lemma halts_bindS [intro]: "halts r \<Longrightarrow> (\<And>x. halts (f x)) \<Longrightarrow> halts (bindS r f)"
  by (cases r) (auto simp: halts_def)

lemma halts_foldS [intro]: "(\<And>x s. halts (f x s)) \<Longrightarrow> halts (foldS f xs s)"
  by (induction xs arbitrary: s) auto

lemma halts_primitives [simp]:
  "halts (xorBytes a b)" "halts (encryptionKey E v c k n)" "halts (inCurrentView w i)"
  by (simp_all add: halts_def xorBytes_def encryptionKey_def inCurrentView_def Let_def)

lemma halts_ciphers [simp]: "halts (createCipher E s)" "halts (getDecrypted E s)"
  by (simp_all add: createCipher_def getDecrypted_def Let_def halts_bindS halts_foldS)

text \<open>The random numbers make every view computable in finitely many steps.\<close>

definition rand_ends :: "sft_env \<Rightarrow> bool" where
  "rand_ends E \<longleftrightarrow> (\<forall>v n. halts (calcServerMembership (se_rand E) v n))"

lemma halts_setNewView [simp]: "rand_ends E \<Longrightarrow> halts (setNewView (se_rand E) v w)"
  by (auto simp: rand_ends_def setNewView_def)

lemma halts_vote [simp]: "rand_ends E \<Longrightarrow> halts (addViewChangeVote (se_rand E) v b i w)"
  by (simp add: addViewChangeVote_def Let_def halts_bindS)

section \<open>Handlers\<close>

lemma same_send: "agree E self self' m \<Longrightarrow> apart s \<Longrightarrow> same (sendToSingleNode E self i m s) (sendToSingleNode E self' i m s)"
  by (simp add: sendToSingleNode_def agree_def same_Inr)

lemma same_broadcast: "agree E self self' m \<Longrightarrow> apart s \<Longrightarrow> same (broadcastToServers E self m s) (broadcastToServers E self' m s)"
  unfolding broadcastToServers_def by (rule same_foldS) (rule same_send)

lemma same_downstream: "apart s \<Longrightarrow> same (broadcastToDownstreamClients E self m s) (broadcastToDownstreamClients E self' m s)"
  by (simp add: to_clients apart_def same_def halts_def post_Inr)

lemma same_request: "agree E self self' (genRequest p) \<Longrightarrow> apart s \<Longrightarrow> same (sendRequest E self p s) (sendRequest E self' p s)"
  unfolding sendRequest_def by (rule same_broadcast)

lemma same_vote:
  assumes "rand_ends E" and "apart s"
  shows "same (processViewChangeProposal E self m i s) (processViewChangeProposal E self' m i s)"
  using assms unfolding processViewChangeProposal_def Let_def
  by (auto intro!: same_Inr same_value halts_vote same_bindS [OF same_downstream])

lemma same_cipher:
  assumes "apart s"
  shows "same (processCipher E self m i s) (processCipher E self' m i s)"
proof -
  have "same (pushDataOut E self d t) (pushDataOut E self' d t)" if "apart t" for d t
    using that by (simp add: pushDataOut_def Let_def same_Inr) (simp add: apart_def)
  then show ?thesis
    using assms unfolding processCipher_def Let_def by (auto intro!: same_Inr same_value same_bindS [OF same_downstream])
qed

lemma same_exchange:
  assumes "\<And>x. agree E self self' (cipher_map x)" and "agree E self self' (genRequest ExchangeCiphersPhase)" and "apart s"
  shows "same (startCipherExchange E self s) (startCipherExchange E self' s)"
  using assms unfolding startCipherExchange_def Let_def by (auto intro!: same_value same_bindS [OF same_broadcast] same_request)

lemma same_list:
  assumes "\<And>x. agree E self self' (cipher_map x)" and "agree E self self' (genRequest ExchangeCiphersPhase)" and "apart s"
  shows "same (processClientList E self m i s) (processClientList E self' m i s)"
  using assms unfolding processClientList_def Let_def by (auto intro!: same_Inr same_exchange)

lemma same_message:
  assumes "\<And>l. agree E self self' (attendance_map l)" and "agree E self self' (genRequest ClientAttendancePhase)" and "apart s"
  shows "same (processClientMessage E self m i s) (processClientMessage E self' m i s)"
  using assms unfolding processClientMessage_def startClientAttendance_def Let_def
  by (auto intro!: same_Inr same_bindS [OF same_broadcast] same_request)

lemma same_info:
  assumes "\<And>x. agree E self self' (cipher_map x)" and "\<And>l. has_request E m ClientAttendancePhase \<Longrightarrow> agree E self self' (attendance_map l)" and "apart s"
  shows "same (processInfoRequest E self m i s) (processInfoRequest E self' m i s)"
  using assms unfolding processInfoRequest_def by (auto intro!: same_Inr same_send)

lemma has_Type_apart: "has_type E m t \<Longrightarrow> has_type E m t' \<Longrightarrow> t = t'"
  by (simp add: has_type_def flip: type_code_eq)

text \<open>Any packet at a server, given the calls it may make.\<close>

lemma same_switch:
  assumes "rand_ends E" and "apart s"
    and "\<And>l. has_type E m ClientMessage \<or> has_type E m RequestInfo \<and> has_request E m ClientAttendancePhase \<Longrightarrow> agree E self self' (attendance_map l)"
    and "has_type E m ClientMessage \<Longrightarrow> agree E self self' (genRequest ClientAttendancePhase)"
    and "\<And>x. has_type E m ClientAttendance \<or> has_type E m RequestInfo \<Longrightarrow> agree E self self' (cipher_map x)"
    and "has_type E m ClientAttendance \<Longrightarrow> agree E self self' (genRequest ExchangeCiphersPhase)"
  shows "same (switchServerMessage E self m i s) (switchServerMessage E self' m i s)"
  unfolding switchServerMessage_def using assms
  by (auto intro: same_Inr same_message same_vote same_list same_cipher same_info)

section \<open>Levels\<close>

definition enough :: "sft_env \<Rightarrow> nat \<Rightarrow> variant_map \<Rightarrow> bool" where
  "enough E n m \<longleftrightarrow> (\<forall>k. agree E (to_self (n + k) E) (to_self n E) m)"

lemma enough_Suc: "enough E n m \<Longrightarrow> enough E (Suc n) m"
proof -
  assume *: "enough E n m"
  have "agree E (to_self (Suc n + k) E) (to_self (Suc n) E) m" for k
    using * [unfolded enough_def, THEN spec, of "Suc k"] * [unfolded enough_def, THEN spec, of 1] by (auto simp: agree_def same_def)
  then show "enough E (Suc n) m" by (simp add: enough_def)
qed

lemma packet_apart:
  assumes "apart s" and "\<And>k. same (switchServerMessage E (to_self (n + k) E) (se_get E d) i s) (switchServerMessage E (to_self n E) (se_get E d) i s)"
  shows "same (sft_packet (Suc n + k) E i d s) (sft_packet (Suc n) E i d s)"
  using assms(2) [of k] assms(1) by (simp add: sft_packet.simps sf_ProcessPacket_def same_Inr) (simp add: apart_def)

lemma enough_step:
  assumes "sft_env_ok E" and "rand_ends E"
    and "\<And>l. has_type E m ClientMessage \<or> has_type E m RequestInfo \<and> has_request E m ClientAttendancePhase \<Longrightarrow> enough E n (attendance_map l)"
    and "has_type E m ClientMessage \<Longrightarrow> enough E n (genRequest ClientAttendancePhase)"
    and "\<And>x. has_type E m ClientAttendance \<or> has_type E m RequestInfo \<Longrightarrow> enough E n (cipher_map x)"
    and "has_type E m ClientAttendance \<Longrightarrow> enough E n (genRequest ExchangeCiphersPhase)"
  shows "enough E (Suc n) m"
proof -
  have "same (sft_packet (Suc n + k) E (sf_id s) (se_put E m) s) (sft_packet (Suc n) E (sf_id s) (se_put E m) s)" if "apart s" for k s
  proof (rule packet_apart [OF that])
    show "same (switchServerMessage E (to_self (n + k) E) (se_get E (se_put E m)) (sf_id s) s) (switchServerMessage E (to_self n E) (se_get E (se_put E m)) (sf_id s) s)" for k
      unfolding env_simps(1) [OF assms(1)] by (rule same_switch [OF assms(2) that]) (use assms(3-6) in \<open>auto simp: enough_def\<close>)
  qed
  then show ?thesis by (simp add: enough_def agree_def)
qed

lemma levels:
  assumes "sft_env_ok E" and "rand_ends E"
  shows "enough E 1 (cipher_map x)" and "enough E 2 (genRequest ExchangeCiphersPhase)" and "enough E 3 (attendance_map l)"
    and "enough E 4 (genRequest ClientAttendancePhase)" and "enough E 4 (attendance_map l)"
proof -
  note type = has_type_simps [OF assms(1)] has_request_simps [OF assms(1)]
  have cipher: "enough E (Suc 0) (cipher_map x)" for x by (rule enough_step [OF assms]) (simp_all add: type)
  have request: "enough E (Suc (Suc 0)) (genRequest ExchangeCiphersPhase)" by (rule enough_step [OF assms]) (simp_all add: type cipher phase_defs type [unfolded phase_defs])
  have list: "enough E (Suc (Suc (Suc 0))) (attendance_map l)" for l by (rule enough_step [OF assms]) (simp_all add: type enough_Suc cipher request)
  have attend: "enough E (Suc (Suc (Suc (Suc 0)))) (genRequest ClientAttendancePhase)" by (rule enough_step [OF assms]) (simp_all add: type enough_Suc cipher list)
  show "enough E 1 (cipher_map x)" "enough E 2 (genRequest ExchangeCiphersPhase)" "enough E 3 (attendance_map l)"
    "enough E 4 (genRequest ClientAttendancePhase)" "enough E 4 (attendance_map l)"
    using cipher request list attend enough_Suc [OF list] by (simp_all add: eval_nat_numeral)
qed

lemma voting_levels:
  assumes "sft_env_ok E" and "rand_ends E"
  shows "enough E (Suc 0) (genViewChangeProposal v)" and "enough E (Suc 0) (genRequest ViewChangeVotingPhase)"
proof -
  note type = has_type_simps [OF assms(1)] has_request_simps [OF assms(1)]
  show "enough E (Suc 0) (genViewChangeProposal v)" by (rule enough_step [OF assms]) (simp_all add: type)
  have quiet: "switchServerMessage E self (genRequest ViewChangeVotingPhase) i s = Inr s" for self i s
    by (simp add: switch_simps [OF assms(1)] processInfoRequest_def type) (simp add: phase_defs)
  have "same (sft_packet (Suc 0 + k) E i (se_put E (genRequest ViewChangeVotingPhase)) s) (sft_packet (Suc 0) E i (se_put E (genRequest ViewChangeVotingPhase)) s)"
    if "apart s" for k i s
    by (rule packet_apart [OF that]) (simp add: quiet env_simps(1) [OF assms(1)] same_Inr that)
  then show "enough E (Suc 0) (genRequest ViewChangeVotingPhase)" by (simp add: enough_def agree_def)
qed

lemma halts_next_view:
  assumes "rand_ends E"
  shows "halts (next_view (se_rand E) n bad v)"
proof (induction "se_rand E" n bad v rule: next_view.induct)
  case (1 n bad v)
  have step: "halts (calcServerMembership (se_rand E) v n)" using assms by (simp add: rand_ends_def)
  have good: "halts (view_good bad members)" for members
    unfolding view_good_def by (rule halts_foldS) (simp add: halts_def)
  have over: "halts (Inl Overflow :: fault + int32)" by (simp add: halts_def)
  show ?case
  proof (cases "calcServerMembership (se_rand E) v n")
    case (Inl e)
    then show ?thesis using step by (subst next_view.simps) (simp add: halts_def)
  next
    case (Inr members)
    show ?thesis
    proof (cases "view_good bad members")
      case (Inl e)
      then show ?thesis using good [of members] Inr by (subst next_view.simps) (simp add: halts_def)
    next
      case good: (Inr b)
      then show ?thesis using 1 [OF Inr good] over Inr by (subst next_view.simps) simp
    qed
  qed
qed

lemma same_voting:
  assumes "rand_ends E" and "\<And>v. agree E self self' (genViewChangeProposal v)" and "agree E self self' (genRequest ViewChangeVotingPhase)" and "apart s"
  shows "same (startViewVoting E self s) (startViewVoting E self' s)"
proof -
  have "halts (nextGoodView (se_rand E) v w)" for v w using halts_next_view [OF assms(1)] by (simp add: nextGoodView_def) (simp add: halts_def)
  then show ?thesis
    using assms unfolding startViewVoting_def sendViewChangeProposal_def Let_def
    by (auto intro!: same_value halts_vote same_bindS [OF same_broadcast] same_request)
qed

section \<open>Clients\<close>

lemma client_calls:
  assumes "sf_id s \<notin> set (sf_connections s)" and "rand_ends E"
  shows "switchClientMessage E self m i s = switchClientMessage E self' m i s \<and> halts (switchClientMessage E self' m i s)"
proof -
  have enc: "halts (encryptClientMessage E c d t)" for c d t
  proof -
    have "halts (getCurrentServers w)" for w
      unfolding getCurrentServers_def by (rule halts_foldS) (auto simp: GetId_def halts_def intro!: halts_bindS)
    then show ?thesis unfolding encryptClientMessage_def by (intro halts_bindS halts_foldS) simp_all
  qed
  have round: "clientRoundMessageSend E self msg t = clientRoundMessageSend E self' msg t \<and> halts (clientRoundMessageSend E self' msg t)"
    if "sf_id t \<notin> set (sf_connections t)" for msg t
    using that enc [of "own t" "insertInSlot E (take keyLength msg) t" t]
    by (cases "encryptClientMessage E (own t) (insertInSlot E (take keyLength msg) t) t")
      (auto simp: clientRoundMessageSend_def sendToSingleNode_def halts_def split: list.split)
  have start: "startMessageExchange E self t = startMessageExchange E self' t \<and> halts (startMessageExchange E self' t)"
    if "sf_id t \<notin> set (sf_connections t)" for t
    unfolding startMessageExchange_def by (rule round) (simp add: that)
  have notified: "processViewChangeNotification E self m i s = processViewChangeNotification E self' m i s \<and> halts (processViewChangeNotification E self' m i s)"
  proof (cases "setNewView (se_rand E) (to_int (se_qvs E) (hash_value m ''ViewNum'')) (sf_view s)")
    case (Inl e)
    then show ?thesis using halts_setNewView [OF assms(2), of "to_int (se_qvs E) (hash_value m ''ViewNum'')" "sf_view s"]
      by (simp add: processViewChangeNotification_def Let_def halts_def)
  next
    case (Inr w)
    then show ?thesis using start [of "s\<lparr>sf_view := w\<rparr>"] assms(1) by (simp add: processViewChangeNotification_def Let_def)
  qed
  have "pushDataOut E self d t = pushDataOut E self' d t \<and> halts (pushDataOut E self' d t)" if "sf_id t \<notin> set (sf_connections t)" for d t
    using start [of "t\<lparr>sf_pushed := sf_pushed t @ [d]\<rparr>"] that by (simp add: pushDataOut_def Let_def halts_bindS)
  then have "processDecrypted E self m s = processDecrypted E self' m s \<and> halts (processDecrypted E self' m s)"
    using assms(1) by (simp add: processDecrypted_def)
  then show ?thesis using notified by (simp add: switchClientMessage_def)
qed

section \<open>Property\<close>


lemma demo_rand_ends: "rand_ends demo_env"
proof -
  have "(\<lambda>i. i mod n) ` UNIV = {..<n}" if "n \<noteq> 0" for n :: nat
    using that by (auto simp: image_iff) (metis mod_less)
  then have "2 * n \<le> 3 * card ((\<lambda>i. demo_rand v i mod n) ` UNIV)" for v n by (cases "n = 0") (simp_all add: demo_rand_def)
  then have "\<exists>members. member_loop (demo_rand v) 0 0 (replicate n False) = Some members" for v n by (simp only: membership_returns)
  then show ?thesis by (auto simp: rand_ends_def demo_env_def calcServerMembership_def halts_def split: option.splits)
qed


end
